(* ===== verification/Mlxcel_Prelude.thy ===== *)
theory Mlxcel_Prelude
  imports Main "HOL-Library.AList" "HOL-Library.Multiset"
begin

text \<open>
  Shared vocabulary of the development.

  \<^item> \<open>('k, 'v) hmap\<close> models \<open>std::collections::HashMap\<close>: an association list whose keys are
    distinct (\<open>hm_wf\<close>). The order of the list stands for the map's unspecified iteration
    order. Lemmas of the components are proved for every order, since they only assume
    \<open>hm_wf\<close>.
  \<^item> \<open>div_ceil\<close>, \<open>sat_inc\<close>, \<open>swap_remove\<close> and \<open>position\<close> are the integer and
    \<open>Vec\<close>/slice operations of the Rust standard library that the sources call.
  \<^item> Fallible operations return \<open>'e + 'a\<close> (\<open>Inl\<close> is \<open>Err\<close>) next to the state they leave
    behind, so a mutation that happened before an early return is visible.
  \<^item> \<open>hm_simps\<close> and \<open>vec_simps\<close> collect the rewrite rules for maps and vectors.
\<close>

named_theorems hm_simps
named_theorems vec_simps

section \<open>Hash maps as association lists\<close>

type_synonym ('k, 'v) hmap = "('k \<times> 'v) list"

abbreviation hm_get :: "('k, 'v) hmap \<Rightarrow> 'k \<Rightarrow> 'v option" where
  "hm_get \<equiv> map_of"

abbreviation hm_insert :: "'k \<Rightarrow> 'v \<Rightarrow> ('k, 'v) hmap \<Rightarrow> ('k, 'v) hmap" where
  "hm_insert \<equiv> AList.update"

abbreviation hm_remove :: "'k \<Rightarrow> ('k, 'v) hmap \<Rightarrow> ('k, 'v) hmap" where
  "hm_remove \<equiv> AList.delete"

abbreviation hm_wf :: "('k, 'v) hmap \<Rightarrow> bool" where
  "hm_wf m \<equiv> distinct (map fst m)"

definition hm_sum :: "('v \<Rightarrow> nat) \<Rightarrow> ('k, 'v) hmap \<Rightarrow> nat" where
  "hm_sum f m = sum_list (map (\<lambda>e. f (snd e)) m)"

declare update_conv' [hm_simps] delete_conv' [hm_simps]

lemma hm_wf_insert [simp, intro]: "hm_wf m \<Longrightarrow> hm_wf (hm_insert k v m)"
  by (rule distinct_update)

lemma hm_wf_remove [simp, intro]: "hm_wf m \<Longrightarrow> hm_wf (hm_remove k m)"
  by (rule distinct_delete)

lemma hm_get_None_iff: "hm_get m k = None \<longleftrightarrow> k \<notin> fst ` set m"
  by (simp add: map_of_eq_None_iff)

lemma hm_get_in_set: "hm_wf m \<Longrightarrow> hm_get m k = Some v \<longleftrightarrow> (k, v) \<in> set m"
  by (simp add: map_of_eq_Some_iff)

lemma hm_remove_absent [hm_simps]: "hm_get m k = None \<Longrightarrow> hm_remove k m = m"
  by (simp add: map_of_eq_None_iff)

lemma hm_sum_Nil [simp]: "hm_sum f [] = 0"
  by (simp add: hm_sum_def)

lemma hm_sum_Cons [simp]: "hm_sum f (e # m) = f (snd e) + hm_sum f m"
  by (simp add: hm_sum_def)

lemma hm_sum_insert_absent [hm_simps]:
  "hm_get m k = None \<Longrightarrow> hm_sum f (hm_insert k v m) = hm_sum f m + f v"
  by (induction m) (auto split: if_splits)

lemma hm_sum_remove:
  "hm_wf m \<Longrightarrow> hm_get m k = Some v \<Longrightarrow> hm_sum f m = f v + hm_sum f (hm_remove k m)"
proof (induction m)
  case (Cons e m)
  show ?case
  proof (cases "fst e = k")
    case True
    with Cons.prems have "k \<notin> fst ` set m" by auto
    with True Cons.prems show ?thesis by (cases e) simp
  next
    case False
    with Cons show ?thesis by (cases e) auto
  qed
qed simp

lemma hm_sum_insert_present:
  "hm_wf m \<Longrightarrow> hm_get m k = Some v0 \<Longrightarrow> hm_sum f (hm_insert k v m) + f v0 = hm_sum f m + f v"
  by (induction m) (auto split: if_splits)

lemma hm_sum_mono: "(\<And>v. f v \<le> g v) \<Longrightarrow> hm_sum f m \<le> hm_sum g m"
  by (induction m) (auto simp: add_mono)

lemma hm_sum_one [simp]: "hm_sum (\<lambda>_. Suc 0) m = length m"
  by (induction m) auto

lemma hm_length_remove:
  "hm_wf m \<Longrightarrow> hm_get m k = Some v \<Longrightarrow> length m = Suc (length (hm_remove k m))"
  using hm_sum_remove [of m k v "\<lambda>_. Suc 0"] by simp

lemma hm_length_insert_absent: "hm_get m k = None \<Longrightarrow> length (hm_insert k v m) = Suc (length m)"
  using hm_sum_insert_absent [of m k "\<lambda>_. Suc 0" v] by simp

lemma hm_length_insert_present [simp]: "hm_get m k = Some v0 \<Longrightarrow> length (hm_insert k v m) = length m"
  by (induction m) (auto split: if_splits)

lemma hm_count_filter: "length (filter (\<lambda>e. P (snd e)) m) = hm_sum (\<lambda>v. if P v then 1 else 0) m"
  by (induction m) auto

lemma hm_values_in: "hm_get m k = Some v \<Longrightarrow> v \<in> snd ` set m"
  using map_of_SomeD by (force simp: image_iff)

text \<open>Totals over the values of a map, in any commutative monoid.\<close>

definition hm_total :: "('v \<Rightarrow> 'c::comm_monoid_add) \<Rightarrow> ('k, 'v) hmap \<Rightarrow> 'c" where
  "hm_total f m = sum_list (map (f \<circ> snd) m)"

lemma hm_total_Nil [simp]: "hm_total f [] = 0"
  by (simp add: hm_total_def)

lemma hm_total_insert_absent [hm_simps]:
  "hm_get m k = None \<Longrightarrow> hm_total f (hm_insert k v m) = hm_total f m + f v"
  by (induction m) (auto simp: hm_total_def ac_simps split: if_splits)

lemma hm_total_remove:
  "hm_wf m \<Longrightarrow> hm_get m k = Some v \<Longrightarrow> hm_total f m = hm_total f (hm_remove k m) + f v"
proof (induction m)
  case (Cons e m)
  show ?case
  proof (cases "fst e = k")
    case True
    with Cons.prems have "k \<notin> fst ` set m" by auto
    with True Cons.prems show ?thesis by (cases e) (simp add: hm_total_def ac_simps)
  next
    case False
    with Cons show ?thesis by (cases e) (auto simp: hm_total_def ac_simps)
  qed
qed simp

lemma hm_total_insert_present:
  "hm_wf m \<Longrightarrow> hm_get m k = Some w \<Longrightarrow> hm_total f (hm_insert k v m) = hm_total f (hm_remove k m) + f v"
proof (induction m)
  case (Cons e m)
  show ?case
  proof (cases "fst e = k")
    case True
    with Cons.prems have "k \<notin> fst ` set m" by auto
    with True Cons.prems show ?thesis by (cases e) (simp add: hm_total_def ac_simps)
  next
    case False
    with Cons show ?thesis by (cases e) (auto simp: hm_total_def ac_simps)
  qed
qed simp

lemma hm_total_reinsert:
  "hm_wf m \<Longrightarrow> hm_get m k = Some v \<Longrightarrow> hm_total f (hm_insert k v (hm_remove k m)) = hm_total f m"
  by (simp add: hm_total_insert_absent hm_total_remove [of m k v] delete_conv)

lemma hm_set_insert: "hm_wf m \<Longrightarrow> set (hm_insert k v m) = insert (k, v) (set (hm_remove k m))"
  by (induction m) (auto simp: image_iff split: if_splits)

lemma hm_set_remove: "set (hm_remove k m) = {e \<in> set m. fst e \<noteq> k}"
  by (induction m) auto

section \<open>Integer operations of the standard library\<close>

definition u32_max :: nat where
  "u32_max = 2 ^ 32 - 1"

definition u64_max :: nat where
  "u64_max = 2 ^ 64 - 1"

text \<open>\<open>usize::div_ceil\<close>; callers establish a positive divisor.\<close>

definition div_ceil :: "nat \<Rightarrow> nat \<Rightarrow> nat" where
  "div_ceil a b = (if a mod b = 0 then a div b else Suc (a div b))"

text \<open>\<open>saturating_add(1)\<close> at a maximum \<open>m\<close>.\<close>

definition sat_inc :: "nat \<Rightarrow> nat \<Rightarrow> nat" where
  "sat_inc m n = min m (Suc n)"

lemma div_ceil_0 [simp]: "div_ceil 0 b = 0"
  by (simp add: div_ceil_def)

lemma div_ceil_le_iff: "0 < b \<Longrightarrow> div_ceil a b \<le> n \<longleftrightarrow> a \<le> n * b"
proof -
  assume b: "0 < b"
  have a: "a = a div b * b + a mod b" by simp
  have m: "a mod b < b" using b by simp
  show ?thesis
  proof (cases "a mod b = 0")
    case True
    then have "a = a div b * b" using a by simp
    then show ?thesis using b True by (metis div_ceil_def mult_le_cancel2)
  next
    case False
    have "Suc (a div b) \<le> n \<longleftrightarrow> a div b < n" by auto
    also have "\<dots> \<longleftrightarrow> a < n * b" using b by (simp add: div_less_iff_less_mult)
    also have "\<dots> \<longleftrightarrow> a \<le> n * b" using False b by (metis le_neq_implies_less less_imp_le mod_mult_self2_is_0)
    finally show ?thesis using False by (simp add: div_ceil_def)
  qed
qed

lemma div_ceil_covers: "0 < b \<Longrightarrow> a \<le> div_ceil a b * b"
  using div_ceil_le_iff [of b a "div_ceil a b"] by simp

lemma div_ceil_mono: "0 < b \<Longrightarrow> a \<le> a' \<Longrightarrow> div_ceil a b \<le> div_ceil a' b"
  using div_ceil_covers [of b a'] by (simp add: div_ceil_le_iff)

lemma div_ceil_eq_0_iff: "0 < b \<Longrightarrow> div_ceil a b = 0 \<longleftrightarrow> a = 0"
  using div_ceil_le_iff [of b a 0] by simp

section \<open>Vectors\<close>

fun position :: "('a \<Rightarrow> bool) \<Rightarrow> 'a list \<Rightarrow> nat option" where
  "position P [] = None"
| "position P (x # xs) = (if P x then Some 0 else map_option Suc (position P xs))"

text \<open>\<open>Vec::swap_remove\<close>: the last element takes the place of the removed one.\<close>

definition swap_remove :: "'a list \<Rightarrow> nat \<Rightarrow> 'a list" where
  "swap_remove xs i = butlast (xs[i := last xs])"

lemma position_Some:
  "position P xs = Some i \<Longrightarrow> i < length xs \<and> P (xs ! i)"
  by (induction xs arbitrary: i) (auto split: if_splits)

lemma position_None_iff: "position P xs = None \<longleftrightarrow> (\<forall>x \<in> set xs. \<not> P x)"
  by (induction xs) auto

lemma mset_swap_remove:
  assumes "i < length xs"
  shows "mset (swap_remove xs i) = mset xs - {#xs ! i#}"
proof -
  have ne: "xs \<noteq> []" using assms by auto
  have "mset (xs[i := last xs]) = add_mset (last xs) (mset xs - {#xs ! i#})"
    using assms by (rule mset_update)
  moreover have "mset (butlast ys) = mset ys - {#last ys#}" if "ys \<noteq> []" for ys :: "'a list"
    using that by (metis append_butlast_last_id mset_append mset_single_iff_right add_diff_cancel_right')
  moreover have "last (xs[i := last xs]) = last xs"
    using ne assms by (simp add: last_list_update)
  ultimately show ?thesis using ne by (simp add: swap_remove_def)
qed

lemma distinct_butlast_last:
  "distinct xs \<Longrightarrow> xs \<noteq> [] \<Longrightarrow> set (butlast xs) = set xs - {last xs} \<and> distinct (butlast xs)"
  by (metis append_butlast_last_id distinct_append Diff_insert_absorb Un_insert_right
      disjoint_insert(1) list.simps(15) set_append sup_bot_right list.set(1) distinct_butlast)

lemma mset_butlast_last: "xs \<noteq> [] \<Longrightarrow> add_mset (last xs) (mset (butlast xs)) = mset xs"
  by (metis append_butlast_last_id mset_append mset.simps(1,2) union_mset_add_mset_right add_0_right)


section \<open>Results\<close>

text \<open>The \<open>?\<close> operator: continue with the value of an \<open>Ok\<close>, return an \<open>Err\<close> at once.\<close>

definition and_then :: "'e + 'a \<Rightarrow> ('a \<Rightarrow> 'e + 'b) \<Rightarrow> 'e + 'b" where
  "and_then r k = (case r of Inl e \<Rightarrow> Inl e | Inr x \<Rightarrow> k x)"

text \<open>\<open>if !cond { return Err(e); }\<close>\<close>

definition ensure :: "bool \<Rightarrow> 'e \<Rightarrow> 'e + unit" where
  "ensure b e = (if b then Inr () else Inl e)"

lemma and_then_Inr [simp]: "and_then (Inr x) k = k x"
  and and_then_Inl [simp]: "and_then (Inl e) k = Inl e"
  by (simp_all add: and_then_def)

lemma and_then_eq_Inr: "and_then r k = Inr y \<longleftrightarrow> (\<exists>x. r = Inr x \<and> k x = Inr y)"
  by (cases r) auto

lemma ensure_eq_Inr [simp]: "ensure b e = Inr u \<longleftrightarrow> b"
  by (simp add: ensure_def)

lemma ensure_True [simp]: "ensure True e = Inr ()"
  by (simp add: ensure_def)

end
