(* ===== verification/Mlx_Ffi.thy ===== *)
theory Mlx_Ffi
  imports Mlxcel_Prelude "HOL-Library.Monad_Syntax"
begin

text \<open>
  The array library behind the cxx bridge. MLX itself is not part of the repository, so an array
  is a type parameter \<open>'a\<close> and the functions of \<open>crate::ffi\<close> that the modelled code calls are
  the fields of a record that every definition takes as an argument. What the code relies on is
  stated once, as named laws over that record (\<open>slice_law\<close> and the others below); a theorem that
  needs a law has it as a hypothesis, and a concrete instance (\<open>shape_ffi\<close>, arrays that are just
  a shape and a dtype) satisfies them all.

  Shapes and offsets are \<open>i32\<close> in the source. They are integers here, so the statements are about
  runs in which no length exceeds \<open>i32::MAX\<close>.
\<close>

record 'a mlx_ffi =
  array_shape :: "'a \<Rightarrow> int list"
  array_dtype :: "'a \<Rightarrow> int"
  array_nbytes :: "'a \<Rightarrow> nat"
  slice :: "'a \<Rightarrow> int list \<Rightarrow> int list \<Rightarrow> 'a"
  update_slice :: "'a \<Rightarrow> 'a \<Rightarrow> int list \<Rightarrow> int list \<Rightarrow> 'a"
  zeros :: "int list \<Rightarrow> int \<Rightarrow> 'a"
  quantize_v_turbo4 :: "'a \<Rightarrow> nat \<times> nat \<Rightarrow> 'a \<times> 'a \<times> 'a"

text \<open>The dtype codes of \<open>src/src/lib/mlxcel-core/src/dtype.rs\<close>.\<close>

abbreviation (input) UINT8 :: int where "UINT8 \<equiv> 1"
abbreviation (input) UINT32 :: int where "UINT32 \<equiv> 3"
abbreviation (input) INT8 :: int where "INT8 \<equiv> 5"
abbreviation (input) FLOAT16 :: int where "FLOAT16 \<equiv> 9"
abbreviation (input) FLOAT32 :: int where "FLOAT32 \<equiv> 10"

text \<open>Taking a prefix of the sequence axis of a rank 4 array: the documented result of
  \<open>ffi::slice\<close> with zero starts and stops inside the shape.\<close>

definition slice_law :: "'a mlx_ffi \<Rightarrow> bool" where
  "slice_law m \<longleftrightarrow>
     (\<forall>a b h t d k. array_shape m a = [b, h, t, d] \<and> 0 \<le> k \<and> k \<le> t \<longrightarrow>
        array_shape m (slice m a [0, 0, 0, 0] [b, h, k, d]) = [b, h, k, d]
        \<and> array_dtype m (slice m a [0, 0, 0, 0] [b, h, k, d]) = array_dtype m a)"

lemma slice_lawD:
  "slice_law m \<Longrightarrow> array_shape m a = [b, h, t, d] \<Longrightarrow> 0 \<le> k \<Longrightarrow> k \<le> t \<Longrightarrow>
   array_shape m (slice m a [0, 0, 0, 0] [b, h, k, d]) = [b, h, k, d]
   \<and> array_dtype m (slice m a [0, 0, 0, 0] [b, h, k, d]) = array_dtype m a"
  unfolding slice_law_def by blast

text \<open>A concrete instance: an array is its shape and its dtype.\<close>

definition shape_ffi :: "(int list \<times> int) mlx_ffi" where
  "shape_ffi =
     \<lparr>array_shape = fst, array_dtype = snd,
      array_nbytes = (\<lambda>a. nat (prod_list (fst a)) * 2),
      slice = (\<lambda>a starts stops. (map2 (-) stops starts, snd a)),
      update_slice = (\<lambda>a _ _ _. a), zeros = (\<lambda>s d. (s, d)),
      quantize_v_turbo4 = (\<lambda>a _. case fst a of
         [b, h, t, d] \<Rightarrow> (([b, h, t, d div 2], UINT8), ([b, h, t, 1], FLOAT16), ([b, h, t, 1], FLOAT16))
       | _ \<Rightarrow> (a, a, a))\<rparr>"

lemma shape_ffi_slice_law: "slice_law shape_ffi"
  by (auto simp: slice_law_def shape_ffi_def)

end
