(* ===== verification/Refcount_Spec.thy ===== *)
theory Refcount_Spec
  imports Mlxcel_Prelude
begin

text \<open>
  The contract of a reference-counted block allocator, and what its clients may conclude.

  A client holds a multiset of references (one per block-table entry, one per pin of a detached
  cache). \<open>ref_owned\<close> says that the allocator's counters are exactly this multiset. The
  locale lists what the allocator promises for single operations; its lemmas show that under
  that promise a client never meets a double free, never receives a block that somebody still
  references, and can give back any references it holds.
\<close>

definition ref_owned :: "('p \<Rightarrow> bool) \<Rightarrow> ('p \<Rightarrow> 'b \<Rightarrow> nat) \<Rightarrow> 'p \<Rightarrow> 'b multiset \<Rightarrow> bool" where
  "ref_owned ok rc p M \<longleftrightarrow> ok p \<and> (\<forall>b. rc p b = count M b)"

text \<open>Run a fallible operation on each block of a list, stopping at the first error.\<close>

fun op_each :: "('p \<Rightarrow> 'b \<Rightarrow> ('e + unit) \<times> 'p) \<Rightarrow> 'p \<Rightarrow> 'b list \<Rightarrow> ('e + unit) \<times> 'p" where
  "op_each f p [] = (Inr (), p)"
| "op_each f p (b # bs) =
     (case f p b of (Inl e, p') \<Rightarrow> (Inl e, p') | (Inr _, p') \<Rightarrow> op_each f p' bs)"

locale refcounted_allocator =
  fixes acquire :: "'p \<Rightarrow> 'l \<Rightarrow> ('e + 'b) \<times> 'p"
    and retain :: "'p \<Rightarrow> 'b \<Rightarrow> ('e + unit) \<times> 'p"
    and release :: "'p \<Rightarrow> 'b \<Rightarrow> ('e + unit) \<times> 'p"
    and rc :: "'p \<Rightarrow> 'b \<Rightarrow> nat"
    and ok :: "'p \<Rightarrow> bool"
    and ids_left :: "'p \<Rightarrow> nat"
    and max_rc :: nat
    and tag :: "'p \<Rightarrow> 'b \<Rightarrow> 'l option"
    and cfg :: "'p \<Rightarrow> 'c"
  assumes acquire_ok:
      "ok p \<Longrightarrow> 0 < ids_left p \<Longrightarrow> acquire p l = (Inr b, p') \<Longrightarrow>
       ok p' \<and> rc p b = 0 \<and> rc p' = (rc p)(b := 1) \<and> ids_left p \<le> Suc (ids_left p')
       \<and> tag p' = (tag p)(b \<mapsto> l) \<and> (tag p b = None \<or> tag p b = Some l) \<and> cfg p' = cfg p"
    and acquire_err: "ok p \<Longrightarrow> acquire p l = (Inl e, p') \<Longrightarrow> p' = p"
    and retain_ok:
      "ok p \<Longrightarrow> 0 < rc p b \<Longrightarrow> rc p b < max_rc \<Longrightarrow>
       \<exists>p'. retain p b = (Inr (), p') \<and> ok p' \<and> rc p' = (rc p)(b := rc p b + 1)
            \<and> ids_left p' = ids_left p \<and> tag p' = tag p \<and> cfg p' = cfg p"
    and release_ok:
      "ok p \<Longrightarrow> 0 < rc p b \<Longrightarrow>
       \<exists>p'. release p b = (Inr (), p') \<and> ok p' \<and> rc p' = (rc p)(b := rc p b - 1)
            \<and> ids_left p' = ids_left p \<and> tag p' = tag p \<and> cfg p' = cfg p"
begin

lemma owned_acquire:
  assumes "ref_owned ok rc p M" "0 < ids_left p" "acquire p l = (Inr b, p')"
  shows "ref_owned ok rc p' (add_mset b M) \<and> b \<notin># M \<and> ids_left p \<le> Suc (ids_left p')
     \<and> tag p' = (tag p)(b \<mapsto> l) \<and> (tag p b = None \<or> tag p b = Some l) \<and> cfg p' = cfg p"
  using assms acquire_ok [of p l b p'] by (auto simp: ref_owned_def not_in_iff)

lemma owned_acquire_err:
  assumes "ref_owned ok rc p M" "acquire p l = (Inl e, p')"
  shows "p' = p"
  using assms acquire_err by (auto simp: ref_owned_def)

lemma owned_release:
  assumes "ref_owned ok rc p M" "b \<in># M"
  shows "\<exists>p'. release p b = (Inr (), p') \<and> ref_owned ok rc p' (M - {#b#})
       \<and> ids_left p' = ids_left p \<and> tag p' = tag p \<and> cfg p' = cfg p"
proof -
  have "ok p" "0 < rc p b" using assms by (simp_all add: ref_owned_def)
  from release_ok [OF this] show ?thesis using assms by (auto simp: ref_owned_def)
qed

lemma owned_retain:
  assumes "ref_owned ok rc p M" "b \<in># M" "count M b < max_rc"
  shows "\<exists>p'. retain p b = (Inr (), p') \<and> ref_owned ok rc p' (add_mset b M)
       \<and> ids_left p' = ids_left p \<and> tag p' = tag p \<and> cfg p' = cfg p"
proof -
  have "ok p" "0 < rc p b" "rc p b < max_rc" using assms by (simp_all add: ref_owned_def)
  from retain_ok [OF this] show ?thesis using assms by (auto simp: ref_owned_def)
qed

lemma owned_release_each:
  assumes "ref_owned ok rc p M" "mset bs \<subseteq># M"
  shows "\<exists>p'. op_each release p bs = (Inr (), p') \<and> ref_owned ok rc p' (M - mset bs)
              \<and> ids_left p' = ids_left p \<and> tag p' = tag p \<and> cfg p' = cfg p"
  using assms
proof (induction bs arbitrary: p M)
  case (Cons b bs)
  from Cons.prems have b: "b \<in># M" by (auto simp: insert_subset_eq_iff)
  from owned_release [OF Cons.prems(1) b] obtain q where
    q: "release p b = (Inr (), q)" "ref_owned ok rc q (M - {#b#})" "ids_left q = ids_left p"
    "tag q = tag p" "cfg q = cfg p" by blast
  have "mset bs \<subseteq># M - {#b#}" using Cons.prems(2) by (simp add: insert_subset_eq_iff)
  from Cons.IH [OF q(2) this] show ?case using q by simp
qed simp

lemma owned_retain_each:
  assumes "ref_owned ok rc p M" "set bs \<subseteq> set_mset M" "\<forall>b. count M b + count_list bs b \<le> max_rc"
  shows "\<exists>p'. op_each retain p bs = (Inr (), p') \<and> ref_owned ok rc p' (M + mset bs)
              \<and> ids_left p' = ids_left p \<and> tag p' = tag p \<and> cfg p' = cfg p"
  using assms
proof (induction bs arbitrary: p M)
  case (Cons b bs)
  have "count M b + count_list (b # bs) b \<le> max_rc" using Cons.prems(3) by blast
  then have lt: "count M b < max_rc" by simp
  from owned_retain [OF Cons.prems(1) _ lt] Cons.prems(2) obtain q where
    q: "retain p b = (Inr (), q)" "ref_owned ok rc q (add_mset b M)" "ids_left q = ids_left p"
    "tag q = tag p" "cfg q = cfg p" by auto
  have "\<forall>c. count (add_mset b M) c + count_list bs c \<le> max_rc"
  proof
    fix c show "count (add_mset b M) c + count_list bs c \<le> max_rc"
      using Cons.prems(3) [rule_format, of c] by (auto split: if_splits)
  qed
  from Cons.IH [OF q(2) _ this] Cons.prems(2) show ?case using q by auto
qed simp

end

end
