(* ===== verification/Paged_Pool.thy ===== *)
theory Paged_Pool
  imports Refcount_Spec
begin

text \<open>
  The physical block allocator of the paged KV cache
  (\<open>src/lib/mlxcel-core/src/cache/paged.rs\<close>): layouts, per-sequence block tables, the
  reference-counted registry of physical blocks with one free list per layer, the global block
  budget, and the sidecar tables of the Turbo4 modes.

  An MLX array is the type parameter \<open>'a\<close>: this theory never looks inside one.
  Errors are the constructors of \<open>pool_error\<close>, one per message of the source; \<open>Panicked\<close>
  stands for an \<open>expect\<close> or an index that would panic. Block ids are the \<open>u64\<close> values of
  \<open>PagedBlockId\<close> as naturals, with the wrap-around of the cursor written out.
\<close>

section \<open>Layouts\<close>

datatype kv_cache_mode =
  Fp16 | Int8 | Turbo4Asym | Turbo3Asym | Turbo4 | Turbo4Delegated | KVarN8

record paged_kv_layout =
  num_layers :: nat
  block_size :: nat
  bytes_per_block :: "nat list"
  cache_mode :: kv_cache_mode
  turbo_sidecar_bytes_per_block :: "nat list"

datatype layout_error =
    BlockSizeZero
  | BytesEmpty
  | BytesNotMultiple nat nat nat
  | SidecarLengthMismatch nat nat kv_cache_mode
  | SidecarNotMultiple nat nat nat
  | SidecarMustBeEmpty kv_cache_mode
  | NumLayersZero

fun is_turbo4 :: "kv_cache_mode \<Rightarrow> bool" where
  "is_turbo4 Turbo4Asym = True"
| "is_turbo4 Turbo4 = True"
| "is_turbo4 Turbo4Delegated = True"
| "is_turbo4 _ = False"

definition layout_new_with_mode ::
  "nat \<Rightarrow> nat list \<Rightarrow> kv_cache_mode \<Rightarrow> nat list \<Rightarrow> layout_error + paged_kv_layout" where
  "layout_new_with_mode bs bytes mode sidecar =
     (let ok = \<lparr>num_layers = length bytes, block_size = bs, bytes_per_block = bytes,
                cache_mode = mode, turbo_sidecar_bytes_per_block = sidecar\<rparr>
      in if bs = 0 then Inl BlockSizeZero
      else if bytes = [] then Inl BytesEmpty
      else case List.find (\<lambda>e. snd e = 0 \<or> snd e mod bs \<noteq> 0) (List.enumerate 0 bytes) of
        Some (i, b) \<Rightarrow> Inl (BytesNotMultiple i b bs)
      | None \<Rightarrow>
          if is_turbo4 mode then
            if length sidecar \<noteq> length bytes
            then Inl (SidecarLengthMismatch (length sidecar) (length bytes) mode)
            else case List.find (\<lambda>e. snd e \<noteq> 0 \<and> snd e mod bs \<noteq> 0) (List.enumerate 0 sidecar) of
              Some (i, b) \<Rightarrow> Inl (SidecarNotMultiple i b bs)
            | None \<Rightarrow> Inr ok
          else if sidecar \<noteq> [] then Inl (SidecarMustBeEmpty mode)
          else Inr ok)"

definition layout_new :: "nat \<Rightarrow> nat list \<Rightarrow> layout_error + paged_kv_layout" where
  "layout_new bs bytes = layout_new_with_mode bs bytes Fp16 []"

definition layout_uniform :: "nat \<Rightarrow> nat \<Rightarrow> nat \<Rightarrow> layout_error + paged_kv_layout" where
  "layout_uniform n bs bytes =
     (if n = 0 then Inl NumLayersZero else layout_new bs (replicate n bytes))"

definition layout_uniform_with_mode ::
  "nat \<Rightarrow> nat \<Rightarrow> nat \<Rightarrow> kv_cache_mode \<Rightarrow> nat \<Rightarrow> layout_error + paged_kv_layout" where
  "layout_uniform_with_mode n bs bytes mode sidecar =
     (if n = 0 then Inl NumLayersZero
      else layout_new_with_mode bs (replicate n bytes) mode
             (if is_turbo4 mode then replicate n sidecar else []))"

definition bytes_per_token :: "paged_kv_layout \<Rightarrow> nat \<Rightarrow> nat option" where
  "bytes_per_token lay l =
     (if l < length (bytes_per_block lay)
      then Some (bytes_per_block lay ! l div block_size lay) else None)"

definition bytes_per_block_for_layer :: "paged_kv_layout \<Rightarrow> nat \<Rightarrow> nat option" where
  "bytes_per_block_for_layer lay l =
     (if l < length (bytes_per_block lay) then Some (bytes_per_block lay ! l) else None)"

definition turbo_sidecar_bytes_per_block_for_layer :: "paged_kv_layout \<Rightarrow> nat \<Rightarrow> nat" where
  "turbo_sidecar_bytes_per_block_for_layer lay l =
     (if l < length (turbo_sidecar_bytes_per_block lay)
      then turbo_sidecar_bytes_per_block lay ! l else 0)"

definition layout_is_turbo_mode :: "paged_kv_layout \<Rightarrow> bool" where
  "layout_is_turbo_mode lay = is_turbo4 (cache_mode lay)"

section \<open>Sequence block tables\<close>

record paged_layer_state =
  block_ids :: "nat list"
  len :: nat
  logical_start :: nat

record paged_sequence_state =
  seq_block_size :: nat
  layers :: "paged_layer_state list"

definition layer_state_new :: paged_layer_state where
  "layer_state_new = \<lparr>block_ids = [], len = 0, logical_start = 0\<rparr>"

definition sequence_state_new :: "paged_kv_layout \<Rightarrow> paged_sequence_state" where
  "sequence_state_new lay =
     \<lparr>seq_block_size = block_size lay, layers = replicate (num_layers lay) layer_state_new\<rparr>"

definition visible_len :: "paged_layer_state \<Rightarrow> nat" where
  "visible_len ly = len ly - logical_start ly"

definition layer_reserved_bytes :: "paged_layer_state \<Rightarrow> paged_kv_layout \<Rightarrow> nat \<Rightarrow> nat" where
  "layer_reserved_bytes ly lay l =
     length (block_ids ly) * case_option 0 id (bytes_per_block_for_layer lay l)
     + length (block_ids ly) * turbo_sidecar_bytes_per_block_for_layer lay l"

definition layer_used_bytes :: "paged_layer_state \<Rightarrow> paged_kv_layout \<Rightarrow> nat \<Rightarrow> nat" where
  "layer_used_bytes ly lay l =
     (let main = visible_len ly * case_option 0 id (bytes_per_token lay l);
          per_block = turbo_sidecar_bytes_per_block_for_layer lay l;
          sidecar = (if per_block > 0
                     then div_ceil (visible_len ly) (block_size lay) * per_block else 0)
      in main + sidecar)"

definition sequence_reserved_blocks :: "paged_sequence_state \<Rightarrow> nat" where
  "sequence_reserved_blocks st = sum_list (map (\<lambda>ly. length (block_ids ly)) (layers st))"

definition sequence_reserved_bytes :: "paged_sequence_state \<Rightarrow> paged_kv_layout \<Rightarrow> nat" where
  "sequence_reserved_bytes st lay =
     sum_list (map (\<lambda>(l, ly). layer_reserved_bytes ly lay l) (List.enumerate 0 (layers st)))"

definition sequence_used_bytes :: "paged_sequence_state \<Rightarrow> paged_kv_layout \<Rightarrow> nat" where
  "sequence_used_bytes st lay =
     sum_list (map (\<lambda>(l, ly). layer_used_bytes ly lay l) (List.enumerate 0 (layers st)))"

section \<open>The pool\<close>

record paged_block_record =
  layer_idx :: nat
  refcount :: nat

definition block_record_new :: "nat \<Rightarrow> paged_block_record" where
  "block_record_new l = \<lparr>layer_idx = l, refcount = 1\<rparr>"

definition is_in_use :: "paged_block_record \<Rightarrow> bool" where
  "is_in_use r = (refcount r > 0)"

record 'a paged_turbo_page_sidecars =
  pg_v_packed :: "(nat, 'a) hmap"
  pg_v_norms :: "(nat, 'a) hmap"
  pg_k_packed :: "(nat, 'a) hmap"
  pg_k_norms :: "(nat, 'a) hmap"
  pg_cold_keys :: "(nat, 'a) hmap"

definition sidecars_forget ::
  "'a paged_turbo_page_sidecars \<Rightarrow> nat \<Rightarrow> 'a paged_turbo_page_sidecars" where
  "sidecars_forget s b =
     \<lparr>pg_v_packed = hm_remove b (pg_v_packed s), pg_v_norms = hm_remove b (pg_v_norms s),
      pg_k_packed = hm_remove b (pg_k_packed s), pg_k_norms = hm_remove b (pg_k_norms s),
      pg_cold_keys = hm_remove b (pg_cold_keys s)\<rparr>"

definition sidecars_nbytes :: "('a \<Rightarrow> nat) \<Rightarrow> 'a paged_turbo_page_sidecars \<Rightarrow> nat" where
  "sidecars_nbytes nbytes s =
     hm_sum nbytes (pg_v_packed s) + hm_sum nbytes (pg_v_norms s) + hm_sum nbytes (pg_k_packed s)
     + hm_sum nbytes (pg_k_norms s) + hm_sum nbytes (pg_cold_keys s)"

record paged_pool_meta =
  n_kv_heads :: int
  head_dim :: int
  dtype :: int
  capacity_blocks :: nat

record 'a paged_block_pool =
  layout :: paged_kv_layout
  next_block_id :: nat
  blocks :: "(nat, paged_block_record) hmap"
  free_lists :: "nat list list"
  turbo_sidecars :: "'a paged_turbo_page_sidecars"
  pool_k :: "'a list list"
  pool_v :: "'a list list"
  pool_meta :: "paged_pool_meta option list"
  block_rows :: "(nat, nat) hmap list"
  free_rows :: "nat list list"
  next_row :: "nat list"
  block_budget :: "nat option"
  grow_events :: nat

datatype pool_error =
    UnknownBlock nat
  | RetainReleased nat
  | AlreadyReleased nat
  | BudgetExhausted nat nat
  | LayerOutOfRange nat nat
  | RestoredBlockSize nat nat
  | RestoredLayerCount nat nat
  | RestoredTooFewBlocks nat nat nat nat
  | RestoredWrongLayer nat nat nat
  | RestoredInUse nat
  | NotTurboMode kv_cache_mode
  | ModeStoresNoSidecar kv_cache_mode
  | Panicked

text \<open>An operation on the pool yields \<open>Err\<close>/\<open>Ok\<close> and the pool it leaves behind.\<close>

type_synonym ('a, 'r) pool_op = "(pool_error + 'r) \<times> 'a paged_block_pool"

definition pool_new :: "paged_kv_layout \<Rightarrow> 'a paged_block_pool" where
  "pool_new lay =
     (let n = num_layers lay in
      \<lparr>layout = lay, next_block_id = 0, blocks = [], free_lists = replicate n [],
       turbo_sidecars = \<lparr>pg_v_packed = [], pg_v_norms = [], pg_k_packed = [], pg_k_norms = [], pg_cold_keys = []\<rparr>,
       pool_k = replicate n [], pool_v = replicate n [], pool_meta = replicate n None,
       block_rows = replicate n [], free_rows = replicate n [], next_row = replicate n 0,
       block_budget = None, grow_events = 0\<rparr>)"

definition allocated_block_count :: "'a paged_block_pool \<Rightarrow> nat" where
  "allocated_block_count p = length (blocks p)"

definition live_block_count :: "'a paged_block_pool \<Rightarrow> nat" where
  "live_block_count p = length (filter (\<lambda>e. is_in_use (snd e)) (blocks p))"

definition set_block_budget :: "'a paged_block_pool \<Rightarrow> nat option \<Rightarrow> 'a paged_block_pool" where
  "set_block_budget p b = p\<lparr>block_budget := b\<rparr>"

definition free_block_budget :: "'a paged_block_pool \<Rightarrow> nat option" where
  "free_block_budget p = map_option (\<lambda>m. m - live_block_count p) (block_budget p)"

definition pool_refcount :: "'a paged_block_pool \<Rightarrow> nat \<Rightarrow> nat" where
  "pool_refcount p b = (case hm_get (blocks p) b of Some r \<Rightarrow> refcount r | None \<Rightarrow> 0)"

text \<open>The layer a registered block belongs to (\<open>PagedBlockRecord::layer_idx\<close>).\<close>

definition pool_layer_of :: "'a paged_block_pool \<Rightarrow> nat \<Rightarrow> nat option" where
  "pool_layer_of p b = map_option layer_idx (hm_get (blocks p) b)"

definition validate_layer :: "'a paged_block_pool \<Rightarrow> nat \<Rightarrow> pool_error + unit" where
  "validate_layer p l =
     (if l \<ge> num_layers (layout p) then Inl (LayerOutOfRange l (num_layers (layout p)))
      else Inr ())"

definition acquire_block :: "'a paged_block_pool \<Rightarrow> nat \<Rightarrow> ('a, nat) pool_op" where
  "acquire_block p l =
     (case validate_layer p l of Inl e \<Rightarrow> (Inl e, p) | Inr _ \<Rightarrow>
       if free_lists p ! l \<noteq> [] then
         let b = last (free_lists p ! l);
             p1 = p\<lparr>free_lists := (free_lists p)[l := butlast (free_lists p ! l)]\<rparr>
         in case hm_get (blocks p1) b of
              None \<Rightarrow> (Inl Panicked, p1)
            | Some r \<Rightarrow> (Inr b, p1\<lparr>blocks := hm_insert b (r\<lparr>refcount := 1\<rparr>) (blocks p1)\<rparr>)
       else if (case block_budget p of Some m \<Rightarrow> length (blocks p) \<ge> m | None \<Rightarrow> False)
         then (Inl (BudgetExhausted (length (blocks p)) (the (block_budget p))), p)
       else let b = next_block_id p
         in (Inr b, p\<lparr>next_block_id := (next_block_id p + 1) mod 2 ^ 64,
                     blocks := hm_insert b (block_record_new l) (blocks p)\<rparr>))"

definition retain_block :: "'a paged_block_pool \<Rightarrow> nat \<Rightarrow> ('a, unit) pool_op" where
  "retain_block p b =
     (case hm_get (blocks p) b of
        None \<Rightarrow> (Inl (UnknownBlock b), p)
      | Some r \<Rightarrow>
          if refcount r = 0 then (Inl (RetainReleased b), p)
          else (Inr (), p\<lparr>blocks := hm_insert b (r\<lparr>refcount := sat_inc u32_max (refcount r)\<rparr>)
                                      (blocks p)\<rparr>))"

definition free_row_of :: "'a paged_block_pool \<Rightarrow> nat \<Rightarrow> nat \<Rightarrow> 'a paged_block_pool" where
  "free_row_of p l b =
     (case hm_get (block_rows p ! l) b of
        None \<Rightarrow> p
      | Some row \<Rightarrow> p\<lparr>block_rows := (block_rows p)[l := hm_remove b (block_rows p ! l)],
                      free_rows := (free_rows p)[l := free_rows p ! l @ [row]]\<rparr>)"

definition release_block :: "'a paged_block_pool \<Rightarrow> nat \<Rightarrow> ('a, unit) pool_op" where
  "release_block p b =
     (case hm_get (blocks p) b of
        None \<Rightarrow> (Inl (UnknownBlock b), p)
      | Some r \<Rightarrow>
          if refcount r = 0 then (Inl (AlreadyReleased b), p)
          else
            let p1 = p\<lparr>blocks := hm_insert b (r\<lparr>refcount := refcount r - 1\<rparr>) (blocks p)\<rparr>;
                l = layer_idx r
            in if refcount r - 1 > 0 then (Inr (), p1)
               else if \<not> (l < length (block_rows p) \<and> l < length (free_rows p) \<and> l < length (free_lists p))
               then (Inl Panicked, p1)
               else
                 let p2 = p1\<lparr>turbo_sidecars := sidecars_forget (turbo_sidecars p1) b\<rparr>;
                     p3 = free_row_of p2 l b
                 in (Inr (), p3\<lparr>free_lists := (free_lists p3)[l := free_lists p3 ! l @ [b]]\<rparr>))"

text \<open>The loop \<open>while layer.block_ids.len() < required_blocks\<close> of \<open>append_tokens\<close>.\<close>

function acquire_until ::
  "'a paged_block_pool \<Rightarrow> nat \<Rightarrow> nat list \<Rightarrow> nat \<Rightarrow> (pool_error + unit) \<times> nat list \<times> 'a paged_block_pool"
where
  "acquire_until p l ids required =
     (if length ids < required then
        case acquire_block p l of
          (Inl e, p') \<Rightarrow> (Inl e, ids, p')
        | (Inr b, p') \<Rightarrow> acquire_until p' l (ids @ [b]) required
      else (Inr (), ids, p))"
  by pat_completeness auto
termination
  by (relation "measure (\<lambda>(p, l, ids, required). required - length ids)") auto

text \<open>The loop \<open>while layer.block_ids.len() > required_blocks\<close> of \<open>trim_tokens\<close>, and with
  \<open>required = 0\<close> the draining loop of \<open>release_sequence\<close>.\<close>

function release_down_to ::
  "'a paged_block_pool \<Rightarrow> nat list \<Rightarrow> nat \<Rightarrow> (pool_error + unit) \<times> nat list \<times> 'a paged_block_pool"
where
  "release_down_to p ids required =
     (if length ids > required then
        case release_block p (last ids) of
          (Inl e, p') \<Rightarrow> (Inl e, butlast ids, p')
        | (Inr _, p') \<Rightarrow> release_down_to p' (butlast ids) required
      else (Inr (), ids, p))"
  by pat_completeness auto
termination
  by (relation "measure (\<lambda>(p, ids, required). length ids)") auto

declare acquire_until.simps [simp del] release_down_to.simps [simp del]

text \<open>Operations that also mutate a sequence return it between the result and the pool.\<close>

type_synonym ('a, 'r) seq_op = "(pool_error + 'r) \<times> paged_sequence_state \<times> 'a paged_block_pool"

abbreviation set_layer :: "paged_sequence_state \<Rightarrow> nat \<Rightarrow> paged_layer_state \<Rightarrow> paged_sequence_state" where
  "set_layer st l ly \<equiv> st\<lparr>layers := (layers st)[l := ly]\<rparr>"

definition append_tokens ::
  "'a paged_block_pool \<Rightarrow> paged_sequence_state \<Rightarrow> nat \<Rightarrow> nat \<Rightarrow> ('a, unit) seq_op" where
  "append_tokens p st l n =
     (if l \<ge> length (layers st) then (Inl (LayerOutOfRange l (length (layers st))), st, p)
      else if n = 0 then (Inr (), st, p)
      else let ly = layers st ! l;
               new_len = len ly + n;
               required = div_ceil new_len (block_size (layout p))
        in case acquire_until p l (block_ids ly) required of
             (Inl e, ids, p') \<Rightarrow> (Inl e, set_layer st l (ly\<lparr>block_ids := ids\<rparr>), p')
           | (Inr _, ids, p') \<Rightarrow> (Inr (), set_layer st l (ly\<lparr>block_ids := ids, len := new_len\<rparr>), p'))"

definition trim_tokens ::
  "'a paged_block_pool \<Rightarrow> paged_sequence_state \<Rightarrow> nat \<Rightarrow> nat \<Rightarrow> ('a, nat) seq_op" where
  "trim_tokens p st l n =
     (if l \<ge> length (layers st) then (Inl (LayerOutOfRange l (length (layers st))), st, p)
      else let ly = layers st ! l in
        if n = 0 \<or> len ly = 0 then (Inr 0, st, p)
        else let min_len = min (logical_start ly) (len ly);
                 trimmed = min n (len ly - min_len)
          in if trimmed = 0 then (Inr 0, st, p)
             else let ly1 = ly\<lparr>len := len ly - trimmed\<rparr>;
                      ly2 = (if len ly1 = logical_start ly1
                             then ly1\<lparr>len := 0, logical_start := 0\<rparr> else ly1);
                      required = div_ceil (len ly2) (block_size (layout p))
               in case release_down_to p (block_ids ly2) required of
                    (Inl e, ids, p') \<Rightarrow> (Inl e, set_layer st l (ly2\<lparr>block_ids := ids\<rparr>), p')
                  | (Inr _, ids, p') \<Rightarrow> (Inr trimmed, set_layer st l (ly2\<lparr>block_ids := ids\<rparr>), p'))"

definition rewind_tokens ::
  "'a paged_block_pool \<Rightarrow> paged_sequence_state \<Rightarrow> nat \<Rightarrow> nat \<Rightarrow> ('a, nat) seq_op" where
  "rewind_tokens p st l n = trim_tokens p st l n"

fun release_layers ::
  "'a paged_block_pool \<Rightarrow> paged_layer_state list
   \<Rightarrow> (pool_error + unit) \<times> paged_layer_state list \<times> 'a paged_block_pool" where
  "release_layers p [] = (Inr (), [], p)"
| "release_layers p (ly # lys) =
     (case release_down_to p (block_ids ly) 0 of
        (Inl e, ids, p') \<Rightarrow> (Inl e, ly\<lparr>block_ids := ids\<rparr> # lys, p')
      | (Inr _, ids, p') \<Rightarrow>
          (case release_layers p' lys of
             (r, lys', p'') \<Rightarrow>
               (r, ly\<lparr>block_ids := ids, len := 0, logical_start := 0\<rparr> # lys', p'')))"

definition release_sequence ::
  "'a paged_block_pool \<Rightarrow> paged_sequence_state \<Rightarrow> ('a, unit) seq_op" where
  "release_sequence p st =
     (case release_layers p (layers st) of (r, lys, p') \<Rightarrow> (r, st\<lparr>layers := lys\<rparr>, p'))"

definition restore_block :: "'a paged_block_pool \<Rightarrow> nat \<Rightarrow> nat \<Rightarrow> ('a, unit) pool_op" where
  "restore_block p b l =
     (case validate_layer p l of Inl e \<Rightarrow> (Inl e, p) | Inr _ \<Rightarrow>
       (let bump = (\<lambda>q. q\<lparr>next_block_id := max (next_block_id q) (sat_inc u64_max b)\<rparr>)
        in case hm_get (blocks p) b of
             Some r \<Rightarrow>
               if layer_idx r \<noteq> l then (Inl (RestoredWrongLayer b (layer_idx r) l), p)
               else if is_in_use r then (Inl (RestoredInUse b), p)
               else
                 let p1 = (case position (\<lambda>c. c = b) (free_lists p ! l) of
                             Some i \<Rightarrow> p\<lparr>free_lists := (free_lists p)[l := swap_remove (free_lists p ! l) i]\<rparr>
                           | None \<Rightarrow> p)
                 in (Inr (), bump (p1\<lparr>blocks := hm_insert b (r\<lparr>refcount := 1\<rparr>) (blocks p1)\<rparr>))
           | None \<Rightarrow> (Inr (), bump (p\<lparr>blocks := hm_insert b (block_record_new l) (blocks p)\<rparr>))))"

fun restore_layer_blocks ::
  "'a paged_block_pool \<Rightarrow> nat \<Rightarrow> nat list \<Rightarrow> ('a, unit) pool_op" where
  "restore_layer_blocks p l [] = (Inr (), p)"
| "restore_layer_blocks p l (b # bs) =
     (case restore_block p b l of
        (Inl e, p') \<Rightarrow> (Inl e, p')
      | (Inr _, p') \<Rightarrow> restore_layer_blocks p' l bs)"

fun restore_layers ::
  "'a paged_block_pool \<Rightarrow> nat \<Rightarrow> paged_layer_state list \<Rightarrow> ('a, unit) pool_op" where
  "restore_layers p l [] = (Inr (), p)"
| "restore_layers p l (ly # lys) =
     (let required = div_ceil (len ly) (block_size (layout p)) in
      if length (block_ids ly) < required
      then (Inl (RestoredTooFewBlocks l (length (block_ids ly)) (len ly) required), p)
      else case restore_layer_blocks p l (block_ids ly) of
             (Inl e, p') \<Rightarrow> (Inl e, p')
           | (Inr _, p') \<Rightarrow> restore_layers p' (Suc l) lys)"

definition restore_sequence :: "'a paged_block_pool \<Rightarrow> paged_sequence_state \<Rightarrow> ('a, unit) pool_op" where
  "restore_sequence p st =
     (if seq_block_size st \<noteq> block_size (layout p)
      then (Inl (RestoredBlockSize (seq_block_size st) (block_size (layout p))), p)
      else if length (layers st) \<noteq> num_layers (layout p)
      then (Inl (RestoredLayerCount (length (layers st)) (num_layers (layout p))), p)
      else restore_layers p 0 (layers st))"


section \<open>The pool invariant\<close>

definition pool_sized :: "'a paged_block_pool \<Rightarrow> bool" where
  "pool_sized p \<longleftrightarrow>
     (let n = num_layers (layout p) in
      0 < block_size (layout p) \<and> length (free_lists p) = n \<and> length (pool_k p) = n
      \<and> length (pool_v p) = n \<and> length (pool_meta p) = n \<and> length (block_rows p) = n
      \<and> length (free_rows p) = n \<and> length (next_row p) = n)"

definition blocks_ok :: "'a paged_block_pool \<Rightarrow> bool" where
  "blocks_ok p \<longleftrightarrow>
     hm_wf (blocks p) \<and> next_block_id p \<le> u64_max
     \<and> (\<forall>b r. hm_get (blocks p) b = Some r \<longrightarrow>
          layer_idx r < num_layers (layout p) \<and> b < next_block_id p \<and> refcount r \<le> u32_max)"

text \<open>A free list holds exactly the registered blocks of its layer whose reference count is 0.\<close>

definition free_ok :: "'a paged_block_pool \<Rightarrow> bool" where
  "free_ok p \<longleftrightarrow>
     (\<forall>l < num_layers (layout p). distinct (free_lists p ! l)
        \<and> (\<forall>b. b \<in> set (free_lists p ! l)
              \<longleftrightarrow> (\<exists>r. hm_get (blocks p) b = Some r \<and> layer_idx r = l \<and> refcount r = 0)))"

text \<open>The physical rows of a layer are handed out without gaps, at most one per block, and only
  to live blocks of the layer.\<close>

definition rows_ok :: "'a paged_block_pool \<Rightarrow> bool" where
  "rows_ok p \<longleftrightarrow>
     (\<forall>l < num_layers (layout p). hm_wf (block_rows p ! l)
        \<and> mset (map snd (block_rows p ! l)) + mset (free_rows p ! l) = mset [0..<next_row p ! l]
        \<and> (\<forall>b row. hm_get (block_rows p ! l) b = Some row \<longrightarrow>
             (\<exists>r. hm_get (blocks p) b = Some r \<and> layer_idx r = l \<and> 0 < refcount r)))"

definition pool_inv :: "'a paged_block_pool \<Rightarrow> bool" where
  "pool_inv p \<longleftrightarrow> pool_sized p \<and> blocks_ok p \<and> free_ok p \<and> rows_ok p"

lemmas pool_inv_defs = pool_inv_def pool_sized_def blocks_ok_def free_ok_def rows_ok_def

lemma pool_inv_free_iff:
  "pool_inv p \<Longrightarrow> l < num_layers (layout p) \<Longrightarrow>
   b \<in> set (free_lists p ! l)
     \<longleftrightarrow> (\<exists>r. hm_get (blocks p) b = Some r \<and> layer_idx r = l \<and> refcount r = 0)"
  by (simp add: pool_inv_def free_ok_def)

lemma pool_inv_recordD:
  "pool_inv p \<Longrightarrow> hm_get (blocks p) b = Some r \<Longrightarrow>
   layer_idx r < num_layers (layout p) \<and> b < next_block_id p \<and> refcount r \<le> u32_max"
  by (simp add: pool_inv_def blocks_ok_def)

lemma pool_inv_rowD:
  "pool_inv p \<Longrightarrow> l < num_layers (layout p) \<Longrightarrow> hm_get (block_rows p ! l) b = Some row \<Longrightarrow>
   \<exists>r. hm_get (blocks p) b = Some r \<and> layer_idx r = l \<and> 0 < refcount r"
  by (simp add: pool_inv_def rows_ok_def)

lemma pool_refcount_pos_iff:
  "0 < pool_refcount p b \<longleftrightarrow> (\<exists>r. hm_get (blocks p) b = Some r \<and> 0 < refcount r)"
  by (auto simp: pool_refcount_def split: option.splits)

lemma pool_refcount_zero_free:
  "pool_inv p \<Longrightarrow> l < num_layers (layout p) \<Longrightarrow> b \<in> set (free_lists p ! l) \<Longrightarrow> pool_refcount p b = 0"
  by (auto simp: pool_inv_free_iff pool_refcount_def)

lemma pool_new_inv: "0 < block_size lay \<Longrightarrow> pool_inv (pool_new lay)"
  by (simp add: pool_new_def pool_inv_defs Let_def u64_max_def)

subsection \<open>Acquiring\<close>

lemma acquire_block_reuse:
  assumes inv: "pool_inv p" and l: "l < num_layers (layout p)" and ne: "free_lists p ! l \<noteq> []"
  shows "\<exists>r. hm_get (blocks p) (last (free_lists p ! l)) = Some r \<and> refcount r = 0 \<and> layer_idx r = l
    \<and> acquire_block p l =
       (Inr (last (free_lists p ! l)),
        p\<lparr>free_lists := (free_lists p)[l := butlast (free_lists p ! l)],
          blocks := hm_insert (last (free_lists p ! l)) (r\<lparr>refcount := 1\<rparr>) (blocks p)\<rparr>)"
proof -
  have "last (free_lists p ! l) \<in> set (free_lists p ! l)" using ne by simp
  then obtain r where "hm_get (blocks p) (last (free_lists p ! l)) = Some r" "refcount r = 0" "layer_idx r = l"
    using inv l by (auto simp: pool_inv_free_iff)
  then show ?thesis
    using l ne by (auto simp: acquire_block_def validate_layer_def Let_def)
qed

lemma acquire_block_mint:
  assumes "acquire_block p l = (Inr b, p')" and "free_lists p ! l = []"
  shows "b = next_block_id p \<and> l < num_layers (layout p)
    \<and> (\<forall>m. block_budget p = Some m \<longrightarrow> length (blocks p) < m)
    \<and> p' = p\<lparr>next_block_id := (next_block_id p + 1) mod 2 ^ 64,
            blocks := hm_insert b (block_record_new l) (blocks p)\<rparr>"
  using assms
  by (auto simp: acquire_block_def validate_layer_def Let_def split: if_splits option.splits)

lemma acquire_block_layer: "acquire_block p l = (Inr b, p') \<Longrightarrow> l < num_layers (layout p)"
  by (auto simp: acquire_block_def validate_layer_def split: if_splits)

text \<open>The two ways a block becomes live: a registered block is taken off its free list, or a new
  block is registered. Both acquisition and restoration go through them.\<close>

lemma pool_inv_revive:
  assumes inv: "pool_inv p" and r: "hm_get (blocks p) b = Some r" "refcount r = 0" "layer_idx r = l"
    and fl: "set fl = set (free_lists p ! l) - {b}" "distinct fl"
    and nb: "next_block_id p \<le> nb" "nb \<le> u64_max"
  shows "pool_inv (p\<lparr>free_lists := (free_lists p)[l := fl],
                    blocks := hm_insert b (r\<lparr>refcount := 1\<rparr>) (blocks p), next_block_id := nb\<rparr>)"
    (is "pool_inv ?q")
proof -
  have other: "b \<notin> set (free_lists p ! k)" if "k < num_layers (layout p)" "k \<noteq> l" for k
    using inv that r by (simp add: pool_inv_free_iff)
  have rec: "layer_idx s < num_layers (layout p) \<and> c < nb \<and> refcount s \<le> u32_max"
    if "hm_get (blocks p) c = Some s" for c s
    using pool_inv_recordD [OF inv that] nb by simp
  have "pool_sized ?q" using inv by (simp add: pool_inv_defs Let_def)
  moreover have "blocks_ok ?q"
    using inv rec r(1) nb by (auto simp: pool_inv_def blocks_ok_def hm_simps u32_max_def)
  moreover have "free_ok ?q"
    unfolding free_ok_def
  proof (intro allI impI conjI)
    fix k assume "k < num_layers (layout ?q)"
    then have k: "k < num_layers (layout p)" by simp
    have len: "length (free_lists p) = num_layers (layout p)"
      using inv by (simp add: pool_inv_def pool_sized_def Let_def)
    show "distinct (free_lists ?q ! k)"
      using inv k fl(2) len by (cases "k = l") (auto simp: pool_inv_def free_ok_def)
    fix c
    show "c \<in> set (free_lists ?q ! k)
      \<longleftrightarrow> (\<exists>r. hm_get (blocks ?q) c = Some r \<and> layer_idx r = k \<and> refcount r = 0)"
      using inv k fl(1) len other [OF k] r pool_inv_free_iff [OF inv k, of c]
      by (cases "k = l") (auto simp: hm_simps)
  qed
  moreover have "rows_ok ?q"
    using inv r by (fastforce simp: pool_inv_def rows_ok_def hm_simps)
  ultimately show ?thesis by (simp add: pool_inv_def)
qed

lemma pool_inv_register:
  assumes inv: "pool_inv p" and l: "l < num_layers (layout p)" and new: "hm_get (blocks p) b = None"
    and nb: "next_block_id p \<le> nb" "b < nb" "nb \<le> u64_max"
  shows "pool_inv (p\<lparr>next_block_id := nb, blocks := hm_insert b (block_record_new l) (blocks p)\<rparr>)"
    (is "pool_inv ?q")
proof -
  have rec: "layer_idx s < num_layers (layout p) \<and> c < nb \<and> refcount s \<le> u32_max"
    if "hm_get (blocks p) c = Some s" for c s
    using pool_inv_recordD [OF inv that] nb by simp
  have "pool_sized ?q" using inv by (simp add: pool_inv_defs Let_def)
  moreover have "blocks_ok ?q"
    using inv l nb rec
    by (auto simp: pool_inv_def blocks_ok_def hm_simps block_record_new_def u32_max_def)
  moreover have "free_ok ?q"
    using inv new by (auto simp: pool_inv_def free_ok_def hm_simps block_record_new_def)
  moreover have "rows_ok ?q"
    using inv new by (fastforce simp: pool_inv_def rows_ok_def hm_simps)
  ultimately show ?thesis by (simp add: pool_inv_def)
qed

lemma acquire_block_reuse_inv:
  assumes inv: "pool_inv p" and l: "l < num_layers (layout p)" and ne: "free_lists p ! l \<noteq> []"
    and acq: "acquire_block p l = (Inr b, p')"
  shows "pool_inv p'"
proof -
  from acquire_block_reuse [OF inv l ne] acq obtain r where
    b: "b = last (free_lists p ! l)" and r: "hm_get (blocks p) b = Some r" "refcount r = 0" "layer_idx r = l"
    and p': "p' = p\<lparr>free_lists := (free_lists p)[l := butlast (free_lists p ! l)],
                   blocks := hm_insert b (r\<lparr>refcount := 1\<rparr>) (blocks p)\<rparr>"
    by auto
  have d: "distinct (free_lists p ! l)" using inv l by (simp add: pool_inv_def free_ok_def)
  have fl: "set (butlast (free_lists p ! l)) = set (free_lists p ! l) - {b}"
    "distinct (butlast (free_lists p ! l))"
    using distinct_butlast_last [OF d ne] by (simp_all add: b)
  have "next_block_id p \<le> u64_max" using inv by (simp add: pool_inv_def blocks_ok_def)
  from pool_inv_revive [OF inv r fl order_refl this] show ?thesis by (simp add: p')
qed

lemma fresh_block_unregistered:
  assumes "pool_inv p" shows "hm_get (blocks p) (next_block_id p) = None"
  using assms pool_inv_recordD [OF assms, of "next_block_id p"]
  by (cases "hm_get (blocks p) (next_block_id p)") auto

lemma acquire_block_mint_inv:
  assumes inv: "pool_inv p" and e: "free_lists p ! l = []" and room: "next_block_id p < u64_max"
    and acq: "acquire_block p l = (Inr b, p')"
  shows "pool_inv p'"
proof -
  note m = acquire_block_mint [OF acq e]
  have nxt: "Suc (next_block_id p) mod 2 ^ 64 = Suc (next_block_id p)"
    using room by (simp add: u64_max_def)
  have p': "p' = p\<lparr>next_block_id := Suc (next_block_id p),
      blocks := hm_insert (next_block_id p) (block_record_new l) (blocks p)\<rparr>"
    using m nxt by simp
  show ?thesis
    unfolding p' using m room by (intro pool_inv_register [OF inv _ fresh_block_unregistered [OF inv]]) auto
qed

lemma acquire_block_inv:
  assumes "pool_inv p" and "next_block_id p < u64_max" and "acquire_block p l = (Inr b, p')"
  shows "pool_inv p'"
  using acquire_block_reuse_inv [OF assms(1) acquire_block_layer [OF assms(3)] _ assms(3)]
    acquire_block_mint_inv [OF assms(1) _ assms(2,3)]
  by blast

lemma acquire_block_refcount:
  assumes inv: "pool_inv p" and acq: "acquire_block p l = (Inr b, p')"
  shows "pool_refcount p b = 0 \<and> pool_refcount p' = (pool_refcount p)(b := 1)
    \<and> layout p' = layout p \<and> next_block_id p' \<le> next_block_id p + 1 \<and> block_budget p' = block_budget p
    \<and> pool_layer_of p' = (pool_layer_of p)(b \<mapsto> l)
    \<and> (pool_layer_of p b = None \<or> pool_layer_of p b = Some l)"
proof (cases "free_lists p ! l = []")
  case True
  have "hm_get (blocks p) (next_block_id p) = None" by (rule fresh_block_unregistered [OF inv])
  then show ?thesis
    using acquire_block_mint [OF acq True]
    by (auto simp: pool_refcount_def pool_layer_of_def fun_eq_iff hm_simps block_record_new_def)
next
  case False
  note l = acquire_block_layer [OF acq]
  from acquire_block_reuse [OF inv l False] acq show ?thesis
    by (auto simp: pool_refcount_def pool_layer_of_def fun_eq_iff hm_simps)
qed

lemma acquire_block_Inl:
  assumes inv: "pool_inv p" and acq: "acquire_block p l = (Inl e, p')"
  shows "p' = p \<and> e \<noteq> Panicked"
proof (cases "l < num_layers (layout p) \<and> free_lists p ! l \<noteq> []")
  case True
  with acquire_block_reuse [OF inv, of l] acq show ?thesis by auto
next
  case False
  with acq show ?thesis
    by (auto simp: acquire_block_def validate_layer_def Let_def split: if_splits option.splits)
qed

text \<open>When an acquisition succeeds and when it fails, and with which error.\<close>

lemma acquire_block_Inr_iff:
  assumes inv: "pool_inv p"
  shows "(\<exists>b p'. acquire_block p l = (Inr b, p')) \<longleftrightarrow>
    l < num_layers (layout p)
    \<and> (free_lists p ! l \<noteq> [] \<or> (\<forall>m. block_budget p = Some m \<longrightarrow> allocated_block_count p < m))"
proof (cases "l < num_layers (layout p) \<and> free_lists p ! l \<noteq> []")
  case True
  with acquire_block_reuse [OF inv, of l] show ?thesis by auto
next
  case False
  then show ?thesis
    by (auto simp: acquire_block_def validate_layer_def Let_def allocated_block_count_def
             split: option.splits)
qed


subsection \<open>Retaining and releasing\<close>

text \<open>Replacing the record of a registered live block by another live record of the same layer
  keeps the invariant.\<close>

lemma pool_inv_update_live:
  assumes inv: "pool_inv p" and r: "hm_get (blocks p) b = Some r" "0 < refcount r"
    and n: "0 < n" "n \<le> u32_max"
  shows "pool_inv (p\<lparr>blocks := hm_insert b (r\<lparr>refcount := n\<rparr>) (blocks p)\<rparr>)" (is "pool_inv ?q")
proof -
  have "pool_sized ?q" using inv by (simp add: pool_inv_defs Let_def)
  moreover have "blocks_ok ?q"
    using inv r n by (auto simp: pool_inv_def blocks_ok_def hm_simps)
  moreover have "free_ok ?q"
    using inv r n by (auto simp: pool_inv_def free_ok_def hm_simps)
  moreover have "rows_ok ?q"
    using inv r n by (fastforce simp: pool_inv_def rows_ok_def hm_simps)
  ultimately show ?thesis by (simp add: pool_inv_def)
qed

lemma retain_block_spec:
  assumes inv: "pool_inv p" and rc: "0 < pool_refcount p b" "pool_refcount p b < u32_max"
  shows "\<exists>p'. retain_block p b = (Inr (), p') \<and> pool_inv p' \<and> layout p' = layout p
    \<and> next_block_id p' = next_block_id p \<and> block_budget p' = block_budget p
    \<and> pool_layer_of p' = pool_layer_of p
    \<and> pool_refcount p' = (pool_refcount p)(b := pool_refcount p b + 1)"
proof -
  from rc(1) obtain r where r: "hm_get (blocks p) b = Some r" "0 < refcount r"
    by (auto simp: pool_refcount_pos_iff)
  have rr: "pool_refcount p b = refcount r" using r by (simp add: pool_refcount_def)
  have s: "sat_inc u32_max (refcount r) = Suc (refcount r)"
    using rc(2) rr by (simp add: sat_inc_def)
  have "retain_block p b = (Inr (), p\<lparr>blocks := hm_insert b (r\<lparr>refcount := Suc (refcount r)\<rparr>) (blocks p)\<rparr>)"
    using r s by (simp add: retain_block_def)
  moreover have "pool_inv (p\<lparr>blocks := hm_insert b (r\<lparr>refcount := Suc (refcount r)\<rparr>) (blocks p)\<rparr>)"
    using inv r rc(2) rr by (intro pool_inv_update_live) auto
  ultimately show ?thesis
    using rr r by (auto simp: pool_refcount_def pool_layer_of_def hm_simps fun_eq_iff)
qed

lemma free_row_of_simps [simp]:
  "layout (free_row_of p l b) = layout p" "next_block_id (free_row_of p l b) = next_block_id p"
  "blocks (free_row_of p l b) = blocks p" "free_lists (free_row_of p l b) = free_lists p"
  "pool_k (free_row_of p l b) = pool_k p" "pool_v (free_row_of p l b) = pool_v p"
  "pool_meta (free_row_of p l b) = pool_meta p" "next_row (free_row_of p l b) = next_row p"
  "turbo_sidecars (free_row_of p l b) = turbo_sidecars p"
  "block_budget (free_row_of p l b) = block_budget p"
  "length (block_rows (free_row_of p l b)) = length (block_rows p)"
  "length (free_rows (free_row_of p l b)) = length (free_rows p)"
  by (auto simp: free_row_of_def split: option.splits)

lemma block_rows_free_row_of:
  "l < length (block_rows p) \<Longrightarrow>
   block_rows (free_row_of p l b) = (block_rows p)[l := hm_remove b (block_rows p ! l)]"
  by (auto simp: free_row_of_def hm_simps split: option.splits)

lemma mset_snd_remove:
  assumes "hm_wf m" and "hm_get m b = Some row"
  shows "mset (map snd m) = add_mset row (mset (map snd (hm_remove b m)))"
  using assms
proof (induction m)
  case (Cons e m)
  show ?case
  proof (cases "fst e = b")
    case True
    with Cons.prems have "b \<notin> fst ` set m" by auto
    with True Cons.prems show ?thesis by (cases e) simp
  next
    case False
    with Cons show ?thesis by (cases e) auto
  qed
qed simp

lemma free_row_of_msets:
  assumes "l < length (block_rows p)" "l < length (free_rows p)" "hm_wf (block_rows p ! l)"
  shows "mset (map snd (block_rows (free_row_of p l b) ! l)) + mset (free_rows (free_row_of p l b) ! l)
       = mset (map snd (block_rows p ! l)) + mset (free_rows p ! l)"
  using assms mset_snd_remove [OF assms(3), of b]
  by (auto simp: free_row_of_def split: option.splits)

lemma free_row_of_other:
  "k \<noteq> l \<Longrightarrow> block_rows (free_row_of p l b) ! k = block_rows p ! k
            \<and> free_rows (free_row_of p l b) ! k = free_rows p ! k"
  by (auto simp: free_row_of_def split: option.splits)

text \<open>The pool left by releasing the last reference to a block.\<close>

definition released_pool :: "'a paged_block_pool \<Rightarrow> nat \<Rightarrow> paged_block_record \<Rightarrow> 'a paged_block_pool" where
  "released_pool p b r =
     (let q = free_row_of (p\<lparr>blocks := hm_insert b (r\<lparr>refcount := 0\<rparr>) (blocks p),
                            turbo_sidecars := sidecars_forget (turbo_sidecars p) b\<rparr>) (layer_idx r) b
      in q\<lparr>free_lists := (free_lists q)[layer_idx r := free_lists q ! layer_idx r @ [b]]\<rparr>)"

lemma release_block_last:
  assumes inv: "pool_inv p" and r: "hm_get (blocks p) b = Some r" "refcount r = 1"
  shows "release_block p b = (Inr (), released_pool p b r)"
proof -
  have "layer_idx r < num_layers (layout p)" using pool_inv_recordD [OF inv r(1)] by simp
  then show ?thesis
    using inv r by (simp add: release_block_def released_pool_def Let_def pool_inv_def pool_sized_def)
qed

lemma released_pool_rows_ok:
  assumes inv: "pool_inv p" and r: "hm_get (blocks p) b = Some r"
  shows "rows_ok (released_pool p b r)"
  unfolding rows_ok_def
proof (intro allI impI conjI)
  fix k assume "k < num_layers (layout (released_pool p b r))"
  then have k: "k < num_layers (layout p)" by (simp add: released_pool_def Let_def)
  define q where "q = p\<lparr>blocks := hm_insert b (r\<lparr>refcount := 0\<rparr>) (blocks p),
                        turbo_sidecars := sidecars_forget (turbo_sidecars p) b\<rparr>"
  have l: "layer_idx r < num_layers (layout p)" using pool_inv_recordD [OF inv r(1)] by simp
  have len: "length (block_rows p) = num_layers (layout p)" "length (free_rows p) = num_layers (layout p)"
    using inv by (simp_all add: pool_inv_def pool_sized_def Let_def)
  have rows: "block_rows (released_pool p b r) = (block_rows p)[layer_idx r := hm_remove b (block_rows p ! layer_idx r)]"
    using l len by (simp add: released_pool_def Let_def block_rows_free_row_of)
  have wf: "hm_wf (block_rows p ! j)" if "j < num_layers (layout p)" for j
    using inv that by (simp add: pool_inv_def rows_ok_def)
  have old: "mset (map snd (block_rows p ! k)) + mset (free_rows p ! k) = mset [0..<next_row p ! k]"
    using inv k by (simp add: pool_inv_def rows_ok_def)
  show "hm_wf (block_rows (released_pool p b r) ! k)"
    using wf [OF k] l len by (cases "k = layer_idx r") (simp_all add: rows)
  have "block_rows (released_pool p b r) = block_rows (free_row_of q (layer_idx r) b)"
    "free_rows (released_pool p b r) = free_rows (free_row_of q (layer_idx r) b)"
    "next_row (released_pool p b r) = next_row p"
    by (simp_all add: released_pool_def q_def Let_def)
  then show "mset (map snd (block_rows (released_pool p b r) ! k)) + mset (free_rows (released_pool p b r) ! k)
      = mset [0..<next_row (released_pool p b r) ! k]"
    using old free_row_of_msets [of "layer_idx r" q b] free_row_of_other [of k "layer_idx r" q b] wf [OF l] l len
    by (cases "k = layer_idx r") (simp_all add: q_def)
  fix c row
  assume c: "hm_get (block_rows (released_pool p b r) ! k) c = Some row"
  have other: "\<not> (k \<noteq> layer_idx r \<and> hm_get (block_rows p ! k) b = Some row')" for row'
    using pool_inv_rowD [OF inv k, of b row'] r by auto
  have cb: "c \<noteq> b \<and> hm_get (block_rows p ! k) c = Some row"
  proof (cases "k = layer_idx r")
    case True
    with c l len show ?thesis by (simp add: rows hm_simps split: if_splits)
  next
    case False
    with c have "hm_get (block_rows p ! k) c = Some row" by (simp add: rows)
    with other [of row] False show ?thesis by auto
  qed
  then obtain rc where "hm_get (blocks p) c = Some rc" "layer_idx rc = k" "0 < refcount rc"
    using pool_inv_rowD [OF inv k, of c row] by blast
  then show "\<exists>r'. hm_get (blocks (released_pool p b r)) c = Some r' \<and> layer_idx r' = k \<and> 0 < refcount r'"
    using cb by (simp add: released_pool_def Let_def hm_simps)
qed

lemma released_pool_inv:
  assumes inv: "pool_inv p" and r: "hm_get (blocks p) b = Some r" "0 < refcount r"
  shows "pool_inv (released_pool p b r)" (is "pool_inv ?q")
proof -
  have l: "layer_idx r < num_layers (layout p)" using pool_inv_recordD [OF inv r(1)] by simp
  have len: "length (free_lists p) = num_layers (layout p)"
    using inv by (simp add: pool_inv_def pool_sized_def Let_def)
  have fl: "free_lists ?q = (free_lists p)[layer_idx r := free_lists p ! layer_idx r @ [b]]"
    and bl: "blocks ?q = hm_insert b (r\<lparr>refcount := 0\<rparr>) (blocks p)" and lay: "layout ?q = layout p"
    by (simp_all add: released_pool_def Let_def)
  have nb: "b \<notin> set (free_lists p ! k)" if "k < num_layers (layout p)" for k
    using inv that r by (auto simp: pool_inv_free_iff)
  have "pool_sized ?q" "blocks_ok ?q"
    using inv r by (auto simp: pool_inv_defs Let_def hm_simps released_pool_def)
  moreover have "free_ok ?q"
    unfolding free_ok_def lay
  proof (intro allI impI conjI)
    fix k assume k: "k < num_layers (layout p)"
    show "distinct (free_lists ?q ! k)"
      using inv k nb [OF k] len by (cases "k = layer_idx r") (auto simp: fl pool_inv_def free_ok_def)
    fix c
    show "c \<in> set (free_lists ?q ! k)
      \<longleftrightarrow> (\<exists>r. hm_get (blocks ?q) c = Some r \<and> layer_idx r = k \<and> refcount r = 0)"
      using pool_inv_free_iff [OF inv k, of c] nb [OF k] r k len
      by (cases "k = layer_idx r"; cases "c = b") (auto simp: fl bl hm_simps)
  qed
  ultimately show ?thesis
    using released_pool_rows_ok [OF inv r(1)] by (simp add: pool_inv_def)
qed

lemma release_block_spec:
  assumes inv: "pool_inv p" and rc: "0 < pool_refcount p b"
  shows "\<exists>p'. release_block p b = (Inr (), p') \<and> pool_inv p' \<and> layout p' = layout p
    \<and> next_block_id p' = next_block_id p \<and> block_budget p' = block_budget p
    \<and> pool_layer_of p' = pool_layer_of p
    \<and> pool_refcount p' = (pool_refcount p)(b := pool_refcount p b - 1)"
proof -
  from rc obtain r where r: "hm_get (blocks p) b = Some r" "0 < refcount r"
    by (auto simp: pool_refcount_pos_iff)
  have rr: "pool_refcount p b = refcount r" using r by (simp add: pool_refcount_def)
  show ?thesis
  proof (cases "refcount r = 1")
    case True
    have "pool_refcount (released_pool p b r) = (pool_refcount p)(b := 0)"
      by (auto simp: pool_refcount_def released_pool_def Let_def hm_simps fun_eq_iff)
    moreover have "pool_layer_of (released_pool p b r) = pool_layer_of p"
      using r by (auto simp: pool_layer_of_def released_pool_def Let_def hm_simps fun_eq_iff)
    ultimately show ?thesis
      using True release_block_last [OF inv r(1) True] released_pool_inv [OF inv r] rr
      by (auto simp: released_pool_def Let_def)
  next
    case False
    let ?q = "p\<lparr>blocks := hm_insert b (r\<lparr>refcount := refcount r - 1\<rparr>) (blocks p)\<rparr>"
    have "release_block p b = (Inr (), ?q)"
      using r False by (auto simp: release_block_def Let_def)
    moreover have "pool_inv ?q"
      using inv r False pool_inv_recordD [OF inv r(1)] by (intro pool_inv_update_live) auto
    ultimately show ?thesis
      using rr r by (auto simp: pool_refcount_def pool_layer_of_def hm_simps fun_eq_iff)
  qed
qed

lemma release_block_unreferenced:
  "pool_refcount p b = 0 \<Longrightarrow>
   \<exists>e. release_block p b = (Inl e, p) \<and> (e = UnknownBlock b \<or> e = AlreadyReleased b)"
  by (auto simp: release_block_def pool_refcount_def split: option.splits)


section \<open>Ownership: the allocator contract and its clients\<close>

interpretation pool: refcounted_allocator
  acquire_block retain_block release_block pool_refcount pool_inv
  "\<lambda>p. u64_max - next_block_id p" u32_max pool_layer_of "\<lambda>p. (layout p, block_budget p)"
proof (unfold_locales, goal_cases)
  case (1 p l b p')
  then show ?case
    using acquire_block_inv [of p l b p'] acquire_block_refcount [of p l b p'] by auto
next
  case (2 p l e p')
  then show ?case using acquire_block_Inl by blast
next
  case (3 p b)
  then show ?case using retain_block_spec [of p b] by (metis (no_types, lifting))
next
  case (4 p b)
  then show ?case using release_block_spec [of p b] by (metis (no_types, lifting))
qed

text \<open>The references a sequence holds: one per block-table entry.\<close>

definition seq_refs :: "paged_sequence_state \<Rightarrow> nat multiset" where
  "seq_refs st = (\<Sum>ly \<leftarrow> layers st. mset (block_ids ly))"

abbreviation pool_owned :: "'a paged_block_pool \<Rightarrow> nat multiset \<Rightarrow> bool" where
  "pool_owned \<equiv> ref_owned pool_inv pool_refcount"

lemma release_down_to_op_each:
  "op_each release_block p (rev (drop n ids)) = (Inr (), p') \<Longrightarrow>
   release_down_to p ids n = (Inr (), take n ids, p')"
proof (induction p ids n rule: release_down_to.induct)
  case (1 p ids n)
  show ?case
  proof (cases "n < length ids")
    case False
    then show ?thesis using "1.prems" by (subst release_down_to.simps) simp
  next
    case True
    then have ids: "ids = butlast ids @ [last ids]" by (cases ids) auto
    have dr: "rev (drop n ids) = last ids # rev (drop n (butlast ids))"
      using True by (subst ids) simp
    obtain q where rel: "release_block p (last ids) = (Inr (), q)"
      and rest: "op_each release_block q (rev (drop n (butlast ids))) = (Inr (), p')"
      using "1.prems" unfolding dr by (auto split: prod.splits sum.splits)
    have "take n (butlast ids) = take n ids"
      using True by (simp add: take_butlast)
    then show ?thesis
      using True rel "1.IH" rest by (subst release_down_to.simps) simp
  qed
qed


lemma acquire_until_owned:
  assumes "pool_owned p M" "next_block_id p + (required - length ids) \<le> u64_max"
    "acquire_until p l ids required = (r, ids', p')"
  shows "\<exists>new. ids' = ids @ new \<and> pool_owned p' (M + mset new) \<and> distinct new
           \<and> (\<forall>b \<in> set new. b \<notin># M) \<and> length ids' \<le> max (length ids) required
           \<and> (r = Inr () \<longrightarrow> length ids' = max (length ids) required)
           \<and> layout p' = layout p \<and> next_block_id p' \<le> next_block_id p + length new
           \<and> (\<forall>b \<in> set new. pool_layer_of p' b = Some l)
           \<and> (\<forall>b. b \<notin> set new \<longrightarrow> pool_layer_of p' b = pool_layer_of p b)"
  using assms
proof (induction p l ids required arbitrary: M rule: acquire_until.induct)
  case (1 p l ids required)
  show ?case
  proof (cases "length ids < required")
    case False
    then show ?thesis using "1.prems" by (simp add: acquire_until.simps max_def)
  next
    case True
    obtain a q where acq: "acquire_block p l = (a, q)" by (cases "acquire_block p l")
    show ?thesis
    proof (cases a)
      case (Inl e)
      have "q = p" using pool.owned_acquire_err [OF "1.prems"(1)] acq Inl by simp
      then show ?thesis using "1.prems" True acq Inl by (auto simp: acquire_until.simps)
    next
      case (Inr b)
      have left: "0 < u64_max - next_block_id p" using "1.prems"(2) True by simp
      have own: "pool_owned q (add_mset b M)" "b \<notin># M"
        using pool.owned_acquire [OF "1.prems"(1) left] acq Inr by auto
      have step: "layout q = layout p" "next_block_id q \<le> Suc (next_block_id p)"
        "pool_layer_of q = (pool_layer_of p)(b \<mapsto> l)"
        using acquire_block_refcount [of p l b q] "1.prems"(1) acq Inr by (auto simp: ref_owned_def)
      have "next_block_id q + (required - length (ids @ [b])) \<le> u64_max"
        using step(2) "1.prems"(2) True by simp
      from "1.IH" [OF True acq [symmetric] Inr own(1) this] obtain new where
        "ids' = (ids @ [b]) @ new \<and> pool_owned p' (add_mset b M + mset new) \<and> distinct new
           \<and> (\<forall>c \<in> set new. c \<notin># add_mset b M) \<and> length ids' \<le> max (length (ids @ [b])) required
           \<and> (r = Inr () \<longrightarrow> length ids' = max (length (ids @ [b])) required)
           \<and> layout p' = layout q \<and> next_block_id p' \<le> next_block_id q + length new
           \<and> (\<forall>c \<in> set new. pool_layer_of p' c = Some l)
           \<and> (\<forall>c. c \<notin> set new \<longrightarrow> pool_layer_of p' c = pool_layer_of q c)"
        using "1.prems"(3) True acq Inr by (auto simp: acquire_until.simps [of p])
      then show ?thesis
        using True own(2) step by (intro exI [of _ "b # new"]) auto
    qed
  qed
qed

lemma release_down_to_owned:
  assumes "pool_owned p M" "mset ids \<subseteq># M"
  shows "\<exists>p'. release_down_to p ids n = (Inr (), take n ids, p')
              \<and> pool_owned p' (M - mset (drop n ids)) \<and> next_block_id p' = next_block_id p
              \<and> layout p' = layout p \<and> pool_layer_of p' = pool_layer_of p"
proof -
  have "mset (rev (drop n ids)) \<subseteq># M"
    using assms(2) by (metis append_take_drop_id mset_append mset_rev mset_subset_eq_add_right subset_mset.trans)
  from pool.owned_release_each [OF assms(1) this] obtain p' where
    p': "op_each release_block p (rev (drop n ids)) = (Inr (), p')"
    "pool_owned p' (M - mset (drop n ids))" "u64_max - next_block_id p' = u64_max - next_block_id p"
    "layout p' = layout p" "pool_layer_of p' = pool_layer_of p"
    by auto
  have "next_block_id p' \<le> u64_max" "next_block_id p \<le> u64_max"
    using p'(2) assms(1) by (auto simp: ref_owned_def pool_inv_def blocks_ok_def)
  with p' release_down_to_op_each [OF p'(1)] show ?thesis by simp
qed

end
