(* ===== verification/Kv_Cache.thy ===== *)
theory Kv_Cache
  imports Mlx_Ffi Paged_Pool
begin

text \<open>
  One layer's KV cache and its detached form: \<open>KVCache\<close> of \<open>src/src/lib/mlxcel-core/src/cache.rs\<close>
  and \<open>DetachedKVCache\<close>, \<open>DetachedCacheSet\<close> of \<open>src/src/lib/mlxcel-core/src/cache/detach.rs\<close>.

  \<open>DetachedKVCache\<close> has exactly the fields of \<open>KVCache\<close> that travel through a detach, so it is the
  base record and \<open>KVCache\<close> extends it by what stays behind. An MLX array is the type parameter
  \<open>'a\<close>; a shape index outside the rank is a panic, which is the result \<open>None\<close> of the functions
  in the option monad.
\<close>

section \<open>Data\<close>

datatype sidecar_policy = Predecode | Lazy

record 'a detached_kv_cache =
  keys :: "'a option"
  vals :: "'a option"
  offset :: int
  step :: int
  mode :: kv_cache_mode
  key_scales :: "'a option"
  val_scales :: "'a option"
  v_packed :: "'a option"
  v_norms :: "'a option"
  v_rescale :: "'a option"
  k_packed :: "'a option"
  k_norms :: "'a option"
  turbo_seed :: nat
  cold_offset :: int
  hot_threshold :: int
  delegated_fp16_fast_path :: bool
  delegated_fp16_sidecar_policy :: sidecar_policy
  m3_idx_k :: "'a option"
  m3_idx_offset :: int
  kvarn_sink_k :: "'a option"
  kvarn_sink_v :: "'a option"
  kvarn_tail_k :: "'a option"
  kvarn_tail_v :: "'a option"
  kvarn_hist_k :: "'a option"
  kvarn_hist_v :: "'a option"
  kvarn_k_scale :: "'a option"
  kvarn_k_zp :: "'a option"
  kvarn_k_s_row :: "'a option"
  kvarn_k_s_col :: "'a option"
  kvarn_v_scale :: "'a option"
  kvarn_v_zp :: "'a option"
  kvarn_v_s_row :: "'a option"
  kvarn_v_s_col :: "'a option"
  kvarn_v_bits :: nat

text \<open>\<open>PagedBacking\<close> holds shared handles to the pool and to the block table of its sequence. A
  handle is the identity of the shared cell; the cell's content lives with the owner of the cell
  (the pool in \<open>CachePool\<close>, the table in the sequence's cache set).\<close>

record paged_backing_handle =
  backing_state :: nat
  backing_layer :: nat

text \<open>The quantisation parameters are determined by the arguments of their constructor, the head
  dimension and the seed.\<close>

record 'a kv_cache = "'a detached_kv_cache" +
  live_start :: int
  turbo_params :: "(nat \<times> nat) option"
  turbo3_params :: "(nat \<times> nat) option"
  paged_backing :: "paged_backing_handle option"
  pending_finalize_cap :: "int option"


section \<open>Construction and simple observers\<close>

definition TURBO_DEFAULT_SEED :: nat where "TURBO_DEFAULT_SEED = 0x7B470404"
definition DELEGATED_HOT_THRESHOLD :: int where "DELEGATED_HOT_THRESHOLD = 256"
definition KVARN_TILE_TOKENS :: int where "KVARN_TILE_TOKENS = 128"
definition KVARN_V4_GROUP_SIZE :: int where "KVARN_V4_GROUP_SIZE = 32"

text \<open>\<open>fast\<close> and \<open>policy\<close> are the two settings \<open>KVCache::new\<close> reads from the environment.\<close>

definition new_with_mode_and_seed ::
  "bool \<Rightarrow> sidecar_policy \<Rightarrow> kv_cache_mode \<Rightarrow> nat \<Rightarrow> 'a kv_cache" where
  "new_with_mode_and_seed fast policy m seed =
     \<lparr>keys = None, vals = None, offset = 0, step = 256, mode = m, key_scales = None,
      val_scales = None, v_packed = None, v_norms = None, v_rescale = None, k_packed = None,
      k_norms = None, turbo_seed = seed, cold_offset = 0, hot_threshold = DELEGATED_HOT_THRESHOLD,
      delegated_fp16_fast_path = fast, delegated_fp16_sidecar_policy = policy,
      m3_idx_k = None, m3_idx_offset = 0,
      kvarn_sink_k = None, kvarn_sink_v = None, kvarn_tail_k = None, kvarn_tail_v = None,
      kvarn_hist_k = None, kvarn_hist_v = None, kvarn_k_scale = None, kvarn_k_zp = None,
      kvarn_k_s_row = None, kvarn_k_s_col = None, kvarn_v_scale = None, kvarn_v_zp = None,
      kvarn_v_s_row = None, kvarn_v_s_col = None, kvarn_v_bits = 8,
      live_start = 0, turbo_params = None, turbo3_params = None, paged_backing = None,
      pending_finalize_cap = None\<rparr>"

definition new_with_mode :: "bool \<Rightarrow> sidecar_policy \<Rightarrow> kv_cache_mode \<Rightarrow> 'a kv_cache" where
  "new_with_mode fast policy m = new_with_mode_and_seed fast policy m TURBO_DEFAULT_SEED"

definition kv_new :: "bool \<Rightarrow> sidecar_policy \<Rightarrow> 'a kv_cache" where
  "kv_new fast policy = new_with_mode_and_seed fast policy Fp16 TURBO_DEFAULT_SEED"

definition new_paged :: "bool \<Rightarrow> sidecar_policy \<Rightarrow> nat \<Rightarrow> nat \<Rightarrow> 'a kv_cache" where
  "new_paged fast policy cell l =
     (kv_new fast policy)\<lparr>paged_backing := Some \<lparr>backing_state = cell, backing_layer = l\<rparr>\<rparr>"

definition is_paged_backed :: "'a kv_cache \<Rightarrow> bool" where
  "is_paged_backed c \<longleftrightarrow> paged_backing c \<noteq> None"

definition kv_is_empty :: "'a kv_cache \<Rightarrow> bool" where
  "kv_is_empty c \<longleftrightarrow> offset c = 0 \<and> keys c = None \<and> k_packed c = None"

definition kv_seq_len :: "'a kv_cache \<Rightarrow> int" where
  "kv_seq_len c = offset c - live_start c"

definition live_len :: "'a kv_cache \<Rightarrow> int" where
  "live_len c = offset c - live_start c"

definition buffer_idx :: "'a kv_cache \<Rightarrow> int" where
  "buffer_idx c = offset c - live_start c"

definition is_front_trimmed :: "'a kv_cache \<Rightarrow> bool" where
  "is_front_trimmed c \<longleftrightarrow> live_start c \<noteq> 0"

definition opt_nbytes :: "'a mlx_ffi \<Rightarrow> 'a option \<Rightarrow> nat" where
  "opt_nbytes f t = (case t of None \<Rightarrow> 0 | Some a \<Rightarrow> array_nbytes f a)"

definition kv_nbytes :: "'a mlx_ffi \<Rightarrow> 'a kv_cache \<Rightarrow> nat" where
  "kv_nbytes f c =
     opt_nbytes f (keys c) + opt_nbytes f (vals c) + opt_nbytes f (key_scales c)
     + opt_nbytes f (val_scales c) + opt_nbytes f (v_packed c) + opt_nbytes f (v_norms c)
     + opt_nbytes f (v_rescale c) + opt_nbytes f (k_packed c) + opt_nbytes f (k_norms c)"

section \<open>Slicing the sequence axis\<close>

text \<open>\<open>shape[i]\<close>, which panics outside the rank.\<close>

definition dim :: "'a mlx_ffi \<Rightarrow> 'a \<Rightarrow> nat \<Rightarrow> int option" where
  "dim f a i = (if i < length (array_shape f a) then Some (array_shape f a ! i) else None)"

text \<open>\<open>ffi::slice(a, &[0, 0, lo, 0], &[s[0], s[1], hi, s[3]])\<close>, and the same with a last axis of 1.\<close>

definition slice_seq :: "'a mlx_ffi \<Rightarrow> int \<Rightarrow> int \<Rightarrow> 'a \<Rightarrow> 'a option" where
  "slice_seq f lo hi a =
     do { s0 \<leftarrow> dim f a 0; s1 \<leftarrow> dim f a 1; s3 \<leftarrow> dim f a 3;
          Some (slice f a [0, 0, lo, 0] [s0, s1, hi, s3]) }"

definition slice_seq_w1 :: "'a mlx_ffi \<Rightarrow> int \<Rightarrow> int \<Rightarrow> 'a \<Rightarrow> 'a option" where
  "slice_seq_w1 f lo hi a =
     do { s0 \<leftarrow> dim f a 0; s1 \<leftarrow> dim f a 1;
          Some (slice f a [0, 0, lo, 0] [s0, s1, hi, 1]) }"

text \<open>Apply a panicking operation to the content of an optional tensor.\<close>

definition opt_tensor :: "('a \<Rightarrow> 'a option) \<Rightarrow> 'a option \<Rightarrow> 'a option option" where
  "opt_tensor g t = (case t of None \<Rightarrow> Some None | Some a \<Rightarrow> map_option Some (g a))"

text \<open>\<open>t.as_ref().map_or(0, |a| ffi::array_shape(a)[2])\<close>.\<close>

definition opt_len :: "'a mlx_ffi \<Rightarrow> 'a option \<Rightarrow> int option" where
  "opt_len f t = (case t of None \<Rightarrow> Some 0 | Some a \<Rightarrow> dim f a 2)"


section \<open>Trimming a live cache\<close>

text \<open>The last \<open>n\<close> rows out of the FP16 end state of a \<open>KVarN8\<close> cache, or a refusal.\<close>

definition slice_last :: "'a mlx_ffi \<Rightarrow> int \<Rightarrow> 'a option \<Rightarrow> 'a option option" where
  "slice_last f keep t =
     (case t of None \<Rightarrow> Some None
      | Some a \<Rightarrow> if keep \<le> 0 then Some None else map_option Some (slice_seq f 0 keep a))"

definition trim_kvarn_fp16_end :: "'a mlx_ffi \<Rightarrow> 'a kv_cache \<Rightarrow> int \<Rightarrow> (int \<times> 'a kv_cache) option" where
  "trim_kvarn_fp16_end f c n =
     do { tail_len \<leftarrow> opt_len f (kvarn_tail_k c);
          hist_len \<leftarrow> opt_len f (kvarn_hist_k c);
          sink_len \<leftarrow> opt_len f (kvarn_sink_k c);
          let from_tail = min n tail_len;
          let from_sink = n - from_tail;
          if from_sink > 0 \<and> (hist_len > 0 \<or> from_sink > sink_len) then Some (0, c)
          else do {
            c1 \<leftarrow> (if from_tail > 0 then do {
                     k \<leftarrow> slice_last f (tail_len - from_tail) (kvarn_tail_k c);
                     v \<leftarrow> slice_last f (tail_len - from_tail) (kvarn_tail_v c);
                     Some (c\<lparr>kvarn_tail_k := k, kvarn_tail_v := v\<rparr>) } else Some c);
            c2 \<leftarrow> (if from_sink > 0 then do {
                     k \<leftarrow> slice_last f (sink_len - from_sink) (kvarn_sink_k c1);
                     v \<leftarrow> slice_last f (sink_len - from_sink) (kvarn_sink_v c1);
                     Some (c1\<lparr>kvarn_sink_k := k, kvarn_sink_v := v\<rparr>) } else Some c1);
            Some (n, c2\<lparr>offset := offset c2 - n, m3_idx_offset := max (m3_idx_offset c2 - n) 0\<rparr>) } }"

definition trim_drop_all :: "'a kv_cache \<Rightarrow> 'a kv_cache" where
  "trim_drop_all c =
     c\<lparr>keys := None, vals := None, key_scales := None, val_scales := None, v_packed := None,
       v_norms := None, v_rescale := None, k_packed := None, k_norms := None, cold_offset := 0,
       turbo_params := None, turbo3_params := None\<rparr>"

definition trim_delegated :: "'a mlx_ffi \<Rightarrow> 'a kv_cache \<Rightarrow> int \<Rightarrow> 'a kv_cache option" where
  "trim_delegated f c cold_trim =
     do { k \<leftarrow> opt_tensor (slice_seq f 0 (offset c)) (keys c);
          let visible_v_len = (if delegated_fp16_fast_path c then offset c else offset c - cold_offset c);
          v \<leftarrow> (if visible_v_len > 0 then opt_tensor (slice_seq f 0 visible_v_len) (vals c)
                else Some (vals c));
          let c1 = c\<lparr>keys := k, vals := v\<rparr>;
          if cold_trim > 0 then do {
            vp \<leftarrow> opt_tensor (slice_seq f 0 (cold_offset c)) (v_packed c);
            vn \<leftarrow> opt_tensor (slice_seq_w1 f 0 (cold_offset c)) (v_norms c);
            vr \<leftarrow> opt_tensor (slice_seq_w1 f 0 (cold_offset c)) (v_rescale c);
            Some (c1\<lparr>v_packed := vp, v_norms := vn, v_rescale := vr\<rparr>) }
          else Some c1 }"

definition trim_plain :: "'a mlx_ffi \<Rightarrow> 'a kv_cache \<Rightarrow> 'a kv_cache option" where
  "trim_plain f c =
     do { let after = offset c - live_start c;
          k \<leftarrow> opt_tensor (slice_seq f 0 after) (keys c);
          v \<leftarrow> opt_tensor (slice_seq f 0 after) (vals c);
          let c1 = c\<lparr>keys := k, vals := v\<rparr>;
          c2 \<leftarrow> (if mode c = Int8 then do {
                   ks \<leftarrow> opt_tensor (slice_seq_w1 f 0 after) (key_scales c);
                   vs \<leftarrow> opt_tensor (slice_seq_w1 f 0 after) (val_scales c);
                   Some (c1\<lparr>key_scales := ks, val_scales := vs\<rparr>) } else Some c1);
          c3 \<leftarrow> (if mode c \<in> {Turbo4Asym, Turbo4, Turbo3Asym} then do {
                   vp \<leftarrow> opt_tensor (slice_seq f 0 (offset c)) (v_packed c);
                   vn \<leftarrow> opt_tensor (slice_seq_w1 f 0 (offset c)) (v_norms c);
                   vr \<leftarrow> opt_tensor (slice_seq_w1 f 0 (offset c)) (v_rescale c);
                   Some (c2\<lparr>v_packed := vp, v_norms := vn, v_rescale := vr\<rparr>) } else Some c2);
          if mode c = Turbo4 then do {
            kp \<leftarrow> opt_tensor (slice_seq f 0 (offset c)) (k_packed c);
            kn \<leftarrow> opt_tensor (slice_seq_w1 f 0 (offset c)) (k_norms c);
            Some (c3\<lparr>k_packed := kp, k_norms := kn\<rparr>) }
          else Some c3 }"

definition kv_trim :: "'a mlx_ffi \<Rightarrow> 'a kv_cache \<Rightarrow> int \<Rightarrow> (int \<times> 'a kv_cache) option" where
  "kv_trim f c n0 =
     (let n = min n0 (live_len c) in
      if n \<le> 0 then Some (0, c)
      else if paged_backing c \<noteq> None then Some (0, c)
      else if mode c = KVarN8 then trim_kvarn_fp16_end f c n
      else let deleg = (mode c = Turbo4Delegated);
               hot_trim = (if deleg then min n (offset c - cold_offset c) else 0);
               cold_trim = (if deleg then max (n - hot_trim) 0 else 0);
               c1 = c\<lparr>offset := offset c - n, cold_offset := cold_offset c - cold_trim\<rparr>
        in if offset c1 - live_start c1 = 0 then Some (n, trim_drop_all c1)
           else map_option (Pair n) (if deleg then trim_delegated f c1 cold_trim else trim_plain f c1))"

definition trim_front :: "'a mlx_ffi \<Rightarrow> 'a kv_cache \<Rightarrow> int \<Rightarrow> (int \<times> 'a kv_cache) option" where
  "trim_front f c n0 =
     (let live = buffer_idx c; n = max (min n0 live) 0 in
      if n = 0 then Some (0, c)
      else if paged_backing c \<noteq> None then Some (0, c)
      else if mode c \<notin> {Fp16, Int8} then Some (0, c)
      else if live - n = 0
      then Some (n, c\<lparr>live_start := offset c, keys := None, vals := None, key_scales := None,
                      val_scales := None\<rparr>)
      else do {
        k \<leftarrow> opt_tensor (slice_seq f n live) (keys c);
        v \<leftarrow> opt_tensor (slice_seq f n live) (vals c);
        c1 \<leftarrow> (if mode c = Int8 then do {
                 ks \<leftarrow> opt_tensor (slice_seq_w1 f n live) (key_scales c);
                 vs \<leftarrow> opt_tensor (slice_seq_w1 f n live) (val_scales c);
                 Some (c\<lparr>keys := k, vals := v, key_scales := ks, val_scales := vs\<rparr>) }
               else Some (c\<lparr>keys := k, vals := v\<rparr>));
        Some (n, c1\<lparr>live_start := live_start c1 + n\<rparr>) })"

datatype trim_error = NegativeLen int | LenExceedsOffset int int | NotTileAligned int

definition kv_trim_to :: "'a mlx_ffi \<Rightarrow> 'a kv_cache \<Rightarrow> int \<Rightarrow> ((trim_error + unit) \<times> 'a kv_cache) option" where
  "kv_trim_to f c new_len =
     (if new_len < 0 then Some (Inl (NegativeLen new_len), c)
      else if new_len > offset c then Some (Inl (LenExceedsOffset new_len (offset c)), c)
      else if offset c - new_len = 0 then Some (Inr (), c)
      else map_option (\<lambda>r. (Inr (), snd r)) (kv_trim f c (offset c - new_len)))"


section \<open>Folding the FP16 V tail into the packed cold store\<close>

definition append_cold_block :: "'a mlx_ffi \<Rightarrow> 'a kv_cache \<Rightarrow> 'a \<Rightarrow> 'a \<Rightarrow> 'a \<Rightarrow> int \<Rightarrow> 'a kv_cache option" where
  "append_cold_block f c vp_block vn_block vr_block block =
     do { b \<leftarrow> dim f vp_block 0; h \<leftarrow> dim f vp_block 1; d \<leftarrow> dim f vp_block 3;
          let prev = cold_offset c;
          let needed = prev + block;
          let cap = (case v_packed c of None \<Rightarrow> 0
                     | Some vp \<Rightarrow> if 3 \<le> length (array_shape f vp) then array_shape f vp ! 2 else 0);
          c1 \<leftarrow> (if needed > cap then do {
                   let buf = ((needed + step c - 1) div step c) * step c;
                   let new_vp = zeros f [b, h, buf, d] UINT8;
                   let new_vn = zeros f [b, h, buf, 1] FLOAT16;
                   let new_vr = zeros f [b, h, buf, 1] FLOAT16;
                   if v_packed c \<noteq> None \<and> prev > 0 then do {
                     old_vp \<leftarrow> v_packed c;
                     old_vn \<leftarrow> v_norms c;
                     let vp = update_slice f new_vp (slice f old_vp [0, 0, 0, 0] [b, h, prev, d])
                                [0, 0, 0, 0] [b, h, prev, d];
                     let vn = update_slice f new_vn (slice f old_vn [0, 0, 0, 0] [b, h, prev, 1])
                                [0, 0, 0, 0] [b, h, prev, 1];
                     let vr = (case v_rescale c of
                                 Some r \<Rightarrow> update_slice f new_vr (slice f r [0, 0, 0, 0] [b, h, prev, 1])
                                             [0, 0, 0, 0] [b, h, prev, 1]
                               | None \<Rightarrow> new_vr);
                     Some (c\<lparr>v_packed := Some vp, v_norms := Some vn, v_rescale := Some vr\<rparr>) }
                   else Some (c\<lparr>v_packed := Some new_vp, v_norms := Some new_vn, v_rescale := Some new_vr\<rparr>) }
                 else Some c);
          vp \<leftarrow> v_packed c1; vn \<leftarrow> v_norms c1; vr \<leftarrow> v_rescale c1;
          p0 \<leftarrow> dim f vp 0; p1 \<leftarrow> dim f vp 1; p3 \<leftarrow> dim f vp 3;
          n0 \<leftarrow> dim f vn 0; n1 \<leftarrow> dim f vn 1;
          r0 \<leftarrow> dim f vr 0; r1 \<leftarrow> dim f vr 1;
          Some (c1\<lparr>v_packed := Some (update_slice f vp vp_block [0, 0, prev, 0] [p0, p1, needed, p3]),
                   v_norms := Some (update_slice f vn vn_block [0, 0, prev, 0] [n0, n1, needed, 1]),
                   v_rescale := Some (update_slice f vr vr_block [0, 0, prev, 0] [r0, r1, needed, 1]),
                   cold_offset := cold_offset c1 + block\<rparr>) }"

definition fold_unified_v_range_to_cold :: "'a mlx_ffi \<Rightarrow> 'a kv_cache \<Rightarrow> int \<Rightarrow> int \<Rightarrow> 'a kv_cache option" where
  "fold_unified_v_range_to_cold f c start block =
     (if block \<le> 0 then Some c
      else do {
        v \<leftarrow> vals c;
        b \<leftarrow> dim f v 0; h \<leftarrow> dim f v 1; d \<leftarrow> dim f v 3;
        let stop = min (start + block) (offset c);
        if stop \<le> start then Some c
        else do {
          let v_slice = slice f v [0, 0, start, 0] [b, h, stop, d];
          let c1 = (if turbo_params c = None then c\<lparr>turbo_params := Some (nat d, turbo_seed c)\<rparr> else c);
          params \<leftarrow> turbo_params c1;
          let (vp, vn, vr) = quantize_v_turbo4 f v_slice params;
          append_cold_block f c1 vp vn vr (stop - start) } })"

definition compact_turbo4_delegated_fp16_sidecars :: "'a mlx_ffi \<Rightarrow> 'a kv_cache \<Rightarrow> (bool \<times> 'a kv_cache) option" where
  "compact_turbo4_delegated_fp16_sidecars f c =
     (if mode c \<noteq> Turbo4Delegated \<or> \<not> delegated_fp16_fast_path c then Some (False, c)
      else if offset c \<le> cold_offset c \<or> vals c = None then Some (False, c)
      else map_option (Pair True)
             (fold_unified_v_range_to_cold f c (cold_offset c) (offset c - cold_offset c)))"

section \<open>Detaching and installing\<close>

text \<open>Everything of a live cache that a detach takes along is its base record.\<close>

definition detached_part :: "'a kv_cache \<Rightarrow> 'a detached_kv_cache" where
  "detached_part c = detached_kv_cache.truncate c"

definition clone_handle :: "'a mlx_ffi \<Rightarrow> 'a kv_cache \<Rightarrow> ('a detached_kv_cache \<times> 'a kv_cache) option" where
  "clone_handle f c0 =
     do { (_, c) \<leftarrow> compact_turbo4_delegated_fp16_sidecars f c0;
          idx \<leftarrow> opt_tensor (\<lambda>buf. do {
                   s2 \<leftarrow> dim f buf 2;
                   if s2 = m3_idx_offset c then Some buf
                   else slice_seq f 0 (m3_idx_offset c) buf }) (m3_idx_k c);
          let handle = (detached_part c)\<lparr>m3_idx_k := idx\<rparr>;
          Some (handle,
            c\<lparr>keys := None, vals := None, offset := 0, key_scales := None, val_scales := None,
              v_packed := None, v_norms := None, v_rescale := None, k_packed := None,
              k_norms := None, cold_offset := 0, m3_idx_k := None, m3_idx_offset := 0,
              kvarn_sink_k := None, kvarn_sink_v := None, kvarn_tail_k := None,
              kvarn_tail_v := None, kvarn_hist_k := None, kvarn_hist_v := None,
              kvarn_k_scale := None, kvarn_k_zp := None, kvarn_k_s_row := None,
              kvarn_k_s_col := None, kvarn_v_scale := None, kvarn_v_zp := None,
              kvarn_v_s_row := None, kvarn_v_s_col := None,
              turbo_params := None, turbo3_params := None\<rparr>) }"

text \<open>The extension fields of a live cache on top of a detached handle.\<close>

definition install_over :: "'a kv_cache \<Rightarrow> 'a detached_kv_cache \<Rightarrow> 'a kv_cache" where
  "install_over c d =
     detached_kv_cache.extend d
       (kv_cache.fields (live_start c) (turbo_params c) (turbo3_params c) (paged_backing c)
          (pending_finalize_cap c))"

text \<open>\<open>None\<close> is the error \<open>target cache is not empty\<close>.\<close>

definition install_detached :: "'a mlx_ffi \<Rightarrow> 'a kv_cache \<Rightarrow> 'a detached_kv_cache \<Rightarrow> 'a kv_cache option" where
  "install_detached f c d =
     (if \<not> kv_is_empty c then None
      else let c1 = install_over c d;
               probe = (case v_packed c1 of Some p \<Rightarrow> Some p | None \<Rightarrow> k_packed c1);
               rank4 = (\<lambda>p. length (array_shape f p) = 4 \<and> array_shape f p ! 3 > 0);
               c2 = (case probe of
                       Some p \<Rightarrow> if mode c1 \<in> {Turbo4Asym, Turbo4, Turbo4Delegated} \<and> rank4 p
                                 then c1\<lparr>turbo_params := Some (nat (array_shape f p ! 3) * 2, turbo_seed c1)\<rparr>
                                 else c1
                     | None \<Rightarrow> c1);
               c3 = (case v_packed c2 of
                       Some p \<Rightarrow> if mode c2 = Turbo3Asym \<and> rank4 p
                                 then c2\<lparr>turbo3_params := Some (nat (array_shape f p ! 3) * 8 div 3, turbo_seed c2)\<rparr>
                                 else c2
                     | None \<Rightarrow> c2)
           in Some c3)"

end
