(* ===== verification/Kv_Detach.thy ===== *)
theory Kv_Detach
  imports Kv_Cache
begin

text \<open>
  Operations on detached caches (\<open>src/src/lib/mlxcel-core/src/cache/detach.rs\<close>): trimming an inert
  handle, the deep validation that guards adoption, and the set of all layers.
\<close>

section \<open>Handles\<close>

definition pool_backed_handle_clone :: "'a detached_kv_cache \<Rightarrow> int \<Rightarrow> 'a detached_kv_cache option" where
  "pool_backed_handle_clone d off =
     (if keys d \<noteq> None \<or> vals d \<noteq> None \<or> key_scales d \<noteq> None \<or> val_scales d \<noteq> None
         \<or> v_packed d \<noteq> None \<or> v_norms d \<noteq> None \<or> v_rescale d \<noteq> None \<or> k_packed d \<noteq> None
         \<or> k_norms d \<noteq> None \<or> m3_idx_k d \<noteq> None \<or> kvarn_sink_k d \<noteq> None \<or> kvarn_tail_k d \<noteq> None
         \<or> kvarn_hist_k d \<noteq> None
      then None
      else Some \<lparr>keys = None, vals = None, offset = off, step = step d, mode = mode d,
        key_scales = None, val_scales = None, v_packed = None, v_norms = None, v_rescale = None,
        k_packed = None, k_norms = None, turbo_seed = turbo_seed d, cold_offset = 0,
        hot_threshold = hot_threshold d, delegated_fp16_fast_path = delegated_fp16_fast_path d,
        delegated_fp16_sidecar_policy = delegated_fp16_sidecar_policy d,
        m3_idx_k = None, m3_idx_offset = 0,
        kvarn_sink_k = None, kvarn_sink_v = None, kvarn_tail_k = None, kvarn_tail_v = None,
        kvarn_hist_k = None, kvarn_hist_v = None, kvarn_k_scale = None, kvarn_k_zp = None,
        kvarn_k_s_row = None, kvarn_k_s_col = None, kvarn_v_scale = None, kvarn_v_zp = None,
        kvarn_v_s_row = None, kvarn_v_s_col = None, kvarn_v_bits = kvarn_v_bits d\<rparr>)"

definition kvarn_tensors :: "'a detached_kv_cache \<Rightarrow> 'a option list" where
  "kvarn_tensors d =
     [kvarn_sink_k d, kvarn_sink_v d, kvarn_tail_k d, kvarn_tail_v d, kvarn_hist_k d, kvarn_hist_v d,
      kvarn_k_scale d, kvarn_k_zp d, kvarn_k_s_row d, kvarn_k_s_col d,
      kvarn_v_scale d, kvarn_v_zp d, kvarn_v_s_row d, kvarn_v_s_col d]"

definition detached_nbytes :: "'a mlx_ffi \<Rightarrow> 'a detached_kv_cache \<Rightarrow> nat" where
  "detached_nbytes f d =
     opt_nbytes f (keys d) + opt_nbytes f (vals d) + opt_nbytes f (key_scales d)
     + opt_nbytes f (val_scales d) + opt_nbytes f (v_packed d) + opt_nbytes f (v_norms d)
     + opt_nbytes f (v_rescale d) + opt_nbytes f (k_packed d) + opt_nbytes f (k_norms d)
     + opt_nbytes f (m3_idx_k d) + sum_list (map (opt_nbytes f) (kvarn_tensors d))"

definition detached_is_empty :: "'a detached_kv_cache \<Rightarrow> bool" where
  "detached_is_empty d \<longleftrightarrow> keys d = None \<and> k_packed d = None \<and> kvarn_sink_k d = None"

section \<open>Trimming a handle\<close>

definition drop_buffers :: "'a detached_kv_cache \<Rightarrow> 'a detached_kv_cache" where
  "drop_buffers d =
     d\<lparr>keys := None, vals := None, key_scales := None, val_scales := None, v_packed := None,
       v_norms := None, v_rescale := None, k_packed := None, kvarn_sink_k := None,
       kvarn_sink_v := None, kvarn_tail_k := None, kvarn_tail_v := None, kvarn_hist_k := None,
       kvarn_hist_v := None, kvarn_k_scale := None, kvarn_k_zp := None, kvarn_k_s_row := None,
       kvarn_k_s_col := None, kvarn_v_scale := None, kvarn_v_zp := None, kvarn_v_s_row := None,
       kvarn_v_s_col := None, k_norms := None, cold_offset := 0, offset := 0,
       m3_idx_k := None, m3_idx_offset := 0\<rparr>"

text \<open>\<open>trim_axis_seq(t, 0)\<close> keeps the last axis, \<open>trim_axis_seq(t, 1)\<close> slices it to 1; both read
  \<open>shape[3]\<close> only in the first case.\<close>

definition trim_axis_seq :: "'a mlx_ffi \<Rightarrow> int \<Rightarrow> 'a option \<Rightarrow> int \<Rightarrow> 'a option option" where
  "trim_axis_seq f n t tail_axis =
     opt_tensor (if tail_axis = 0 then slice_seq f 0 n else slice_seq_w1 f 0 n) t"

definition detached_trim_delegated :: "'a mlx_ffi \<Rightarrow> 'a detached_kv_cache \<Rightarrow> int \<Rightarrow> 'a detached_kv_cache option" where
  "detached_trim_delegated f d n =
     do { k \<leftarrow> trim_axis_seq f n (keys d) 0;
          let new_cold = min (cold_offset d) n;
          let new_hot = n - new_cold;
          let visible = (if delegated_fp16_fast_path d then n else new_hot);
          v \<leftarrow> (case vals d of None \<Rightarrow> Some None
                | Some a \<Rightarrow> if visible > 0 then map_option Some (slice_seq f 0 visible a) else Some None);
          let d1 = d\<lparr>keys := k, vals := v\<rparr>;
          d2 \<leftarrow> (if new_cold > 0 then do {
                   vp \<leftarrow> opt_tensor (slice_seq f 0 new_cold) (v_packed d);
                   vn \<leftarrow> opt_tensor (slice_seq_w1 f 0 new_cold) (v_norms d);
                   vr \<leftarrow> opt_tensor (slice_seq_w1 f 0 new_cold) (v_rescale d);
                   Some (d1\<lparr>v_packed := vp, v_norms := vn, v_rescale := vr\<rparr>) }
                 else Some (d1\<lparr>v_packed := None, v_norms := None, v_rescale := None\<rparr>));
          Some (d2\<lparr>cold_offset := new_cold, offset := n\<rparr>) }"

definition detached_trim_dense :: "'a mlx_ffi \<Rightarrow> 'a detached_kv_cache \<Rightarrow> int \<Rightarrow> 'a detached_kv_cache option" where
  "detached_trim_dense f d n =
     do { k \<leftarrow> trim_axis_seq f n (keys d) 0;
          v \<leftarrow> trim_axis_seq f n (vals d) 0;
          let d1 = d\<lparr>keys := k, vals := v\<rparr>;
          d2 \<leftarrow> (if mode d = Int8 then do {
                   ks \<leftarrow> trim_axis_seq f n (key_scales d) 1;
                   vs \<leftarrow> trim_axis_seq f n (val_scales d) 1;
                   Some (d1\<lparr>key_scales := ks, val_scales := vs\<rparr>) } else Some d1);
          d3 \<leftarrow> (if mode d \<in> {Turbo4Asym, Turbo4, Turbo3Asym} then do {
                   vp \<leftarrow> trim_axis_seq f n (v_packed d) 0;
                   vn \<leftarrow> trim_axis_seq f n (v_norms d) 1;
                   vr \<leftarrow> trim_axis_seq f n (v_rescale d) 1;
                   Some (d2\<lparr>v_packed := vp, v_norms := vn, v_rescale := vr\<rparr>) } else Some d2);
          if mode d = Turbo4 then do {
            kp \<leftarrow> trim_axis_seq f n (k_packed d) 0;
            kn \<leftarrow> trim_axis_seq f n (k_norms d) 1;
            Some (d3\<lparr>k_packed := kp, k_norms := kn\<rparr>) }
          else Some d3 }"

text \<open>The quantised history cut to \<open>keep\<close> tokens: per-token tensors to \<open>keep\<close> rows, per-tile tensors
  to the number of tiles.\<close>

definition slice_history ::
  "'a mlx_ffi \<Rightarrow> 'a detached_kv_cache \<Rightarrow> int \<Rightarrow> 'a detached_kv_cache option" where
  "slice_history f d keep =
     do { let sl = (\<lambda>t k. opt_tensor (slice_seq f 0 k) t);
          let n_tiles = keep div KVARN_TILE_TOKENS;
          hk \<leftarrow> sl (kvarn_hist_k d) keep;
          hv \<leftarrow> sl (kvarn_hist_v d) keep;
          ksc \<leftarrow> sl (kvarn_k_scale d) keep;
          kzp \<leftarrow> sl (kvarn_k_zp d) keep;
          ksr \<leftarrow> sl (kvarn_k_s_row d) keep;
          vsc \<leftarrow> sl (kvarn_v_scale d) keep;
          vzp \<leftarrow> sl (kvarn_v_zp d) keep;
          vsr \<leftarrow> sl (kvarn_v_s_row d) keep;
          kcol \<leftarrow> sl (kvarn_k_s_col d) n_tiles;
          vcol \<leftarrow> sl (kvarn_v_s_col d) n_tiles;
          Some (d\<lparr>kvarn_hist_k := hk, kvarn_hist_v := hv, kvarn_k_scale := ksc,
            kvarn_k_zp := kzp, kvarn_k_s_row := ksr, kvarn_v_scale := vsc,
            kvarn_v_zp := vzp, kvarn_v_s_row := vsr, kvarn_k_s_col := kcol,
            kvarn_v_s_col := vcol\<rparr>) }"

definition detached_trim_kvarn ::
  "'a mlx_ffi \<Rightarrow> 'a detached_kv_cache \<Rightarrow> int \<Rightarrow> ((trim_error + unit) \<times> 'a detached_kv_cache) option" where
  "detached_trim_kvarn f d n =
     do { let sl = (\<lambda>t keep. opt_tensor (slice_seq f 0 keep) t);
          sink_len \<leftarrow> opt_len f (kvarn_sink_k d);
          hist_len \<leftarrow> opt_len f (kvarn_hist_k d);
          if n \<le> sink_len then do {
            sk \<leftarrow> sl (kvarn_sink_k d) n;
            sv \<leftarrow> sl (kvarn_sink_v d) n;
            Some (Inr (), d\<lparr>kvarn_sink_k := sk, kvarn_sink_v := sv, kvarn_hist_k := None,
              kvarn_hist_v := None, kvarn_k_scale := None, kvarn_k_zp := None, kvarn_k_s_row := None,
              kvarn_k_s_col := None, kvarn_v_scale := None, kvarn_v_zp := None, kvarn_v_s_row := None,
              kvarn_v_s_col := None, kvarn_tail_k := None, kvarn_tail_v := None\<rparr>) }
          else do {
            let hist_keep = min (n - sink_len) hist_len;
            let tail_keep = n - sink_len - hist_keep;
            if hist_keep mod KVARN_TILE_TOKENS \<noteq> 0 then Some (Inl (NotTileAligned hist_keep), d)
            else do {
              d1 \<leftarrow> (if hist_keep < hist_len then slice_history f d hist_keep else Some d);
              d2 \<leftarrow> (if tail_keep > 0 then do {
                       tk \<leftarrow> sl (kvarn_tail_k d1) tail_keep;
                       tv \<leftarrow> sl (kvarn_tail_v d1) tail_keep;
                       Some (d1\<lparr>kvarn_tail_k := tk, kvarn_tail_v := tv\<rparr>) }
                     else Some (d1\<lparr>kvarn_tail_k := None, kvarn_tail_v := None\<rparr>));
              Some (Inr (), d2) } } }"

definition detached_trim_to ::
  "'a mlx_ffi \<Rightarrow> 'a detached_kv_cache \<Rightarrow> int \<Rightarrow> ((trim_error + unit) \<times> 'a detached_kv_cache) option" where
  "detached_trim_to f d n =
     (if n < 0 then Some (Inl (NegativeLen n), d)
      else if n > offset d then Some (Inl (LenExceedsOffset n (offset d)), d)
      else if n = offset d then Some (Inr (), d)
      else if n = 0 then Some (Inr (), drop_buffers d)
      else do {
        (r, d1) \<leftarrow> (if mode d = Turbo4Delegated then map_option (Pair (Inr ())) (detached_trim_delegated f d n)
                   else do {
                     d0 \<leftarrow> detached_trim_dense f d n;
                     (r, d1) \<leftarrow> (if mode d = KVarN8 then detached_trim_kvarn f d0 n else Some (Inr (), d0));
                     (case r of Inl e \<Rightarrow> Some (Inl e, d1) | Inr _ \<Rightarrow> Some (Inr (), d1\<lparr>offset := n\<rparr>)) });
        (case r of
           Inl e \<Rightarrow> Some (Inl e, d1)
         | Inr _ \<Rightarrow> (case m3_idx_k d1 of
                      None \<Rightarrow> Some (Inr (), d1)
                    | Some idx \<Rightarrow> do {
                        idx' \<leftarrow> slice_seq f 0 n idx;
                        Some (Inr (), d1\<lparr>m3_idx_k := Some idx', m3_idx_offset := n\<rparr>) })) })"


section \<open>Adopt-time validation\<close>

record expected_cache_geometry =
  g_n_kv_heads :: int
  g_k_head_dim :: int
  g_v_head_dim :: int
  g_dtype :: int

text \<open>The error messages, grouped by what they are about.\<close>

datatype tensor_error =
    RequiredAbsent
  | MustBeAbsent
  | WrongRank nat
  | WrongBatchAxis int
  | WrongHeadCount int
  | WrongTrailingDim int
  | WrongDtype int int
  | OffsetExceedsCapacity int int
  | SeqLengthMismatch int int
  | TileAxisMismatch int int

datatype m3_error = M3OffsetWithoutTensor int | M3Rank nat | M3SeqAxis int int | M3Desync int int

datatype kvarn_error =
    SinkLockstep int int
  | SinkLength int
  | HistoryGroup string
  | VSRowPresence bool bool
  | StoredVBits nat
  | HistoryLength int
  | TailLockstep int int
  | TailLength int
  | TailPresence bool bool
  | SinkNotFull int
  | LengthEquation int int int int

datatype validate_error =
    DegenerateGeometry int int int
  | NonPositiveOffset int
  | ModeMismatch kv_cache_mode kv_cache_mode
  | IllegalVBits nat
  | VBitsMismatch nat nat
  | M3 m3_error
  | Tensor string tensor_error
  | CapacityLockstep "int list"
  | HeadDimNotDivisible kv_cache_mode int
  | ColdOffsetOutside int int
  | ColdSidecarsShort int int int
  | VisibleVExceeds int int
  | VisibleVMissing int
  | KVarN kvarn_error

definition require_present :: "string \<Rightarrow> 'a option \<Rightarrow> validate_error + 'a" where
  "require_present role t = (case t of None \<Rightarrow> Inl (Tensor role RequiredAbsent) | Some a \<Rightarrow> Inr a)"

definition require_absent :: "string \<Rightarrow> 'a option \<Rightarrow> validate_error + unit" where
  "require_absent role t = (if t \<noteq> None then Inl (Tensor role MustBeAbsent) else Inr ())"

fun require_all_absent :: "(string \<times> 'a option) list \<Rightarrow> validate_error + unit" where
  "require_all_absent [] = Inr ()"
| "require_all_absent ((role, t) # rest) = and_then (require_absent role t) (\<lambda>_. require_all_absent rest)"

definition check_tensor :: "'a mlx_ffi \<Rightarrow> string \<Rightarrow> 'a \<Rightarrow> int \<Rightarrow> int \<Rightarrow> int \<Rightarrow> validate_error + int" where
  "check_tensor f role a dt heads last_dim =
     (let s = array_shape f a in
      if length s \<noteq> 4 then Inl (Tensor role (WrongRank (length s)))
      else if s ! 0 \<noteq> 1 then Inl (Tensor role (WrongBatchAxis (s ! 0)))
      else if s ! 1 \<noteq> heads then Inl (Tensor role (WrongHeadCount (s ! 1)))
      else if s ! 3 \<noteq> last_dim then Inl (Tensor role (WrongTrailingDim (s ! 3)))
      else if array_dtype f a \<noteq> dt then Inl (Tensor role (WrongDtype dt (array_dtype f a)))
      else Inr (s ! 2))"

definition check_field :: "'a mlx_ffi \<Rightarrow> string \<Rightarrow> 'a option \<Rightarrow> int \<Rightarrow> int \<Rightarrow> int \<Rightarrow> validate_error + int" where
  "check_field f role t dt heads last_dim =
     and_then (require_present role t) (\<lambda>a. check_tensor f role a dt heads last_dim)"

text \<open>\<open>if let Some(t) = ...\<close>: a check that only applies to a tensor that is there.\<close>

definition check_if_present ::
  "'a mlx_ffi \<Rightarrow> string \<Rightarrow> 'a option \<Rightarrow> int \<Rightarrow> int \<Rightarrow> int \<Rightarrow> (int \<Rightarrow> validate_error + unit) \<Rightarrow> validate_error + unit" where
  "check_if_present f role t dt heads last_dim k =
     (case t of None \<Rightarrow> Inr ()
      | Some a \<Rightarrow> and_then (check_tensor f role a dt heads last_dim) k)"

definition kvarn_fields :: "'a detached_kv_cache \<Rightarrow> (string \<times> 'a option) list" where
  "kvarn_fields d =
     [(''kvarn_sink_k'', kvarn_sink_k d), (''kvarn_sink_v'', kvarn_sink_v d),
      (''kvarn_tail_k'', kvarn_tail_k d), (''kvarn_tail_v'', kvarn_tail_v d),
      (''kvarn_hist_k'', kvarn_hist_k d), (''kvarn_hist_v'', kvarn_hist_v d),
      (''kvarn_k_scale'', kvarn_k_scale d), (''kvarn_k_zp'', kvarn_k_zp d),
      (''kvarn_k_s_row'', kvarn_k_s_row d), (''kvarn_k_s_col'', kvarn_k_s_col d),
      (''kvarn_v_scale'', kvarn_v_scale d), (''kvarn_v_zp'', kvarn_v_zp d),
      (''kvarn_v_s_row'', kvarn_v_s_row d), (''kvarn_v_s_col'', kvarn_v_s_col d)]"

definition validate_common ::
  "'a mlx_ffi \<Rightarrow> 'a detached_kv_cache \<Rightarrow> kv_cache_mode \<Rightarrow> nat \<Rightarrow> expected_cache_geometry \<Rightarrow> validate_error + unit" where
  "validate_common f d m vb g =
     and_then (ensure (\<not> (g_n_kv_heads g \<le> 0 \<or> g_k_head_dim g \<le> 0 \<or> g_v_head_dim g \<le> 0))
                (DegenerateGeometry (g_n_kv_heads g) (g_k_head_dim g) (g_v_head_dim g))) (\<lambda>_.
     and_then (ensure (0 < offset d) (NonPositiveOffset (offset d))) (\<lambda>_.
     and_then (ensure (mode d = m) (ModeMismatch (mode d) m)) (\<lambda>_.
     and_then (if m = KVarN8
               then and_then (ensure (vb = 8 \<or> vb = 4) (IllegalVBits vb))
                      (\<lambda>_. ensure (kvarn_v_bits d = vb) (VBitsMismatch (kvarn_v_bits d) vb))
               else Inr ()) (\<lambda>_.
     case m3_idx_k d of
       None \<Rightarrow> ensure (m3_idx_offset d = 0) (M3 (M3OffsetWithoutTensor (m3_idx_offset d)))
     | Some idx \<Rightarrow>
         and_then (ensure (length (array_shape f idx) = 4) (M3 (M3Rank (length (array_shape f idx))))) (\<lambda>_.
         and_then (ensure (array_shape f idx ! 2 = m3_idx_offset d)
                     (M3 (M3SeqAxis (array_shape f idx ! 2) (m3_idx_offset d)))) (\<lambda>_.
         ensure (m3_idx_offset d = offset d) (M3 (M3Desync (m3_idx_offset d) (offset d)))))))))"


definition covers_offset :: "string \<Rightarrow> int \<Rightarrow> int \<Rightarrow> validate_error + unit" where
  "covers_offset role off cap = ensure (off \<le> cap) (Tensor role (OffsetExceedsCapacity off cap))"

definition validate_fp16 ::
  "'a mlx_ffi \<Rightarrow> 'a detached_kv_cache \<Rightarrow> expected_cache_geometry \<Rightarrow> validate_error + unit" where
  "validate_fp16 f d g =
     and_then (require_all_absent
       ([(''key_scales'', key_scales d), (''val_scales'', val_scales d), (''v_packed'', v_packed d),
         (''v_norms'', v_norms d), (''v_rescale'', v_rescale d), (''k_packed'', k_packed d),
         (''k_norms'', k_norms d)] @ kvarn_fields d)) (\<lambda>_.
     and_then (require_present ''keys'' (keys d)) (\<lambda>k.
     and_then (require_present ''values'' (vals d)) (\<lambda>v.
     and_then (check_tensor f ''keys'' k (g_dtype g) (g_n_kv_heads g) (g_k_head_dim g)) (\<lambda>k_cap.
     and_then (check_tensor f ''values'' v (g_dtype g) (g_n_kv_heads g) (g_v_head_dim g)) (\<lambda>v_cap.
     and_then (covers_offset ''keys'' (offset d) k_cap) (\<lambda>_.
     ensure (v_cap = k_cap) (CapacityLockstep [k_cap, v_cap])))))))"

definition validate_int8 ::
  "'a mlx_ffi \<Rightarrow> 'a detached_kv_cache \<Rightarrow> expected_cache_geometry \<Rightarrow> validate_error + unit" where
  "validate_int8 f d g =
     and_then (require_all_absent
       ([(''v_packed'', v_packed d), (''v_norms'', v_norms d), (''v_rescale'', v_rescale d),
         (''k_packed'', k_packed d), (''k_norms'', k_norms d)] @ kvarn_fields d)) (\<lambda>_.
     and_then (require_present ''keys'' (keys d)) (\<lambda>k.
     and_then (require_present ''values'' (vals d)) (\<lambda>v.
     and_then (require_present ''key_scales'' (key_scales d)) (\<lambda>ks.
     and_then (require_present ''val_scales'' (val_scales d)) (\<lambda>vs.
     and_then (check_tensor f ''keys'' k INT8 (g_n_kv_heads g) (g_k_head_dim g)) (\<lambda>k_cap.
     and_then (check_tensor f ''values'' v INT8 (g_n_kv_heads g) (g_v_head_dim g)) (\<lambda>v_cap.
     and_then (check_tensor f ''key_scales'' ks FLOAT16 (g_n_kv_heads g) 1) (\<lambda>ks_cap.
     and_then (check_tensor f ''val_scales'' vs FLOAT16 (g_n_kv_heads g) 1) (\<lambda>vs_cap.
     and_then (covers_offset ''keys'' (offset d) k_cap) (\<lambda>_.
     ensure (v_cap = k_cap \<and> ks_cap = k_cap \<and> vs_cap = k_cap)
       (CapacityLockstep [k_cap, v_cap, ks_cap, vs_cap])))))))))))"

definition validate_turbo_asym ::
  "'a mlx_ffi \<Rightarrow> 'a detached_kv_cache \<Rightarrow> kv_cache_mode \<Rightarrow> expected_cache_geometry \<Rightarrow> validate_error + unit" where
  "validate_turbo_asym f d m g =
     and_then (require_all_absent
       ([(''values'', vals d), (''key_scales'', key_scales d), (''val_scales'', val_scales d),
         (''k_packed'', k_packed d), (''k_norms'', k_norms d)] @ kvarn_fields d)) (\<lambda>_.
     and_then (if m = Turbo4Asym
               then and_then (ensure (g_v_head_dim g mod 2 = 0) (HeadDimNotDivisible m (g_v_head_dim g)))
                      (\<lambda>_. Inr (g_v_head_dim g div 2))
               else and_then (ensure (g_v_head_dim g mod 8 = 0) (HeadDimNotDivisible m (g_v_head_dim g)))
                      (\<lambda>_. Inr (g_v_head_dim g * 3 div 8))) (\<lambda>packed_dim.
     and_then (require_present ''keys'' (keys d)) (\<lambda>k.
     and_then (require_present ''v_packed'' (v_packed d)) (\<lambda>vp.
     and_then (require_present ''v_norms'' (v_norms d)) (\<lambda>vn.
     and_then (check_tensor f ''keys'' k FLOAT16 (g_n_kv_heads g) (g_k_head_dim g)) (\<lambda>k_cap.
     and_then (check_tensor f ''v_packed'' vp UINT8 (g_n_kv_heads g) packed_dim) (\<lambda>vp_cap.
     and_then (check_tensor f ''v_norms'' vn FLOAT16 (g_n_kv_heads g) 1) (\<lambda>vn_cap.
     and_then (covers_offset ''keys'' (offset d) k_cap) (\<lambda>_.
     and_then (ensure (vp_cap = k_cap \<and> vn_cap = k_cap) (CapacityLockstep [k_cap, vp_cap, vn_cap])) (\<lambda>_.
     check_if_present f ''v_rescale'' (v_rescale d) FLOAT16 (g_n_kv_heads g) 1
       (\<lambda>vr_cap. ensure (vr_cap = k_cap) (CapacityLockstep [vr_cap, k_cap]))))))))))))"

definition validate_turbo4 ::
  "'a mlx_ffi \<Rightarrow> 'a detached_kv_cache \<Rightarrow> expected_cache_geometry \<Rightarrow> validate_error + unit" where
  "validate_turbo4 f d g =
     and_then (require_all_absent
       ([(''keys'', keys d), (''values'', vals d), (''key_scales'', key_scales d),
         (''val_scales'', val_scales d)] @ kvarn_fields d)) (\<lambda>_.
     and_then (ensure (g_k_head_dim g mod 2 = 0 \<and> g_v_head_dim g mod 2 = 0)
                 (HeadDimNotDivisible Turbo4 (g_k_head_dim g))) (\<lambda>_.
     and_then (require_present ''k_packed'' (k_packed d)) (\<lambda>kp.
     and_then (require_present ''k_norms'' (k_norms d)) (\<lambda>kn.
     and_then (require_present ''v_packed'' (v_packed d)) (\<lambda>vp.
     and_then (require_present ''v_norms'' (v_norms d)) (\<lambda>vn.
     and_then (check_tensor f ''k_packed'' kp UINT8 (g_n_kv_heads g) (g_k_head_dim g div 2)) (\<lambda>kp_cap.
     and_then (check_tensor f ''k_norms'' kn FLOAT16 (g_n_kv_heads g) 1) (\<lambda>kn_cap.
     and_then (check_tensor f ''v_packed'' vp UINT8 (g_n_kv_heads g) (g_v_head_dim g div 2)) (\<lambda>vp_cap.
     and_then (check_tensor f ''v_norms'' vn FLOAT16 (g_n_kv_heads g) 1) (\<lambda>vn_cap.
     and_then (covers_offset ''k_packed'' (offset d) kp_cap) (\<lambda>_.
     and_then (ensure (kn_cap = kp_cap \<and> vp_cap = kp_cap \<and> vn_cap = kp_cap)
                 (CapacityLockstep [kp_cap, kn_cap, vp_cap, vn_cap])) (\<lambda>_.
     check_if_present f ''v_rescale'' (v_rescale d) FLOAT16 (g_n_kv_heads g) 1
       (\<lambda>vr_cap. ensure (vr_cap = kp_cap) (CapacityLockstep [vr_cap, kp_cap]))))))))))))))"

definition validate_turbo4_delegated ::
  "'a mlx_ffi \<Rightarrow> 'a detached_kv_cache \<Rightarrow> expected_cache_geometry \<Rightarrow> validate_error + unit" where
  "validate_turbo4_delegated f d g =
     (let visible_v = (if delegated_fp16_fast_path d then offset d else offset d - cold_offset d);
          heads = g_n_kv_heads g; packed = g_v_head_dim g div 2 in
     and_then (require_all_absent
       ([(''key_scales'', key_scales d), (''val_scales'', val_scales d),
         (''k_packed'', k_packed d), (''k_norms'', k_norms d)] @ kvarn_fields d)) (\<lambda>_.
     and_then (ensure (g_v_head_dim g mod 2 = 0) (HeadDimNotDivisible Turbo4Delegated (g_v_head_dim g))) (\<lambda>_.
     and_then (ensure (0 \<le> cold_offset d \<and> cold_offset d \<le> offset d)
                 (ColdOffsetOutside (cold_offset d) (offset d))) (\<lambda>_.
     and_then (check_field f ''keys'' (keys d) FLOAT16 heads (g_k_head_dim g)) (\<lambda>k_cap.
     and_then (covers_offset ''keys'' (offset d) k_cap) (\<lambda>_.
     and_then (if 0 < cold_offset d then
                 and_then (require_present ''v_packed (cold V)'' (v_packed d)) (\<lambda>vp.
                 and_then (require_present ''v_norms (cold V)'' (v_norms d)) (\<lambda>vn.
                 and_then (check_tensor f ''v_packed'' vp UINT8 heads packed) (\<lambda>vp_cap.
                 and_then (check_tensor f ''v_norms'' vn FLOAT16 heads 1) (\<lambda>vn_cap.
                 ensure (cold_offset d \<le> vp_cap \<and> cold_offset d \<le> vn_cap)
                   (ColdSidecarsShort (cold_offset d) vp_cap vn_cap)))))
               else
                 and_then (check_if_present f ''v_packed'' (v_packed d) UINT8 heads packed (\<lambda>_. Inr ())) (\<lambda>_.
                 check_if_present f ''v_norms'' (v_norms d) FLOAT16 heads 1 (\<lambda>_. Inr ()))) (\<lambda>_.
     and_then (check_if_present f ''v_rescale'' (v_rescale d) FLOAT16 heads 1 (\<lambda>_. Inr ())) (\<lambda>_.
     case vals d of
       Some v \<Rightarrow> and_then (check_tensor f ''values'' v FLOAT16 heads (g_v_head_dim g)) (\<lambda>v_cap.
                   ensure (visible_v \<le> v_cap) (VisibleVExceeds visible_v v_cap))
     | None \<Rightarrow> ensure (\<not> 0 < visible_v) (VisibleVMissing visible_v)))))))))"


text \<open>The members of the history group that must be present together with \<open>kvarn_hist_k\<close>.\<close>

definition hist_group :: "'a detached_kv_cache \<Rightarrow> (string \<times> 'a option) list" where
  "hist_group d =
     [(''kvarn_hist_k'', kvarn_hist_k d), (''kvarn_hist_v'', kvarn_hist_v d),
      (''kvarn_k_scale'', kvarn_k_scale d), (''kvarn_k_zp'', kvarn_k_zp d),
      (''kvarn_k_s_row'', kvarn_k_s_row d), (''kvarn_k_s_col'', kvarn_k_s_col d),
      (''kvarn_v_scale'', kvarn_v_scale d), (''kvarn_v_zp'', kvarn_v_zp d),
      (''kvarn_v_s_col'', kvarn_v_s_col d)]"

fun require_presence :: "bool \<Rightarrow> (string \<times> 'a option) list \<Rightarrow> validate_error + unit" where
  "require_presence present [] = Inr ()"
| "require_presence present ((role, t) # rest) =
     and_then (ensure ((t \<noteq> None) = present) (KVarN (HistoryGroup role))) (\<lambda>_. require_presence present rest)"

definition check_v_s_row :: "'a detached_kv_cache \<Rightarrow> bool \<Rightarrow> validate_error + unit" where
  "check_v_s_row d hist_present =
     (if kvarn_v_bits d = 8
      then ensure ((kvarn_v_s_row d \<noteq> None) = hist_present)
             (KVarN (VSRowPresence (kvarn_v_s_row d \<noteq> None) hist_present))
      else if kvarn_v_bits d = 4 then require_absent ''kvarn_v_s_row'' (kvarn_v_s_row d)
      else Inl (KVarN (StoredVBits (kvarn_v_bits d))))"

text \<open>A per-token sidecar of the history: right layout and exactly the history's length.\<close>

definition check_hist_len ::
  "'a mlx_ffi \<Rightarrow> string \<Rightarrow> 'a option \<Rightarrow> int \<Rightarrow> int \<Rightarrow> int \<Rightarrow> int \<Rightarrow> validate_error + unit" where
  "check_hist_len f role t dt heads last_dim hist_len =
     and_then (check_field f role t dt heads last_dim) (\<lambda>n.
     ensure (n = hist_len) (Tensor role (SeqLengthMismatch n hist_len)))"

definition check_tiles ::
  "'a mlx_ffi \<Rightarrow> string \<Rightarrow> 'a option \<Rightarrow> int \<Rightarrow> int \<Rightarrow> int \<Rightarrow> validate_error + unit" where
  "check_tiles f role t heads last_dim n_tiles =
     and_then (check_field f role t FLOAT32 heads last_dim) (\<lambda>n.
     ensure (n = n_tiles) (Tensor role (TileAxisMismatch n n_tiles)))"

definition validate_kvarn_history ::
  "'a mlx_ffi \<Rightarrow> 'a detached_kv_cache \<Rightarrow> expected_cache_geometry \<Rightarrow> validate_error + int" where
  "validate_kvarn_history f d g =
     (let heads = g_n_kv_heads g in
     and_then (check_field f ''kvarn_hist_k'' (kvarn_hist_k d) UINT8 heads (g_k_head_dim g)) (\<lambda>hist_len.
     and_then (ensure (\<not> (hist_len \<le> 0 \<or> hist_len mod KVARN_TILE_TOKENS \<noteq> 0)) (KVarN (HistoryLength hist_len))) (\<lambda>_.
     and_then (check_hist_len f ''kvarn_k_scale'' (kvarn_k_scale d) FLOAT32 heads 1 hist_len) (\<lambda>_.
     and_then (check_hist_len f ''kvarn_k_zp'' (kvarn_k_zp d) FLOAT32 heads 1 hist_len) (\<lambda>_.
     and_then (check_hist_len f ''kvarn_k_s_row'' (kvarn_k_s_row d) FLOAT32 heads 1 hist_len) (\<lambda>_.
     and_then (check_tiles f ''kvarn_k_s_col'' (kvarn_k_s_col d) heads (g_k_head_dim g)
                 (hist_len div KVARN_TILE_TOKENS)) (\<lambda>_.
     and_then (check_tiles f ''kvarn_v_s_col'' (kvarn_v_s_col d) heads (g_v_head_dim g)
                 (hist_len div KVARN_TILE_TOKENS)) (\<lambda>_.
     if kvarn_v_bits d = 8 then
       and_then (check_hist_len f ''kvarn_hist_v'' (kvarn_hist_v d) UINT8 heads (g_v_head_dim g) hist_len) (\<lambda>_.
       and_then (check_hist_len f ''kvarn_v_scale'' (kvarn_v_scale d) FLOAT32 heads 1 hist_len) (\<lambda>_.
       and_then (check_hist_len f ''kvarn_v_zp'' (kvarn_v_zp d) FLOAT32 heads 1 hist_len) (\<lambda>_.
       and_then (check_hist_len f ''kvarn_v_s_row'' (kvarn_v_s_row d) FLOAT32 heads 1 hist_len) (\<lambda>_.
       Inr hist_len))))
     else
       and_then (ensure (g_v_head_dim g mod 8 = 0 \<and> g_v_head_dim g mod KVARN_V4_GROUP_SIZE = 0)
                   (HeadDimNotDivisible KVarN8 (g_v_head_dim g))) (\<lambda>_.
       and_then (check_hist_len f ''kvarn_hist_v'' (kvarn_hist_v d) UINT32 heads (g_v_head_dim g div 8) hist_len) (\<lambda>_.
       and_then (check_hist_len f ''kvarn_v_scale'' (kvarn_v_scale d) FLOAT32 heads
                   (g_v_head_dim g div KVARN_V4_GROUP_SIZE) hist_len) (\<lambda>_.
       and_then (check_hist_len f ''kvarn_v_zp'' (kvarn_v_zp d) FLOAT32 heads
                   (g_v_head_dim g div KVARN_V4_GROUP_SIZE) hist_len) (\<lambda>_.
       Inr hist_len))))))))))))"

definition validate_kvarn_tail ::
  "'a mlx_ffi \<Rightarrow> 'a detached_kv_cache \<Rightarrow> expected_cache_geometry \<Rightarrow> validate_error + int" where
  "validate_kvarn_tail f d g =
     (case (kvarn_tail_k d, kvarn_tail_v d) of
        (Some tk, Some tv) \<Rightarrow>
          and_then (check_tensor f ''kvarn_tail_k'' tk FLOAT16 (g_n_kv_heads g) (g_k_head_dim g)) (\<lambda>tk_len.
          and_then (check_tensor f ''kvarn_tail_v'' tv FLOAT16 (g_n_kv_heads g) (g_v_head_dim g)) (\<lambda>tv_len.
          and_then (ensure (tv_len = tk_len) (KVarN (TailLockstep tk_len tv_len))) (\<lambda>_.
          and_then (ensure (0 < tk_len) (KVarN (TailLength tk_len))) (\<lambda>_. Inr tk_len))))
      | (None, None) \<Rightarrow> Inr 0
      | (k, v) \<Rightarrow> Inl (KVarN (TailPresence (k \<noteq> None) (v \<noteq> None))))"

definition validate_kvarn8 ::
  "'a mlx_ffi \<Rightarrow> 'a detached_kv_cache \<Rightarrow> expected_cache_geometry \<Rightarrow> validate_error + unit" where
  "validate_kvarn8 f d g =
     (let hist_present = (kvarn_hist_k d \<noteq> None) in
     and_then (require_all_absent
       [(''keys'', keys d), (''values'', vals d), (''key_scales'', key_scales d),
        (''val_scales'', val_scales d), (''v_packed'', v_packed d), (''v_norms'', v_norms d),
        (''v_rescale'', v_rescale d), (''k_packed'', k_packed d), (''k_norms'', k_norms d)]) (\<lambda>_.
     and_then (require_present ''kvarn_sink_k'' (kvarn_sink_k d)) (\<lambda>sk.
     and_then (require_present ''kvarn_sink_v'' (kvarn_sink_v d)) (\<lambda>sv.
     and_then (check_tensor f ''kvarn_sink_k'' sk FLOAT16 (g_n_kv_heads g) (g_k_head_dim g)) (\<lambda>sink_k_len.
     and_then (check_tensor f ''kvarn_sink_v'' sv FLOAT16 (g_n_kv_heads g) (g_v_head_dim g)) (\<lambda>sink_v_len.
     and_then (ensure (sink_v_len = sink_k_len) (KVarN (SinkLockstep sink_k_len sink_v_len))) (\<lambda>_.
     and_then (ensure (0 < sink_k_len \<and> sink_k_len \<le> KVARN_TILE_TOKENS) (KVarN (SinkLength sink_k_len))) (\<lambda>_.
     and_then (require_presence hist_present (hist_group d)) (\<lambda>_.
     and_then (check_v_s_row d hist_present) (\<lambda>_.
     and_then (if hist_present then validate_kvarn_history f d g else Inr 0) (\<lambda>hist_len.
     and_then (validate_kvarn_tail f d g) (\<lambda>tail_len.
     and_then (ensure (\<not> ((hist_present \<or> 0 < tail_len) \<and> sink_k_len \<noteq> KVARN_TILE_TOKENS))
                 (KVarN (SinkNotFull sink_k_len))) (\<lambda>_.
     ensure (sink_k_len + hist_len + tail_len = offset d)
       (KVarN (LengthEquation sink_k_len hist_len tail_len (offset d))))))))))))))))"

definition validate_for ::
  "'a mlx_ffi \<Rightarrow> 'a detached_kv_cache \<Rightarrow> kv_cache_mode \<Rightarrow> nat \<Rightarrow> expected_cache_geometry \<Rightarrow> validate_error + unit" where
  "validate_for f d m vb g =
     and_then (validate_common f d m vb g) (\<lambda>_.
       case m of
         Fp16 \<Rightarrow> validate_fp16 f d g
       | Int8 \<Rightarrow> validate_int8 f d g
       | Turbo4Asym \<Rightarrow> validate_turbo_asym f d m g
       | Turbo3Asym \<Rightarrow> validate_turbo_asym f d m g
       | Turbo4 \<Rightarrow> validate_turbo4 f d g
       | Turbo4Delegated \<Rightarrow> validate_turbo4_delegated f d g
       | KVarN8 \<Rightarrow> validate_kvarn8 f d g)"

section \<open>Sets of layers\<close>

datatype sequence_state_backend = DenseKvCache | PagedKvCache | ModelOwned

record 'a detached_cache_set =
  ds_caches :: "'a detached_kv_cache list"
  ds_backend :: sequence_state_backend
  ds_prompt_len :: nat
  ds_current_offset :: int
  ds_created_at :: nat
  ds_detached_at :: nat
  ds_origin_seq_id :: nat

definition set_nbytes :: "'a mlx_ffi \<Rightarrow> 'a detached_cache_set \<Rightarrow> nat" where
  "set_nbytes f s = sum_list (map (detached_nbytes f) (ds_caches s))"

definition layer_plan :: "'a detached_cache_set \<Rightarrow> (kv_cache_mode \<times> nat) list" where
  "layer_plan s = map (\<lambda>c. (mode c, kvarn_v_bits c)) (ds_caches s)"

definition set_seq_len :: "'a detached_cache_set \<Rightarrow> int" where
  "set_seq_len s = (case ds_caches s of [] \<Rightarrow> 0 | c # _ \<Rightarrow> offset c)"

definition has_consistent_seq_len :: "'a detached_cache_set \<Rightarrow> bool" where
  "has_consistent_seq_len s =
     (case ds_caches s of [] \<Rightarrow> False | c # _ \<Rightarrow> list_all (\<lambda>d. offset d = offset c) (ds_caches s))"

text \<open>The loop over the layers: on an error the layers already trimmed stay trimmed.\<close>

fun trim_layers ::
  "'a mlx_ffi \<Rightarrow> nat \<Rightarrow> 'a detached_kv_cache list \<Rightarrow> int
   \<Rightarrow> (((nat \<times> trim_error) + unit) \<times> 'a detached_kv_cache list) option" where
  "trim_layers f i [] n = Some (Inr (), [])"
| "trim_layers f i (c # cs) n =
     do { (r, c') \<leftarrow> detached_trim_to f c n;
          case r of
            Inl e \<Rightarrow> Some (Inl (i, e), c' # cs)
          | Inr _ \<Rightarrow> do { (r', cs') \<leftarrow> trim_layers f (Suc i) cs n; Some (r', c' # cs') } }"

datatype truncate_error = SetNegativeLen int | SetLenExceeds int int | LayerTrim nat trim_error

definition truncate_to ::
  "'a mlx_ffi \<Rightarrow> 'a detached_cache_set \<Rightarrow> int \<Rightarrow> ((truncate_error + unit) \<times> 'a detached_cache_set) option" where
  "truncate_to f s n =
     (if n < 0 then Some (Inl (SetNegativeLen n), s)
      else case ds_caches s of
        [] \<Rightarrow> Some (Inr (), s\<lparr>ds_current_offset := n, ds_prompt_len := min (nat n) (ds_prompt_len s)\<rparr>)
      | c # _ \<Rightarrow>
          if n = offset c then Some (Inr (), s)
          else if n > offset c then Some (Inl (SetLenExceeds n (offset c)), s)
          else do {
            (r, cs') \<leftarrow> trim_layers f 0 (ds_caches s) n;
            case r of
              Inl (i, e) \<Rightarrow> Some (Inl (LayerTrim i e), s\<lparr>ds_caches := cs'\<rparr>)
            | Inr _ \<Rightarrow> Some (Inr (), s\<lparr>ds_caches := cs', ds_current_offset := n,
                                       ds_prompt_len := min (nat n) (ds_prompt_len s)\<rparr>) })"

datatype set_error = NoLayers | LayerCount nat nat | LayersDisagree "int list" | LayerInvalid nat validate_error

fun validate_layers ::
  "'a mlx_ffi \<Rightarrow> nat \<Rightarrow> ('a detached_kv_cache \<times> kv_cache_mode) list \<Rightarrow> nat \<Rightarrow> expected_cache_geometry
   \<Rightarrow> set_error + unit" where
  "validate_layers f i [] vb g = Inr ()"
| "validate_layers f i ((c, m) # rest) vb g =
     (case validate_for f c m vb g of
        Inl e \<Rightarrow> Inl (LayerInvalid i e)
      | Inr _ \<Rightarrow> validate_layers f (Suc i) rest vb g)"

definition set_validate_for ::
  "'a mlx_ffi \<Rightarrow> 'a detached_cache_set \<Rightarrow> kv_cache_mode list \<Rightarrow> nat \<Rightarrow> expected_cache_geometry
   \<Rightarrow> set_error + unit" where
  "set_validate_for f s ms vb g =
     (if ds_caches s = [] then Inl NoLayers
      else if length (ds_caches s) \<noteq> length ms then Inl (LayerCount (length (ds_caches s)) (length ms))
      else if \<not> has_consistent_seq_len s then Inl (LayersDisagree (map offset (ds_caches s)))
      else validate_layers f 0 (zip (ds_caches s) ms) vb g)"

end
