(* ===== verification/Kv_Trim.thy ===== *)
theory Kv_Trim
  imports Kv_Detach
begin

text \<open>
  What trimming and detaching do to a valid handle. The central fact: a handle that passes the
  adopt-time validation still passes it after \<open>trim_to\<close>, in every quantisation mode, so trimming a
  prompt-cache entry to a shorter prefix never produces a handle that adoption would have to
  refuse (or would misread).
\<close>

section \<open>Tensors of a given layout\<close>

definition is_tensor :: "'a mlx_ffi \<Rightarrow> int \<Rightarrow> int \<Rightarrow> int \<Rightarrow> int \<Rightarrow> 'a \<Rightarrow> bool" where
  "is_tensor f dt heads n last_dim a \<longleftrightarrow> array_shape f a = [1, heads, n, last_dim] \<and> array_dtype f a = dt"

lemma is_tensor_iff:
  "is_tensor f dt heads n last_dim a \<Longrightarrow>
   is_tensor f dt' heads' m last_dim' a \<longleftrightarrow> dt' = dt \<and> heads' = heads \<and> m = n \<and> last_dim' = last_dim"
  by (auto simp: is_tensor_def)

lemma length_4_conv: "length xs = 4 \<longleftrightarrow> (\<exists>a b c d. xs = [a, b, c, d])"
  by (auto simp: eval_nat_numeral length_Suc_conv)

lemma check_tensor_eq [simp]:
  "check_tensor f role a dt heads last_dim = Inr n \<longleftrightarrow> is_tensor f dt heads n last_dim a"
proof (cases "length (array_shape f a) = 4")
  case True
  then obtain s0 s1 s2 s3 where s: "array_shape f a = [s0, s1, s2, s3]" unfolding length_4_conv by blast
  then show ?thesis by (auto simp: check_tensor_def is_tensor_def Let_def)
next
  case False
  then show ?thesis by (auto simp: check_tensor_def is_tensor_def Let_def)
qed

lemma require_present_eq [simp]: "require_present role t = Inr a \<longleftrightarrow> t = Some a"
  by (simp add: require_present_def split: option.splits)

lemma require_absent_eq [simp]: "require_absent role t = Inr u \<longleftrightarrow> t = None"
  by (simp add: require_absent_def)

lemma require_all_absent_eq [simp]: "require_all_absent xs = Inr u \<longleftrightarrow> (\<forall>x \<in> set xs. snd x = None)"
  by (induction xs rule: require_all_absent.induct) (auto simp: and_then_eq_Inr)

lemma require_presence_eq [simp]:
  "require_presence b xs = Inr u \<longleftrightarrow> (\<forall>x \<in> set xs. (snd x \<noteq> None) = b)"
  by (induction b xs rule: require_presence.induct) (auto simp: and_then_eq_Inr)

lemma covers_offset_eq [simp]: "covers_offset role off cap = Inr u \<longleftrightarrow> off \<le> cap"
  by (simp add: covers_offset_def)

lemma check_field_eq [simp]:
  "check_field f role t dt heads last_dim = Inr n \<longleftrightarrow> (\<exists>a. t = Some a \<and> is_tensor f dt heads n last_dim a)"
  by (simp add: check_field_def and_then_eq_Inr)

lemma check_if_present_eq [simp]:
  "check_if_present f role t dt heads last_dim k = Inr u \<longleftrightarrow>
     (\<forall>a. t = Some a \<longrightarrow> (\<exists>n. is_tensor f dt heads n last_dim a \<and> k n = Inr ()))"
  by (cases t) (auto simp: check_if_present_def and_then_eq_Inr)

lemma check_hist_len_eq [simp]:
  "check_hist_len f role t dt heads last_dim n = Inr u \<longleftrightarrow> (\<exists>a. t = Some a \<and> is_tensor f dt heads n last_dim a)"
  by (auto simp: check_hist_len_def and_then_eq_Inr)

lemma check_tiles_eq [simp]:
  "check_tiles f role t heads last_dim n = Inr u \<longleftrightarrow> (\<exists>a. t = Some a \<and> is_tensor f FLOAT32 heads n last_dim a)"
  by (auto simp: check_tiles_def and_then_eq_Inr)

text \<open>Slicing a tensor of a known layout to a shorter prefix.\<close>

lemma slice_seq_tensor:
  assumes "slice_law f" "is_tensor f dt heads n last_dim a" "0 \<le> k" "k \<le> n"
  shows "\<exists>a'. slice_seq f 0 k a = Some a' \<and> is_tensor f dt heads k last_dim a'"
  using assms slice_lawD [of f a 1 heads n last_dim k]
  by (auto simp: slice_seq_def dim_def is_tensor_def)

lemma slice_seq_w1_tensor:
  assumes "slice_law f" "is_tensor f dt heads n 1 a" "0 \<le> k" "k \<le> n"
  shows "\<exists>a'. slice_seq_w1 f 0 k a = Some a' \<and> is_tensor f dt heads k 1 a'"
  using assms slice_lawD [of f a 1 heads n 1 k]
  by (auto simp: slice_seq_w1_def dim_def is_tensor_def)

lemma trim_axis_seq_None [simp]: "trim_axis_seq f n None t = Some None"
  by (simp add: trim_axis_seq_def opt_tensor_def)

lemma opt_tensor_None [simp]: "opt_tensor g None = Some None"
  by (simp add: opt_tensor_def)

lemma opt_tensor_slice:
  assumes "slice_law f" "is_tensor f dt heads n last_dim a" "0 \<le> k" "k \<le> n"
  shows "\<exists>a'. opt_tensor (slice_seq f 0 k) (Some a) = Some (Some a') \<and> is_tensor f dt heads k last_dim a'"
  using slice_seq_tensor [OF assms] by (auto simp: opt_tensor_def)

lemma opt_tensor_slice_w1:
  assumes "slice_law f" "is_tensor f dt heads n 1 a" "0 \<le> k" "k \<le> n"
  shows "\<exists>a'. opt_tensor (slice_seq_w1 f 0 k) (Some a) = Some (Some a') \<and> is_tensor f dt heads k 1 a'"
  using slice_seq_w1_tensor [OF assms] by (auto simp: opt_tensor_def)

lemma trim_axis_seq_0:
  assumes "slice_law f" "is_tensor f dt heads n last_dim a" "0 \<le> k" "k \<le> n"
  shows "\<exists>a'. trim_axis_seq f k (Some a) 0 = Some (Some a') \<and> is_tensor f dt heads k last_dim a'"
  using opt_tensor_slice [OF assms] by (simp add: trim_axis_seq_def)

lemma trim_axis_seq_1:
  assumes "slice_law f" "is_tensor f dt heads n 1 a" "0 \<le> k" "k \<le> n"
  shows "\<exists>a'. trim_axis_seq f k (Some a) 1 = Some (Some a') \<and> is_tensor f dt heads k 1 a'"
  using opt_tensor_slice_w1 [OF assms] by (simp add: trim_axis_seq_def)

text \<open>An optional sidecar: sliced when it is there.\<close>

lemma trim_axis_seq_opt:
  assumes "slice_law f" "\<forall>a. t = Some a \<longrightarrow> is_tensor f dt heads n 1 a" "0 \<le> k" "k \<le> n"
  shows "\<exists>t'. trim_axis_seq f k t 1 = Some t' \<and> (\<forall>a. t' = Some a \<longrightarrow> is_tensor f dt heads k 1 a)"
proof (cases t)
  case (Some a)
  then show ?thesis using trim_axis_seq_1 [OF assms(1) _ assms(3,4), of dt heads a] assms(2) by auto
qed simp

section \<open>Each mode keeps its layout\<close>

definition same_identity :: "'a detached_kv_cache \<Rightarrow> 'a detached_kv_cache \<Rightarrow> bool" where
  "same_identity d d' \<longleftrightarrow>
     m3_idx_k d' = m3_idx_k d \<and> m3_idx_offset d' = m3_idx_offset d \<and> mode d' = mode d
     \<and> kvarn_v_bits d' = kvarn_v_bits d"

lemma trim_fp16_valid:
  assumes law: "slice_law f" and v: "validate_fp16 f d g = Inr ()" and m: "mode d = Fp16"
    and n: "0 < n" "n < offset d"
  shows "\<exists>d'. detached_trim_dense f d n = Some d' \<and> validate_fp16 f (d'\<lparr>offset := n\<rparr>) g = Inr ()
    \<and> same_identity d d'"
proof -
  from v obtain k w t where kw: "keys d = Some k" "vals d = Some w"
    "is_tensor f (g_dtype g) (g_n_kv_heads g) t (g_k_head_dim g) k"
    "is_tensor f (g_dtype g) (g_n_kv_heads g) t (g_v_head_dim g) w" "offset d \<le> t"
    by (auto simp: validate_fp16_def and_then_eq_Inr)
  from n kw(5) have b: "0 \<le> n" "n \<le> t" by auto
  from trim_axis_seq_0 [OF law kw(3) b] trim_axis_seq_0 [OF law kw(4) b] kw(1,2) obtain k' w' where
    "trim_axis_seq f n (keys d) 0 = Some (Some k')" "trim_axis_seq f n (vals d) 0 = Some (Some w')"
    "is_tensor f (g_dtype g) (g_n_kv_heads g) n (g_k_head_dim g) k'"
    "is_tensor f (g_dtype g) (g_n_kv_heads g) n (g_v_head_dim g) w'" by auto
  then show ?thesis
    using v m by (auto simp: detached_trim_dense_def validate_fp16_def and_then_eq_Inr kvarn_fields_def same_identity_def)
qed

lemma trim_int8_valid:
  assumes law: "slice_law f" and v: "validate_int8 f d g = Inr ()" and m: "mode d = Int8"
    and n: "0 < n" "n < offset d"
  shows "\<exists>d'. detached_trim_dense f d n = Some d' \<and> validate_int8 f (d'\<lparr>offset := n\<rparr>) g = Inr ()
    \<and> same_identity d d'"
proof -
  from v obtain k w ks vs t where kw: "keys d = Some k" "vals d = Some w"
    "key_scales d = Some ks" "val_scales d = Some vs"
    "is_tensor f INT8 (g_n_kv_heads g) t (g_k_head_dim g) k"
    "is_tensor f INT8 (g_n_kv_heads g) t (g_v_head_dim g) w"
    "is_tensor f FLOAT16 (g_n_kv_heads g) t 1 ks" "is_tensor f FLOAT16 (g_n_kv_heads g) t 1 vs" "offset d \<le> t"
    by (auto simp: validate_int8_def and_then_eq_Inr)
  from n kw(9) have b: "0 \<le> n" "n \<le> t" by auto
  from trim_axis_seq_0 [OF law kw(5) b] trim_axis_seq_0 [OF law kw(6) b]
    trim_axis_seq_1 [OF law kw(7) b] trim_axis_seq_1 [OF law kw(8) b] kw(1-4)
  obtain k' w' ks' vs' where
    "trim_axis_seq f n (keys d) 0 = Some (Some k')" "trim_axis_seq f n (vals d) 0 = Some (Some w')"
    "trim_axis_seq f n (key_scales d) 1 = Some (Some ks')" "trim_axis_seq f n (val_scales d) 1 = Some (Some vs')"
    "is_tensor f INT8 (g_n_kv_heads g) n (g_k_head_dim g) k'"
    "is_tensor f INT8 (g_n_kv_heads g) n (g_v_head_dim g) w'"
    "is_tensor f FLOAT16 (g_n_kv_heads g) n 1 ks'" "is_tensor f FLOAT16 (g_n_kv_heads g) n 1 vs'" by auto
  then show ?thesis
    using v m by (auto simp: detached_trim_dense_def validate_int8_def and_then_eq_Inr kvarn_fields_def same_identity_def)
qed

lemma trim_turbo_asym_valid:
  assumes law: "slice_law f" and v: "validate_turbo_asym f d m g = Inr ()" and m: "mode d = m"
    and ma: "m \<in> {Turbo4Asym, Turbo3Asym}" and n: "0 < n" "n < offset d"
  shows "\<exists>d'. detached_trim_dense f d n = Some d' \<and> validate_turbo_asym f (d'\<lparr>offset := n\<rparr>) m g = Inr ()
    \<and> same_identity d d'"
proof -
  define pd where "pd = (if m = Turbo4Asym then g_v_head_dim g div 2 else g_v_head_dim g * 3 div 8)"
  from v obtain k vp vn t where kw: "keys d = Some k" "v_packed d = Some vp" "v_norms d = Some vn"
    "is_tensor f FLOAT16 (g_n_kv_heads g) t (g_k_head_dim g) k"
    "is_tensor f UINT8 (g_n_kv_heads g) t pd vp"
    "is_tensor f FLOAT16 (g_n_kv_heads g) t 1 vn" "offset d \<le> t"
    "\<forall>a. v_rescale d = Some a \<longrightarrow> is_tensor f FLOAT16 (g_n_kv_heads g) t 1 a"
    by (auto simp: validate_turbo_asym_def and_then_eq_Inr pd_def split: if_splits)
  from n kw(7) have b: "0 \<le> n" "n \<le> t" by auto
  from trim_axis_seq_0 [OF law kw(4) b] trim_axis_seq_0 [OF law kw(5) b]
    trim_axis_seq_1 [OF law kw(6) b] trim_axis_seq_opt [OF law kw(8) b] kw(1-3)
  obtain k' vp' vn' vr' where
    "trim_axis_seq f n (keys d) 0 = Some (Some k')" "trim_axis_seq f n (v_packed d) 0 = Some (Some vp')"
    "trim_axis_seq f n (v_norms d) 1 = Some (Some vn')" "trim_axis_seq f n (v_rescale d) 1 = Some vr'"
    "is_tensor f FLOAT16 (g_n_kv_heads g) n (g_k_head_dim g) k'"
    "is_tensor f UINT8 (g_n_kv_heads g) n pd vp'"
    "is_tensor f FLOAT16 (g_n_kv_heads g) n 1 vn'"
    "\<forall>a. vr' = Some a \<longrightarrow> is_tensor f FLOAT16 (g_n_kv_heads g) n 1 a" by auto
  then show ?thesis
    using v m ma by (auto simp: detached_trim_dense_def validate_turbo_asym_def and_then_eq_Inr kvarn_fields_def
        same_identity_def pd_def split: if_splits)
qed

lemma trim_turbo4_valid:
  assumes law: "slice_law f" and v: "validate_turbo4 f d g = Inr ()" and m: "mode d = Turbo4"
    and n: "0 < n" "n < offset d"
  shows "\<exists>d'. detached_trim_dense f d n = Some d' \<and> validate_turbo4 f (d'\<lparr>offset := n\<rparr>) g = Inr ()
    \<and> same_identity d d'"
proof -
  from v obtain kp kn vp vn t where kw: "k_packed d = Some kp" "k_norms d = Some kn"
    "v_packed d = Some vp" "v_norms d = Some vn"
    "is_tensor f UINT8 (g_n_kv_heads g) t (g_k_head_dim g div 2) kp"
    "is_tensor f FLOAT16 (g_n_kv_heads g) t 1 kn"
    "is_tensor f UINT8 (g_n_kv_heads g) t (g_v_head_dim g div 2) vp"
    "is_tensor f FLOAT16 (g_n_kv_heads g) t 1 vn" "offset d \<le> t"
    "\<forall>a. v_rescale d = Some a \<longrightarrow> is_tensor f FLOAT16 (g_n_kv_heads g) t 1 a"
    by (auto simp: validate_turbo4_def and_then_eq_Inr)
  from n kw(9) have b: "0 \<le> n" "n \<le> t" by auto
  from trim_axis_seq_0 [OF law kw(5) b] trim_axis_seq_0 [OF law kw(7) b]
    trim_axis_seq_1 [OF law kw(6) b] trim_axis_seq_1 [OF law kw(8) b] trim_axis_seq_opt [OF law kw(10) b] kw(1-4)
  obtain kp' kn' vp' vn' vr' where
    "trim_axis_seq f n (k_packed d) 0 = Some (Some kp')" "trim_axis_seq f n (v_packed d) 0 = Some (Some vp')"
    "trim_axis_seq f n (k_norms d) 1 = Some (Some kn')"
    "trim_axis_seq f n (v_norms d) 1 = Some (Some vn')" "trim_axis_seq f n (v_rescale d) 1 = Some vr'"
    "is_tensor f UINT8 (g_n_kv_heads g) n (g_k_head_dim g div 2) kp'"
    "is_tensor f FLOAT16 (g_n_kv_heads g) n 1 kn'"
    "is_tensor f UINT8 (g_n_kv_heads g) n (g_v_head_dim g div 2) vp'"
    "is_tensor f FLOAT16 (g_n_kv_heads g) n 1 vn'"
    "\<forall>a. vr' = Some a \<longrightarrow> is_tensor f FLOAT16 (g_n_kv_heads g) n 1 a" by auto
  then show ?thesis
    using v m by (auto simp: detached_trim_dense_def validate_turbo4_def and_then_eq_Inr kvarn_fields_def
        same_identity_def)
qed


text \<open>In \<open>Turbo4Delegated\<close> the validation does not compare \<open>v_rescale\<close> with the cold span, so that
  it covers the span is a separate condition.\<close>

definition rescale_covers_cold :: "'a mlx_ffi \<Rightarrow> 'a detached_kv_cache \<Rightarrow> bool" where
  "rescale_covers_cold f d \<longleftrightarrow>
     (\<forall>a. v_rescale d = Some a \<longrightarrow> cold_offset d \<le> array_shape f a ! 2)"

lemma opt_tensor_slice_w1_opt:
  assumes "slice_law f" "\<forall>a. t = Some a \<longrightarrow> (\<exists>n. is_tensor f dt heads n 1 a \<and> k \<le> n)" "0 \<le> k"
  shows "\<exists>t'. opt_tensor (slice_seq_w1 f 0 k) t = Some t' \<and> (\<forall>a. t' = Some a \<longrightarrow> is_tensor f dt heads k 1 a)"
proof (cases t)
  case (Some a)
  then obtain n where "is_tensor f dt heads n 1 a" "k \<le> n" using assms(2) by auto
  from opt_tensor_slice_w1 [OF assms(1) this(1) assms(3) this(2)] show ?thesis using Some by auto
qed simp

lemma trim_delegated_cold:
  assumes law: "slice_law f" and v: "validate_turbo4_delegated f d g = Inr ()"
    and vr: "rescale_covers_cold f d" and k: "0 < k" "k \<le> cold_offset d"
  shows "\<exists>vp vn vr. opt_tensor (slice_seq f 0 k) (v_packed d) = Some (Some vp)
    \<and> opt_tensor (slice_seq_w1 f 0 k) (v_norms d) = Some (Some vn)
    \<and> opt_tensor (slice_seq_w1 f 0 k) (v_rescale d) = Some vr
    \<and> is_tensor f UINT8 (g_n_kv_heads g) k (g_v_head_dim g div 2) vp
    \<and> is_tensor f FLOAT16 (g_n_kv_heads g) k 1 vn
    \<and> (\<forall>a. vr = Some a \<longrightarrow> is_tensor f FLOAT16 (g_n_kv_heads g) k 1 a)"
proof -
  from v k obtain vp vn p q where t: "v_packed d = Some vp" "v_norms d = Some vn"
    "is_tensor f UINT8 (g_n_kv_heads g) p (g_v_head_dim g div 2) vp"
    "is_tensor f FLOAT16 (g_n_kv_heads g) q 1 vn" "k \<le> p" "k \<le> q"
    by (force simp: validate_turbo4_delegated_def and_then_eq_Inr Let_def)
  have r: "\<forall>a. v_rescale d = Some a \<longrightarrow> (\<exists>n. is_tensor f FLOAT16 (g_n_kv_heads g) n 1 a \<and> k \<le> n)"
  proof (intro allI impI)
    fix a assume a: "v_rescale d = Some a"
    then obtain n where n: "is_tensor f FLOAT16 (g_n_kv_heads g) n 1 a"
      using v by (auto simp: validate_turbo4_delegated_def and_then_eq_Inr Let_def)
    then have "k \<le> n" using vr a k(2) by (auto simp: rescale_covers_cold_def is_tensor_def)
    with n show "\<exists>n. is_tensor f FLOAT16 (g_n_kv_heads g) n 1 a \<and> k \<le> n" by blast
  qed
  have "0 \<le> k" using k by simp
  from opt_tensor_slice [OF law t(3) this t(5)] opt_tensor_slice_w1 [OF law t(4) this t(6)]
    opt_tensor_slice_w1_opt [OF law r this] t(1,2)
  show ?thesis by auto
qed

lemma trim_delegated_values:
  assumes law: "slice_law f" and v: "validate_turbo4_delegated f d g = Inr ()" and n: "0 < n" "n < offset d"
    and visible: "visible = (if delegated_fp16_fast_path d then n else n - min (cold_offset d) n)"
  shows "\<exists>w. (case vals d of None \<Rightarrow> Some None
              | Some a \<Rightarrow> if visible > 0 then map_option Some (slice_seq f 0 visible a) else Some None) = Some w
    \<and> (case w of None \<Rightarrow> \<not> 0 < visible
       | Some a \<Rightarrow> is_tensor f FLOAT16 (g_n_kv_heads g) visible (g_v_head_dim g) a)"
proof (cases "vals d")
  case None
  then have "\<not> 0 < visible"
    using v n by (auto simp: validate_turbo4_delegated_def and_then_eq_Inr Let_def visible split: if_splits)
  then show ?thesis using None by simp
next
  case (Some a)
  then obtain c where c: "is_tensor f FLOAT16 (g_n_kv_heads g) c (g_v_head_dim g) a"
    "(if delegated_fp16_fast_path d then offset d else offset d - cold_offset d) \<le> c"
    using v by (auto simp: validate_turbo4_delegated_def and_then_eq_Inr Let_def)
  have "cold_offset d \<le> offset d"
    using v by (auto simp: validate_turbo4_delegated_def and_then_eq_Inr Let_def)
  then have "0 \<le> visible" "visible \<le> c" using c(2) n by (auto simp: visible min_def split: if_splits)
  from slice_seq_tensor [OF law c(1) this] show ?thesis using Some by auto
qed

lemma trim_delegated_valid:
  assumes law: "slice_law f" and v: "validate_turbo4_delegated f d g = Inr ()"
    and vr: "rescale_covers_cold f d" and n: "0 < n" "n < offset d"
  shows "\<exists>d'. detached_trim_delegated f d n = Some d' \<and> validate_turbo4_delegated f d' g = Inr ()
    \<and> same_identity d d' \<and> offset d' = n"
proof -
  define nc where "nc = min (cold_offset d) n"
  define vis where "vis = (if delegated_fp16_fast_path d then n else n - nc)"
  have cold: "0 \<le> cold_offset d" "cold_offset d \<le> offset d" "g_v_head_dim g mod 2 = 0"
    using v by (auto simp: validate_turbo4_delegated_def and_then_eq_Inr Let_def)
  from v obtain k t where k: "keys d = Some k" "is_tensor f FLOAT16 (g_n_kv_heads g) t (g_k_head_dim g) k" "offset d \<le> t"
    by (auto simp: validate_turbo4_delegated_def and_then_eq_Inr Let_def)
  have "0 \<le> n" "n \<le> t" using n k(3) by auto
  from trim_axis_seq_0 [OF law k(2) this] k(1) obtain k' where
    k': "trim_axis_seq f n (keys d) 0 = Some (Some k')" "is_tensor f FLOAT16 (g_n_kv_heads g) n (g_k_head_dim g) k'"
    by auto
  from trim_delegated_values [OF law v n vis_def [unfolded nc_def]] obtain w where
    w: "(case vals d of None \<Rightarrow> Some None
         | Some a \<Rightarrow> if vis > 0 then map_option Some (slice_seq f 0 vis a) else Some None) = Some w"
    "case w of None \<Rightarrow> \<not> 0 < vis | Some a \<Rightarrow> is_tensor f FLOAT16 (g_n_kv_heads g) vis (g_v_head_dim g) a" by blast
  have absent: "key_scales d = None" "val_scales d = None" "k_packed d = None" "k_norms d = None"
    "\<forall>x \<in> set (kvarn_fields d). snd x = None"
    using v by (auto simp: validate_turbo4_delegated_def and_then_eq_Inr Let_def)
  show ?thesis
  proof (cases "0 < nc")
    case False
    then have nc: "nc = 0" using cold n by (auto simp: nc_def)
    let ?d = "d\<lparr>keys := Some k', vals := w, v_packed := None, v_norms := None, v_rescale := None,
               cold_offset := nc, offset := n\<rparr>"
    have "detached_trim_delegated f d n = Some ?d"
      unfolding detached_trim_delegated_def Let_def nc_def [symmetric] vis_def [symmetric]
      using k'(1) w(1) False by simp
    moreover have "validate_turbo4_delegated f ?d g = Inr ()"
      using absent cold n k'(2) w(2) nc
      by (auto simp: validate_turbo4_delegated_def and_then_eq_Inr Let_def kvarn_fields_def vis_def
          split: option.splits if_splits)
    ultimately show ?thesis by (simp add: same_identity_def)
  next
    case True
    have nc_le: "nc \<le> cold_offset d" "nc \<le> n" by (simp_all add: nc_def)
    from trim_delegated_cold [OF law v vr True nc_le(1)] obtain vp vn vr' where c:
      "opt_tensor (slice_seq f 0 nc) (v_packed d) = Some (Some vp)"
      "opt_tensor (slice_seq_w1 f 0 nc) (v_norms d) = Some (Some vn)"
      "opt_tensor (slice_seq_w1 f 0 nc) (v_rescale d) = Some vr'"
      "is_tensor f UINT8 (g_n_kv_heads g) nc (g_v_head_dim g div 2) vp"
      "is_tensor f FLOAT16 (g_n_kv_heads g) nc 1 vn"
      "\<forall>a. vr' = Some a \<longrightarrow> is_tensor f FLOAT16 (g_n_kv_heads g) nc 1 a" by blast
    let ?d = "d\<lparr>keys := Some k', vals := w, v_packed := Some vp, v_norms := Some vn, v_rescale := vr',
               cold_offset := nc, offset := n\<rparr>"
    have "detached_trim_delegated f d n = Some ?d"
      unfolding detached_trim_delegated_def Let_def nc_def [symmetric] vis_def [symmetric]
      using k'(1) w(1) c(1-3) True by simp
    moreover have "validate_turbo4_delegated f ?d g = Inr ()"
      using absent cold n w(2) c(6) True nc_le
      by (auto simp: validate_turbo4_delegated_def and_then_eq_Inr Let_def kvarn_fields_def vis_def
          is_tensor_iff [OF k'(2)] is_tensor_iff [OF c(4)] is_tensor_iff [OF c(5)]
          split: option.splits if_splits)
    ultimately show ?thesis by (simp add: same_identity_def)
  qed
qed


text \<open>\<open>KVarN8\<close>: the dense trim leaves such a handle alone, then the cut falls into the sink, into the
  history (on a tile boundary) or into the tail.\<close>

lemma trim_dense_kvarn:
  assumes "validate_kvarn8 f d g = Inr ()" "mode d = KVarN8"
  shows "detached_trim_dense f d n = Some d"
  using assms by (auto simp: detached_trim_dense_def validate_kvarn8_def and_then_eq_Inr Let_def)

text \<open>A well-formed history of \<open>hl\<close> tokens.\<close>

definition history_ok :: "'a mlx_ffi \<Rightarrow> 'a detached_kv_cache \<Rightarrow> expected_cache_geometry \<Rightarrow> int \<Rightarrow> bool" where
  "history_ok f d g hl \<longleftrightarrow>
     kvarn_hist_k d \<noteq> None \<and> require_presence True (hist_group d) = Inr () \<and> check_v_s_row d True = Inr ()
     \<and> validate_kvarn_history f d g = Inr hl"

text \<open>An optional tensor that is present with the given layout.\<close>

definition has_tensor :: "'a mlx_ffi \<Rightarrow> int \<Rightarrow> int \<Rightarrow> int \<Rightarrow> int \<Rightarrow> 'a option \<Rightarrow> bool" where
  "has_tensor f dt heads n last_dim t \<longleftrightarrow> (\<exists>a. t = Some a \<and> is_tensor f dt heads n last_dim a)"

lemma validate_kvarn_history_eq:
  "validate_kvarn_history f d g = Inr hl \<longleftrightarrow>
     has_tensor f UINT8 (g_n_kv_heads g) hl (g_k_head_dim g) (kvarn_hist_k d)
     \<and> 0 < hl \<and> hl mod KVARN_TILE_TOKENS = 0
     \<and> has_tensor f FLOAT32 (g_n_kv_heads g) hl 1 (kvarn_k_scale d)
     \<and> has_tensor f FLOAT32 (g_n_kv_heads g) hl 1 (kvarn_k_zp d)
     \<and> has_tensor f FLOAT32 (g_n_kv_heads g) hl 1 (kvarn_k_s_row d)
     \<and> has_tensor f FLOAT32 (g_n_kv_heads g) (hl div KVARN_TILE_TOKENS) (g_k_head_dim g) (kvarn_k_s_col d)
     \<and> has_tensor f FLOAT32 (g_n_kv_heads g) (hl div KVARN_TILE_TOKENS) (g_v_head_dim g) (kvarn_v_s_col d)
     \<and> (if kvarn_v_bits d = 8 then
          has_tensor f UINT8 (g_n_kv_heads g) hl (g_v_head_dim g) (kvarn_hist_v d)
          \<and> has_tensor f FLOAT32 (g_n_kv_heads g) hl 1 (kvarn_v_scale d)
          \<and> has_tensor f FLOAT32 (g_n_kv_heads g) hl 1 (kvarn_v_zp d)
          \<and> has_tensor f FLOAT32 (g_n_kv_heads g) hl 1 (kvarn_v_s_row d)
        else
          g_v_head_dim g mod 8 = 0 \<and> g_v_head_dim g mod KVARN_V4_GROUP_SIZE = 0
          \<and> has_tensor f UINT32 (g_n_kv_heads g) hl (g_v_head_dim g div 8) (kvarn_hist_v d)
          \<and> has_tensor f FLOAT32 (g_n_kv_heads g) hl (g_v_head_dim g div KVARN_V4_GROUP_SIZE) (kvarn_v_scale d)
          \<and> has_tensor f FLOAT32 (g_n_kv_heads g) hl (g_v_head_dim g div KVARN_V4_GROUP_SIZE) (kvarn_v_zp d))"
  unfolding validate_kvarn_history_def has_tensor_def Let_def and_then_eq_Inr
  by (cases "kvarn_v_bits d = 8") (auto simp: and_then_eq_Inr)

lemma opt_tensor_slice_field:
  assumes "slice_law f" "has_tensor f dt heads n last_dim t" "0 \<le> k" "k \<le> n"
  shows "\<exists>t'. opt_tensor (slice_seq f 0 k) t = Some t' \<and> has_tensor f dt heads k last_dim t' \<and> t' \<noteq> None"
  using assms(2) opt_tensor_slice [OF assms(1) _ assms(3,4)] by (fastforce simp: has_tensor_def)

lemma has_tensor_present: "has_tensor f dt heads n last_dim t \<Longrightarrow> t \<noteq> None"
  by (auto simp: has_tensor_def)

definition dense_absent :: "'a detached_kv_cache \<Rightarrow> bool" where
  "dense_absent d \<longleftrightarrow>
     keys d = None \<and> vals d = None \<and> key_scales d = None \<and> val_scales d = None \<and> v_packed d = None
     \<and> v_norms d = None \<and> v_rescale d = None \<and> k_packed d = None \<and> k_norms d = None"

lemma slice_history_ok:
  assumes law: "slice_law f" and h: "history_ok f d g hl"
    and k: "0 < k" "k \<le> hl" "k mod KVARN_TILE_TOKENS = 0"
  shows "\<exists>d'. slice_history f d k = Some d' \<and> history_ok f d' g k \<and> same_identity d d'
    \<and> dense_absent d' = dense_absent d \<and> kvarn_sink_k d' = kvarn_sink_k d \<and> kvarn_sink_v d' = kvarn_sink_v d"
proof -
  have k0: "0 \<le> k" using k by simp
  have tiles: "0 \<le> k div KVARN_TILE_TOKENS" "k div KVARN_TILE_TOKENS \<le> hl div KVARN_TILE_TOKENS"
    using k by (auto simp: KVARN_TILE_TOKENS_def)
  note sl = opt_tensor_slice_field [OF law _ k0 k(2)] and slt = opt_tensor_slice_field [OF law _ tiles]
  note v = h [unfolded history_ok_def validate_kvarn_history_eq]
  have row: "\<exists>t'. opt_tensor (slice_seq f 0 k) (kvarn_v_s_row d) = Some t'
      \<and> (if kvarn_v_bits d = 8 then has_tensor f FLOAT32 (g_n_kv_heads g) k 1 t' else t' = None)"
  proof (cases "kvarn_v_bits d = 8")
    case True
    then show ?thesis using v sl [of FLOAT32 "g_n_kv_heads g" 1 "kvarn_v_s_row d"] by auto
  next
    case False
    then have "kvarn_v_s_row d = None" using v by (auto simp: check_v_s_row_def split: if_splits)
    then show ?thesis using False by simp
  qed
  have vals: "\<exists>t'. opt_tensor (slice_seq f 0 k) t = Some t' \<and> t' \<noteq> None
      \<and> (\<forall>dt ld. has_tensor f dt (g_n_kv_heads g) hl ld t \<longrightarrow> has_tensor f dt (g_n_kv_heads g) k ld t')"
    if "has_tensor f dt0 (g_n_kv_heads g) hl ld0 t" for t dt0 ld0
    using sl [OF that] that by (auto simp: has_tensor_def is_tensor_iff)
  have hv: "\<exists>dt ld. has_tensor f dt (g_n_kv_heads g) hl ld (kvarn_hist_v d)"
    "\<exists>dt ld. has_tensor f dt (g_n_kv_heads g) hl ld (kvarn_v_scale d)"
    "\<exists>dt ld. has_tensor f dt (g_n_kv_heads g) hl ld (kvarn_v_zp d)"
    using v by (auto split: if_splits)
  obtain hk where hk: "opt_tensor (slice_seq f 0 k) (kvarn_hist_k d) = Some hk"
    "has_tensor f UINT8 (g_n_kv_heads g) k (g_k_head_dim g) hk" "hk \<noteq> None" using v sl by blast
  obtain ksc where ksc: "opt_tensor (slice_seq f 0 k) (kvarn_k_scale d) = Some ksc"
    "has_tensor f FLOAT32 (g_n_kv_heads g) k 1 ksc" "ksc \<noteq> None" using v sl by blast
  obtain kzp where kzp: "opt_tensor (slice_seq f 0 k) (kvarn_k_zp d) = Some kzp"
    "has_tensor f FLOAT32 (g_n_kv_heads g) k 1 kzp" "kzp \<noteq> None" using v sl by blast
  obtain ksr where ksr: "opt_tensor (slice_seq f 0 k) (kvarn_k_s_row d) = Some ksr"
    "has_tensor f FLOAT32 (g_n_kv_heads g) k 1 ksr" "ksr \<noteq> None" using v sl by blast
  obtain kcol where kcol: "opt_tensor (slice_seq f 0 (k div KVARN_TILE_TOKENS)) (kvarn_k_s_col d) = Some kcol"
    "has_tensor f FLOAT32 (g_n_kv_heads g) (k div KVARN_TILE_TOKENS) (g_k_head_dim g) kcol" "kcol \<noteq> None"
    using v slt by blast
  obtain vcol where vcol: "opt_tensor (slice_seq f 0 (k div KVARN_TILE_TOKENS)) (kvarn_v_s_col d) = Some vcol"
    "has_tensor f FLOAT32 (g_n_kv_heads g) (k div KVARN_TILE_TOKENS) (g_v_head_dim g) vcol" "vcol \<noteq> None"
    using v slt by blast
  obtain hv' where hv': "opt_tensor (slice_seq f 0 k) (kvarn_hist_v d) = Some hv'" "hv' \<noteq> None"
    "\<forall>dt ld. has_tensor f dt (g_n_kv_heads g) hl ld (kvarn_hist_v d) \<longrightarrow> has_tensor f dt (g_n_kv_heads g) k ld hv'"
    using vals hv(1) by blast
  obtain vsc where vsc: "opt_tensor (slice_seq f 0 k) (kvarn_v_scale d) = Some vsc" "vsc \<noteq> None"
    "\<forall>dt ld. has_tensor f dt (g_n_kv_heads g) hl ld (kvarn_v_scale d) \<longrightarrow> has_tensor f dt (g_n_kv_heads g) k ld vsc"
    using vals hv(2) by blast
  obtain vzp where vzp: "opt_tensor (slice_seq f 0 k) (kvarn_v_zp d) = Some vzp" "vzp \<noteq> None"
    "\<forall>dt ld. has_tensor f dt (g_n_kv_heads g) hl ld (kvarn_v_zp d) \<longrightarrow> has_tensor f dt (g_n_kv_heads g) k ld vzp"
    using vals hv(3) by blast
  obtain vsr where vsr: "opt_tensor (slice_seq f 0 k) (kvarn_v_s_row d) = Some vsr"
    "if kvarn_v_bits d = 8 then has_tensor f FLOAT32 (g_n_kv_heads g) k 1 vsr else vsr = None"
    using row by blast
  let ?d = "d\<lparr>kvarn_hist_k := hk, kvarn_hist_v := hv', kvarn_k_scale := ksc, kvarn_k_zp := kzp,
      kvarn_k_s_row := ksr, kvarn_v_scale := vsc, kvarn_v_zp := vzp, kvarn_v_s_row := vsr,
      kvarn_k_s_col := kcol, kvarn_v_s_col := vcol\<rparr>"
  have "slice_history f d k = Some ?d"
    using hk(1) ksc(1) kzp(1) ksr(1) kcol(1) vcol(1) hv'(1) vsc(1) vzp(1) vsr(1)
    by (simp add: slice_history_def Let_def)
  moreover have "validate_kvarn_history f ?d g = Inr k"
    unfolding validate_kvarn_history_eq
    using v k hk(2) ksc(2) kzp(2) ksr(2) kcol(2) vcol(2) hv'(3) vsc(3) vzp(3) vsr(2) by (simp split: if_splits)
  moreover have "require_presence True (hist_group ?d) = Inr ()"
    using hk(3) ksc(3) kzp(3) ksr(3) kcol(3) vcol(3) hv'(2) vsc(2) vzp(2) by (simp add: hist_group_def)
  moreover have "check_v_s_row ?d True = Inr ()"
    using v vsr(2) has_tensor_present by (auto simp: check_v_s_row_def split: if_splits)
  ultimately show ?thesis using hk(3) by (simp add: history_ok_def same_identity_def dense_absent_def)
qed


definition no_history :: "'a detached_kv_cache \<Rightarrow> bool" where
  "no_history d \<longleftrightarrow>
     kvarn_hist_k d = None \<and> require_presence False (hist_group d) = Inr () \<and> check_v_s_row d False = Inr ()"

lemma validate_kvarn_tail_eq:
  "validate_kvarn_tail f d g = Inr tn \<longleftrightarrow>
     kvarn_tail_k d = None \<and> kvarn_tail_v d = None \<and> tn = 0
     \<or> has_tensor f FLOAT16 (g_n_kv_heads g) tn (g_k_head_dim g) (kvarn_tail_k d)
       \<and> has_tensor f FLOAT16 (g_n_kv_heads g) tn (g_v_head_dim g) (kvarn_tail_v d) \<and> 0 < tn"
  by (auto simp: validate_kvarn_tail_def has_tensor_def and_then_eq_Inr split: option.splits)

lemma validate_kvarn8_eq:
  "validate_kvarn8 f d g = Inr () \<longleftrightarrow>
     dense_absent d \<and> (\<exists>s hl tn.
       has_tensor f FLOAT16 (g_n_kv_heads g) s (g_k_head_dim g) (kvarn_sink_k d)
       \<and> has_tensor f FLOAT16 (g_n_kv_heads g) s (g_v_head_dim g) (kvarn_sink_v d)
       \<and> 0 < s \<and> s \<le> KVARN_TILE_TOKENS
       \<and> (no_history d \<and> hl = 0 \<or> history_ok f d g hl)
       \<and> validate_kvarn_tail f d g = Inr tn
       \<and> (kvarn_hist_k d \<noteq> None \<or> 0 < tn \<longrightarrow> s = KVARN_TILE_TOKENS)
       \<and> s + hl + tn = offset d)"
  unfolding validate_kvarn8_def dense_absent_def Let_def and_then_eq_Inr no_history_def history_ok_def has_tensor_def
  by (cases "kvarn_hist_k d") (auto simp: and_then_eq_Inr)

lemma trim_kvarn_sink:
  assumes law: "slice_law f" and v: "validate_kvarn8 f d g = Inr ()" and n: "0 < n" "n \<le> s"
    and sink: "opt_len f (kvarn_sink_k d) = Some s" "opt_len f (kvarn_hist_k d) \<noteq> None"
  shows "\<exists>d'. detached_trim_kvarn f d n = Some (Inr (), d') \<and> validate_kvarn8 f (d'\<lparr>offset := n\<rparr>) g = Inr ()
    \<and> same_identity d d'"
proof -
  from v obtain s' hl where s': "has_tensor f FLOAT16 (g_n_kv_heads g) s' (g_k_head_dim g) (kvarn_sink_k d)"
    "has_tensor f FLOAT16 (g_n_kv_heads g) s' (g_v_head_dim g) (kvarn_sink_v d)" "s' \<le> KVARN_TILE_TOKENS"
    "dense_absent d" "no_history d \<or> history_ok f d g hl"
    unfolding validate_kvarn8_eq by blast
  have "s' = s" using s'(1) sink(1) by (auto simp: has_tensor_def is_tensor_def opt_len_def dim_def)
  then have b: "0 \<le> n" "n \<le> s'" using n by auto
  from opt_tensor_slice_field [OF law s'(1) b] opt_tensor_slice_field [OF law s'(2) b] obtain sk sv where sl:
    "opt_tensor (slice_seq f 0 n) (kvarn_sink_k d) = Some sk"
    "opt_tensor (slice_seq f 0 n) (kvarn_sink_v d) = Some sv"
    "has_tensor f FLOAT16 (g_n_kv_heads g) n (g_k_head_dim g) sk"
    "has_tensor f FLOAT16 (g_n_kv_heads g) n (g_v_head_dim g) sv" by blast
  let ?d = "d\<lparr>kvarn_sink_k := sk, kvarn_sink_v := sv, kvarn_hist_k := None,
              kvarn_hist_v := None, kvarn_k_scale := None, kvarn_k_zp := None, kvarn_k_s_row := None,
              kvarn_k_s_col := None, kvarn_v_scale := None, kvarn_v_zp := None, kvarn_v_s_row := None,
              kvarn_v_s_col := None, kvarn_tail_k := None, kvarn_tail_v := None\<rparr>"
  have run: "detached_trim_kvarn f d n = Some (Inr (), ?d)"
    using sl(1,2) sink n by (auto simp: detached_trim_kvarn_def Let_def)
  have bits: "kvarn_v_bits d = 8 \<or> kvarn_v_bits d = 4"
    using s'(5) by (auto simp: no_history_def history_ok_def check_v_s_row_def split: if_splits)
  have "no_history (?d\<lparr>offset := n\<rparr>)"
    using bits by (auto simp: no_history_def hist_group_def check_v_s_row_def)
  moreover have "validate_kvarn_tail f (?d\<lparr>offset := n\<rparr>) g = Inr 0"
    by (simp add: validate_kvarn_tail_eq)
  ultimately have "validate_kvarn8 f (?d\<lparr>offset := n\<rparr>) g = Inr ()"
    unfolding validate_kvarn8_eq using s'(3,4) sl(3,4) n b
    by (intro conjI exI [of _ n] exI [of _ 0]) (auto simp: dense_absent_def)
  with run show ?thesis by (simp add: same_identity_def)
qed


text \<open>History and its absence do not look at the tail and the offset.\<close>

lemma history_frame [simp]:
  "history_ok f (d\<lparr>kvarn_tail_k := a, kvarn_tail_v := b\<rparr>) g hl = history_ok f d g hl"
  "history_ok f (d\<lparr>offset := n\<rparr>) g hl = history_ok f d g hl"
  "no_history (d\<lparr>kvarn_tail_k := a, kvarn_tail_v := b\<rparr>) = no_history d"
  "no_history (d\<lparr>offset := n\<rparr>) = no_history d"
  "validate_kvarn_tail f (d\<lparr>offset := n\<rparr>) g = validate_kvarn_tail f d g"
  by (simp_all add: history_ok_def no_history_def validate_kvarn_history_eq validate_kvarn_tail_def
      hist_group_def check_v_s_row_def)

lemma opt_len_tensor: "has_tensor f dt heads n last_dim t \<Longrightarrow> opt_len f t = Some n"
  by (auto simp: has_tensor_def is_tensor_def opt_len_def dim_def)

lemma history_len: "history_ok f d g hl \<Longrightarrow> opt_len f (kvarn_hist_k d) = Some hl \<and> 0 < hl \<and> hl mod KVARN_TILE_TOKENS = 0"
  by (auto simp: history_ok_def validate_kvarn_history_eq opt_len_tensor)

lemma no_history_len: "no_history d \<Longrightarrow> opt_len f (kvarn_hist_k d) = Some 0"
  by (simp add: no_history_def opt_len_def)

lemma trim_kvarn_history:
  assumes law: "slice_law f" and h: "history_ok f d g hl" and abs: "dense_absent d"
    and sink: "has_tensor f FLOAT16 (g_n_kv_heads g) KVARN_TILE_TOKENS (g_k_head_dim g) (kvarn_sink_k d)"
      "has_tensor f FLOAT16 (g_n_kv_heads g) KVARN_TILE_TOKENS (g_v_head_dim g) (kvarn_sink_v d)"
    and n: "KVARN_TILE_TOKENS < n" "n - KVARN_TILE_TOKENS < hl" "n mod KVARN_TILE_TOKENS = 0"
  shows "\<exists>d'. detached_trim_kvarn f d n = Some (Inr (), d') \<and> validate_kvarn8 f (d'\<lparr>offset := n\<rparr>) g = Inr ()
    \<and> same_identity d d'"
proof -
  let ?k = "n - KVARN_TILE_TOKENS"
  have k: "0 < ?k" "?k \<le> hl" "?k mod KVARN_TILE_TOKENS = 0" using n by (auto simp: KVARN_TILE_TOKENS_def)
  from slice_history_ok [OF law h k] obtain d1 where d1: "slice_history f d ?k = Some d1"
    "history_ok f d1 g ?k" "same_identity d d1"
    "dense_absent d1" "kvarn_sink_k d1 = kvarn_sink_k d" "kvarn_sink_v d1 = kvarn_sink_v d"
    using abs by blast
  let ?d = "d1\<lparr>kvarn_tail_k := None, kvarn_tail_v := None\<rparr>"
  have run: "detached_trim_kvarn f d n = Some (Inr (), ?d)"
    using d1(1) k n opt_len_tensor [OF sink(1)] history_len [OF h]
    by (simp add: detached_trim_kvarn_def Let_def min_def)
  have "validate_kvarn8 f (?d\<lparr>offset := n\<rparr>) g = Inr ()"
    unfolding validate_kvarn8_eq
    using d1(2,4,5,6) sink n
    by (intro conjI exI [of _ KVARN_TILE_TOKENS] exI [of _ ?k] exI [of _ 0])
      (auto simp: dense_absent_def validate_kvarn_tail_eq KVARN_TILE_TOKENS_def)
  with run show ?thesis using d1(3) by (simp add: same_identity_def)
qed


lemma trim_kvarn_tail:
  assumes law: "slice_law f" and h: "no_history d \<and> hl = 0 \<or> history_ok f d g hl" and abs: "dense_absent d"
    and sink: "has_tensor f FLOAT16 (g_n_kv_heads g) KVARN_TILE_TOKENS (g_k_head_dim g) (kvarn_sink_k d)"
      "has_tensor f FLOAT16 (g_n_kv_heads g) KVARN_TILE_TOKENS (g_v_head_dim g) (kvarn_sink_v d)"
    and t: "validate_kvarn_tail f d g = Inr tn"
    and n: "KVARN_TILE_TOKENS < n" "KVARN_TILE_TOKENS + hl \<le> n" "n < KVARN_TILE_TOKENS + hl + tn"
  shows "\<exists>d'. detached_trim_kvarn f d n = Some (Inr (), d') \<and> validate_kvarn8 f (d'\<lparr>offset := n\<rparr>) g = Inr ()
    \<and> same_identity d d'"
proof -
  let ?k = "n - KVARN_TILE_TOKENS - hl"
  have hl: "opt_len f (kvarn_hist_k d) = Some hl" "hl mod KVARN_TILE_TOKENS = 0"
    using h history_len [of f d g hl] no_history_len [of d f] by auto
  have tt: "has_tensor f FLOAT16 (g_n_kv_heads g) tn (g_k_head_dim g) (kvarn_tail_k d)"
    "has_tensor f FLOAT16 (g_n_kv_heads g) tn (g_v_head_dim g) (kvarn_tail_v d)"
    using t n by (auto simp: validate_kvarn_tail_eq)
  have b: "0 \<le> ?k" "?k \<le> tn" using n by auto
  from opt_tensor_slice_field [OF law tt(1) b] opt_tensor_slice_field [OF law tt(2) b] obtain tk tv where sl:
    "opt_tensor (slice_seq f 0 ?k) (kvarn_tail_k d) = Some tk"
    "opt_tensor (slice_seq f 0 ?k) (kvarn_tail_v d) = Some tv"
    "has_tensor f FLOAT16 (g_n_kv_heads g) ?k (g_k_head_dim g) tk"
    "has_tensor f FLOAT16 (g_n_kv_heads g) ?k (g_v_head_dim g) tv" by blast
  have hk: "min (n - KVARN_TILE_TOKENS) hl = hl" using n by auto
  define d' where "d' = (if ?k > 0 then d\<lparr>kvarn_tail_k := tk, kvarn_tail_v := tv\<rparr>
                        else d\<lparr>kvarn_tail_k := None, kvarn_tail_v := None\<rparr>)"
  have run: "detached_trim_kvarn f d n = Some (Inr (), d')"
    using sl(1,2) n hl opt_len_tensor [OF sink(1)]
    unfolding detached_trim_kvarn_def Let_def d'_def by (simp add: hk)
  have tail': "validate_kvarn_tail f d' g = Inr ?k"
    using sl(3,4) b(1) by (auto simp: validate_kvarn_tail_eq d'_def)
  have "validate_kvarn8 f (d'\<lparr>offset := n\<rparr>) g = Inr ()"
    unfolding validate_kvarn8_eq
    using sink h abs tail'
    by (intro conjI exI [of _ KVARN_TILE_TOKENS] exI [of _ hl] exI [of _ ?k])
      (auto simp: dense_absent_def KVARN_TILE_TOKENS_def d'_def)
  with run show ?thesis by (simp add: same_identity_def d'_def)
qed

lemma trim_kvarn_valid:
  assumes law: "slice_law f" and v: "validate_kvarn8 f d g = Inr ()"
    and n: "0 < n" "n < offset d" "n mod KVARN_TILE_TOKENS = 0"
  shows "\<exists>d'. detached_trim_kvarn f d n = Some (Inr (), d') \<and> validate_kvarn8 f (d'\<lparr>offset := n\<rparr>) g = Inr ()
    \<and> same_identity d d'"
proof -
  from v obtain s hl tn where w: "dense_absent d"
    "has_tensor f FLOAT16 (g_n_kv_heads g) s (g_k_head_dim g) (kvarn_sink_k d)"
    "has_tensor f FLOAT16 (g_n_kv_heads g) s (g_v_head_dim g) (kvarn_sink_v d)"
    "no_history d \<and> hl = 0 \<or> history_ok f d g hl" "validate_kvarn_tail f d g = Inr tn"
    "kvarn_hist_k d \<noteq> None \<or> 0 < tn \<longrightarrow> s = KVARN_TILE_TOKENS" "s + hl + tn = offset d"
    unfolding validate_kvarn8_eq by blast
  have hist: "opt_len f (kvarn_hist_k d) \<noteq> None"
    using w(4) history_len [of f d g hl] no_history_len [of d f] by auto
  show ?thesis
  proof (cases "n \<le> s")
    case True
    from trim_kvarn_sink [OF law v n(1) this opt_len_tensor [OF w(2)] hist] show ?thesis .
  next
    case False
    have "kvarn_hist_k d \<noteq> None \<or> 0 < tn"
    proof (cases "hl = 0")
      case True
      then show ?thesis using w(7) n(2) False by auto
    next
      case hl0: False
      then show ?thesis using w(4) by (auto simp: history_ok_def)
    qed
    then have s: "s = KVARN_TILE_TOKENS" using w(6) by blast
    have n': "KVARN_TILE_TOKENS < n" using False s by simp
    show ?thesis
    proof (cases "n - KVARN_TILE_TOKENS < hl")
      case True
      with w(4) n' have "history_ok f d g hl" by auto
      from trim_kvarn_history [OF law this w(1) w(2,3) [unfolded s] n' True n(3)] show ?thesis .
    next
      case ge: False
      then have "KVARN_TILE_TOKENS + hl \<le> n" "n < KVARN_TILE_TOKENS + hl + tn" using w(7) n(2) s by auto
      from trim_kvarn_tail [OF law w(4,1) w(2,3) [unfolded s] w(5) n' this] show ?thesis .
    qed
  qed
qed

section \<open>Trimming keeps validity\<close>

text \<open>The part of the validation that is specific to a mode.\<close>

definition validate_mode ::
  "'a mlx_ffi \<Rightarrow> 'a detached_kv_cache \<Rightarrow> kv_cache_mode \<Rightarrow> expected_cache_geometry \<Rightarrow> validate_error + unit" where
  "validate_mode f d m g =
     (case m of
         Fp16 \<Rightarrow> validate_fp16 f d g
       | Int8 \<Rightarrow> validate_int8 f d g
       | Turbo4Asym \<Rightarrow> validate_turbo_asym f d m g
       | Turbo3Asym \<Rightarrow> validate_turbo_asym f d m g
       | Turbo4 \<Rightarrow> validate_turbo4 f d g
       | Turbo4Delegated \<Rightarrow> validate_turbo4_delegated f d g
       | KVarN8 \<Rightarrow> validate_kvarn8 f d g)"

lemma validate_for_eq:
  "validate_for f d m vb g = Inr () \<longleftrightarrow> validate_common f d m vb g = Inr () \<and> validate_mode f d m g = Inr ()"
  by (simp add: validate_for_def validate_mode_def and_then_eq_Inr)

lemma validate_mode_m3 [simp]:
  "validate_mode f (d\<lparr>m3_idx_k := a, m3_idx_offset := b\<rparr>) m g = validate_mode f d m g"
  by (cases m) (simp_all add: validate_mode_def validate_fp16_def validate_int8_def validate_turbo_asym_def
      validate_turbo4_def validate_turbo4_delegated_def validate_kvarn8_def kvarn_fields_def hist_group_def
      check_v_s_row_def validate_kvarn_history_def validate_kvarn_tail_def Let_def cong: if_cong)


lemma detached_trim_mode_valid:
  assumes law: "slice_law f" and v: "validate_for f d m vb g = Inr ()" and n: "0 < n" "n < offset d"
    and tile: "m = KVarN8 \<Longrightarrow> n mod KVARN_TILE_TOKENS = 0"
    and vr: "m = Turbo4Delegated \<Longrightarrow> rescale_covers_cold f d"
  shows "\<exists>d'. (if mode d = Turbo4Delegated then map_option (Pair (Inr ())) (detached_trim_delegated f d n)
               else do {
                 d0 \<leftarrow> detached_trim_dense f d n;
                 (r, d1) \<leftarrow> (if mode d = KVarN8 then detached_trim_kvarn f d0 n else Some (Inr (), d0));
                 (case r of Inl e \<Rightarrow> Some (Inl e, d1) | Inr _ \<Rightarrow> Some (Inr (), d1\<lparr>offset := n\<rparr>)) })
              = Some (Inr (), d')
    \<and> validate_mode f d' m g = Inr () \<and> same_identity d d' \<and> offset d' = n"
proof -
  have m: "mode d = m" using v by (auto simp: validate_for_eq validate_common_def and_then_eq_Inr)
  have vm: "validate_mode f d m g = Inr ()" using v by (simp add: validate_for_eq)
  show ?thesis
  proof (cases m)
    case Fp16
    with trim_fp16_valid [OF law _ _ n, of g] vm m show ?thesis
      by (auto simp: validate_mode_def same_identity_def)
  next
    case Int8
    with trim_int8_valid [OF law _ _ n, of g] vm m show ?thesis
      by (auto simp: validate_mode_def same_identity_def)
  next
    case Turbo4Asym
    with trim_turbo_asym_valid [OF law _ m _ n, of g] vm m show ?thesis
      by (auto simp: validate_mode_def same_identity_def)
  next
    case Turbo3Asym
    with trim_turbo_asym_valid [OF law _ m _ n, of g] vm m show ?thesis
      by (auto simp: validate_mode_def same_identity_def)
  next
    case Turbo4
    with trim_turbo4_valid [OF law _ _ n, of g] vm m show ?thesis
      by (auto simp: validate_mode_def same_identity_def)
  next
    case Turbo4Delegated
    with trim_delegated_valid [OF law _ vr n, of g] vm m show ?thesis
      by (auto simp: validate_mode_def)
  next
    case KVarN8
    with trim_kvarn_valid [OF law _ n tile, of g] trim_dense_kvarn [of f d g n] vm m show ?thesis
      by (auto simp: validate_mode_def same_identity_def)
  qed
qed

lemma detached_trim_to_valid:
  assumes law: "slice_law f" and v: "validate_for f d m vb g = Inr ()" and n: "0 < n" "n \<le> offset d"
    and tile: "m = KVarN8 \<Longrightarrow> n mod KVARN_TILE_TOKENS = 0"
    and vr: "m = Turbo4Delegated \<Longrightarrow> rescale_covers_cold f d"
  shows "\<exists>d'. detached_trim_to f d n = Some (Inr (), d') \<and> validate_for f d' m vb g = Inr () \<and> offset d' = n"
proof (cases "n = offset d")
  case True
  then show ?thesis using v n by (simp add: detached_trim_to_def)
next
  case False
  then have n': "0 < n" "n < offset d" using n by auto
  from detached_trim_mode_valid [OF law v n' tile vr] obtain d1 where d1:
    "(if mode d = Turbo4Delegated then map_option (Pair (Inr ())) (detached_trim_delegated f d n)
      else do {
        d0 \<leftarrow> detached_trim_dense f d n;
        (r, d1) \<leftarrow> (if mode d = KVarN8 then detached_trim_kvarn f d0 n else Some (Inr (), d0));
        (case r of Inl e \<Rightarrow> Some (Inl e, d1) | Inr _ \<Rightarrow> Some (Inr (), d1\<lparr>offset := n\<rparr>)) })
     = Some (Inr (), d1)"
    "validate_mode f d1 m g = Inr ()" "same_identity d d1" "offset d1 = n" by blast
  have run: "detached_trim_to f d n =
      (case m3_idx_k d1 of
         None \<Rightarrow> Some (Inr (), d1)
       | Some idx \<Rightarrow> do { idx' \<leftarrow> slice_seq f 0 n idx;
                          Some (Inr (), d1\<lparr>m3_idx_k := Some idx', m3_idx_offset := n\<rparr>) })"
    using n' unfolding detached_trim_to_def d1(1) by simp
  have common: "validate_common f d m vb g = Inr ()" using v by (simp add: validate_for_eq)
  show ?thesis
  proof (cases "m3_idx_k d")
    case None
    then have "validate_common f d1 m vb g = Inr ()"
      using common d1(3,4) n' by (auto simp: validate_common_def and_then_eq_Inr same_identity_def)
    then show ?thesis using run None d1 by (simp add: same_identity_def validate_for_eq)
  next
    case (Some idx)
    obtain s0 s1 s3 where s: "array_shape f idx = [s0, s1, offset d, s3]"
      using common Some by (auto simp: validate_common_def and_then_eq_Inr length_4_conv)
    then have "slice_seq f 0 n idx = Some (slice f idx [0, 0, 0, 0] [s0, s1, n, s3])"
      "array_shape f (slice f idx [0, 0, 0, 0] [s0, s1, n, s3]) = [s0, s1, n, s3]"
      using slice_lawD [OF law s, of n] n by (auto simp: slice_seq_def dim_def)
    moreover from this have "validate_common f (d1\<lparr>m3_idx_k := Some (slice f idx [0, 0, 0, 0] [s0, s1, n, s3]),
        m3_idx_offset := n\<rparr>) m vb g = Inr ()"
      using common Some d1(3,4) n' by (auto simp: validate_common_def and_then_eq_Inr same_identity_def)
    ultimately show ?thesis using run Some d1 by (simp add: same_identity_def validate_for_eq)
  qed
qed


section \<open>Sets of layers\<close>

lemma validate_layers_eq:
  "validate_layers f i (zip cs ms) vb g = Inr () \<longleftrightarrow>
     (\<forall>(c, m) \<in> set (zip cs ms). validate_for f c m vb g = Inr ())"
proof (induction cs arbitrary: i ms)
  case (Cons c cs)
  then show ?case by (cases ms) (auto split: sum.splits)
qed simp

lemma trim_layers_valid:
  assumes law: "slice_law f" and len: "length cs = length ms"
    and v: "\<forall>(c, m) \<in> set (zip cs ms). validate_for f c m vb g = Inr () \<and> offset c = off
              \<and> (m = Turbo4Delegated \<longrightarrow> rescale_covers_cold f c)"
    and n: "0 < n" "n \<le> off" and tile: "KVarN8 \<in> set ms \<Longrightarrow> n mod KVARN_TILE_TOKENS = 0"
  shows "\<exists>cs'. trim_layers f i cs n = Some (Inr (), cs') \<and> length cs' = length cs
    \<and> (\<forall>(c, m) \<in> set (zip cs' ms). validate_for f c m vb g = Inr () \<and> offset c = n)"
  using len v tile
proof (induction cs arbitrary: ms i)
  case (Cons c cs)
  from Cons.prems(1) obtain m ms' where ms: "ms = m # ms'" by (cases ms) auto
  have c: "validate_for f c m vb g = Inr ()" "n \<le> offset c" "m = Turbo4Delegated \<longrightarrow> rescale_covers_cold f c"
    using Cons.prems(2) n ms by auto
  from detached_trim_to_valid [OF law c(1) n(1) c(2)] c(3) Cons.prems(3) ms obtain c' where
    c': "detached_trim_to f c n = Some (Inr (), c')" "validate_for f c' m vb g = Inr ()" "offset c' = n"
    by auto
  from Cons.IH [of ms' "Suc i"] Cons.prems ms obtain cs' where
    "trim_layers f (Suc i) cs n = Some (Inr (), cs')" "length cs' = length cs"
    "\<forall>(c, m) \<in> set (zip cs' ms'). validate_for f c m vb g = Inr () \<and> offset c = n" by auto
  then show ?case using c' ms by auto
qed simp

text \<open>When a set is valid for a model: what \<open>set_validate_for\<close> checks, layer by layer.\<close>

lemma set_validate_for_eq:
  "set_validate_for f s ms vb g = Inr () \<longleftrightarrow>
     ds_caches s \<noteq> [] \<and> length (ds_caches s) = length ms
     \<and> (\<forall>c \<in> set (ds_caches s). offset c = set_seq_len s)
     \<and> (\<forall>(c, m) \<in> set (zip (ds_caches s) ms). validate_for f c m vb g = Inr ())"
  by (cases "ds_caches s")
    (auto simp: set_validate_for_def has_consistent_seq_len_def set_seq_len_def list_all_iff
      validate_layers_eq [of f 0])

lemma zip_all_left:
  assumes "length xs = length ys" shows "(\<forall>(x, y) \<in> set (zip xs ys). P x) \<longleftrightarrow> (\<forall>x \<in> set xs. P x)"
  using assms by (induction xs ys rule: list_induct2) auto

lemma truncate_to_valid:
  assumes law: "slice_law f" and v: "set_validate_for f s ms vb g = Inr ()"
    and n: "0 < n" "n \<le> set_seq_len s"
    and tile: "KVarN8 \<in> set ms \<Longrightarrow> n mod KVARN_TILE_TOKENS = 0"
    and vr: "\<forall>(c, m) \<in> set (zip (ds_caches s) ms). m = Turbo4Delegated \<longrightarrow> rescale_covers_cold f c"
  shows "\<exists>s'. truncate_to f s n = Some (Inr (), s') \<and> set_validate_for f s' ms vb g = Inr ()
    \<and> set_seq_len s' = n \<and> ds_prompt_len s' \<le> ds_prompt_len s"
proof -
  obtain c cs where cs: "ds_caches s = c # cs" using v by (auto simp: set_validate_for_eq neq_Nil_conv)
  have off: "offset c = set_seq_len s" by (simp add: set_seq_len_def cs)
  show ?thesis
  proof (cases "n = set_seq_len s")
    case True
    then show ?thesis using v n cs off by (auto simp: truncate_to_def)
  next
    case False
    have all: "\<forall>(c, m) \<in> set (zip (ds_caches s) ms). validate_for f c m vb g = Inr () \<and> offset c = set_seq_len s
              \<and> (m = Turbo4Delegated \<longrightarrow> rescale_covers_cold f c)"
      using v vr by (auto simp: set_validate_for_eq dest: set_zip_leftD)
    have len: "length (ds_caches s) = length ms" using v by (simp add: set_validate_for_eq)
    from trim_layers_valid [OF law len all n tile, of 0] obtain cs' where cs':
      "trim_layers f 0 (ds_caches s) n = Some (Inr (), cs')" "length cs' = length (ds_caches s)"
      "\<forall>(c, m) \<in> set (zip cs' ms). validate_for f c m vb g = Inr () \<and> offset c = n" by blast
    have offs: "\<forall>c \<in> set cs'. offset c = n"
      using zip_all_left [of cs' ms "\<lambda>c. offset c = n"] cs'(2,3) len by auto
    moreover obtain c' rest where "cs' = c' # rest" using cs'(2) cs by (cases cs') auto
    ultimately have "set_validate_for f (s\<lparr>ds_caches := cs', ds_current_offset := n,
        ds_prompt_len := min (nat n) (ds_prompt_len s)\<rparr>) ms vb g = Inr ()"
      using cs'(2,3) len by (auto simp: set_validate_for_eq set_seq_len_def)
    then show ?thesis
      using cs' cs off False n offs by (auto simp: truncate_to_def set_seq_len_def split: list.splits)
  qed
qed

section \<open>Detach and install\<close>

lemma compact_no_op:
  "\<not> (mode c = Turbo4Delegated \<and> delegated_fp16_fast_path c \<and> cold_offset c < offset c \<and> vals c \<noteq> None) \<Longrightarrow>
   compact_turbo4_delegated_fp16_sidecars f c = Some (b, c') \<Longrightarrow> \<not> b \<and> c' = c"
  by (auto simp: compact_turbo4_delegated_fp16_sidecars_def split: if_splits)

lemma install_over_detached: "detached_part (install_over c d) = d"
  by (simp add: detached_part_def install_over_def detached_kv_cache.truncate_def detached_kv_cache.extend_def)

lemma install_over_simps [simp]:
  "v_packed (install_over c d) = v_packed d" "k_packed (install_over c d) = k_packed d"
  "mode (install_over c d) = mode d" "live_start (install_over c d) = live_start c"
  "paged_backing (install_over c d) = paged_backing c"
  by (simp_all add: install_over_def detached_kv_cache.extend_def kv_cache.fields_def)

lemma detached_part_params [simp]:
  "detached_part (c\<lparr>turbo_params := x\<rparr>) = detached_part c"
  "detached_part (c\<lparr>turbo3_params := y\<rparr>) = detached_part c"
  by (simp_all add: detached_part_def detached_kv_cache.truncate_def)


lemma install_detached_part:
  assumes "kv_is_empty c"
  shows "\<exists>c'. install_detached f c d = Some c' \<and> detached_part c' = d \<and> live_start c' = live_start c
    \<and> paged_backing c' = paged_backing c"
  using assms
  by (simp add: install_detached_def Let_def install_over_detached split: option.split)

lemma new_with_mode_empty: "kv_is_empty (new_with_mode fast policy m)"
  by (simp add: kv_is_empty_def new_with_mode_def new_with_mode_and_seed_def)

lemma clone_handle_exact:
  assumes c: "clone_handle f c = Some (h, c')"
    and fold: "\<not> (mode c = Turbo4Delegated \<and> delegated_fp16_fast_path c \<and> cold_offset c < offset c \<and> vals c \<noteq> None)"
    and m3: "\<forall>a. m3_idx_k c = Some a \<longrightarrow> dim f a 2 = Some (m3_idx_offset c)"
  shows "h = detached_part c \<and> kv_is_empty c' \<and> mode c' = mode c \<and> step c' = step c"
proof -
  obtain b c1 where comp: "compact_turbo4_delegated_fp16_sidecars f c = Some (b, c1)"
    using c by (cases "compact_turbo4_delegated_fp16_sidecars f c") (auto simp: clone_handle_def)
  then have c1: "c1 = c" using compact_no_op [OF fold] by blast
  have idx: "opt_tensor (\<lambda>buf. do { s2 \<leftarrow> dim f buf 2;
                 if s2 = m3_idx_offset c then Some buf else slice_seq f 0 (m3_idx_offset c) buf }) (m3_idx_k c)
             = Some (m3_idx_k c)"
    using m3 by (cases "m3_idx_k c") (auto simp: opt_tensor_def)
  have "(detached_part c)\<lparr>m3_idx_k := m3_idx_k c\<rparr> = detached_part c"
    by (simp add: detached_part_def detached_kv_cache.truncate_def)
  then show ?thesis
    using c comp c1 idx by (auto simp: clone_handle_def Let_def kv_is_empty_def)
qed


lemma opt_tensor_SomeD: "opt_tensor g t = Some t' \<Longrightarrow> (t' = None) = (t = None)"
  by (auto simp: opt_tensor_def split: option.splits)

text \<open>Outside \<open>KVarN8\<close> the live trim moves \<open>offset\<close> and leaves the indexer's offset alone.\<close>

definition same_marks :: "'a kv_cache \<Rightarrow> 'a kv_cache \<Rightarrow> bool" where
  "same_marks c c' \<longleftrightarrow> offset c' = offset c \<and> m3_idx_offset c' = m3_idx_offset c \<and> m3_idx_k c' = m3_idx_k c
     \<and> mode c' = mode c"

lemma trim_delegated_marks: "trim_delegated f c t = Some c' \<Longrightarrow> same_marks c c'"
  by (auto simp: trim_delegated_def Let_def bind_eq_Some_conv same_marks_def split: if_splits)

lemma if_Some_marks:
  assumes "(if b then X else Some c) = Some c'" "b \<Longrightarrow> X = Some c' \<Longrightarrow> same_marks c c'"
  shows "same_marks c c'"
  using assms by (auto simp: same_marks_def split: if_splits)

lemma same_marks_trans: "same_marks a b \<Longrightarrow> same_marks b c \<Longrightarrow> same_marks a c"
  by (simp add: same_marks_def)

lemma trim_plain_marks:
  assumes "trim_plain f c = Some c'" shows "same_marks c c'"
proof -
  let ?after = "offset c - live_start c"
  from assms obtain k v c2 c3 where
    c2: "(if mode c = Int8 then do {
            ks \<leftarrow> opt_tensor (slice_seq_w1 f 0 ?after) (key_scales c);
            vs \<leftarrow> opt_tensor (slice_seq_w1 f 0 ?after) (val_scales c);
            Some (c\<lparr>keys := k, vals := v, key_scales := ks, val_scales := vs\<rparr>) }
          else Some (c\<lparr>keys := k, vals := v\<rparr>)) = Some c2"
    and c3: "(if mode c \<in> {Turbo4Asym, Turbo4, Turbo3Asym} then do {
            vp \<leftarrow> opt_tensor (slice_seq f 0 (offset c)) (v_packed c);
            vn \<leftarrow> opt_tensor (slice_seq_w1 f 0 (offset c)) (v_norms c);
            vr \<leftarrow> opt_tensor (slice_seq_w1 f 0 (offset c)) (v_rescale c);
            Some (c2\<lparr>v_packed := vp, v_norms := vn, v_rescale := vr\<rparr>) } else Some c2) = Some c3"
    and c4: "(if mode c = Turbo4 then do {
            kp \<leftarrow> opt_tensor (slice_seq f 0 (offset c)) (k_packed c);
            kn \<leftarrow> opt_tensor (slice_seq_w1 f 0 (offset c)) (k_norms c);
            Some (c3\<lparr>k_packed := kp, k_norms := kn\<rparr>) } else Some c3) = Some c'"
    unfolding trim_plain_def Let_def bind_eq_Some_conv by blast
  have "same_marks c c2" using c2 by (auto simp: same_marks_def bind_eq_Some_conv split: if_splits)
  moreover have "same_marks c2 c3" using c3 by (rule if_Some_marks) (auto simp: same_marks_def bind_eq_Some_conv)
  moreover have "same_marks c3 c'" using c4 by (rule if_Some_marks) (auto simp: same_marks_def bind_eq_Some_conv)
  ultimately show ?thesis by (blast intro: same_marks_trans)
qed

lemma kv_trim_offsets:
  assumes "kv_trim f c n = Some (k, c')" "mode c \<noteq> KVarN8" "paged_backing c = None" "0 < n" "n \<le> live_len c"
  shows "offset c' = offset c - n \<and> m3_idx_offset c' = m3_idx_offset c \<and> m3_idx_k c' = m3_idx_k c"
proof -
  let ?deleg = "mode c = Turbo4Delegated"
  let ?hot = "if ?deleg then min n (offset c - cold_offset c) else 0"
  let ?cold = "if ?deleg then max (n - ?hot) 0 else 0"
  let ?c1 = "c\<lparr>offset := offset c - n, cold_offset := cold_offset c - ?cold\<rparr>"
  have mn: "min n (live_len c) = n" using assms(5) by simp
  have h: "\<not> n \<le> 0" "\<not> paged_backing c \<noteq> None" using assms(3,4) by auto
  have "kv_trim f c n = (if offset ?c1 - live_start ?c1 = 0 then Some (n, trim_drop_all ?c1)
      else map_option (Pair n) (if ?deleg then trim_delegated f ?c1 ?cold else trim_plain f ?c1))"
    unfolding kv_trim_def Let_def mn if_not_P [OF h(1)] if_not_P [OF h(2)] if_not_P [OF assms(2)] ..
  then have "(if offset ?c1 - live_start ?c1 = 0 then Some (n, trim_drop_all ?c1)
      else map_option (Pair n) (if ?deleg then trim_delegated f ?c1 ?cold else trim_plain f ?c1)) = Some (k, c')"
    using assms(1) by metis
  then have "c' = trim_drop_all ?c1 \<or> trim_delegated f ?c1 ?cold = Some c' \<or> trim_plain f ?c1 = Some c'"
    by (cases "offset ?c1 - live_start ?c1 = 0"; cases ?deleg) (simp_all del: detached_kv_cache.update_convs)
  then show ?thesis
    using trim_delegated_marks [of f ?c1 ?cold c'] trim_plain_marks [of f ?c1 c']
    by (auto simp: trim_drop_all_def same_marks_def)
qed

lemma detached_part_simps [simp]:
  "offset (detached_part c) = offset c" "m3_idx_k (detached_part c) = m3_idx_k c"
  "m3_idx_offset (detached_part c) = m3_idx_offset c" "mode (detached_part c) = mode c"
  by (simp_all add: detached_part_def detached_kv_cache.truncate_def)

section \<open>Properties\<close>

text \<open>A \<open>KVarN8\<close> handle for the witnesses: a full sink tile, two history tiles and a tail of 10 tokens.\<close>

definition demo_geometry :: expected_cache_geometry where
  "demo_geometry = \<lparr>g_n_kv_heads = 2, g_k_head_dim = 64, g_v_head_dim = 64, g_dtype = FLOAT16\<rparr>"

definition demo_empty :: "(int list \<times> int) detached_kv_cache" where
  "demo_empty = detached_part (new_with_mode False Predecode KVarN8)"

definition demo_handle :: "(int list \<times> int) detached_kv_cache" where
  "demo_handle = demo_empty\<lparr>offset := 394,
     kvarn_sink_k := Some ([1, 2, 128, 64], FLOAT16), kvarn_sink_v := Some ([1, 2, 128, 64], FLOAT16),
     kvarn_tail_k := Some ([1, 2, 10, 64], FLOAT16), kvarn_tail_v := Some ([1, 2, 10, 64], FLOAT16),
     kvarn_hist_k := Some ([1, 2, 256, 64], UINT8), kvarn_hist_v := Some ([1, 2, 256, 64], UINT8),
     kvarn_k_scale := Some ([1, 2, 256, 1], FLOAT32), kvarn_k_zp := Some ([1, 2, 256, 1], FLOAT32),
     kvarn_k_s_row := Some ([1, 2, 256, 1], FLOAT32), kvarn_k_s_col := Some ([1, 2, 2, 64], FLOAT32),
     kvarn_v_scale := Some ([1, 2, 256, 1], FLOAT32), kvarn_v_zp := Some ([1, 2, 256, 1], FLOAT32),
     kvarn_v_s_row := Some ([1, 2, 256, 1], FLOAT32), kvarn_v_s_col := Some ([1, 2, 2, 64], FLOAT32)\<rparr>"

lemmas demo_handle_eval =
  demo_handle_def demo_empty_def demo_geometry_def detached_part_def detached_kv_cache.truncate_def
  new_with_mode_def new_with_mode_and_seed_def

lemma demo_handle_fields:
  "offset demo_handle = 394" "m3_idx_k demo_handle = None" "mode demo_handle = KVarN8"
  by (simp_all add: demo_handle_eval)

lemma demo_handle_valid: "validate_for shape_ffi demo_handle KVarN8 8 demo_geometry = Inr ()"
proof -
  have "validate_common shape_ffi demo_handle KVarN8 8 demo_geometry = Inr ()"
    by (simp add: validate_common_def demo_handle_eval)
  moreover have "validate_kvarn8 shape_ffi demo_handle demo_geometry = Inr ()"
    by (simp add: validate_kvarn8_def demo_handle_eval hist_group_def check_v_s_row_def validate_kvarn_history_def
        validate_kvarn_tail_def check_field_def check_hist_len_def check_tiles_def KVARN_TILE_TOKENS_def
        check_tensor_def shape_ffi_def require_present_def require_absent_def)
  ultimately show ?thesis by (simp add: validate_for_def)
qed

text \<open>C14: Trimming a detached handle keeps it adoptable. In each of the seven cache modes, a handle
  that \<open>validate_for\<close> accepts is trimmed by \<open>trim_to\<close> without an error to exactly the requested
  length, and the result passes the same validation: every tensor and sidecar is cut in lockstep.
  The cut must fall on a tile for \<open>KVarN8\<close>, and for \<open>Turbo4Delegated\<close> the optional rescale sidecar must
  cover the cold span. \<open>slice_law\<close> is the documented shape of an MLX prefix slice.\<close>

theorem detached_trim_to_keeps_valid:
  assumes "slice_law f" "validate_for f d m vb g = Inr ()" "0 < n" "n \<le> offset d"
    "m = KVarN8 \<Longrightarrow> n mod KVARN_TILE_TOKENS = 0"
    "m = Turbo4Delegated \<Longrightarrow> rescale_covers_cold f d"
  shows "\<exists>d'. detached_trim_to f d n = Some (Inr (), d') \<and> validate_for f d' m vb g = Inr () \<and> offset d' = n"
  by (rule detached_trim_to_valid [OF assms])

theorem detached_trim_to_keeps_valid_witness:
  "\<exists>d'. detached_trim_to shape_ffi demo_handle 256 = Some (Inr (), d')
     \<and> validate_for shape_ffi d' KVarN8 8 demo_geometry = Inr () \<and> offset d' = 256"
  using detached_trim_to_keeps_valid [OF shape_ffi_slice_law demo_handle_valid, of 256]
  by (simp add: demo_handle_fields KVARN_TILE_TOKENS_def)

text \<open>The same for a whole set: when \<open>DetachedCacheSet::validate_for\<close> accepts a set, \<open>truncate_to\<close>
  cuts all layers to the new length, the truncated set is accepted again, and the recorded prompt
  length never grows.\<close>

lemma truncate_to_keeps_valid:
  assumes "slice_law f" "set_validate_for f s ms vb g = Inr ()" "0 < n" "n \<le> set_seq_len s"
    "KVarN8 \<in> set ms \<Longrightarrow> n mod KVARN_TILE_TOKENS = 0"
    "\<forall>(c, m) \<in> set (zip (ds_caches s) ms). m = Turbo4Delegated \<longrightarrow> rescale_covers_cold f c"
  shows "\<exists>s'. truncate_to f s n = Some (Inr (), s') \<and> set_validate_for f s' ms vb g = Inr ()
    \<and> set_seq_len s' = n \<and> ds_prompt_len s' \<le> ds_prompt_len s"
  by (rule truncate_to_valid [OF assms])

definition demo_set :: "(int list \<times> int) detached_cache_set" where
  "demo_set = \<lparr>ds_caches = [demo_handle, demo_handle], ds_backend = DenseKvCache, ds_prompt_len = 394,
     ds_current_offset = 394, ds_created_at = 0, ds_detached_at = 0, ds_origin_seq_id = 0\<rparr>"

lemma truncate_to_keeps_valid_demo:
  "\<exists>s'. truncate_to shape_ffi demo_set 256 = Some (Inr (), s')
     \<and> set_validate_for shape_ffi s' [KVarN8, KVarN8] 8 demo_geometry = Inr () \<and> set_seq_len s' = 256"
proof -
  have v: "set_validate_for shape_ffi demo_set [KVarN8, KVarN8] 8 demo_geometry = Inr ()"
    by (simp add: set_validate_for_eq demo_set_def demo_handle_valid set_seq_len_def)
  show ?thesis
    using truncate_to_keeps_valid [OF shape_ffi_slice_law v, of 256]
    by (auto simp: demo_set_def set_seq_len_def demo_handle_fields KVARN_TILE_TOKENS_def)
qed



text \<open>The live trim breaks the indexer lockstep that adoption demands. Outside \<open>KVarN8\<close>,
  \<open>KVCache::trim\<close> moves \<open>offset\<close> back but leaves \<open>m3_idx_offset\<close> where it was, so a cache that had
  both in lockstep yields, after any proper trim, a state that \<open>validate_for\<close> refuses.\<close>

lemma kv_trim_desyncs_indexer:
  assumes "kv_trim f c n = Some (k, c')" "mode c \<noteq> KVarN8" "paged_backing c = None" "0 < n" "n \<le> live_len c"
    and "m3_idx_k c = Some a" "m3_idx_offset c = offset c"
  shows "validate_for f (detached_part c') m vb g \<noteq> Inr ()"
  using kv_trim_offsets [OF assms(1-5)] assms(4,6,7)
  by (auto simp: validate_for_eq validate_common_def and_then_eq_Inr)

definition demo_m3_cache :: "(int list \<times> int) kv_cache" where
  "demo_m3_cache = (kv_new False Predecode)\<lparr>keys := Some ([1, 2, 8, 64], FLOAT16), vals := Some ([1, 2, 8, 64], FLOAT16),
     offset := 8, m3_idx_k := Some ([1, 1, 8, 32], FLOAT16), m3_idx_offset := 8\<rparr>"

lemma kv_trim_desyncs_indexer_demo:
  "\<exists>c'. kv_trim shape_ffi demo_m3_cache 3 = Some (3, c')
     \<and> validate_for shape_ffi (detached_part c') Fp16 8 demo_geometry \<noteq> Inr ()"
proof -
  obtain c' where run: "kv_trim shape_ffi demo_m3_cache 3 = Some (3, c')"
    by (simp add: kv_trim_def demo_m3_cache_def kv_new_def new_with_mode_and_seed_def live_len_def trim_plain_def
        opt_tensor_def slice_seq_def dim_def shape_ffi_def Let_def)
  show ?thesis
    using run kv_trim_desyncs_indexer [OF run]
    by (simp add: demo_m3_cache_def kv_new_def new_with_mode_and_seed_def live_len_def)
qed

end
