(* ===== verification/Paged_Sequences.thy ===== *)
theory Paged_Sequences
  imports Paged_Pool
begin

text \<open>
  Sequences over the paged block pool: the references a block table holds, when a table fits the
  pool, and what \<open>append_tokens\<close>, \<open>trim_tokens\<close>, \<open>release_sequence\<close> and \<open>restore_sequence\<close> of
  \<open>src/src/lib/mlxcel-core/src/cache/paged.rs\<close> do to both. All statements are relative to a
  multiset \<open>R\<close> of references held by everybody else, which the operations leave alone.
\<close>

section \<open>Sequences over the pool\<close>

text \<open>A block table fits its layer: enough blocks for the tokens, every block tagged with the
  layer, the logical start within the tokens. A sequence fits the pool when all its layers do.\<close>

definition layer_ok :: "'a paged_block_pool \<Rightarrow> nat \<Rightarrow> paged_layer_state \<Rightarrow> bool" where
  "layer_ok p l ly \<longleftrightarrow>
     logical_start ly \<le> len ly
     \<and> div_ceil (len ly) (block_size (layout p)) \<le> length (block_ids ly)
     \<and> (\<forall>b \<in> set (block_ids ly). pool_layer_of p b = Some l)"

definition seq_ok :: "'a paged_block_pool \<Rightarrow> paged_sequence_state \<Rightarrow> bool" where
  "seq_ok p st \<longleftrightarrow>
     seq_block_size st = block_size (layout p) \<and> length (layers st) = num_layers (layout p)
     \<and> (\<forall>l < num_layers (layout p). layer_ok p l (layers st ! l))"

lemma sum_list_update_add:
  fixes f :: "'b \<Rightarrow> 'c::comm_monoid_add"
  assumes "l < length xs"
  shows "(\<Sum>y \<leftarrow> xs[l := x]. f y) + f (xs ! l) = (\<Sum>y \<leftarrow> xs. f y) + f x"
  using assms
proof (induction xs arbitrary: l)
  case (Cons y ys)
  then show ?case
    by (cases l) (auto simp: ac_simps)
qed simp

lemma seq_refs_set_layer:
  assumes "l < length (layers st)"
  shows "seq_refs (set_layer st l ly) + mset (block_ids (layers st ! l)) = seq_refs st + mset (block_ids ly)"
  using sum_list_update_add [OF assms, of "\<lambda>ly. mset (block_ids ly)" ly] by (simp add: seq_refs_def)

lemma seq_refs_layer_subset:
  "l < length (layers st) \<Longrightarrow> mset (block_ids (layers st ! l)) \<subseteq># seq_refs st"
  using seq_refs_set_layer [of l st "(layers st ! l)\<lparr>block_ids := []\<rparr>"]
  by simp (metis mset_subset_eq_add_right)

lemma seq_refs_take_layer:
  assumes l: "l < length (layers st)" and ly: "block_ids ly = take n (block_ids (layers st ! l))"
  shows "seq_refs (set_layer st l ly) + mset (drop n (block_ids (layers st ! l))) = seq_refs st"
proof -
  let ?T = "mset (take n (block_ids (layers st ! l)))" and ?D = "mset (drop n (block_ids (layers st ! l)))"
  have "mset (block_ids (layers st ! l)) = ?D + ?T"
    by (metis append_take_drop_id mset_append union_commute)
  then have "(seq_refs (set_layer st l ly) + ?D) + ?T = seq_refs st + ?T"
    using seq_refs_set_layer [OF l, of ly] ly by (simp add: union_assoc)
  then show ?thesis by simp
qed

lemma seq_refs_layerD:
  "l < length (layers st) \<Longrightarrow> b \<in> set (block_ids (layers st ! l)) \<Longrightarrow> b \<in># seq_refs st"
  using seq_refs_layer_subset by (metis mset_subset_eqD set_mset_mset)

lemma seq_ok_cong:
  assumes "layout p' = layout p" "\<forall>b \<in># seq_refs st. pool_layer_of p' b = pool_layer_of p b"
  shows "seq_ok p' st \<longleftrightarrow> seq_ok p st"
  using assms seq_refs_layerD [of _ st] unfolding seq_ok_def layer_ok_def by auto

lemma seq_ok_set_layer:
  "seq_ok p st \<Longrightarrow> layer_ok p l ly \<Longrightarrow> seq_ok p (set_layer st l ly)"
  unfolding seq_ok_def by (cases "l < length (layers st)") (auto simp: nth_list_update)

lemma append_tokens_owned:
  assumes own: "pool_owned p (R + seq_refs st)" and ok: "seq_ok p st"
    and room: "next_block_id p + div_ceil (len (layers st ! l) + n) (block_size (layout p)) \<le> u64_max"
    and app: "append_tokens p st l n = (r, st', p')"
  shows "pool_owned p' (R + seq_refs st') \<and> seq_ok p' st' \<and> layout p' = layout p
    \<and> (\<forall>b \<in># R. pool_layer_of p' b = pool_layer_of p b)
    \<and> next_block_id p' \<le> next_block_id p + div_ceil (len (layers st ! l) + n) (block_size (layout p))
    \<and> (\<exists>new. st' = (if l < length (layers st)
                    then set_layer st l ((layers st ! l)\<lparr>block_ids := block_ids (layers st ! l) @ new,
                           len := len (layers st ! l) + (if r = Inr () then n else 0)\<rparr>) else st)
          \<and> distinct new \<and> (\<forall>b \<in> set new. b \<notin># R + seq_refs st))"
proof (cases "l < length (layers st) \<and> n \<noteq> 0")
  case False
  then have "st' = st" "p' = p" "r = Inr () \<longrightarrow> n = 0 \<and> l < length (layers st)"
    using app by (auto simp: append_tokens_def split: if_splits)
  then show ?thesis using own ok by (auto intro!: exI [of _ "[]"])
next
  case True
  let ?ly = "layers st ! l"
  let ?req = "div_ceil (len ?ly + n) (block_size (layout p))"
  obtain r' ids q where acq: "acquire_until p l (block_ids ?ly) ?req = (r', ids, q)"
    by (cases "acquire_until p l (block_ids ?ly) ?req") auto
  have "next_block_id p + (?req - length (block_ids ?ly)) \<le> u64_max" using room by simp
  from acquire_until_owned [OF own this acq] obtain new where new:
    "ids = block_ids ?ly @ new" "pool_owned q (R + seq_refs st + mset new)" "distinct new"
    "\<forall>b \<in> set new. b \<notin># R + seq_refs st" "length ids \<le> max (length (block_ids ?ly)) ?req"
    "r' = Inr () \<longrightarrow> length ids = max (length (block_ids ?ly)) ?req"
    "layout q = layout p" "next_block_id q \<le> next_block_id p + length new"
    "\<forall>b \<in> set new. pool_layer_of q b = Some l"
    "\<forall>b. b \<notin> set new \<longrightarrow> pool_layer_of q b = pool_layer_of p b"
    by blast
  let ?ly' = "?ly\<lparr>block_ids := ids, len := len ?ly + (if r' = Inr () then n else 0)\<rparr>"
  have res: "r = r'" "st' = set_layer st l ?ly'" "p' = q"
    using app acq True by (auto simp: append_tokens_def Let_def split: sum.splits)
  have "seq_refs st' = seq_refs st + mset new"
    using seq_refs_set_layer [of l st ?ly'] True res new(1) by simp
  then have own': "pool_owned p' (R + seq_refs st')" using new(2) res by (simp add: add.assoc)
  have okq: "seq_ok q st" using ok new(4,7,10) by (subst seq_ok_cong) auto
  then have "layer_ok q l ?ly" using True by (simp add: seq_ok_def)
  then have "layer_ok q l ?ly'" using new(1,6,7,9) by (auto simp: layer_ok_def)
  from seq_ok_set_layer [OF okq this] have ok': "seq_ok p' st'" using res by simp
  have "length new \<le> ?req" using new(1,5) by auto
  then have nb: "next_block_id p' \<le> next_block_id p + ?req" using new(8) res by simp
  have tags: "\<forall>b \<in># R. pool_layer_of p' b = pool_layer_of p b" using new(4,10) res by auto
  show ?thesis using own' ok' nb tags new res True by auto
qed


lemma trim_tokens_owned:
  fixes n :: nat
  assumes own: "pool_owned p (R + seq_refs st)" and ok: "seq_ok p st" and l: "l < length (layers st)"
  defines "ly \<equiv> layers st ! l"
  defines "k \<equiv> min n (len ly - logical_start ly)"
  defines "keep \<equiv> (if len ly - k = logical_start ly then 0 else len ly - k)"
  shows "\<exists>st' p'. trim_tokens p st l n = (Inr k, st', p') \<and> pool_owned p' (R + seq_refs st')
    \<and> seq_ok p' st' \<and> layout p' = layout p \<and> next_block_id p' = next_block_id p
    \<and> pool_layer_of p' = pool_layer_of p
    \<and> st' = (if k = 0 then st else
        set_layer st l (ly\<lparr>len := keep, logical_start := (if keep = 0 then 0 else logical_start ly),
          block_ids := take (div_ceil keep (block_size (layout p))) (block_ids ly)\<rparr>))"
proof (cases "k = 0")
  case True
  have "logical_start ly \<le> len ly" using ok l by (auto simp: seq_ok_def layer_ok_def ly_def)
  with True have "n = 0 \<or> len ly = logical_start ly" by (auto simp: k_def)
  then have "trim_tokens p st l n = (Inr 0, st, p)"
    using l by (auto simp: trim_tokens_def Let_def ly_def [symmetric])
  with True own ok show ?thesis by simp
next
  case False
  have lok: "layer_ok p l ly" using ok l by (auto simp: seq_ok_def ly_def)
  then have le: "logical_start ly \<le> len ly" by (simp add: layer_ok_def)
  let ?n = "div_ceil keep (block_size (layout p))"
  let ?ly' = "ly\<lparr>len := keep, logical_start := (if keep = 0 then 0 else logical_start ly),
                block_ids := take ?n (block_ids ly)\<rparr>"
  have "mset (block_ids ly) \<subseteq># R + seq_refs st"
    using seq_refs_layer_subset [OF l] by (simp add: ly_def subset_mset.add_increasing)
  from release_down_to_owned [OF own this, of ?n] obtain q where
    q: "release_down_to p (block_ids ly) ?n = (Inr (), take ?n (block_ids ly), q)"
    "pool_owned q (R + seq_refs st - mset (drop ?n (block_ids ly)))" "next_block_id q = next_block_id p"
    "layout q = layout p" "pool_layer_of q = pool_layer_of p" by blast
  have run: "trim_tokens p st l n = (Inr k, set_layer st l ?ly', q)"
  proof -
    have pos: "n \<noteq> 0" "len ly \<noteq> 0" "min (logical_start ly) (len ly) = logical_start ly"
      using False le by (auto simp: k_def)
    have "k \<le> len ly - logical_start ly" by (simp add: k_def)
    then have kz: "len ly - k \<noteq> logical_start ly \<Longrightarrow> keep \<noteq> 0"
      using pos(2) by (auto simp: keep_def)
    show ?thesis
    proof (cases "len ly - k = logical_start ly")
      case True
      then show ?thesis
        using l False pos q(1)
        by (simp add: trim_tokens_def Let_def ly_def [symmetric] k_def [symmetric] keep_def)
    next
      case ne: False
      then show ?thesis
        using l False pos q(1) kz
        by (simp add: trim_tokens_def Let_def ly_def [symmetric] k_def [symmetric] keep_def)
    qed
  qed
  have "seq_refs (set_layer st l ?ly') + mset (drop ?n (block_ids ly)) = seq_refs st"
    using seq_refs_take_layer [OF l, of ?ly' ?n] by (simp add: ly_def)
  then have "R + seq_refs st - mset (drop ?n (block_ids ly)) = R + seq_refs (set_layer st l ?ly')"
    by (metis add.assoc add_diff_cancel_right')
  then have own': "pool_owned q (R + seq_refs (set_layer st l ?ly'))" using q(2) by simp
  have "keep \<le> len ly" "0 < block_size (layout p)"
    using own by (auto simp: keep_def ref_owned_def pool_inv_def pool_sized_def Let_def)
  then have "?n \<le> length (block_ids ly)"
    using lok div_ceil_mono [of "block_size (layout p)" keep "len ly"] by (auto simp: layer_ok_def)
  moreover have "keep = 0 \<or> logical_start ly \<le> keep" using le by (auto simp: keep_def k_def)
  ultimately have "layer_ok q l ?ly'" using lok q(4,5) by (auto simp: layer_ok_def dest: in_set_takeD)
  moreover have "seq_ok q st" using ok q(4,5) by (subst seq_ok_cong) auto
  ultimately have "seq_ok q (set_layer st l ?ly')" by (rule seq_ok_set_layer [rotated])
  with run own' q False show ?thesis by auto
qed


abbreviation cleared_layer :: "paged_layer_state \<Rightarrow> paged_layer_state" where
  "cleared_layer ly \<equiv> ly\<lparr>block_ids := [], len := 0, logical_start := 0\<rparr>"

lemma release_layers_owned:
  assumes "pool_owned p (R + (\<Sum>ly \<leftarrow> lys. mset (block_ids ly)))"
  shows "\<exists>p'. release_layers p lys = (Inr (), map cleared_layer lys, p') \<and> pool_owned p' R
    \<and> next_block_id p' = next_block_id p \<and> layout p' = layout p \<and> pool_layer_of p' = pool_layer_of p"
  using assms
proof (induction lys arbitrary: p)
  case (Cons ly lys)
  let ?M = "R + (\<Sum>ly \<leftarrow> lys. mset (block_ids ly))"
  have own: "pool_owned p (?M + mset (block_ids ly))" using Cons.prems by (simp add: ac_simps)
  from release_down_to_owned [OF own, of "block_ids ly" 0] obtain q where q:
    "release_down_to p (block_ids ly) 0 = (Inr (), [], q)" "pool_owned q ?M"
    "next_block_id q = next_block_id p" "layout q = layout p" "pool_layer_of q = pool_layer_of p"
    by auto
  from Cons.IH [OF q(2)] show ?case using q by auto
qed simp

lemma release_sequence_owned:
  assumes "pool_owned p (R + seq_refs st)"
  shows "\<exists>p'. release_sequence p st = (Inr (), st\<lparr>layers := map cleared_layer (layers st)\<rparr>, p')
    \<and> pool_owned p' R
    \<and> next_block_id p' = next_block_id p \<and> layout p' = layout p \<and> pool_layer_of p' = pool_layer_of p"
  using release_layers_owned [of p R "layers st"] assms by (auto simp: seq_refs_def release_sequence_def)

section \<open>Restoring serialised sequences\<close>

lemma restore_block_cases:
  assumes inv: "pool_inv p" and b: "b < u64_max" and res: "restore_block p b l = (r, p')"
  shows "if l < num_layers (layout p) \<and> pool_refcount p b = 0 \<and> pool_layer_of p b \<in> {None, Some l}
    then r = Inr () \<and> pool_inv p' \<and> pool_refcount p' = (pool_refcount p)(b := 1)
      \<and> pool_layer_of p' = (pool_layer_of p)(b \<mapsto> l) \<and> layout p' = layout p
      \<and> block_budget p' = block_budget p \<and> next_block_id p' = max (next_block_id p) (Suc b)
    else p' = p \<and> (\<exists>e. r = Inl e)"
proof (cases "l < num_layers (layout p) \<and> pool_refcount p b = 0 \<and> pool_layer_of p b \<in> {None, Some l}")
  case False
  then show ?thesis
    using res
    by (auto simp: restore_block_def validate_layer_def pool_refcount_def pool_layer_of_def is_in_use_def Let_def
        split: if_splits option.splits)
next
  case True
  let ?nb = "max (next_block_id p) (Suc b)"
  have nb: "next_block_id p \<le> ?nb" "?nb \<le> u64_max" "b < ?nb" "sat_inc u64_max b = Suc b"
    using inv b by (auto simp: pool_inv_def blocks_ok_def sat_inc_def)
  show ?thesis
  proof (cases "hm_get (blocks p) b")
    case None
    have p': "r = Inr ()" "p' = p\<lparr>next_block_id := ?nb, blocks := hm_insert b (block_record_new l) (blocks p)\<rparr>"
      using res None True nb(4) by (auto simp: restore_block_def validate_layer_def Let_def)
    have "pool_inv p'" unfolding p' using True nb by (intro pool_inv_register [OF inv _ None]) auto
    with True p' None show ?thesis
      by (auto simp: pool_refcount_def pool_layer_of_def hm_simps fun_eq_iff block_record_new_def)
  next
    case (Some rec)
    have rec: "layer_idx rec = l" "refcount rec = 0"
      using True Some by (auto simp: pool_layer_of_def pool_refcount_def)
    have l: "l < num_layers (layout p)" using True by simp
    have free: "b \<in> set (free_lists p ! l)" using inv l Some rec by (simp add: pool_inv_free_iff)
    have dist: "distinct (free_lists p ! l)" using inv l by (simp add: pool_inv_def free_ok_def)
    obtain i where i: "position (\<lambda>c. c = b) (free_lists p ! l) = Some i"
      using free position_None_iff [of "\<lambda>c. c = b" "free_lists p ! l"] by auto
    define fl where "fl = swap_remove (free_lists p ! l) i"
    have mfl: "mset fl = mset (remove1 b (free_lists p ! l))"
      using position_Some [OF i] by (simp add: fl_def mset_swap_remove)
    have fl: "set fl = set (free_lists p ! l) - {b}" "distinct fl"
      using dist mset_eq_setD [OF mfl] mset_eq_imp_distinct_iff [OF mfl] by simp_all
    have p': "r = Inr ()" "p' = p\<lparr>free_lists := (free_lists p)[l := fl],
                 blocks := hm_insert b (rec\<lparr>refcount := 1\<rparr>) (blocks p), next_block_id := ?nb\<rparr>"
      using res Some True rec i nb(4)
      by (auto simp: restore_block_def validate_layer_def Let_def is_in_use_def fl_def)
    have "pool_inv p'" unfolding p' by (rule pool_inv_revive [OF inv Some rec(2,1) fl nb(1,2)])
    with True p' Some rec show ?thesis
      by (auto simp: pool_refcount_def pool_layer_of_def hm_simps fun_eq_iff)
  qed
qed


text \<open>Whatever its outcome, a restore has added one reference to each block of a prefix of the
  table, and none of these blocks was referenced before; on success the prefix is everything.\<close>

definition restored_prefix ::
  "'a paged_block_pool \<Rightarrow> nat multiset \<Rightarrow> nat list \<Rightarrow> nat list \<Rightarrow> 'a paged_block_pool \<Rightarrow> bool" where
  "restored_prefix p M bs ds p' \<longleftrightarrow>
     (\<exists>rest. bs = ds @ rest) \<and> pool_owned p' (M + mset ds) \<and> distinct ds
     \<and> (\<forall>b \<in> set ds. b \<notin># M) \<and> layout p' = layout p
     \<and> (\<forall>b. b \<notin> set ds \<longrightarrow> pool_layer_of p' b = pool_layer_of p b)"

lemma restore_layer_blocks_owned:
  assumes "pool_owned p M" "\<forall>b \<in> set bs. b < u64_max" "restore_layer_blocks p l bs = (r, p')"
  shows "\<exists>ds. restored_prefix p M bs ds p' \<and> (\<forall>b \<in> set ds. pool_layer_of p' b = Some l)
    \<and> (r = Inr () \<longrightarrow> ds = bs)"
  using assms
proof (induction bs arbitrary: p M)
  case Nil
  then show ?case by (simp add: restored_prefix_def)
next
  case (Cons b bs)
  obtain a q where rb: "restore_block p b l = (a, q)" by (cases "restore_block p b l")
  have inv: "pool_inv p" and b: "b < u64_max" using Cons.prems by (simp_all add: ref_owned_def)
  note cases = restore_block_cases [OF inv b rb]
  show ?case
  proof (cases a)
    case (Inl e)
    then have "q = p" using cases by (auto split: if_splits)
    then show ?thesis
      using Cons.prems rb Inl by (intro exI [of _ "[]"]) (auto simp: restored_prefix_def)
  next
    case (Inr u)
    then have q: "pool_inv q" "pool_refcount q = (pool_refcount p)(b := 1)" "pool_refcount p b = 0"
      "pool_layer_of q = (pool_layer_of p)(b \<mapsto> l)" "layout q = layout p"
      using cases by (auto split: if_splits)
    have own: "pool_owned q (add_mset b M)" "b \<notin># M"
      using q Cons.prems(1) by (auto simp: ref_owned_def not_in_iff)
    from Cons.IH [OF own(1)] Cons.prems rb Inr obtain ds where
      "restored_prefix q (add_mset b M) bs ds p'" "\<forall>c \<in> set ds. pool_layer_of p' c = Some l"
      "r = Inr () \<longrightarrow> ds = bs" by auto
    then show ?thesis
      using own(2) q(4,5) by (intro exI [of _ "b # ds"]) (auto simp: restored_prefix_def)
  qed
qed

lemma restored_prefix_append:
  assumes "restored_prefix p M bs bs q" "restored_prefix q (M + mset bs) cs ds p'"
  shows "restored_prefix p M (bs @ cs) (bs @ ds) p'"
  using assms by (auto simp: restored_prefix_def ac_simps)

lemma restored_prefix_weaken:
  "restored_prefix p M bs ds p' \<Longrightarrow> restored_prefix p M (bs @ cs) ds p'"
  by (auto simp: restored_prefix_def)

lemma restore_layers_owned:
  assumes "pool_owned p M" "\<forall>ly \<in> set lys. \<forall>b \<in> set (block_ids ly). b < u64_max"
    "restore_layers p l lys = (r, p')"
  shows "\<exists>ds. restored_prefix p M (concat (map block_ids lys)) ds p'
    \<and> (r = Inr () \<longrightarrow> ds = concat (map block_ids lys)
         \<and> (\<forall>i < length lys. div_ceil (len (lys ! i)) (block_size (layout p)) \<le> length (block_ids (lys ! i))
              \<and> (\<forall>b \<in> set (block_ids (lys ! i)). pool_layer_of p' b = Some (l + i))))"
  using assms
proof (induction lys arbitrary: p M l)
  case Nil
  then show ?case by (simp add: restored_prefix_def)
next
  case (Cons ly lys)
  let ?bs = "block_ids ly" and ?cs = "concat (map block_ids lys)"
  let ?req = "div_ceil (len ly) (block_size (layout p))"
  show ?case
  proof (cases "length ?bs < ?req")
    case True
    then have "r \<noteq> Inr ()" "p' = p" using Cons.prems(3) by (auto simp: Let_def)
    then show ?thesis using Cons.prems(1) by (intro exI [of _ "[]"]) (simp add: restored_prefix_def)
  next
    case False
    obtain a q where rb: "restore_layer_blocks p l ?bs = (a, q)" by (cases "restore_layer_blocks p l ?bs")
    from restore_layer_blocks_owned [OF Cons.prems(1) _ rb] Cons.prems(2) obtain ds where
      d: "restored_prefix p M ?bs ds q" "\<forall>b \<in> set ds. pool_layer_of q b = Some l"
      "a = Inr () \<longrightarrow> ds = ?bs" by auto
    show ?thesis
    proof (cases a)
      case (Inl e)
      then have "r = Inl e" "p' = q" using Cons.prems(3) rb False by (auto simp: Let_def)
      then show ?thesis using restored_prefix_weaken [OF d(1), of ?cs] by auto
    next
      case (Inr u)
      then have full: "ds = ?bs" using d(3) by simp
      have q: "pool_owned q (M + mset ?bs)" "layout q = layout p"
        using d(1) full by (auto simp: restored_prefix_def)
      have "restore_layers q (Suc l) lys = (r, p')" using Cons.prems(3) rb False Inr by (auto simp: Let_def)
      from Cons.IH [OF q(1) _ this] Cons.prems(2) obtain ds' where
        d': "restored_prefix q (M + mset ?bs) ?cs ds' p'"
        "r = Inr () \<longrightarrow> ds' = ?cs
         \<and> (\<forall>i < length lys. div_ceil (len (lys ! i)) (block_size (layout q)) \<le> length (block_ids (lys ! i))
              \<and> (\<forall>b \<in> set (block_ids (lys ! i)). pool_layer_of p' b = Some (Suc l + i)))" by auto
      have "\<forall>b \<in> set ?bs. pool_layer_of p' b = Some l"
        using d(2) d'(1) full by (auto simp: restored_prefix_def)
      then show ?thesis
        using restored_prefix_append [OF d(1) [unfolded full] d'(1)] d'(2) q(2) False
        by (intro exI [of _ "?bs @ ds'"]) (auto simp: nth_Cons split: nat.splits)
    qed
  qed
qed


lemma seq_refs_concat: "seq_refs st = mset (concat (map block_ids (layers st)))"
  by (simp add: seq_refs_def mset_concat o_def)

lemma restore_sequence_owned:
  assumes own: "pool_owned p M" and ids: "\<forall>b \<in># seq_refs st. b < u64_max"
    and res: "restore_sequence p st = (r, p')"
  shows "\<exists>ds. restored_prefix p M (concat (map block_ids (layers st))) ds p'
    \<and> (r = Inr () \<longrightarrow> mset ds = seq_refs st
         \<and> ((\<forall>ly \<in> set (layers st). logical_start ly \<le> len ly) \<longrightarrow> seq_ok p' st))"
proof (cases "seq_block_size st = block_size (layout p) \<and> length (layers st) = num_layers (layout p)")
  case False
  then have "p' = p" "r \<noteq> Inr ()" using res by (auto simp: restore_sequence_def split: if_splits)
  then show ?thesis using own by (intro exI [of _ "[]"]) (simp add: restored_prefix_def)
next
  case True
  then have "restore_layers p 0 (layers st) = (r, p')" using res by (simp add: restore_sequence_def)
  moreover have "\<forall>ly \<in> set (layers st). \<forall>b \<in> set (block_ids ly). b < u64_max"
    using ids by (auto simp: seq_refs_concat)
  ultimately obtain ds where ds: "restored_prefix p M (concat (map block_ids (layers st))) ds p'"
    "r = Inr () \<longrightarrow> ds = concat (map block_ids (layers st))
       \<and> (\<forall>i < length (layers st). div_ceil (len (layers st ! i)) (block_size (layout p)) \<le> length (block_ids (layers st ! i))
            \<and> (\<forall>b \<in> set (block_ids (layers st ! i)). pool_layer_of p' b = Some i))"
    using restore_layers_owned [OF own, of "layers st" 0 r p'] by auto
  have "layout p' = layout p" using ds(1) by (simp add: restored_prefix_def)
  then show ?thesis
    using ds True by (intro exI [of _ ds]) (auto simp: seq_refs_concat seq_ok_def layer_ok_def)
qed


section \<open>Properties\<close>

text \<open>A small pool for the witnesses: two \<open>Fp16\<close> layers, four tokens per block.\<close>

definition demo_layout :: paged_kv_layout where
  "demo_layout = \<lparr>num_layers = 2, block_size = 4, bytes_per_block = [64, 64], cache_mode = Fp16,
     turbo_sidecar_bytes_per_block = []\<rparr>"

definition demo_pool :: "nat paged_block_pool" where
  "demo_pool = pool_new demo_layout"

definition demo_seq :: paged_sequence_state where
  "demo_seq = sequence_state_new demo_layout"

lemma pool_new_owned:
  assumes "0 < block_size lay" shows "pool_owned (pool_new lay) {#}"
  using pool_new_inv [OF assms] by (simp add: ref_owned_def pool_refcount_def pool_new_def Let_def)

lemma seq_refs_new: "seq_refs (sequence_state_new lay) = {#}"
  by (simp add: seq_refs_concat sequence_state_new_def layer_state_new_def)

lemma seq_ok_new: "seq_ok (pool_new lay) (sequence_state_new lay)"
  by (simp add: seq_ok_def layer_ok_def pool_new_def sequence_state_new_def layer_state_new_def Let_def)

lemma replicate_2: "replicate 2 x = [x, x]"
  by (simp add: numeral_2_eq_2)

lemmas demo_eval =
  demo_layout_def demo_pool_def demo_seq_def pool_new_def sequence_state_new_def layer_state_new_def
  append_tokens_def trim_tokens_def acquire_block_def release_block_def validate_layer_def Let_def
  block_record_new_def div_ceil_def u64_max_def replicate_2

lemma demo_owned: "pool_owned demo_pool ({#} + seq_refs demo_seq)" "seq_ok demo_pool demo_seq"
  using pool_new_owned [of demo_layout]
  by (simp_all add: demo_pool_def demo_seq_def seq_refs_new seq_ok_new demo_layout_def)

text \<open>C9: \<open>append_tokens\<close>, on every branch. With \<open>R\<close> the references everybody else holds: the
  block counters still equal the references afterwards, also when an acquisition fails half way;
  the table only grows at its end, by blocks nobody referenced; \<open>len\<close> advances by the appended
  tokens exactly on success; the sequence still fits the pool and no foreign block changes layer.\<close>

theorem append_tokens_spec:
  assumes own: "pool_owned p (R + seq_refs st)" and ok: "seq_ok p st"
    and room: "next_block_id p + div_ceil (len (layers st ! l) + n) (block_size (layout p)) \<le> u64_max"
    and app: "append_tokens p st l n = (r, st', p')"
  shows "pool_owned p' (R + seq_refs st') \<and> seq_ok p' st'
    \<and> (\<forall>b \<in># R. pool_layer_of p' b = pool_layer_of p b)
    \<and> (\<exists>new. st' = (if l < length (layers st)
                    then set_layer st l ((layers st ! l)\<lparr>block_ids := block_ids (layers st ! l) @ new,
                           len := len (layers st ! l) + (if r = Inr () then n else 0)\<rparr>) else st)
          \<and> distinct new \<and> (\<forall>b \<in> set new. b \<notin># R + seq_refs st))"
  using append_tokens_owned [OF assms] by blast

theorem append_tokens_spec_witness:
  "\<exists>st' p'. append_tokens demo_pool demo_seq 1 5 = (Inr (), st', p') \<and> block_ids (layers st' ! 1) = [0, 1]
     \<and> pool_owned p' ({#} + seq_refs st') \<and> seq_ok p' st'"
proof -
  obtain r st' p' where run: "append_tokens demo_pool demo_seq 1 5 = (r, st', p')"
    by (cases "append_tokens demo_pool demo_seq 1 5") auto
  have "(case append_tokens demo_pool demo_seq 1 5 of
      (r, st', _) \<Rightarrow> r = Inr () \<and> block_ids (layers st' ! 1) = [0, 1])"
    by (simp add: demo_eval acquire_until.simps)
  then have res: "r = Inr ()" "block_ids (layers st' ! 1) = [0, 1]" using run by auto
  have room: "next_block_id demo_pool + div_ceil (len (layers demo_seq ! 1) + 5) (block_size (layout demo_pool)) \<le> u64_max"
    by (simp add: demo_eval)
  show ?thesis using append_tokens_spec [OF demo_owned room run] run res by blast
qed

end
