(* ===== verification/Paged_Sidecars.thy ===== *)
theory Paged_Sidecars
  imports Paged_Sequences Mlx_Ffi
begin

text \<open>
  The Turbo4 sidecar tables and the byte accounting of the paged pool
  (\<open>install_*\<close>, \<open>take_*\<close>, \<open>stats\<close>, \<open>real_block_bytes\<close> and relatives of
  \<open>src/src/lib/mlxcel-core/src/cache/paged.rs\<close>). None of them touches the reference counts.
\<close>

definition assert_turbo_mode :: "'a paged_block_pool \<Rightarrow> pool_error + unit" where
  "assert_turbo_mode p =
     (if \<not> layout_is_turbo_mode (layout p) then Inl (NotTurboMode (cache_mode (layout p))) else Inr ())"

abbreviation set_sidecars :: "'a paged_block_pool \<Rightarrow> ('a paged_turbo_page_sidecars \<Rightarrow> 'a paged_turbo_page_sidecars)
    \<Rightarrow> 'a paged_block_pool" where
  "set_sidecars p g \<equiv> p\<lparr>turbo_sidecars := g (turbo_sidecars p)\<rparr>"

definition install_v_packed :: "'a paged_block_pool \<Rightarrow> nat \<Rightarrow> 'a \<Rightarrow> ('a, unit) pool_op" where
  "install_v_packed p b t =
     (case assert_turbo_mode p of Inl e \<Rightarrow> (Inl e, p) | Inr _ \<Rightarrow>
        if hm_get (blocks p) b = None then (Inl (UnknownBlock b), p)
        else (Inr (), set_sidecars p (\<lambda>s. s\<lparr>pg_v_packed := hm_insert b t (pg_v_packed s)\<rparr>)))"

definition install_v_norms :: "'a paged_block_pool \<Rightarrow> nat \<Rightarrow> 'a \<Rightarrow> ('a, unit) pool_op" where
  "install_v_norms p b t =
     (case assert_turbo_mode p of Inl e \<Rightarrow> (Inl e, p) | Inr _ \<Rightarrow>
        if hm_get (blocks p) b = None then (Inl (UnknownBlock b), p)
        else (Inr (), set_sidecars p (\<lambda>s. s\<lparr>pg_v_norms := hm_insert b t (pg_v_norms s)\<rparr>)))"

definition install_k_packed :: "'a paged_block_pool \<Rightarrow> nat \<Rightarrow> 'a \<Rightarrow> ('a, unit) pool_op" where
  "install_k_packed p b t =
     (case assert_turbo_mode p of Inl e \<Rightarrow> (Inl e, p) | Inr _ \<Rightarrow>
        if cache_mode (layout p) \<noteq> Turbo4 then (Inl (ModeStoresNoSidecar (cache_mode (layout p))), p)
        else if hm_get (blocks p) b = None then (Inl (UnknownBlock b), p)
        else (Inr (), set_sidecars p (\<lambda>s. s\<lparr>pg_k_packed := hm_insert b t (pg_k_packed s)\<rparr>)))"

definition install_k_norms :: "'a paged_block_pool \<Rightarrow> nat \<Rightarrow> 'a \<Rightarrow> ('a, unit) pool_op" where
  "install_k_norms p b t =
     (case assert_turbo_mode p of Inl e \<Rightarrow> (Inl e, p) | Inr _ \<Rightarrow>
        if cache_mode (layout p) \<noteq> Turbo4 then (Inl (ModeStoresNoSidecar (cache_mode (layout p))), p)
        else if hm_get (blocks p) b = None then (Inl (UnknownBlock b), p)
        else (Inr (), set_sidecars p (\<lambda>s. s\<lparr>pg_k_norms := hm_insert b t (pg_k_norms s)\<rparr>)))"

definition install_cold_keys :: "'a paged_block_pool \<Rightarrow> nat \<Rightarrow> 'a \<Rightarrow> ('a, unit) pool_op" where
  "install_cold_keys p b t =
     (case assert_turbo_mode p of Inl e \<Rightarrow> (Inl e, p) | Inr _ \<Rightarrow>
        if cache_mode (layout p) \<noteq> Turbo4Delegated
        then (Inl (ModeStoresNoSidecar (cache_mode (layout p))), p)
        else if hm_get (blocks p) b = None then (Inl (UnknownBlock b), p)
        else (Inr (), set_sidecars p (\<lambda>s. s\<lparr>pg_cold_keys := hm_insert b t (pg_cold_keys s)\<rparr>)))"

definition take_v_packed :: "'a paged_block_pool \<Rightarrow> nat \<Rightarrow> 'a option \<times> 'a paged_block_pool" where
  "take_v_packed p b =
     (hm_get (pg_v_packed (turbo_sidecars p)) b,
      set_sidecars p (\<lambda>s. s\<lparr>pg_v_packed := hm_remove b (pg_v_packed s)\<rparr>))"

definition take_v_norms :: "'a paged_block_pool \<Rightarrow> nat \<Rightarrow> 'a option \<times> 'a paged_block_pool" where
  "take_v_norms p b =
     (hm_get (pg_v_norms (turbo_sidecars p)) b,
      set_sidecars p (\<lambda>s. s\<lparr>pg_v_norms := hm_remove b (pg_v_norms s)\<rparr>))"

definition take_k_packed :: "'a paged_block_pool \<Rightarrow> nat \<Rightarrow> 'a option \<times> 'a paged_block_pool" where
  "take_k_packed p b =
     (hm_get (pg_k_packed (turbo_sidecars p)) b,
      set_sidecars p (\<lambda>s. s\<lparr>pg_k_packed := hm_remove b (pg_k_packed s)\<rparr>))"

definition take_k_norms :: "'a paged_block_pool \<Rightarrow> nat \<Rightarrow> 'a option \<times> 'a paged_block_pool" where
  "take_k_norms p b =
     (hm_get (pg_k_norms (turbo_sidecars p)) b,
      set_sidecars p (\<lambda>s. s\<lparr>pg_k_norms := hm_remove b (pg_k_norms s)\<rparr>))"

definition take_cold_keys :: "'a paged_block_pool \<Rightarrow> nat \<Rightarrow> 'a option \<times> 'a paged_block_pool" where
  "take_cold_keys p b =
     (hm_get (pg_cold_keys (turbo_sidecars p)) b,
      set_sidecars p (\<lambda>s. s\<lparr>pg_cold_keys := hm_remove b (pg_cold_keys s)\<rparr>))"

definition turbo_sidecar_bytes :: "'a mlx_ffi \<Rightarrow> 'a paged_block_pool \<Rightarrow> nat" where
  "turbo_sidecar_bytes f p = sidecars_nbytes (array_nbytes f) (turbo_sidecars p)"

definition has_turbo_sidecar :: "'a paged_block_pool \<Rightarrow> nat \<Rightarrow> bool" where
  "has_turbo_sidecar p b \<longleftrightarrow>
     hm_get (pg_v_packed (turbo_sidecars p)) b \<noteq> None \<or> hm_get (pg_v_norms (turbo_sidecars p)) b \<noteq> None
     \<or> hm_get (pg_k_packed (turbo_sidecars p)) b \<noteq> None \<or> hm_get (pg_k_norms (turbo_sidecars p)) b \<noteq> None
     \<or> hm_get (pg_cold_keys (turbo_sidecars p)) b \<noteq> None"

section \<open>Byte accounting\<close>

text \<open>\<open>dtype::size_bytes\<close>.\<close>

definition dtype_size_bytes :: "int \<Rightarrow> nat option" where
  "dtype_size_bytes d =
     (if d \<in> {0, 1, 5} then Some 1
      else if d \<in> {2, 6, 9, 12} then Some 2
      else if d \<in> {3, 7, 10} then Some 4
      else if d \<in> {4, 8, 11, 13} then Some 8
      else None)"

definition real_block_bytes :: "'a paged_block_pool \<Rightarrow> nat \<Rightarrow> nat option" where
  "real_block_bytes p l =
     (if l < length (pool_meta p) then
        do { m \<leftarrow> pool_meta p ! l;
             esize \<leftarrow> dtype_size_bytes (dtype m);
             Some (block_size (layout p) * nat (n_kv_heads m) * nat (head_dim m) * esize * 2) }
      else None)"

definition pool_tensor_bytes :: "'a mlx_ffi \<Rightarrow> 'a paged_block_pool \<Rightarrow> nat" where
  "pool_tensor_bytes f p =
     sum_list (map (array_nbytes f) (concat (pool_k p))) + sum_list (map (array_nbytes f) (concat (pool_v p)))"

record paged_cache_stats =
  allocated_blocks :: nat
  live_blocks :: nat
  free_blocks :: nat
  bytes_reserved :: nat
  bytes_in_use :: nat

definition pool_stats :: "'a mlx_ffi \<Rightarrow> 'a paged_block_pool \<Rightarrow> paged_cache_stats" where
  "pool_stats f p =
     (let allocated = length (blocks p);
          free = length (filter (\<lambda>e. \<not> is_in_use (snd e)) (blocks p))
      in \<lparr>allocated_blocks = allocated, live_blocks = allocated - free, free_blocks = free,
          bytes_reserved = pool_tensor_bytes f p,
          bytes_in_use = sum_list (map (\<lambda>l. length (block_rows p ! l) * case_option 0 id (real_block_bytes p l))
                                       [0..<length (block_rows p)])\<rparr>)"

section \<open>Frame\<close>

lemma pool_owned_sidecars [simp]: "pool_owned (p\<lparr>turbo_sidecars := s\<rparr>) M = pool_owned p M"
  by (simp add: ref_owned_def pool_inv_defs pool_refcount_def)

lemma pool_layer_of_sidecars [simp]: "pool_layer_of (p\<lparr>turbo_sidecars := s\<rparr>) = pool_layer_of p"
  by (simp add: pool_layer_of_def fun_eq_iff)

lemma seq_ok_sidecars [simp]: "seq_ok (p\<lparr>turbo_sidecars := s\<rparr>) st = seq_ok p st"
  by (rule seq_ok_cong) auto

end
