(* ===== verification/Cache_Pool.thy ===== *)
theory Cache_Pool
  imports Kv_Detach Paged_Sidecars
begin

text \<open>
  The pool of per-sequence caches: \<open>CachePool\<close> of \<open>src/src/lib/mlxcel-core/src/cache.rs\<close> with the
  dense handoff of \<open>cache/detach.rs\<close> and the paged handoff of \<open>cache/paged_detach.rs\<close>.

  A shared handle \<open>Rc<RefCell<PagedSequenceState>>\<close> is a cell: \<open>paged\<close> of a sequence holds the
  identity of its cell and the content, a pool-backed cache holds the identity. \<open>next_cell\<close> is
  the supply of identities of \<open>Rc::new\<close>; it has no counterpart among the fields of the source.
  The language model is a trait object; the record \<open>language_model\<close> has the two trait functions
  that the pool calls and reads. Time stamps are arguments.
\<close>

section \<open>Data\<close>

record sequence_state_layout =
  sl_backend :: sequence_state_backend
  sl_num_layers :: nat
  sl_paged_layout :: "paged_kv_layout option"

record 'a language_model =
  lm_layout :: sequence_state_layout
  lm_make_caches :: "'a kv_cache list"

text \<open>The two environment settings read by \<open>KVCache::new\<close>.\<close>

record cache_env =
  env_fast_path :: bool
  env_sidecar_policy :: sidecar_policy

record 'a sequence_cache_set =
  backend :: sequence_state_backend
  caches :: "'a kv_cache list"
  paged :: "(nat \<times> paged_sequence_state) option"
  seq_id :: nat
  prompt_len :: nat
  current_offset :: int
  created_at :: nat
  set_paged_layout :: "paged_kv_layout option"

text \<open>The five page maps of \<open>DetachedPagedCacheSet\<close> are the field \<open>dp_pages\<close>.\<close>

record 'a detached_paged_cache_set =
  dp_caches :: "'a detached_kv_cache list"
  dp_state :: paged_sequence_state
  dp_layout :: paged_kv_layout
  dp_backend :: sequence_state_backend
  dp_prompt_len :: nat
  dp_current_offset :: int
  dp_created_at :: nat
  dp_detached_at :: nat
  dp_origin_seq_id :: nat
  retained_blocks :: "nat list option"
  real_pool_bytes :: "nat option"
  dp_pages :: "'a paged_turbo_page_sidecars"

datatype 'a parked_cache =
    ParkedDense "'a detached_cache_set"
  | ParkedPaged "'a detached_paged_cache_set"

record 'a cache_pool =
  next_id :: nat
  active :: "(nat, 'a sequence_cache_set) hmap"
  max_sequences :: nat
  paged_pool :: "'a paged_block_pool option"
  detached :: "(nat, 'a parked_cache) hmap"
  paged_block_budget :: "nat option"
  next_cell :: nat

datatype cp_error =
    MaxCapacity nat
  | PagedWithoutLayout
  | LayoutMismatch
  | SequenceNotFound nat
  | SequenceNotPaged nat
  | PagedNotInitialized
  | MissingPagedLayout nat
  | LayerLengthCount nat nat
  | RestoredBlockSizeMismatch nat nat
  | RestoredLayerCountMismatch nat nat
  | WrongBackend sequence_state_backend
  | UnknownHandle nat
  | HandleIsDense nat
  | TurboUnsupported
  | TargetNotAligned nat nat
  | TargetExceeds nat nat
  | SlidingWindow
  | NoBlockPins
  | HandlesCarryTensors
  | PinFailed nat pool_error
  | ReleaseFailed nat pool_error
  | FromPool pool_error
  | PoolPanic

type_synonym ('a, 'r) cp_op = "(cp_error + 'r) \<times> 'a cache_pool"

text \<open>\<open>usize as i32\<close>.\<close>

definition as_i32 :: "nat \<Rightarrow> int" where
  "as_i32 n = (let m = int (n mod 2 ^ 32) in if m < 2 ^ 31 then m else m - 2 ^ 32)"

section \<open>Construction and allocation\<close>

definition cache_pool_new :: "nat \<Rightarrow> 'a cache_pool" where
  "cache_pool_new n =
     \<lparr>next_id = 0, active = [], max_sequences = n, paged_pool = None, detached = [],
      paged_block_budget = None, next_cell = 0\<rparr>"

definition with_backend ::
  "nat \<Rightarrow> sequence_state_backend \<Rightarrow> 'a kv_cache list \<Rightarrow> (nat \<times> paged_sequence_state) option
   \<Rightarrow> paged_kv_layout option \<Rightarrow> nat \<Rightarrow> 'a sequence_cache_set" where
  "with_backend i b cs pg lay now =
     \<lparr>backend = b, caches = cs, paged = pg, seq_id = i, prompt_len = 0, current_offset = 0,
      created_at = now, set_paged_layout = lay\<rparr>"

text \<open>\<open>fetch_add\<close> on the \<open>AtomicU64\<close>.\<close>

definition fetch_id :: "'a cache_pool \<Rightarrow> nat \<times> 'a cache_pool" where
  "fetch_id cp = (next_id cp, cp\<lparr>next_id := (next_id cp + 1) mod 2 ^ 64\<rparr>)"

definition fetch_cell :: "'a cache_pool \<Rightarrow> nat \<times> 'a cache_pool" where
  "fetch_cell cp = (next_cell cp, cp\<lparr>next_cell := next_cell cp + 1\<rparr>)"

definition ensure_paged_pool :: "'a cache_pool \<Rightarrow> paged_kv_layout \<Rightarrow> ('a, unit) cp_op" where
  "ensure_paged_pool cp lay =
     (case paged_pool cp of
        Some p \<Rightarrow> if layout p \<noteq> lay then (Inl LayoutMismatch, cp) else (Inr (), cp)
      | None \<Rightarrow> (Inr (), cp\<lparr>paged_pool := Some (set_block_budget (pool_new lay) (paged_block_budget cp))\<rparr>))"

definition ensure_paged_pool_from_layout :: "'a cache_pool \<Rightarrow> paged_kv_layout \<Rightarrow> ('a, unit) cp_op" where
  "ensure_paged_pool_from_layout cp lay =
     (case paged_pool cp of
        Some p \<Rightarrow> if layout p \<noteq> lay then (Inl LayoutMismatch, cp) else (Inr (), cp)
      | None \<Rightarrow> (Inr (), cp\<lparr>paged_pool := Some (pool_new lay)\<rparr>))"

text \<open>The per-layer caches of a paged sequence: pool-backed exactly when the model's natural backend
  is the dense one and the layout is \<open>Fp16\<close>.\<close>

definition is_pool_backed :: "'a language_model \<Rightarrow> paged_kv_layout \<Rightarrow> bool" where
  "is_pool_backed lm lay \<longleftrightarrow> sl_backend (lm_layout lm) = DenseKvCache \<and> cache_mode lay = Fp16"

definition allocate_with_layout ::
  "cache_env \<Rightarrow> 'a language_model \<Rightarrow> nat \<Rightarrow> 'a cache_pool \<Rightarrow> sequence_state_layout option \<Rightarrow> ('a, nat) cp_op" where
  "allocate_with_layout env lm now cp override =
     (let lay = (case override of Some l \<Rightarrow> l | None \<Rightarrow> lm_layout lm) in
      if sl_backend lay = DenseKvCache \<and> length (active cp) \<ge> max_sequences cp
      then (Inl (MaxCapacity (max_sequences cp)), cp)
      else let (i, cp1) = fetch_id cp;
               insert_entry = (\<lambda>cp e. (Inr i, cp\<lparr>active := hm_insert i e (active cp)\<rparr>))
        in case sl_backend lay of
             DenseKvCache \<Rightarrow> insert_entry cp1 (with_backend i DenseKvCache (lm_make_caches lm) None None now)
           | ModelOwned \<Rightarrow> insert_entry cp1 (with_backend i ModelOwned [] None None now)
           | PagedKvCache \<Rightarrow>
               (case sl_paged_layout lay of
                  None \<Rightarrow> (Inl PagedWithoutLayout, cp1)
                | Some pl \<Rightarrow>
                    (case ensure_paged_pool cp1 pl of
                       (Inl e, cp2) \<Rightarrow> (Inl e, cp2)
                     | (Inr _, cp2) \<Rightarrow>
                         let (cell, cp3) = fetch_cell cp2;
                             cs = (if is_pool_backed lm pl
                                   then map (new_paged (env_fast_path env) (env_sidecar_policy env) cell)
                                          [0..<num_layers pl]
                                   else lm_make_caches lm)
                         in insert_entry cp3
                              (with_backend i PagedKvCache cs (Some (cell, sequence_state_new pl)) (Some pl) now))))"

definition allocate :: "cache_env \<Rightarrow> 'a language_model \<Rightarrow> nat \<Rightarrow> 'a cache_pool \<Rightarrow> ('a, nat) cp_op" where
  "allocate env lm now cp = allocate_with_layout env lm now cp None"

definition release :: "'a cache_pool \<Rightarrow> nat \<Rightarrow> 'a cache_pool" where
  "release cp i =
     (case hm_get (active cp) i of
        None \<Rightarrow> cp
      | Some s \<Rightarrow>
          let cp1 = cp\<lparr>active := hm_remove i (active cp)\<rparr>
          in case (paged_pool cp1, paged s) of
               (Some p, Some (_, st)) \<Rightarrow> cp1\<lparr>paged_pool := Some (snd (snd (release_sequence p st)))\<rparr>
             | _ \<Rightarrow> cp1)"


section \<open>Paged bookkeeping of active sequences\<close>

text \<open>\<open>with_pool_and_state\<close>: run an operation on the shared pool and the block table of one
  sequence. Both cells are written back whatever the outcome.\<close>

definition with_pool_and_state ::
  "'a cache_pool \<Rightarrow> nat \<Rightarrow> ('a paged_block_pool \<Rightarrow> paged_sequence_state \<Rightarrow> ('a, 'r) seq_op) \<Rightarrow> ('a, 'r) cp_op" where
  "with_pool_and_state cp i g =
     (case paged_pool cp of
        None \<Rightarrow> (Inl PagedNotInitialized, cp)
      | Some p \<Rightarrow>
          (case hm_get (active cp) i of
             None \<Rightarrow> (Inl (SequenceNotFound i), cp)
           | Some s \<Rightarrow>
               (case paged s of
                  None \<Rightarrow> (Inl (SequenceNotPaged i), cp)
                | Some (cell, st) \<Rightarrow>
                    (case g p st of
                       (r, st', p') \<Rightarrow>
                         (case r of Inl e \<Rightarrow> Inl (FromPool e) | Inr x \<Rightarrow> Inr x,
                          cp\<lparr>paged_pool := Some p',
                             active := hm_insert i (s\<lparr>paged := Some (cell, st')\<rparr>) (active cp)\<rparr>)))))"

definition append_paged_tokens :: "'a cache_pool \<Rightarrow> nat \<Rightarrow> nat \<Rightarrow> nat \<Rightarrow> ('a, unit) cp_op" where
  "append_paged_tokens cp i l n = with_pool_and_state cp i (\<lambda>p st. append_tokens p st l n)"

definition trim_paged_tokens :: "'a cache_pool \<Rightarrow> nat \<Rightarrow> nat \<Rightarrow> nat \<Rightarrow> ('a, nat) cp_op" where
  "trim_paged_tokens cp i l n = with_pool_and_state cp i (\<lambda>p st. trim_tokens p st l n)"

definition rewind_paged_tokens :: "'a cache_pool \<Rightarrow> nat \<Rightarrow> nat \<Rightarrow> nat \<Rightarrow> ('a, nat) cp_op" where
  "rewind_paged_tokens cp i l n = with_pool_and_state cp i (\<lambda>p st. rewind_tokens p st l n)"

definition paged_stats :: "'a mlx_ffi \<Rightarrow> 'a cache_pool \<Rightarrow> paged_cache_stats option" where
  "paged_stats f cp = map_option (pool_stats f) (paged_pool cp)"

definition set_paged_block_budget :: "'a cache_pool \<Rightarrow> nat option \<Rightarrow> 'a cache_pool" where
  "set_paged_block_budget cp m =
     cp\<lparr>paged_block_budget := m, paged_pool := map_option (\<lambda>p. set_block_budget p m) (paged_pool cp)\<rparr>"

definition free_paged_block_budget :: "'a cache_pool \<Rightarrow> nat option" where
  "free_paged_block_budget cp = Option.bind (paged_pool cp) free_block_budget"

text \<open>The loop of \<open>sync_paged_state_with_lengths\<close> over the layers, from layer \<open>l\<close> on.\<close>

fun sync_layers ::
  "'a paged_block_pool \<Rightarrow> paged_sequence_state \<Rightarrow> nat \<Rightarrow> nat list \<Rightarrow> ('a, unit) seq_op" where
  "sync_layers p st l [] = (Inr (), st, p)"
| "sync_layers p st l (target # rest) =
     (let cur = len (layers st ! l) in
      if target > cur then
        (case append_tokens p st l (target - cur) of
           (Inl e, st', p') \<Rightarrow> (Inl e, st', p')
         | (Inr _, st', p') \<Rightarrow> sync_layers p' st' (Suc l) rest)
      else if target < cur then
        (case trim_tokens p st l (cur - target) of
           (Inl e, st', p') \<Rightarrow> (Inl e, st', p')
         | (Inr _, st', p') \<Rightarrow> sync_layers p' st' (Suc l) rest)
      else sync_layers p st (Suc l) rest)"

definition sync_paged_state_with_lengths :: "'a cache_pool \<Rightarrow> nat \<Rightarrow> nat list \<Rightarrow> ('a, unit) cp_op" where
  "sync_paged_state_with_lengths cp i targets =
     (case paged_pool cp of
        None \<Rightarrow> (Inr (), cp)
      | Some p \<Rightarrow>
          (case hm_get (active cp) i of
             None \<Rightarrow> (Inl (SequenceNotFound i), cp)
           | Some s \<Rightarrow>
               (case paged s of
                  None \<Rightarrow> (Inr (), cp)
                | Some (cell, st) \<Rightarrow>
                    if length targets \<noteq> length (layers st)
                    then (Inl (LayerLengthCount (length (layers st)) (length targets)), cp)
                    else with_pool_and_state cp i (\<lambda>p st. sync_layers p st 0 targets))))"

definition sync_paged_state_with_dense :: "'a cache_pool \<Rightarrow> nat \<Rightarrow> ('a, unit) cp_op" where
  "sync_paged_state_with_dense cp i =
     (case hm_get (active cp) i of
        None \<Rightarrow> (Inl (SequenceNotFound i), cp)
      | Some s \<Rightarrow>
          if list_ex is_paged_backed (caches s) then (Inr (), cp)
          else sync_paged_state_with_lengths cp i (map (\<lambda>c. nat (max (kv_seq_len c) 0)) (caches s)))"

definition set_paged :: "'a cache_pool \<Rightarrow> nat \<Rightarrow> 'a sequence_cache_set \<Rightarrow> (nat \<times> paged_sequence_state) option \<Rightarrow> 'a cache_pool" where
  "set_paged cp i s pg = cp\<lparr>active := hm_insert i (s\<lparr>paged := pg\<rparr>) (active cp)\<rparr>"

definition restore_paged_state :: "'a cache_pool \<Rightarrow> nat \<Rightarrow> paged_sequence_state \<Rightarrow> ('a, unit) cp_op" where
  "restore_paged_state cp i restored =
     (case hm_get (active cp) i of
        None \<Rightarrow> (Inl (SequenceNotFound i), cp)
      | Some s \<Rightarrow>
          if backend s \<noteq> PagedKvCache then (Inl (SequenceNotPaged i), cp)
          else case set_paged_layout s of
            None \<Rightarrow> (Inl (MissingPagedLayout i), cp)
          | Some lay \<Rightarrow>
              if seq_block_size restored \<noteq> block_size lay
              then (Inl (RestoredBlockSizeMismatch (seq_block_size restored) (block_size lay)), cp)
              else if length (layers restored) \<noteq> num_layers lay
              then (Inl (RestoredLayerCountMismatch (length (layers restored)) (num_layers lay)), cp)
              else
                let existing = paged s; cp1 = set_paged cp i s None
                in case ensure_paged_pool cp1 lay of
                     (Inl e, cp2) \<Rightarrow> (Inl e, cp2)
                   | (Inr _, cp2) \<Rightarrow>
                       (case paged_pool cp2 of
                          None \<Rightarrow> (Inl PoolPanic, cp2)
                        | Some p \<Rightarrow>
                            (case (case existing of
                                     Some (_, st) \<Rightarrow> (case release_sequence p st of (r, _, p') \<Rightarrow> (r, p'))
                                   | None \<Rightarrow> (Inr (), p)) of
                               (Inl e, p1) \<Rightarrow> (Inl (FromPool e), cp2\<lparr>paged_pool := Some p1\<rparr>)
                             | (Inr _, p1) \<Rightarrow>
                                 (case restore_sequence p1 restored of
                                    (Inl e, p2) \<Rightarrow> (Inl (FromPool e), cp2\<lparr>paged_pool := Some p2\<rparr>)
                                  | (Inr _, p2) \<Rightarrow>
                                      let (cell, cp3) = fetch_cell (cp2\<lparr>paged_pool := Some p2\<rparr>)
                                      in (Inr (), set_paged cp3 i s (Some (cell, restored)))))))"

section \<open>Memory accounting\<close>

definition sequence_nbytes :: "'a mlx_ffi \<Rightarrow> 'a sequence_cache_set \<Rightarrow> nat" where
  "sequence_nbytes f s =
     sum_list (map (kv_nbytes f) (caches s))
     + (case (paged s, set_paged_layout s) of
          (Some (_, st), Some lay) \<Rightarrow> sequence_used_bytes st lay | _ \<Rightarrow> 0)"

definition dp_turbo_sidecar_bytes :: "'a mlx_ffi \<Rightarrow> 'a detached_paged_cache_set \<Rightarrow> nat" where
  "dp_turbo_sidecar_bytes f d = sidecars_nbytes (array_nbytes f) (dp_pages d)"

definition dp_nbytes :: "'a mlx_ffi \<Rightarrow> 'a detached_paged_cache_set \<Rightarrow> nat" where
  "dp_nbytes f d =
     sum_list (map (detached_nbytes f) (dp_caches d))
     + (case real_pool_bytes d of Some n \<Rightarrow> n | None \<Rightarrow> sequence_reserved_bytes (dp_state d) (dp_layout d))
     + dp_turbo_sidecar_bytes f d"

fun parked_nbytes :: "'a mlx_ffi \<Rightarrow> 'a parked_cache \<Rightarrow> nat" where
  "parked_nbytes f (ParkedDense s) = set_nbytes f s"
| "parked_nbytes f (ParkedPaged d) =
     sum_list (map (detached_nbytes f) (dp_caches d)) + dp_turbo_sidecar_bytes f d"

definition memory_usage_bytes :: "'a mlx_ffi \<Rightarrow> 'a cache_pool \<Rightarrow> nat" where
  "memory_usage_bytes f cp =
     sum_list (map (sequence_nbytes f \<circ> snd) (active cp))
     + sum_list (map (parked_nbytes f \<circ> snd) (detached cp))
     + (case paged_pool cp of None \<Rightarrow> 0 | Some p \<Rightarrow> turbo_sidecar_bytes f p + pool_tensor_bytes f p)"

end
