(* ===== verification/Pool_Handoff.thy ===== *)
theory Pool_Handoff
  imports Cache_Pool
begin

text \<open>
  Detaching sequences from the pool and adopting them again: the dense operations of
  \<open>src/src/lib/mlxcel-core/src/cache/detach.rs\<close> and the paged ones of \<open>cache/paged_detach.rs\<close>.
  A detached set is a value that the caller holds; the pool keeps the parked ones. The hook
  \<open>prepare_sequence_state\<close> that \<open>adopt\<close> ends with acts on the model and not on the pool; it is left out,
  and so are the log messages and the \<open>debug_assert\<close>s.
\<close>

section \<open>Dense handoff\<close>

text \<open>\<open>PoolPanic\<close> is a panic inside \<open>clone_handle\<close>, after the sequence left the active map.\<close>

definition detach :: "'a mlx_ffi \<Rightarrow> nat \<Rightarrow> 'a cache_pool \<Rightarrow> nat \<Rightarrow> ('a, 'a detached_cache_set option) cp_op" where
  "detach f now cp i =
     (case hm_get (active cp) i of
        None \<Rightarrow> (Inr None, cp)
      | Some s \<Rightarrow>
          if backend s \<noteq> DenseKvCache \<or> list_ex is_front_trimmed (caches s) then (Inr None, cp)
          else let cp1 = cp\<lparr>active := hm_remove i (active cp)\<rparr>
            in case those (map (clone_handle f) (caches s)) of
                 None \<Rightarrow> (Inl PoolPanic, cp1)
               | Some hs \<Rightarrow>
                   (Inr (Some \<lparr>ds_caches = map fst hs, ds_backend = backend s, ds_prompt_len = prompt_len s,
                       ds_current_offset = current_offset s, ds_created_at = created_at s,
                       ds_detached_at = now, ds_origin_seq_id = seq_id s\<rparr>), cp1))"

text \<open>Live caches from detached handles. \<open>None\<close> is the panic of \<open>expect\<close> on \<open>install_detached\<close>.\<close>

definition install_all :: "cache_env \<Rightarrow> 'a mlx_ffi \<Rightarrow> 'a detached_kv_cache list \<Rightarrow> 'a kv_cache list option" where
  "install_all env f ds =
     those (map (\<lambda>d. install_detached f (new_with_mode (env_fast_path env) (env_sidecar_policy env) (mode d)) d) ds)"

definition adopt_preserving ::
  "cache_env \<Rightarrow> 'a mlx_ffi \<Rightarrow> nat \<Rightarrow> 'a cache_pool \<Rightarrow> 'a detached_cache_set
   \<Rightarrow> ((cp_error \<times> 'a detached_cache_set) + nat) \<times> 'a cache_pool" where
  "adopt_preserving env f now cp d =
     (if ds_backend d \<noteq> DenseKvCache then (Inl (WrongBackend (ds_backend d), d), cp)
      else if length (active cp) \<ge> max_sequences cp then (Inl (MaxCapacity (max_sequences cp), d), cp)
      else let (i, cp1) = fetch_id cp
        in case install_all env f (ds_caches d) of
             None \<Rightarrow> (Inl (PoolPanic, d), cp1)
           | Some live \<Rightarrow>
               let e = (with_backend i DenseKvCache live None None now)
                         \<lparr>backend := ds_backend d, prompt_len := ds_prompt_len d,
                          current_offset := ds_current_offset d, created_at := ds_created_at d\<rparr>
               in (Inr i, cp1\<lparr>active := hm_insert i e (active cp1)\<rparr>))"

definition adopt :: "cache_env \<Rightarrow> 'a mlx_ffi \<Rightarrow> nat \<Rightarrow> 'a cache_pool \<Rightarrow> 'a detached_cache_set \<Rightarrow> ('a, nat) cp_op" where
  "adopt env f now cp d =
     (case adopt_preserving env f now cp d of
        (Inl (e, _), cp') \<Rightarrow> (Inl e, cp') | (Inr i, cp') \<Rightarrow> (Inr i, cp'))"

definition park_detached :: "'a cache_pool \<Rightarrow> 'a detached_cache_set \<Rightarrow> nat \<times> 'a cache_pool" where
  "park_detached cp d =
     (let (h, cp1) = fetch_id cp in (h, cp1\<lparr>detached := hm_insert h (ParkedDense d) (detached cp1)\<rparr>))"

definition take_parked :: "'a cache_pool \<Rightarrow> nat \<Rightarrow> 'a detached_cache_set option \<times> 'a cache_pool" where
  "take_parked cp h =
     (case hm_get (detached cp) h of
        Some (ParkedDense s) \<Rightarrow> (Some s, cp\<lparr>detached := hm_remove h (detached cp)\<rparr>)
      | Some other \<Rightarrow> (None, cp\<lparr>detached := hm_insert h other (hm_remove h (detached cp))\<rparr>)
      | None \<Rightarrow> (None, cp))"

definition adopt_parked :: "cache_env \<Rightarrow> 'a mlx_ffi \<Rightarrow> nat \<Rightarrow> 'a cache_pool \<Rightarrow> nat \<Rightarrow> ('a, nat) cp_op" where
  "adopt_parked env f now cp h =
     (case take_parked cp h of
        (None, cp1) \<Rightarrow> (Inl (UnknownHandle h), cp1)
      | (Some d, cp1) \<Rightarrow> adopt env f now cp1 d)"

definition parked_count :: "'a cache_pool \<Rightarrow> nat" where
  "parked_count cp = length (detached cp)"

definition parked_bytes :: "'a mlx_ffi \<Rightarrow> 'a cache_pool \<Rightarrow> nat" where
  "parked_bytes f cp = sum_list (map (parked_nbytes f \<circ> snd) (detached cp))"

section \<open>Paged detach\<close>

definition table_blocks :: "paged_sequence_state \<Rightarrow> nat list" where
  "table_blocks st = concat (map block_ids (layers st))"

text \<open>The pin loop of \<open>detach_paged\<close>: up to the first block that cannot be retained.\<close>

fun pin_blocks :: "'a paged_block_pool \<Rightarrow> nat list \<Rightarrow> nat option \<times> 'a paged_block_pool" where
  "pin_blocks p [] = (None, p)"
| "pin_blocks p (b # bs) =
     (case retain_block p b of (Inl e, p') \<Rightarrow> (Some b, p') | (Inr _, p') \<Rightarrow> pin_blocks p' bs)"

text \<open>\<open>let _ = pool.release_block(id)\<close> for each block.\<close>

definition release_ignoring :: "'a paged_block_pool \<Rightarrow> nat list \<Rightarrow> 'a paged_block_pool" where
  "release_ignoring p bs = fold (\<lambda>b q. snd (release_block q b)) bs p"

definition hm_insert_opt :: "'k \<Rightarrow> 'v option \<Rightarrow> ('k, 'v) hmap \<Rightarrow> ('k, 'v) hmap" where
  "hm_insert_opt k v m = (case v of Some x \<Rightarrow> hm_insert k x m | None \<Rightarrow> m)"

abbreviation no_pages :: "'a paged_turbo_page_sidecars" where
  "no_pages \<equiv> \<lparr>pg_v_packed = [], pg_v_norms = [], pg_k_packed = [], pg_k_norms = [], pg_cold_keys = []\<rparr>"

definition lift_page :: "kv_cache_mode \<Rightarrow> nat \<Rightarrow> 'a paged_turbo_page_sidecars \<times> 'a paged_block_pool
    \<Rightarrow> 'a paged_turbo_page_sidecars \<times> 'a paged_block_pool" where
  "lift_page m b x =
     (let (pg, p) = x;
          (vp, p1) = take_v_packed p b;
          (vn, p2) = take_v_norms p1 b;
          (kp, p3) = (if m = Turbo4 then take_k_packed p2 b else (None, p2));
          (kn, p4) = (if m = Turbo4 then take_k_norms p3 b else (None, p3));
          (ck, p5) = (if m = Turbo4Delegated then take_cold_keys p4 b else (None, p4))
      in (\<lparr>pg_v_packed = hm_insert_opt b vp (pg_v_packed pg), pg_v_norms = hm_insert_opt b vn (pg_v_norms pg),
           pg_k_packed = hm_insert_opt b kp (pg_k_packed pg), pg_k_norms = hm_insert_opt b kn (pg_k_norms pg),
           pg_cold_keys = hm_insert_opt b ck (pg_cold_keys pg)\<rparr>, p5))"

definition lift_pages :: "paged_kv_layout \<Rightarrow> nat list \<Rightarrow> 'a paged_block_pool
    \<Rightarrow> 'a paged_turbo_page_sidecars \<times> 'a paged_block_pool" where
  "lift_pages lay bs p =
     (if layout_is_turbo_mode lay then fold (lift_page (cache_mode lay)) bs (no_pages, p) else (no_pages, p))"

text \<open>The bytes of \<open>n\<^sub>l\<close> blocks in each layer \<open>l\<close>; \<open>None\<close> when no layer has geometry.\<close>

definition captured_bytes :: "'a paged_block_pool \<Rightarrow> nat list \<Rightarrow> nat option" where
  "captured_bytes p ns =
     (let rs = map (\<lambda>(l, n). map_option (\<lambda>per_block. n * per_block) (real_block_bytes p l)) (enumerate 0 ns)
      in if list_ex (\<lambda>r. r \<noteq> None) rs then Some (sum_list (map (case_option 0 id) rs)) else None)"

definition detach_paged ::
  "'a mlx_ffi \<Rightarrow> nat \<Rightarrow> 'a cache_pool \<Rightarrow> nat \<Rightarrow> ('a, 'a detached_paged_cache_set option) cp_op" where
  "detach_paged f now cp i =
     (case hm_get (active cp) i of
        None \<Rightarrow> (Inr None, cp)
      | Some s \<Rightarrow>
          if backend s \<noteq> PagedKvCache then (Inr None, cp)
          else case (paged s, set_paged_layout s) of
            (Some (_, st), Some lay) \<Rightarrow>
              let cp1 = cp\<lparr>active := hm_remove i (active cp)\<rparr>;
                  retained = table_blocks st;
                  pinned = map_option (\<lambda>p. case pin_blocks p retained of
                                (Some b, p') \<Rightarrow>
                                  (True, release_ignoring p' (rev (takeWhile (\<lambda>x. x \<noteq> b) retained)))
                              | (None, p') \<Rightarrow> (False, p')) (paged_pool cp1);
                  cp2 = cp1\<lparr>paged_pool := map_option snd pinned\<rparr>
              in if case_option False fst pinned then
                   let (cell, cp3) = fetch_cell cp2
                   in (Inr None, cp3\<lparr>active := hm_insert i (s\<lparr>paged := Some (cell, st)\<rparr>) (active cp3)\<rparr>)
                 else case those (map (clone_handle f) (caches s)) of
                   None \<Rightarrow> (Inl PoolPanic, cp2)
                 | Some hs \<Rightarrow>
                     let lifted = map_option (lift_pages lay retained) (paged_pool cp2);
                         cp3 = cp2\<lparr>paged_pool := map_option snd lifted\<rparr>
                     in (Inr (Some
                          \<lparr>dp_caches = map fst hs, dp_state = st, dp_layout = lay, dp_backend = backend s,
                           dp_prompt_len = prompt_len s, dp_current_offset = current_offset s,
                           dp_created_at = created_at s, dp_detached_at = now, dp_origin_seq_id = seq_id s,
                           retained_blocks = Some retained,
                           real_pool_bytes = Option.bind (paged_pool cp3)
                             (\<lambda>p. captured_bytes p (map (length \<circ> block_ids) (layers st))),
                           dp_pages = case_option no_pages fst lifted\<rparr>), cp3)
          | _ \<Rightarrow> (Inr None, cp))"

section \<open>Releasing and adopting a detached paged set\<close>

datatype release_error = PoolUnavailable | Partial nat "nat \<times> pool_error"

text \<open>Release every block of a list, going on after failures; the failures are returned in order.\<close>

fun release_counting :: "'a paged_block_pool \<Rightarrow> nat list \<Rightarrow> (nat \<times> pool_error) list \<times> 'a paged_block_pool" where
  "release_counting p [] = ([], p)"
| "release_counting p (b # bs) =
     (case release_block p b of
        (r, p1) \<Rightarrow> (case release_counting p1 bs of
           (es, p2) \<Rightarrow> (case r of Inl e \<Rightarrow> (b, e) # es | Inr _ \<Rightarrow> es, p2)))"

definition release_detached_paged ::
  "'a cache_pool \<Rightarrow> 'a detached_paged_cache_set \<Rightarrow> (release_error + unit) \<times> 'a cache_pool" where
  "release_detached_paged cp d =
     (case retained_blocks d of
        None \<Rightarrow> (Inr (), cp)
      | Some bs \<Rightarrow>
          (case paged_pool cp of
             None \<Rightarrow> (Inl PoolUnavailable, cp)
           | Some p \<Rightarrow>
               (case release_counting p (bs @ table_blocks (dp_state d)) of
                  (es, p') \<Rightarrow>
                    (if es = [] then Inr () else Inl (Partial (length es) (hd es)),
                     cp\<lparr>paged_pool := Some p'\<rparr>))))"

text \<open>The reinstall loops of \<open>adopt_paged_preserving\<close>; a refused page is dropped.\<close>

definition reinstall :: "('a paged_block_pool \<Rightarrow> nat \<Rightarrow> 'a \<Rightarrow> ('a, unit) pool_op) \<Rightarrow> (nat, 'a) hmap
    \<Rightarrow> 'a paged_block_pool \<Rightarrow> 'a paged_block_pool" where
  "reinstall install pages p = fold (\<lambda>(b, t) q. snd (install q b t)) pages p"

definition reinstall_pages :: "paged_kv_layout \<Rightarrow> 'a paged_turbo_page_sidecars \<Rightarrow> 'a paged_block_pool
    \<Rightarrow> 'a paged_block_pool" where
  "reinstall_pages lay pg p =
     (if layout_is_turbo_mode lay then
        reinstall install_cold_keys (pg_cold_keys pg)
          (reinstall install_k_norms (pg_k_norms pg)
            (reinstall install_k_packed (pg_k_packed pg)
              (reinstall install_v_norms (pg_v_norms pg)
                (reinstall install_v_packed (pg_v_packed pg) p))))
      else p)"

text \<open>The caches of an adopted sequence: pool-backed ones that resume at the handle's offset, or dense
  ones rebuilt from the handles.\<close>

definition adopted_caches ::
  "cache_env \<Rightarrow> 'a mlx_ffi \<Rightarrow> 'a language_model \<Rightarrow> paged_kv_layout \<Rightarrow> nat \<Rightarrow> 'a detached_kv_cache list
   \<Rightarrow> 'a kv_cache list option" where
  "adopted_caches env f lm lay cell ds =
     (if is_pool_backed lm lay then
        Some (map (\<lambda>(l, h). (new_paged (env_fast_path env) (env_sidecar_policy env) cell l)\<lparr>offset := offset h\<rparr>)
                (enumerate 0 ds))
      else install_all env f ds)"

definition adopt_paged_preserving ::
  "cache_env \<Rightarrow> 'a mlx_ffi \<Rightarrow> 'a language_model \<Rightarrow> nat \<Rightarrow> 'a cache_pool \<Rightarrow> 'a detached_paged_cache_set
   \<Rightarrow> ((cp_error \<times> 'a detached_paged_cache_set) + nat) \<times> 'a cache_pool" where
  "adopt_paged_preserving env f lm now cp d =
     (if dp_backend d \<noteq> PagedKvCache then (Inl (WrongBackend (dp_backend d), d), cp)
      else if case_option False (\<lambda>p. layout p \<noteq> dp_layout d) (paged_pool cp) then (Inl (LayoutMismatch, d), cp)
      else if length (active cp) \<ge> max_sequences cp then (Inl (MaxCapacity (max_sequences cp), d), cp)
      else case ensure_paged_pool_from_layout cp (dp_layout d) of
        (Inl e, cp1) \<Rightarrow> (Inl (e, d), cp1)
      | (Inr _, cp1) \<Rightarrow>
          let (i, cp2) = fetch_id cp1; (cell, cp3) = fetch_cell cp2
          in case adopted_caches env f lm (dp_layout d) cell (dp_caches d) of
               None \<Rightarrow> (Inl (PoolPanic, d\<lparr>retained_blocks := None\<rparr>), cp3)
             | Some live \<Rightarrow>
                 let e = (with_backend i PagedKvCache live (Some (cell, dp_state d)) (Some (dp_layout d)) now)
                           \<lparr>backend := dp_backend d, prompt_len := dp_prompt_len d,
                            current_offset := dp_current_offset d, created_at := dp_created_at d\<rparr>
                 in (Inr i, cp3\<lparr>active := hm_insert i e (active cp3),
                              paged_pool := map_option (\<lambda>p.
                                release_ignoring (reinstall_pages (dp_layout d) (dp_pages d) p)
                                  (case_option [] id (retained_blocks d))) (paged_pool cp3)\<rparr>))"

definition adopt_paged ::
  "cache_env \<Rightarrow> 'a mlx_ffi \<Rightarrow> 'a language_model \<Rightarrow> nat \<Rightarrow> 'a cache_pool \<Rightarrow> 'a detached_paged_cache_set
   \<Rightarrow> ('a, nat) cp_op" where
  "adopt_paged env f lm now cp d =
     (case adopt_paged_preserving env f lm now cp d of
        (Inl (e, d'), cp1) \<Rightarrow> (Inl e, snd (release_detached_paged cp1 d'))
      | (Inr i, cp1) \<Rightarrow> (Inr i, cp1))"

definition park_detached_paged :: "'a cache_pool \<Rightarrow> 'a detached_paged_cache_set \<Rightarrow> nat \<times> 'a cache_pool" where
  "park_detached_paged cp d =
     (let (h, cp1) = fetch_id cp in (h, cp1\<lparr>detached := hm_insert h (ParkedPaged d) (detached cp1)\<rparr>))"

definition peek_parked_paged :: "'a cache_pool \<Rightarrow> nat \<Rightarrow> 'a detached_paged_cache_set option" where
  "peek_parked_paged cp h = (case hm_get (detached cp) h of Some (ParkedPaged d) \<Rightarrow> Some d | _ \<Rightarrow> None)"

definition take_parked_paged :: "'a cache_pool \<Rightarrow> nat \<Rightarrow> 'a detached_paged_cache_set option \<times> 'a cache_pool" where
  "take_parked_paged cp h =
     (case hm_get (detached cp) h of
        Some (ParkedPaged d) \<Rightarrow> (Some d, cp\<lparr>detached := hm_remove h (detached cp)\<rparr>)
      | Some other \<Rightarrow> (None, cp\<lparr>detached := hm_insert h other (hm_remove h (detached cp))\<rparr>)
      | None \<Rightarrow> (None, cp))"

definition adopt_parked_paged ::
  "cache_env \<Rightarrow> 'a mlx_ffi \<Rightarrow> 'a language_model \<Rightarrow> nat \<Rightarrow> 'a cache_pool \<Rightarrow> nat \<Rightarrow> ('a, nat) cp_op" where
  "adopt_parked_paged env f lm now cp h =
     (case hm_get (detached cp) h of
        Some (ParkedPaged d) \<Rightarrow> adopt_paged env f lm now (cp\<lparr>detached := hm_remove h (detached cp)\<rparr>) d
      | Some other \<Rightarrow>
          (Inl (HandleIsDense h), cp\<lparr>detached := hm_insert h other (hm_remove h (detached cp))\<rparr>)
      | None \<Rightarrow> (Inl (UnknownHandle h), cp))"

section \<open>Prefix clone and trim of a detached paged set\<close>

definition dp_seq_len :: "'a detached_paged_cache_set \<Rightarrow> nat" where
  "dp_seq_len d = (case layers (dp_state d) of [] \<Rightarrow> 0 | ly # _ \<Rightarrow> visible_len ly)"

definition clone_eligible :: "'a detached_paged_cache_set \<Rightarrow> bool" where
  "clone_eligible d \<longleftrightarrow>
     dp_backend d = PagedKvCache \<and> \<not> layout_is_turbo_mode (dp_layout d) \<and> retained_blocks d \<noteq> None
     \<and> list_all (\<lambda>ly. logical_start ly = 0) (layers (dp_state d))
     \<and> list_all (\<lambda>h. pool_backed_handle_clone h 0 \<noteq> None) (dp_caches d)"

text \<open>Pin a list of blocks, undoing the pins already taken in reverse order at the first failure.\<close>

fun pin_with_rollback ::
  "'a paged_block_pool \<Rightarrow> nat list \<Rightarrow> nat list \<Rightarrow> ((nat \<times> pool_error) + unit) \<times> 'a paged_block_pool" where
  "pin_with_rollback p pinned [] = (Inr (), p)"
| "pin_with_rollback p pinned (b # bs) =
     (case retain_block p b of
        (Inl e, p') \<Rightarrow> (Inl (b, e), release_ignoring p' (rev pinned))
      | (Inr _, p') \<Rightarrow> pin_with_rollback p' (pinned @ [b]) bs)"

definition twice :: "nat list \<Rightarrow> nat list" where
  "twice bs = concat (map (\<lambda>b. [b, b]) bs)"

text \<open>The cloned block table. \<open>None\<close> is the panic of an index or slice out of range.\<close>

definition clone_table :: "paged_kv_layout \<Rightarrow> paged_sequence_state \<Rightarrow> nat \<Rightarrow> nat \<Rightarrow> paged_sequence_state option" where
  "clone_table lay st keep target =
     (let fresh = sequence_state_new lay; n = length (layers st) in
      if n \<le> length (layers fresh) \<and> list_all (\<lambda>ly. keep \<le> length (block_ids ly)) (layers st)
      then Some (fresh\<lparr>layers := map (\<lambda>(g, ly). g\<lparr>block_ids := take keep (block_ids ly), len := target\<rparr>)
                                  (zip (take n (layers fresh)) (layers st)) @ drop n (layers fresh)\<rparr>)
      else None)"

definition clone_detached_paged_prefix ::
  "nat \<Rightarrow> 'a cache_pool \<Rightarrow> 'a detached_paged_cache_set \<Rightarrow> nat \<Rightarrow> ('a, 'a detached_paged_cache_set) cp_op" where
  "clone_detached_paged_prefix now cp d target =
     (let bs = block_size (dp_layout d) in
      if dp_backend d \<noteq> PagedKvCache then (Inl (WrongBackend (dp_backend d)), cp)
      else if layout_is_turbo_mode (dp_layout d) then (Inl TurboUnsupported, cp)
      else if bs = 0 \<or> target = 0 \<or> target mod bs \<noteq> 0 then (Inl (TargetNotAligned target bs), cp)
      else if target > dp_seq_len d then (Inl (TargetExceeds target (dp_seq_len d)), cp)
      else if list_ex (\<lambda>ly. logical_start ly \<noteq> 0) (layers (dp_state d)) then (Inl SlidingWindow, cp)
      else if retained_blocks d = None then (Inl NoBlockPins, cp)
      else case paged_pool cp of
        None \<Rightarrow> (Inl PagedNotInitialized, cp)
      | Some p \<Rightarrow>
          (case those (map (\<lambda>h. pool_backed_handle_clone h (as_i32 target)) (dp_caches d)) of
             None \<Rightarrow> (Inl HandlesCarryTensors, cp)
           | Some cs \<Rightarrow>
               let keep = target div bs in
               (case clone_table (dp_layout d) (dp_state d) keep target of
                  None \<Rightarrow> (Inl PoolPanic, cp)
                | Some st \<Rightarrow>
                    (case pin_with_rollback p [] (twice (table_blocks st)) of
                       (Inl (b, e), p') \<Rightarrow> (Inl (PinFailed b e), cp\<lparr>paged_pool := Some p'\<rparr>)
                     | (Inr _, p') \<Rightarrow>
                         (Inr \<lparr>dp_caches = cs, dp_state = st, dp_layout = dp_layout d, dp_backend = dp_backend d,
                            dp_prompt_len = min (dp_prompt_len d) target, dp_current_offset = as_i32 target,
                            dp_created_at = dp_created_at d, dp_detached_at = now,
                            dp_origin_seq_id = dp_origin_seq_id d,
                            retained_blocks = Some (table_blocks st),
                            real_pool_bytes = captured_bytes p' (replicate (length (layers st)) keep),
                            dp_pages = no_pages\<rparr>,
                          cp\<lparr>paged_pool := Some p'\<rparr>)))))"

text \<open>The layer loop of \<open>trim_detached_paged_to\<close>, from layer \<open>l\<close> on: the release failures, the dropped
  blocks, their bytes, the trimmed layers and the pool. The \<open>while\<close> loop pops the blocks beyond
  \<open>keep\<close> from the end and releases each of them twice.\<close>

fun trim_table ::
  "'a paged_block_pool \<Rightarrow> nat \<Rightarrow> nat \<Rightarrow> nat \<Rightarrow> paged_layer_state list
   \<Rightarrow> (nat \<times> pool_error) list \<times> nat list \<times> nat \<times> paged_layer_state list \<times> 'a paged_block_pool" where
  "trim_table p keep target l [] = ([], [], 0, [], p)"
| "trim_table p keep target l (ly # lys) =
     (let per_block = case_option 0 id (real_block_bytes p l);
          gone = rev (drop keep (block_ids ly));
          (es, p1) = release_counting p (twice gone);
          (es', gone', n, lys', p2) = trim_table p1 keep target (Suc l) lys
      in (es @ es', gone @ gone', length gone * per_block + n,
          ly\<lparr>block_ids := take keep (block_ids ly), len := target\<rparr> # lys', p2))"

definition trim_detached_paged_to ::
  "'a cache_pool \<Rightarrow> 'a detached_paged_cache_set \<Rightarrow> nat
   \<Rightarrow> (cp_error + unit) \<times> 'a detached_paged_cache_set \<times> 'a cache_pool" where
  "trim_detached_paged_to cp d target =
     (let bs = block_size (dp_layout d) in
      if dp_backend d \<noteq> PagedKvCache then (Inl (WrongBackend (dp_backend d)), d, cp)
      else if layout_is_turbo_mode (dp_layout d) then (Inl TurboUnsupported, d, cp)
      else if bs = 0 \<or> target mod bs \<noteq> 0 then (Inl (TargetNotAligned target bs), d, cp)
      else if target > dp_seq_len d then (Inl (TargetExceeds target (dp_seq_len d)), d, cp)
      else if list_ex (\<lambda>ly. logical_start ly \<noteq> 0) (layers (dp_state d)) then (Inl SlidingWindow, d, cp)
      else if target = dp_seq_len d then (Inr (), d, cp)
      else if retained_blocks d = None then (Inl NoBlockPins, d, cp)
      else case paged_pool cp of
        None \<Rightarrow> (Inl PagedNotInitialized, d, cp)
      | Some p \<Rightarrow>
          (case trim_table p (target div bs) target 0 (layers (dp_state d)) of
             (es, gone, n, lys, p') \<Rightarrow>
               (if es = [] then Inr () else Inl (ReleaseFailed (fst (hd es)) (snd (hd es))),
                d\<lparr>dp_state := (dp_state d)\<lparr>layers := lys\<rparr>,
                  real_pool_bytes := map_option (\<lambda>r. r - n) (real_pool_bytes d),
                  retained_blocks := map_option (filter (\<lambda>b. b \<notin> set gone)) (retained_blocks d),
                  dp_caches := map (\<lambda>h. h\<lparr>offset := as_i32 target\<rparr>) (dp_caches d),
                  dp_current_offset := min (dp_current_offset d) (as_i32 target),
                  dp_prompt_len := min (dp_prompt_len d) target\<rparr>,
                cp\<lparr>paged_pool := Some p'\<rparr>)))"

end
