(* ===== verification/Pool_Ownership.thy ===== *)
theory Pool_Ownership
  imports Pool_Handoff
begin

text \<open>
  Who owns the blocks of the paged pool. The state is a \<open>CachePool\<close> together with the list of
  detached paged sets that its callers hold. Every active paged sequence owns one reference per
  entry of its block table; a detached set owns two, one for the table and one for the pin.
  \<open>cp_inv\<close> says that the reference counts are the sum of these, and \<open>cp_step\<close> lists the
  operations of the pool; every reachable state satisfies the invariant.
\<close>

section \<open>The references of a state\<close>

definition seq_holds :: "'a sequence_cache_set \<Rightarrow> nat multiset" where
  "seq_holds s = (case paged s of None \<Rightarrow> {#} | Some (_, st) \<Rightarrow> seq_refs st)"

definition set_holds :: "'a detached_paged_cache_set \<Rightarrow> nat multiset" where
  "set_holds d = (case retained_blocks d of None \<Rightarrow> {#} | Some bs \<Rightarrow> mset bs + seq_refs (dp_state d))"

fun parked_holds :: "'a parked_cache \<Rightarrow> nat multiset" where
  "parked_holds (ParkedDense _) = {#}"
| "parked_holds (ParkedPaged d) = set_holds d"

definition all_refs :: "'a cache_pool \<Rightarrow> 'a detached_paged_cache_set list \<Rightarrow> nat multiset" where
  "all_refs cp hs =
     hm_total seq_holds (active cp) + hm_total parked_holds (detached cp) + sum_list (map set_holds hs)"

text \<open>A block table of the pool, without repetitions.\<close>

definition table_ok :: "'a paged_block_pool \<Rightarrow> paged_sequence_state \<Rightarrow> bool" where
  "table_ok p st \<longleftrightarrow> seq_ok p st \<and> distinct (table_blocks st)"

definition seq_holder_ok :: "'a paged_block_pool option \<Rightarrow> 'a sequence_cache_set \<Rightarrow> bool" where
  "seq_holder_ok po s \<longleftrightarrow>
     (\<forall>c st. paged s = Some (c, st) \<longrightarrow>
        backend s = PagedKvCache
        \<and> (\<exists>p. po = Some p \<and> table_ok p st \<and> set_paged_layout s = Some (layout p)))"

definition set_holder_ok :: "'a paged_block_pool option \<Rightarrow> 'a detached_paged_cache_set \<Rightarrow> bool" where
  "set_holder_ok po d \<longleftrightarrow>
     dp_backend d = PagedKvCache
     \<and> (\<exists>bs p. retained_blocks d = Some bs \<and> mset bs = seq_refs (dp_state d)
          \<and> po = Some p \<and> table_ok p (dp_state d) \<and> dp_layout d = layout p)"

fun parked_ok :: "'a paged_block_pool option \<Rightarrow> 'a parked_cache \<Rightarrow> bool" where
  "parked_ok po (ParkedDense _) = True"
| "parked_ok po (ParkedPaged d) = set_holder_ok po d"

definition pool_holds :: "'a paged_block_pool option \<Rightarrow> nat multiset \<Rightarrow> bool" where
  "pool_holds po M \<longleftrightarrow> (case po of None \<Rightarrow> M = {#} | Some p \<Rightarrow> pool_owned p M)"

definition keys_ok :: "'a cache_pool \<Rightarrow> bool" where
  "keys_ok cp \<longleftrightarrow>
     hm_wf (active cp) \<and> hm_wf (detached cp)
     \<and> (\<forall>e \<in> set (active cp). fst e < next_id cp) \<and> (\<forall>e \<in> set (detached cp). fst e < next_id cp)"

definition cp_inv :: "'a cache_pool \<Rightarrow> 'a detached_paged_cache_set list \<Rightarrow> bool" where
  "cp_inv cp hs \<longleftrightarrow>
     keys_ok cp \<and> pool_holds (paged_pool cp) (all_refs cp hs)
     \<and> (\<forall>e \<in> set (active cp). seq_holder_ok (paged_pool cp) (snd e))
     \<and> (\<forall>e \<in> set (detached cp). parked_ok (paged_pool cp) (snd e))
     \<and> (\<forall>d \<in> set hs. set_holder_ok (paged_pool cp) d)"

lemma seq_refs_table_blocks: "seq_refs st = mset (table_blocks st)"
  by (simp add: seq_refs_concat table_blocks_def)

section \<open>Frame\<close>

text \<open>The pool may change freely outside the references \<open>R\<close> that stay.\<close>

definition pool_frame :: "nat multiset \<Rightarrow> 'a paged_block_pool option \<Rightarrow> 'a paged_block_pool option \<Rightarrow> bool" where
  "pool_frame R po po' \<longleftrightarrow>
     (\<forall>p. po = Some p \<longrightarrow> (\<exists>p'. po' = Some p' \<and> layout p' = layout p
        \<and> (\<forall>b \<in># R. pool_layer_of p' b = pool_layer_of p b)))"

lemma pool_frame_refl [simp, intro]: "pool_frame R po po"
  by (simp add: pool_frame_def)

lemma pool_frame_None [simp]: "pool_frame R None po"
  by (simp add: pool_frame_def)

lemma pool_frame_Some [simp]:
  "pool_frame R (Some p) (Some p') \<longleftrightarrow> layout p' = layout p \<and> (\<forall>b \<in># R. pool_layer_of p' b = pool_layer_of p b)"
  by (simp add: pool_frame_def)

lemma table_ok_frame:
  assumes "layout p' = layout p" "\<forall>b \<in># R. pool_layer_of p' b = pool_layer_of p b" "seq_refs st \<subseteq># R"
  shows "table_ok p' st = table_ok p st"
proof -
  have "\<forall>b \<in># seq_refs st. pool_layer_of p' b = pool_layer_of p b" using assms(2,3) by (meson mset_subset_eqD)
  then show ?thesis unfolding table_ok_def using seq_ok_cong [OF assms(1)] by simp
qed

lemma seq_holder_ok_frame:
  assumes "pool_frame R po po'" "seq_holds s \<subseteq># R" "seq_holder_ok po s"
  shows "seq_holder_ok po' s"
  unfolding seq_holder_ok_def
proof (intro allI impI)
  fix c st assume st: "paged s = Some (c, st)"
  then obtain p where p: "backend s = PagedKvCache" "po = Some p" "table_ok p st"
    "set_paged_layout s = Some (layout p)" using assms(3) by (auto simp: seq_holder_ok_def)
  obtain p' where p': "po' = Some p'" "layout p' = layout p" "\<forall>b \<in># R. pool_layer_of p' b = pool_layer_of p b"
    using assms(1) p(2) by (auto simp: pool_frame_def)
  have "seq_refs st \<subseteq># R" using assms(2) st by (simp add: seq_holds_def)
  with p p' show "backend s = PagedKvCache
      \<and> (\<exists>p. po' = Some p \<and> table_ok p st \<and> set_paged_layout s = Some (layout p))"
    using table_ok_frame by fastforce
qed

lemma set_holder_ok_frame:
  assumes "pool_frame R po po'" "set_holds d \<subseteq># R" "set_holder_ok po d"
  shows "set_holder_ok po' d"
proof -
  from assms(3) obtain bs p where p: "retained_blocks d = Some bs" "po = Some p" "table_ok p (dp_state d)"
    by (auto simp: set_holder_ok_def)
  obtain p' where p': "po' = Some p'" "layout p' = layout p" "\<forall>b \<in># R. pool_layer_of p' b = pool_layer_of p b"
    using assms(1) p(2) by (auto simp: pool_frame_def)
  have "seq_refs (dp_state d) \<subseteq># set_holds d" using p(1) by (simp add: set_holds_def)
  with assms(2) have "seq_refs (dp_state d) \<subseteq># R" by (rule subset_mset.order_trans [rotated])
  from table_ok_frame [OF p'(2,3) this] p p' assms(3) show ?thesis by (auto simp: set_holder_ok_def)
qed

lemma parked_ok_frame:
  "pool_frame R po po' \<Longrightarrow> parked_holds x \<subseteq># R \<Longrightarrow> parked_ok po x \<Longrightarrow> parked_ok po' x"
  by (cases x) (auto intro: set_holder_ok_frame)

lemma hm_total_member:
  fixes f :: "'v \<Rightarrow> 'b multiset"
  shows "e \<in> set m \<Longrightarrow> f (snd e) \<subseteq># hm_total f m"
  by (induction m) (auto simp: hm_total_def subset_mset.add_increasing subset_mset.add_increasing2)

lemma sum_list_member:
  fixes f :: "'v \<Rightarrow> 'b multiset"
  shows "x \<in> set xs \<Longrightarrow> f x \<subseteq># sum_list (map f xs)"
  by (induction xs) (auto simp: subset_mset.add_increasing subset_mset.add_increasing2)

lemma subset_mset_addI: "A \<subseteq># B \<Longrightarrow> A \<subseteq># B + C" "A \<subseteq># C \<Longrightarrow> A \<subseteq># B + C" for A :: "'b multiset"
  by (simp_all add: subset_mset.add_increasing subset_mset.add_increasing2)

text \<open>The holders that an operation leaves alone are \<open>act\<close>, \<open>prk\<close> and \<open>kept\<close>. They stay in order when
  the pool keeps their blocks.\<close>

lemma holders_frame:
  assumes inv: "cp_inv cp hs" and fr: "pool_frame R (paged_pool cp) po'"
    and R: "R = hm_total seq_holds act + hm_total parked_holds prk + sum_list (map set_holds kept)"
    and sub: "set act \<subseteq> set (active cp)" "set prk \<subseteq> set (detached cp)" "set kept \<subseteq> set hs"
  shows "(\<forall>e \<in> set act. seq_holder_ok po' (snd e)) \<and> (\<forall>e \<in> set prk. parked_ok po' (snd e))
    \<and> (\<forall>d \<in> set kept. set_holder_ok po' d)"
proof (intro conjI ballI)
  fix e assume e: "e \<in> set act"
  have "seq_holds (snd e) \<subseteq># R" unfolding R by (intro subset_mset_addI hm_total_member e)
  then show "seq_holder_ok po' (snd e)"
    using inv sub(1) e by (intro seq_holder_ok_frame [OF fr]) (auto simp: cp_inv_def)
next
  fix e assume e: "e \<in> set prk"
  have "parked_holds (snd e) \<subseteq># R"
    unfolding R by (rule subset_mset_addI(1), rule subset_mset_addI(2), rule hm_total_member [OF e])
  then show "parked_ok po' (snd e)"
    using inv sub(2) e by (intro parked_ok_frame [OF fr]) (auto simp: cp_inv_def)
next
  fix d assume d: "d \<in> set kept"
  have "set_holds d \<subseteq># R" unfolding R by (rule subset_mset_addI(2), rule sum_list_member [OF d])
  then show "set_holder_ok po' d"
    using inv sub(3) d by (intro set_holder_ok_frame [OF fr]) (auto simp: cp_inv_def)
qed

section \<open>Operations on the block table of an active sequence\<close>

definition rest_refs :: "'a cache_pool \<Rightarrow> 'a detached_paged_cache_set list \<Rightarrow> nat \<Rightarrow> nat multiset" where
  "rest_refs cp hs i =
     hm_total seq_holds (hm_remove i (active cp)) + hm_total parked_holds (detached cp) + sum_list (map set_holds hs)"

lemma all_refs_split:
  "cp_inv cp hs \<Longrightarrow> hm_get (active cp) i = Some s \<Longrightarrow> all_refs cp hs = rest_refs cp hs i + seq_holds s"
  by (simp add: all_refs_def rest_refs_def cp_inv_def keys_ok_def hm_total_remove [of "active cp" i s] ac_simps)

lemma rest_frame:
  assumes "cp_inv cp hs" "pool_frame (rest_refs cp hs i) (paged_pool cp) po'"
  shows "\<forall>e \<in> set (hm_remove i (active cp)). seq_holder_ok po' (snd e)"
    and "\<forall>e \<in> set (detached cp). parked_ok po' (snd e)" and "\<forall>d \<in> set hs. set_holder_ok po' d"
  using holders_frame [OF assms rest_refs_def] by (auto simp: hm_set_remove)

lemma active_key_lt:
  "cp_inv cp hs \<Longrightarrow> hm_get (active cp) i = Some s \<Longrightarrow> i < next_id cp"
  unfolding cp_inv_def keys_ok_def by (metis fst_conv map_of_SomeD)

lemma cp_inv_update_seq:
  assumes inv: "cp_inv cp hs" and s: "hm_get (active cp) i = Some s"
    and own: "pool_holds po' (rest_refs cp hs i + seq_holds s')" and ok: "seq_holder_ok po' s'"
    and fr: "pool_frame (rest_refs cp hs i) (paged_pool cp) po'"
  shows "cp_inv (cp\<lparr>paged_pool := po', active := hm_insert i s' (active cp)\<rparr>) hs"
proof -
  have keys: "keys_ok cp" using inv by (simp add: cp_inv_def)
  let ?cp = "cp\<lparr>paged_pool := po', active := hm_insert i s' (active cp)\<rparr>"
  have "all_refs ?cp hs = rest_refs cp hs i + seq_holds s'"
    using keys s by (simp add: all_refs_def rest_refs_def keys_ok_def hm_total_insert_present ac_simps)
  moreover have "keys_ok ?cp"
    using keys active_key_lt [OF inv s] by (auto simp: keys_ok_def hm_set_insert hm_set_remove)
  moreover have "\<forall>e \<in> set (hm_insert i s' (active cp)). seq_holder_ok po' (snd e)"
    using rest_frame(1) [OF inv fr] ok keys by (auto simp: hm_set_insert keys_ok_def)
  ultimately show ?thesis
    using own rest_frame(2,3) [OF inv fr] by (simp add: cp_inv_def)
qed

lemma cp_inv_remove_seq:
  assumes inv: "cp_inv cp hs" and s: "hm_get (active cp) i = Some s"
    and own: "pool_holds po' (rest_refs cp hs i)"
    and fr: "pool_frame (rest_refs cp hs i) (paged_pool cp) po'"
  shows "cp_inv (cp\<lparr>paged_pool := po', active := hm_remove i (active cp)\<rparr>) hs"
proof -
  have keys: "keys_ok cp" using inv by (simp add: cp_inv_def)
  let ?cp = "cp\<lparr>paged_pool := po', active := hm_remove i (active cp)\<rparr>"
  have "all_refs ?cp hs = rest_refs cp hs i" by (simp add: all_refs_def rest_refs_def)
  moreover have "keys_ok ?cp" using keys by (auto simp: keys_ok_def hm_set_remove)
  ultimately show ?thesis
    using own rest_frame [OF inv fr] by (simp add: cp_inv_def)
qed

text \<open>What an operation on one block table must promise: whatever the references \<open>R\<close> of the others,
  the counts stay exact and the blocks of \<open>R\<close> stay where they are. \<open>room\<close> is what it needs of the
  bounded counters.\<close>

locale table_operation =
  fixes op :: "'a paged_block_pool \<Rightarrow> paged_sequence_state \<Rightarrow> ('a, 'r) seq_op"
    and room :: "'a paged_block_pool \<Rightarrow> paged_sequence_state \<Rightarrow> bool"
  assumes op_ok: "pool_owned p (R + seq_refs st) \<Longrightarrow> table_ok p st \<Longrightarrow> room p st \<Longrightarrow> op p st = (r, st', p') \<Longrightarrow>
    pool_owned p' (R + seq_refs st') \<and> table_ok p' st' \<and> layout p' = layout p
    \<and> (\<forall>b \<in># R. pool_layer_of p' b = pool_layer_of p b)"
begin

lemma with_state_inv:
  assumes inv: "cp_inv cp hs"
    and room: "\<And>p s c st. paged_pool cp = Some p \<Longrightarrow> hm_get (active cp) i = Some s \<Longrightarrow>
      paged s = Some (c, st) \<Longrightarrow> room p st"
    and run: "with_pool_and_state cp i op = (r, cp')"
  shows "cp_inv cp' hs"
proof (cases "\<exists>p s c st. paged_pool cp = Some p \<and> hm_get (active cp) i = Some s \<and> paged s = Some (c, st)")
  case False
  then have "cp' = cp" using run by (auto simp: with_pool_and_state_def split: option.splits)
  then show ?thesis using inv by simp
next
  case True
  then obtain p s c st where p: "paged_pool cp = Some p" "hm_get (active cp) i = Some s" "paged s = Some (c, st)"
    by blast
  obtain x st' p' where op: "op p st = (x, st', p')" by (cases "op p st") auto
  let ?s = "s\<lparr>paged := Some (c, st')\<rparr>"
  have cp': "cp' = cp\<lparr>paged_pool := Some p', active := hm_insert i ?s (active cp)\<rparr>"
    using run p op by (simp add: with_pool_and_state_def)
  have sok: "backend s = PagedKvCache" "table_ok p st" "set_paged_layout s = Some (layout p)"
    using inv p map_of_SomeD [OF p(2)] by (auto simp: cp_inv_def seq_holder_ok_def)
  have "pool_owned p (rest_refs cp hs i + seq_refs st)"
    using inv p all_refs_split [OF inv p(2)] by (simp add: cp_inv_def pool_holds_def seq_holds_def)
  from op_ok [OF this sok(2) room [OF p] op]
  show ?thesis unfolding cp'
    using p sok by (intro cp_inv_update_seq [OF inv p(2)]) (auto simp: pool_holds_def seq_holds_def seq_holder_ok_def)
qed

end

lemma table_ok_append:
  assumes "table_ok p st" "seq_ok p' st'" "seq_refs st' = seq_refs st + mset new" "distinct new"
    "\<forall>b \<in> set new. b \<notin># seq_refs st"
  shows "table_ok p' st'"
proof -
  have "mset (table_blocks st') = mset (table_blocks st @ new)"
    using assms(3) by (simp add: seq_refs_table_blocks)
  from mset_eq_imp_distinct_iff [OF this] show ?thesis
    using assms by (auto simp: table_ok_def seq_refs_table_blocks)
qed

lemma table_ok_shrink:
  assumes "table_ok p st" "seq_ok p' st'" "seq_refs st' \<subseteq># seq_refs st"
  shows "table_ok p' st'"
proof -
  obtain M where "seq_refs st = seq_refs st' + M" using assms(3) by (auto simp: mset_subset_eq_exists_conv)
  moreover obtain xs where "M = mset xs" by (metis ex_mset)
  ultimately have "mset (table_blocks st) = mset (table_blocks st' @ xs)" by (simp add: seq_refs_table_blocks)
  from mset_eq_imp_distinct_iff [OF this] show ?thesis using assms by (auto simp: table_ok_def)
qed

definition append_room :: "nat \<Rightarrow> nat \<Rightarrow> 'a paged_block_pool \<Rightarrow> paged_sequence_state \<Rightarrow> bool" where
  "append_room l n p st \<longleftrightarrow>
     next_block_id p + div_ceil (len (layers st ! l) + n) (block_size (layout p)) \<le> u64_max"

interpretation append_op: table_operation "\<lambda>p st. append_tokens p st l n" "append_room l n" for l n
proof (unfold_locales, goal_cases)
  case (1 p R st r st' p')
  then have ok: "seq_ok p st" and tab: "table_ok p st" by (auto simp: table_ok_def)
  from append_tokens_owned [OF 1(1) ok 1(3) [unfolded append_room_def] 1(4)] obtain new where
    new: "st' = (if l < length (layers st)
        then set_layer st l ((layers st ! l)\<lparr>block_ids := block_ids (layers st ! l) @ new,
               len := len (layers st ! l) + (if r = Inr () then n else 0)\<rparr>) else st)"
      "distinct new" "\<forall>b \<in> set new. b \<notin># R + seq_refs st"
    and own: "pool_owned p' (R + seq_refs st')" "seq_ok p' st'" "layout p' = layout p"
      "\<forall>b \<in># R. pool_layer_of p' b = pool_layer_of p b" by blast
  have "table_ok p' st'"
  proof (cases "l < length (layers st)")
    case True
    have "seq_refs st' + mset (block_ids (layers st ! l)) = seq_refs st + mset (block_ids (layers st ! l) @ new)"
      using new(1) True by (simp add: seq_refs_set_layer)
    then have "seq_refs st' = seq_refs st + mset new" by simp
    then show ?thesis using table_ok_append [OF tab own(2)] new(2,3) by simp
  next
    case False
    then show ?thesis using new(1) own(2) tab by (simp add: table_ok_def)
  qed
  with own show ?case by simp
qed


text \<open>Trimming needs no room and never fails on a layer of the table.\<close>

lemma trim_tokens_table:
  assumes own: "pool_owned p (R + seq_refs st)" and ok: "table_ok p st" and run: "trim_tokens p st l n = (r, st', p')"
  shows "pool_owned p' (R + seq_refs st') \<and> table_ok p' st' \<and> layout p' = layout p
    \<and> pool_layer_of p' = pool_layer_of p \<and> next_block_id p' = next_block_id p
    \<and> (l < length (layers st) \<longrightarrow> (\<exists>k. r = Inr k))"
proof (cases "l < length (layers st)")
  case False
  then have "st' = st" "p' = p" using run by (auto simp: trim_tokens_def)
  then show ?thesis using own ok False by simp
next
  case True
  have sok: "seq_ok p st" using ok by (simp add: table_ok_def)
  from trim_tokens_owned [OF own sok True, of n] obtain k st1 p1 c a b m where
    t: "trim_tokens p st l n = (Inr k, st1, p1)" "pool_owned p1 (R + seq_refs st1)" "seq_ok p1 st1"
    "layout p1 = layout p" "next_block_id p1 = next_block_id p" "pool_layer_of p1 = pool_layer_of p"
    "st1 = (if c then st else set_layer st l ((layers st ! l)\<lparr>len := a, logical_start := b,
       block_ids := take m (block_ids (layers st ! l))\<rparr>))"
    by blast
  let ?ly = "(layers st ! l)\<lparr>len := a, logical_start := b, block_ids := take m (block_ids (layers st ! l))\<rparr>"
  have eq: "r = Inr k" "st' = st1" "p' = p1" using t(1) run by simp_all
  have "block_ids ?ly = take m (block_ids (layers st ! l))" by simp
  from seq_refs_take_layer [OF True this] have "seq_refs (set_layer st l ?ly) \<subseteq># seq_refs st"
    by (rule subst) (rule mset_subset_eq_add_left)
  then have "seq_refs st1 \<subseteq># seq_refs st" using t(7) by (cases c) simp_all
  from table_ok_shrink [OF ok t(3) this] show ?thesis using t eq by simp
qed

interpretation trim_op: table_operation "\<lambda>p st. trim_tokens p st l n" "\<lambda>_ _. True" for l n
proof (unfold_locales, goal_cases)
  case (1 p R st r st' p')
  then show ?case using trim_tokens_table [OF 1(1,2,4)] by simp
qed

interpretation rewind_op: table_operation "\<lambda>p st. rewind_tokens p st l n" "\<lambda>_ _. True" for l n
  using trim_op.table_operation_axioms by (simp add: rewind_tokens_def)

definition sync_room :: "nat list \<Rightarrow> 'a paged_block_pool \<Rightarrow> paged_sequence_state \<Rightarrow> bool" where
  "sync_room targets p st \<longleftrightarrow>
     next_block_id p + sum_list (map (\<lambda>t. div_ceil t (block_size (layout p))) targets) \<le> u64_max"

lemma sync_layers_table:
  assumes "pool_owned p (R + seq_refs st)" "table_ok p st" "sync_room targets p st"
    "sync_layers p st l targets = (r, st', p')"
  shows "pool_owned p' (R + seq_refs st') \<and> table_ok p' st' \<and> layout p' = layout p
    \<and> (\<forall>b \<in># R. pool_layer_of p' b = pool_layer_of p b)"
  using assms
proof (induction targets arbitrary: p st l)
  case (Cons t ts)
  let ?cur = "len (layers st ! l)"
  consider (grow) "t > ?cur" | (shrink) "t < ?cur" | (same) "t = ?cur" by linarith
  then show ?case
  proof cases
    case grow
    obtain a st1 p1 where app: "append_tokens p st l (t - ?cur) = (a, st1, p1)"
      by (cases "append_tokens p st l (t - ?cur)") auto
    have room: "append_room l (t - ?cur) p st" using Cons.prems(3) grow by (simp add: sync_room_def append_room_def)
    note one = append_op.op_ok [OF Cons.prems(1,2) room app]
    show ?thesis
    proof (cases a)
      case (Inl e)
      then have "st' = st1" "p' = p1" using app grow Cons.prems(4) by simp_all
      then show ?thesis using one by simp
    next
      case (Inr u)
      have "next_block_id p1 \<le> next_block_id p + div_ceil t (block_size (layout p))"
        using append_tokens_owned [OF Cons.prems(1) _ room [unfolded append_room_def] app] Cons.prems(2) grow
        by (auto simp: table_ok_def)
      then have "sync_room ts p1 st1" using Cons.prems(3) one by (simp add: sync_room_def)
      moreover have "sync_layers p1 st1 (Suc l) ts = (r, st', p')" using Cons.prems(4) app grow Inr by simp
      ultimately show ?thesis using one Cons.IH [of p1 st1 "Suc l"] by simp
    qed
  next
    case shrink
    obtain a st1 p1 where tr: "trim_tokens p st l (?cur - t) = (a, st1, p1)"
      by (cases "trim_tokens p st l (?cur - t)") auto
    note one = trim_tokens_table [OF Cons.prems(1,2) tr]
    show ?thesis
    proof (cases a)
      case (Inl e)
      then have "st' = st1" "p' = p1" using tr shrink Cons.prems(4) by simp_all
      then show ?thesis using one by simp
    next
      case (Inr k)
      have "sync_room ts p1 st1" using Cons.prems(3) one by (simp add: sync_room_def)
      moreover have "sync_layers p1 st1 (Suc l) ts = (r, st', p')" using Cons.prems(4) tr shrink Inr by simp
      ultimately show ?thesis using one Cons.IH [of p1 st1 "Suc l"] by simp
    qed
  next
    case same
    have "sync_room ts p st" using Cons.prems(3) by (simp add: sync_room_def)
    moreover have "sync_layers p st (Suc l) ts = (r, st', p')" using Cons.prems(4) same by simp
    ultimately show ?thesis using Cons.IH [of p st "Suc l"] Cons.prems(1,2) by simp
  qed
qed simp

interpretation sync_op: table_operation "\<lambda>p st. sync_layers p st l targets" "sync_room targets" for l targets
  by unfold_locales (rule sync_layers_table)

section \<open>Allocation and release\<close>

lemma cp_inv_change:
  assumes inv: "cp_inv cp hs" and fr: "pool_frame R (paged_pool cp) (paged_pool cp')"
    and R: "R = hm_total seq_holds act + hm_total parked_holds prk + sum_list (map set_holds kept)"
    and sub: "set act \<subseteq> set (active cp)" "set prk \<subseteq> set (detached cp)" "set kept \<subseteq> set hs"
    and act: "\<forall>e \<in> set (active cp'). e \<in> set act \<or> seq_holder_ok (paged_pool cp') (snd e)"
    and prk: "\<forall>e \<in> set (detached cp'). e \<in> set prk \<or> parked_ok (paged_pool cp') (snd e)"
    and hs': "\<forall>d \<in> set hs'. d \<in> set kept \<or> set_holder_ok (paged_pool cp') d"
    and keys: "keys_ok cp'" and own: "pool_holds (paged_pool cp') (all_refs cp' hs')"
  shows "cp_inv cp' hs'"
  using holders_frame [OF inv fr R sub] act prk hs' keys own unfolding cp_inv_def by blast

abbreviation id_room :: "'a cache_pool \<Rightarrow> bool" where
  "id_room cp \<equiv> next_id cp < u64_max"

lemma fetch_id_room: "id_room cp \<Longrightarrow> fetch_id cp = (next_id cp, cp\<lparr>next_id := Suc (next_id cp)\<rparr>)"
  by (simp add: fetch_id_def u64_max_def)

lemma fresh_id: "cp_inv cp hs \<Longrightarrow> hm_get (active cp) (next_id cp) = None \<and> hm_get (detached cp) (next_id cp) = None"
  by (auto simp: cp_inv_def keys_ok_def map_of_eq_None_iff)

text \<open>A new active sequence under the next identifier. \<open>hs'\<close> are the sets still held.\<close>

lemma cp_inv_insert_seq:
  assumes inv: "cp_inv cp hs" and sub: "set hs' \<subseteq> set hs"
    and own: "pool_holds po' (hm_total seq_holds (active cp) + hm_total parked_holds (detached cp)
      + sum_list (map set_holds hs') + seq_holds s)"
    and fr: "pool_frame (hm_total seq_holds (active cp) + hm_total parked_holds (detached cp)
      + sum_list (map set_holds hs')) (paged_pool cp) po'"
    and ok: "seq_holder_ok po' s"
  shows "cp_inv (cp\<lparr>next_id := Suc (next_id cp), next_cell := k, paged_pool := po',
                   active := hm_insert (next_id cp) s (active cp)\<rparr>) hs'"
    (is "cp_inv ?cp hs'")
proof -
  have keys: "keys_ok cp" using inv by (simp add: cp_inv_def)
  note fresh = fresh_id [OF inv]
  have ins: "set (hm_insert (next_id cp) s (active cp)) = insert (next_id cp, s) (set (active cp))"
    using keys fresh by (simp add: hm_set_insert keys_ok_def hm_remove_absent)
  show ?thesis
  proof (rule cp_inv_change [OF inv _ refl, where act = "active cp" and prk = "detached cp" and kept = hs'])
    show "keys_ok ?cp" using keys ins by (auto simp: keys_ok_def less_Suc_eq)
    show "pool_holds (paged_pool ?cp) (all_refs ?cp hs')"
      using own fresh by (simp add: all_refs_def hm_total_insert_absent ac_simps)
  qed (use fr sub ok ins in auto)
qed

lemma cp_inv_bump_id: "cp_inv cp hs \<Longrightarrow> cp_inv (cp\<lparr>next_id := Suc (next_id cp)\<rparr>) hs"
  by (auto simp: cp_inv_def keys_ok_def all_refs_def less_Suc_eq)

lemma cp_inv_next_cell [simp]: "cp_inv (cp\<lparr>next_cell := k\<rparr>) hs = cp_inv cp hs"
  by (simp add: cp_inv_def keys_ok_def all_refs_def)

lemma pool_owned_budget [simp]: "pool_owned (set_block_budget p m) M = pool_owned p M"
  by (simp add: ref_owned_def pool_inv_defs pool_refcount_def set_block_budget_def)

lemma set_block_budget_frame [simp]:
  "layout (set_block_budget p m) = layout p" "pool_layer_of (set_block_budget p m) = pool_layer_of p"
  by (simp_all add: set_block_budget_def pool_layer_of_def fun_eq_iff)

lemma layout_pool_new [simp]: "layout (pool_new lay) = lay"
  by (simp add: pool_new_def Let_def)

lemma table_ok_new: "layout p = lay \<Longrightarrow> table_ok p (sequence_state_new lay)"
  by (auto simp: table_ok_def seq_ok_def layer_ok_def sequence_state_new_def layer_state_new_def table_blocks_def)

lemma ensure_pool_inv:
  assumes inv: "cp_inv cp hs" and bs: "0 < block_size lay"
    and run: "ensure_paged_pool cp lay = (r, cp') \<or> ensure_paged_pool_from_layout cp lay = (r, cp')"
  shows "if r = Inr () then (\<exists>p. cp' = cp\<lparr>paged_pool := Some p\<rparr> \<and> layout p = lay
      \<and> pool_owned p (all_refs cp hs) \<and> pool_frame R (paged_pool cp) (Some p)) \<and> cp_inv cp' hs
    else cp' = cp"
proof (cases "paged_pool cp")
  case None
  obtain m where p: "r = Inr ()" "cp' = cp\<lparr>paged_pool := Some (set_block_budget (pool_new lay) m)\<rparr>"
    using run None by (auto simp: ensure_paged_pool_def ensure_paged_pool_from_layout_def set_block_budget_def pool_new_def Let_def)
  have z: "all_refs cp hs = {#}" using inv None by (simp add: cp_inv_def pool_holds_def)
  have "cp_inv cp' hs"
  proof (rule cp_inv_change [OF inv _ refl, where act = "active cp" and prk = "detached cp" and kept = hs])
    show "pool_holds (paged_pool cp') (all_refs cp' hs)"
      using z pool_new_owned [OF bs] p by (simp add: pool_holds_def all_refs_def)
  qed (use inv p None in \<open>auto simp: cp_inv_def keys_ok_def\<close>)
  then show ?thesis using p None z pool_new_owned [OF bs] by auto
next
  case (Some p)
  then have "if r = Inr () then cp' = cp \<and> layout p = lay else cp' = cp"
    using run by (auto simp: ensure_paged_pool_def ensure_paged_pool_from_layout_def split: if_splits)
  moreover have "cp = cp\<lparr>paged_pool := Some p\<rparr>" using Some by simp
  moreover have "pool_owned p (all_refs cp hs)" using inv Some by (simp add: cp_inv_def pool_holds_def)
  ultimately show ?thesis using inv Some by (metis pool_frame_refl)
qed

lemma cp_inv_insert_unpaged:
  assumes "cp_inv cp hs" "paged s = None"
  shows "cp_inv (cp\<lparr>next_id := Suc (next_id cp), active := hm_insert (next_id cp) s (active cp)\<rparr>) hs"
proof -
  have "cp_inv (cp\<lparr>next_id := Suc (next_id cp), next_cell := next_cell cp, paged_pool := paged_pool cp,
                   active := hm_insert (next_id cp) s (active cp)\<rparr>) hs"
    by (rule cp_inv_insert_seq [OF assms(1) order_refl])
       (use assms in \<open>simp_all add: seq_holds_def seq_holder_ok_def cp_inv_def all_refs_def\<close>)
  then show ?thesis by simp
qed


definition effective_layout :: "'a language_model \<Rightarrow> sequence_state_layout option \<Rightarrow> sequence_state_layout" where
  "effective_layout lm ov = (case ov of Some l \<Rightarrow> l | None \<Rightarrow> lm_layout lm)"

lemma allocate_inv:
  assumes inv: "cp_inv cp hs" and room: "id_room cp"
    and bs: "\<forall>pl. sl_paged_layout (effective_layout lm ov) = Some pl \<longrightarrow> 0 < block_size pl"
    and run: "allocate_with_layout env lm now cp ov = (r, cp')"
  shows "cp_inv cp' hs"
proof -
  let ?lay = "effective_layout lm ov" and ?i = "next_id cp"
  let ?cp1 = "cp\<lparr>next_id := Suc ?i\<rparr>"
  note bump = cp_inv_bump_id [OF inv]
  note run' = run [unfolded allocate_with_layout_def Let_def effective_layout_def [symmetric] fetch_id_room [OF room] split]
  show ?thesis
  proof (cases "sl_backend ?lay")
    case DenseKvCache
    then have "cp' = cp \<or> cp' = ?cp1\<lparr>active := hm_insert ?i (with_backend ?i DenseKvCache (lm_make_caches lm) None None now) (active cp)\<rparr>"
      using run' by (auto split: if_splits)
    then show ?thesis using inv cp_inv_insert_unpaged [OF inv] by (auto simp: with_backend_def)
  next
    case ModelOwned
    then have "cp' = ?cp1\<lparr>active := hm_insert ?i (with_backend ?i ModelOwned [] None None now) (active cp)\<rparr>"
      using run' by auto
    then show ?thesis using cp_inv_insert_unpaged [OF inv] by (auto simp: with_backend_def)
  next
    case PagedKvCache
    show ?thesis
    proof (cases "sl_paged_layout ?lay")
      case None
      then show ?thesis using run' PagedKvCache bump by auto
    next
      case (Some pl)
      obtain a cp2 where ens: "ensure_paged_pool ?cp1 pl = (a, cp2)" by (cases "ensure_paged_pool ?cp1 pl")
      have pl: "0 < block_size pl" using bs Some by simp
      note e = ensure_pool_inv [OF bump pl disjI1 [OF ens]]
      show ?thesis
      proof (cases a)
        case (Inl x)
        then show ?thesis using run' PagedKvCache Some ens e bump by auto
      next
        case (Inr u)
        from Inr e [of "all_refs cp hs"] obtain p where p: "cp2 = ?cp1\<lparr>paged_pool := Some p\<rparr>" "layout p = pl"
          "pool_owned p (all_refs ?cp1 hs)" "pool_frame (all_refs cp hs) (paged_pool cp) (Some p)" by auto
        define s where "s = with_backend ?i PagedKvCache
          (if is_pool_backed lm pl then map (new_paged (env_fast_path env) (env_sidecar_policy env) (next_cell cp))
             [0..<num_layers pl] else lm_make_caches lm) (Some (next_cell cp, sequence_state_new pl)) (Some pl) now"
        have cp': "cp' = cp\<lparr>next_id := Suc ?i, next_cell := next_cell cp + 1, paged_pool := Some p,
            active := hm_insert ?i s (active cp)\<rparr>"
          using run' PagedKvCache Some ens Inr p(1) by (auto simp: fetch_cell_def s_def)
        have "seq_holds s = {#}" "seq_holder_ok (Some p) s"
          using table_ok_new [OF p(2)] p(2) by (auto simp: s_def with_backend_def seq_holds_def seq_refs_new seq_holder_ok_def)
        then show ?thesis unfolding cp'
          using p(3,4) by (intro cp_inv_insert_seq [OF inv order_refl]) (simp_all add: pool_holds_def all_refs_def)
      qed
    qed
  qed
qed

lemma holder_table:
  assumes "cp_inv cp hs" "paged_pool cp = Some p" "hm_get (active cp) i = Some s" "paged s = Some (c, st)"
  shows "pool_owned p (rest_refs cp hs i + seq_refs st)" "table_ok p st" "backend s = PagedKvCache"
    "set_paged_layout s = Some (layout p)"
  using assms all_refs_split [OF assms(1,3)] map_of_SomeD [OF assms(3)]
  by (auto simp: cp_inv_def pool_holds_def seq_holds_def seq_holder_ok_def)

lemma no_table_holds:
  assumes "cp_inv cp hs" "hm_get (active cp) i = Some s" "paged s = None"
  shows "pool_holds (paged_pool cp) (rest_refs cp hs i)"
  using assms all_refs_split [OF assms(1,2)] by (simp add: cp_inv_def seq_holds_def)

lemma no_pool_no_table:
  assumes "cp_inv cp hs" "hm_get (active cp) i = Some s" "paged_pool cp = None"
  shows "paged s = None"
  using assms map_of_SomeD [OF assms(2)] by (cases "paged s") (fastforce simp: cp_inv_def seq_holder_ok_def)+

lemma release_inv:
  assumes inv: "cp_inv cp hs"
  shows "cp_inv (release cp i) hs"
proof (cases "hm_get (active cp) i")
  case None
  then show ?thesis using inv by (simp add: release_def)
next
  case (Some s)
  show ?thesis
  proof (cases "paged s")
    case None
    have "release cp i = cp\<lparr>paged_pool := paged_pool cp, active := hm_remove i (active cp)\<rparr>"
      using Some None by (simp add: release_def Let_def split: option.splits)
    then show ?thesis
      using cp_inv_remove_seq [OF inv Some no_table_holds [OF inv Some None]] by simp
  next
    case t: (Some x)
    obtain c st where x: "x = (c, st)" by (cases x)
    obtain p where p: "paged_pool cp = Some p" using no_pool_no_table [OF inv Some] t by (cases "paged_pool cp") auto
    note h = holder_table [OF inv p Some t [unfolded x]]
    from release_sequence_owned [OF h(1)] obtain p' where
      p': "release_sequence p st = (Inr (), st\<lparr>layers := map cleared_layer (layers st)\<rparr>, p')"
      "pool_owned p' (rest_refs cp hs i)" "layout p' = layout p" "pool_layer_of p' = pool_layer_of p" by blast
    have "release cp i = cp\<lparr>paged_pool := Some p', active := hm_remove i (active cp)\<rparr>"
      using Some t x p p'(1) by (simp add: release_def Let_def)
    then show ?thesis
      using cp_inv_remove_seq [OF inv Some, of "Some p'"] p p' by (simp add: pool_holds_def)
  qed
qed

end
