(* ===== verification/Handoff_Ownership.thy ===== *)
theory Handoff_Ownership
  imports Pool_Ownership
begin

text \<open>
  The handoff operations keep the ownership invariant of \<open>Pool_Ownership\<close>: detaching, adopting,
  parking, cloning a prefix, trimming and releasing. Under the invariant none of the pins and
  releases they make can fail.
\<close>

section \<open>Lists of pins and releases\<close>

lemma pin_blocks_op_each:
  "op_each retain_block p bs = (Inr (), q) \<Longrightarrow> pin_blocks p bs = (None, q)"
  by (induction bs arbitrary: p) (auto split: prod.splits sum.splits)

lemma pin_with_rollback_op_each:
  "op_each retain_block p bs = (Inr (), q) \<Longrightarrow> pin_with_rollback p ps bs = (Inr (), q)"
  by (induction bs arbitrary: p ps) (auto split: prod.splits sum.splits)

lemma release_ignoring_op_each:
  "op_each release_block p bs = (Inr (), q) \<Longrightarrow> release_ignoring p bs = q"
  unfolding release_ignoring_def
  by (induction bs arbitrary: p) (auto split: prod.splits sum.splits)

lemma release_counting_op_each:
  "op_each release_block p bs = (Inr (), q) \<Longrightarrow> release_counting p bs = ([], q)"
  by (induction bs arbitrary: p) (auto split: prod.splits sum.splits)

text \<open>The pool after pins or releases keeps its layout, tags and budget.\<close>

abbreviation same_pool :: "'a paged_block_pool \<Rightarrow> 'a paged_block_pool \<Rightarrow> bool" where
  "same_pool p p' \<equiv> layout p' = layout p \<and> pool_layer_of p' = pool_layer_of p \<and> block_budget p' = block_budget p"

lemma release_all:
  assumes "pool_owned p (M + mset bs)"
  shows "\<exists>q. op_each release_block p bs = (Inr (), q) \<and> pool_owned q M \<and> same_pool p q"
  using pool.owned_release_each [OF assms, of bs] by auto

lemma count_list_distinct: "distinct bs \<Longrightarrow> count_list bs b \<le> 1"
  by (induction bs) (auto simp: count_list_0_iff)

lemma retain_distinct:
  assumes "pool_owned p M" "distinct bs" "set bs \<subseteq> set_mset M" "\<forall>b. count M b < u32_max"
  shows "\<exists>q. op_each retain_block p bs = (Inr (), q) \<and> pool_owned q (M + mset bs) \<and> same_pool p q"
proof -
  have "\<forall>b. count M b + count_list bs b \<le> u32_max"
  proof
    fix b show "count M b + count_list bs b \<le> u32_max"
      using count_list_distinct [OF assms(2), of b] assms(4) [rule_format, of b] by simp
  qed
  from pool.owned_retain_each [OF assms(1,3) this] show ?thesis by auto
qed

lemma count_list_twice: "count_list (twice bs) b = 2 * count_list bs b"
  by (induction bs) (auto simp: twice_def)

lemma set_twice [simp]: "set (twice bs) = set bs"
  by (auto simp: twice_def)

lemma mset_twice [simp]: "mset (twice bs) = mset bs + mset bs"
  by (induction bs) (auto simp: twice_def)

lemma retain_twice:
  assumes "pool_owned p M" "distinct bs" "set bs \<subseteq> set_mset M" "\<forall>b. count M b + 2 \<le> u32_max"
  shows "\<exists>q. op_each retain_block p (twice bs) = (Inr (), q) \<and> pool_owned q (M + (mset bs + mset bs)) \<and> same_pool p q"
proof -
  have "\<forall>b. count M b + count_list (twice bs) b \<le> u32_max"
  proof
    fix b
    have "count_list (twice bs) b \<le> 2" using count_list_distinct [OF assms(2), of b] by (simp add: count_list_twice)
    then show "count M b + count_list (twice bs) b \<le> u32_max"
      using assms(4) by (meson add_left_mono order_trans)
  qed
  from pool.owned_retain_each [OF assms(1) _ this] assms(3) show ?thesis by auto
qed

text \<open>Moving sidecar pages in and out changes the page tables only.\<close>

lemma lift_page_sidecars: "\<exists>s. snd (lift_page m b x) = (snd x)\<lparr>turbo_sidecars := s\<rparr>"
  by (cases x) (auto simp: lift_page_def take_v_packed_def take_v_norms_def take_k_packed_def take_k_norms_def
      take_cold_keys_def Let_def)

lemma fold_lift_sidecars: "\<exists>s. snd (fold (lift_page m) bs x) = (snd x)\<lparr>turbo_sidecars := s\<rparr>"
proof (induction bs arbitrary: x)
  case Nil
  have "(snd x)\<lparr>turbo_sidecars := turbo_sidecars (snd x)\<rparr> = snd x" by simp
  then show ?case by (metis fold_simps(1))
next
  case (Cons b bs)
  from lift_page_sidecars [of m b x] Cons.IH [of "lift_page m b x"] show ?case by auto
qed

lemma lift_pages_sidecars: "\<exists>s. snd (lift_pages lay bs p) = p\<lparr>turbo_sidecars := s\<rparr>"
proof (cases "layout_is_turbo_mode lay")
  case True
  then show ?thesis using fold_lift_sidecars [of "cache_mode lay" bs "(no_pages, p)"] by (simp add: lift_pages_def)
next
  case False
  have "p = p\<lparr>turbo_sidecars := turbo_sidecars p\<rparr>" by simp
  with False show ?thesis by (metis lift_pages_def snd_conv)
qed

lemma reinstall_sidecars:
  assumes "\<And>q b t. \<exists>s. snd (install q b t) = q\<lparr>turbo_sidecars := s\<rparr>"
  shows "\<exists>s. reinstall install pages p = p\<lparr>turbo_sidecars := s\<rparr>"
  unfolding reinstall_def
proof (induction pages arbitrary: p)
  case Nil
  have "p = p\<lparr>turbo_sidecars := turbo_sidecars p\<rparr>" by simp
  then show ?case by (metis fold_simps(1))
next
  case (Cons e pages)
  obtain b t where e: "e = (b, t)" by (cases e)
  from assms [of p b t] obtain s where s: "snd (install p b t) = p\<lparr>turbo_sidecars := s\<rparr>" by blast
  show ?case using Cons.IH [of "snd (install p b t)"] by (auto simp: e s)
qed

lemma sidecars_id: "\<exists>s. p = p\<lparr>turbo_sidecars := s\<rparr>"
  by (rule exI [of _ "turbo_sidecars p"]) simp

lemma install_sidecars:
  "\<exists>s. snd (install_v_packed p b t) = p\<lparr>turbo_sidecars := s\<rparr>"
  "\<exists>s. snd (install_v_norms p b t) = p\<lparr>turbo_sidecars := s\<rparr>"
  "\<exists>s. snd (install_k_packed p b t) = p\<lparr>turbo_sidecars := s\<rparr>"
  "\<exists>s. snd (install_k_norms p b t) = p\<lparr>turbo_sidecars := s\<rparr>"
  "\<exists>s. snd (install_cold_keys p b t) = p\<lparr>turbo_sidecars := s\<rparr>"
  by (auto simp: install_v_packed_def install_v_norms_def install_k_packed_def install_k_norms_def
      install_cold_keys_def sidecars_id split: sum.splits)

lemma reinstall_after:
  assumes "\<exists>s. q = p\<lparr>turbo_sidecars := s\<rparr>" "\<And>q b t. \<exists>s. snd (install q b t) = q\<lparr>turbo_sidecars := s\<rparr>"
  shows "\<exists>s. reinstall install pages q = p\<lparr>turbo_sidecars := s\<rparr>"
proof -
  obtain s where s: "q = p\<lparr>turbo_sidecars := s\<rparr>" using assms(1) by blast
  obtain s' where "reinstall install pages q = q\<lparr>turbo_sidecars := s'\<rparr>"
    using reinstall_sidecars [of install, OF assms(2)] by blast
  then show ?thesis by (auto simp: s)
qed

lemma reinstall_pages_sidecars: "\<exists>s. reinstall_pages lay pg p = p\<lparr>turbo_sidecars := s\<rparr>"
  by (simp add: reinstall_pages_def sidecars_id)
     (intro impI reinstall_after install_sidecars sidecars_id)

section \<open>Held sets\<close>

lemma held_split:
  "d \<in> set hs \<Longrightarrow> sum_list (map set_holds hs) = sum_list (map set_holds (remove1 d hs)) + set_holds d"
  by (simp add: sum_list_map_remove1 add.commute)

text \<open>A held set of a state that satisfies the invariant: the pool exists and carries both references of
  every block.\<close>

lemma held_set:
  assumes inv: "cp_inv cp hs" and d: "d \<in> set hs"
  shows "\<exists>p bs. paged_pool cp = Some p \<and> retained_blocks d = Some bs \<and> mset bs = seq_refs (dp_state d)
    \<and> table_ok p (dp_state d) \<and> dp_layout d = layout p \<and> dp_backend d = PagedKvCache
    \<and> pool_owned p (all_refs cp (remove1 d hs) + seq_refs (dp_state d) + mset bs)"
proof -
  have "set_holder_ok (paged_pool cp) d" using inv d by (simp add: cp_inv_def)
  then obtain p bs where p: "paged_pool cp = Some p" "retained_blocks d = Some bs" "mset bs = seq_refs (dp_state d)"
    "table_ok p (dp_state d)" "dp_layout d = layout p" "dp_backend d = PagedKvCache"
    by (auto simp: set_holder_ok_def)
  have "pool_owned p (all_refs cp hs)" using inv p(1) by (simp add: cp_inv_def pool_holds_def)
  moreover have "all_refs cp hs = all_refs cp (remove1 d hs) + seq_refs (dp_state d) + mset bs"
    using held_split [OF d] p(2) by (simp add: all_refs_def set_holds_def ac_simps)
  ultimately show ?thesis using p by simp
qed

lemma cp_inv_set_pool:
  assumes inv: "cp_inv cp hs" and sub: "set hs' \<subseteq> set hs" and own: "pool_owned p' (all_refs cp hs')"
    and fr: "pool_frame (all_refs cp hs') (paged_pool cp) (Some p')"
  shows "cp_inv (cp\<lparr>paged_pool := Some p'\<rparr>) hs'"
proof (rule cp_inv_change [OF inv _ refl, where act = "active cp" and prk = "detached cp" and kept = hs'])
  show "pool_holds (paged_pool (cp\<lparr>paged_pool := Some p'\<rparr>)) (all_refs (cp\<lparr>paged_pool := Some p'\<rparr>) hs')"
    using own by (simp add: pool_holds_def all_refs_def)
qed (use inv sub fr in \<open>auto simp: cp_inv_def keys_ok_def all_refs_def\<close>)

text \<open>A set that joins the held ones.\<close>

lemma cp_inv_hold:
  assumes inv: "cp_inv cp hs" and own: "pool_owned p' (all_refs cp hs + set_holds d)"
    and fr: "pool_frame (all_refs cp hs) (paged_pool cp) (Some p')" and ok: "set_holder_ok (Some p') d"
  shows "cp_inv (cp\<lparr>paged_pool := Some p'\<rparr>) (d # hs)"
proof (rule cp_inv_change [OF inv _ refl, where act = "active cp" and prk = "detached cp" and kept = hs])
  show "pool_holds (paged_pool (cp\<lparr>paged_pool := Some p'\<rparr>)) (all_refs (cp\<lparr>paged_pool := Some p'\<rparr>) (d # hs))"
    using own by (simp add: pool_holds_def all_refs_def ac_simps)
qed (use inv fr ok in \<open>auto simp: cp_inv_def keys_ok_def all_refs_def\<close>)

lemma all_refs_pool [simp]: "all_refs (cp\<lparr>paged_pool := po\<rparr>) hs = all_refs cp hs"
  by (simp add: all_refs_def)

section \<open>Detaching\<close>

lemma detach_paged_run:
  assumes inv: "cp_inv cp hs" and room: "\<forall>b. count (all_refs cp hs) b < u32_max"
    and s: "hm_get (active cp) i = Some s" "paged s = Some (c, st)"
    and run: "detach_paged f now cp i = (Inr x, cp')"
  shows "\<exists>d p p'. x = Some d \<and> paged_pool cp = Some p
    \<and> cp' = cp\<lparr>active := hm_remove i (active cp), paged_pool := Some p'\<rparr>
    \<and> dp_state d = st \<and> dp_layout d = layout p \<and> dp_backend d = PagedKvCache
    \<and> retained_blocks d = Some (table_blocks st)
    \<and> dp_prompt_len d = prompt_len s \<and> dp_current_offset d = current_offset s
    \<and> pool_owned p' (rest_refs cp hs i + seq_refs st + seq_refs st) \<and> same_pool p p'"
proof -
  obtain p where p: "paged_pool cp = Some p" using no_pool_no_table [OF inv s(1)] s(2) by (cases "paged_pool cp") auto
  note h = holder_table [OF inv p s]
  let ?M = "rest_refs cp hs i + seq_refs st"
  have M: "all_refs cp hs = ?M" using all_refs_split [OF inv s(1)] s(2) by (simp add: seq_holds_def)
  have "distinct (table_blocks st)" "set (table_blocks st) \<subseteq> set_mset ?M"
    using h(2) by (auto simp: table_ok_def seq_refs_table_blocks)
  from retain_distinct [OF h(1) this] room M obtain q where
    q: "op_each retain_block p (table_blocks st) = (Inr (), q)" "pool_owned q (?M + seq_refs st)" "same_pool p q"
    by (auto simp: seq_refs_table_blocks)
  obtain t where t: "snd (lift_pages (layout p) (table_blocks st) q) = q\<lparr>turbo_sidecars := t\<rparr>"
    using lift_pages_sidecars by blast
  show ?thesis
    using run s p h(3,4) pin_blocks_op_each [OF q(1)] q(2,3)
    by (auto simp: detach_paged_def Let_def t split: option.splits intro!: exI [of _ "q\<lparr>turbo_sidecars := t\<rparr>"])
qed

lemma detach_paged_none:
  assumes "hm_get (active cp) i = None \<or> (\<exists>s. hm_get (active cp) i = Some s \<and> paged s = None)"
    and run: "detach_paged f now cp i = (Inr x, cp')"
  shows "x = None \<and> cp' = cp"
  using assms by (auto simp: detach_paged_def split: if_splits)

lemma detach_paged_inv:
  assumes inv: "cp_inv cp hs" and room: "\<forall>b. count (all_refs cp hs) b < u32_max"
    and run: "detach_paged f now cp i = (Inr x, cp')"
  shows "cp_inv cp' (case x of None \<Rightarrow> hs | Some d \<Rightarrow> d # hs)"
proof (cases "\<exists>s c st. hm_get (active cp) i = Some s \<and> paged s = Some (c, st)")
  case False
  then have "x = None \<and> cp' = cp"
    by (intro detach_paged_none [OF _ run]) (metis not_None_eq surj_pair)
  then show ?thesis using inv by simp
next
  case True
  then obtain s c st where s: "hm_get (active cp) i = Some s" "paged s = Some (c, st)" by blast
  from detach_paged_run [OF inv room s run] obtain d p p' where
    d: "x = Some d" "paged_pool cp = Some p"
    "cp' = cp\<lparr>active := hm_remove i (active cp), paged_pool := Some p'\<rparr>"
    "dp_state d = st" "dp_layout d = layout p" "dp_backend d = PagedKvCache"
    "retained_blocks d = Some (table_blocks st)"
    "pool_owned p' (rest_refs cp hs i + seq_refs st + seq_refs st)" "same_pool p p'" by blast
  have holds: "set_holds d = seq_refs st + seq_refs st" using d(4,7) by (simp add: set_holds_def seq_refs_table_blocks)
  have "table_ok p st" using holder_table(2) [OF inv d(2) s] .
  then have "table_ok p' st" using d(9) table_ok_frame [of p' p "seq_refs st" st] by simp
  then have ok: "set_holder_ok (Some p') d" using d by (simp add: set_holder_ok_def seq_refs_table_blocks)
  have keys: "keys_ok cp'" using inv d(3) by (auto simp: cp_inv_def keys_ok_def hm_set_remove)
  have "cp_inv cp' (d # hs)"
  proof (rule cp_inv_change [OF inv _ refl, where act = "hm_remove i (active cp)" and prk = "detached cp" and kept = hs])
    show "pool_holds (paged_pool cp') (all_refs cp' (d # hs))"
      using d holds by (simp add: pool_holds_def all_refs_def rest_refs_def ac_simps)
  qed (use keys d ok in \<open>auto simp: hm_set_remove\<close>)
  then show ?thesis using d(1) by simp
qed

section \<open>Releasing, adopting and parking a held set\<close>

lemma release_detached_run:
  assumes inv: "cp_inv cp hs" and d: "d \<in> set hs"
  shows "\<exists>p p'. paged_pool cp = Some p
    \<and> release_detached_paged cp d = (Inr (), cp\<lparr>paged_pool := Some p'\<rparr>)
    \<and> pool_owned p' (all_refs cp (remove1 d hs)) \<and> same_pool p p'"
proof -
  from held_set [OF inv d] obtain p bs where
    p: "paged_pool cp = Some p" "retained_blocks d = Some bs"
    "pool_owned p (all_refs cp (remove1 d hs) + seq_refs (dp_state d) + mset bs)" by blast
  then have "pool_owned p (all_refs cp (remove1 d hs) + mset (bs @ table_blocks (dp_state d)))"
    by (simp add: seq_refs_table_blocks ac_simps)
  from release_all [OF this] obtain q where
    q: "op_each release_block p (bs @ table_blocks (dp_state d)) = (Inr (), q)"
    "pool_owned q (all_refs cp (remove1 d hs))" "same_pool p q" by blast
  show ?thesis
    using p(1,2) q release_counting_op_each [OF q(1)] by (auto simp: release_detached_paged_def)
qed

lemma set_remove1_sub: "set (remove1 d hs) \<subseteq> set hs"
  by (rule set_remove1_subset)

lemma release_detached_inv:
  assumes inv: "cp_inv cp hs" and d: "d \<in> set hs" and run: "release_detached_paged cp d = (r, cp')"
  shows "r = Inr () \<and> cp_inv cp' (remove1 d hs)"
proof -
  from release_detached_run [OF inv d] obtain p p' where
    p: "paged_pool cp = Some p" "r = Inr ()" "cp' = cp\<lparr>paged_pool := Some p'\<rparr>"
    "pool_owned p' (all_refs cp (remove1 d hs))" "same_pool p p'" using run by auto
  then show ?thesis
    using cp_inv_set_pool [OF inv set_remove1_sub p(4)] by simp
qed

definition adopted_entry :: "nat \<Rightarrow> nat \<Rightarrow> 'a kv_cache list \<Rightarrow> nat \<Rightarrow> 'a detached_paged_cache_set \<Rightarrow> 'a sequence_cache_set" where
  "adopted_entry i cell live now d =
     (with_backend i PagedKvCache live (Some (cell, dp_state d)) (Some (dp_layout d)) now)
       \<lparr>backend := dp_backend d, prompt_len := dp_prompt_len d,
        current_offset := dp_current_offset d, created_at := dp_created_at d\<rparr>"

text \<open>Adopting a held set fails only for lack of capacity, or panics in the dense reconstruction.\<close>

lemma adopt_preserving_run:
  assumes inv: "cp_inv cp hs" and d: "d \<in> set hs" and room: "id_room cp"
    and run: "adopt_paged_preserving env f lm now cp d = (r, cp')"
  shows "(length (active cp) \<ge> max_sequences cp \<and> r = Inl (MaxCapacity (max_sequences cp), d) \<and> cp' = cp)
    \<or> (length (active cp) < max_sequences cp \<and> adopted_caches env f lm (dp_layout d) (next_cell cp) (dp_caches d) = None
        \<and> (\<exists>d'. r = Inl (PoolPanic, d')))
    \<or> (\<exists>live p p'. length (active cp) < max_sequences cp \<and> r = Inr (next_id cp) \<and> paged_pool cp = Some p
        \<and> adopted_caches env f lm (dp_layout d) (next_cell cp) (dp_caches d) = Some live
        \<and> cp' = cp\<lparr>next_id := Suc (next_id cp), next_cell := next_cell cp + 1, paged_pool := Some p',
               active := hm_insert (next_id cp) (adopted_entry (next_id cp) (next_cell cp) live now d) (active cp)\<rparr>
        \<and> pool_owned p' (all_refs cp (remove1 d hs) + seq_refs (dp_state d)) \<and> same_pool p p')"
proof -
  from held_set [OF inv d] obtain p bs where
    p: "paged_pool cp = Some p" "retained_blocks d = Some bs" "dp_layout d = layout p" "dp_backend d = PagedKvCache"
    "pool_owned p (all_refs cp (remove1 d hs) + seq_refs (dp_state d) + mset bs)" by blast
  obtain t where t: "reinstall_pages (layout p) (dp_pages d) p = p\<lparr>turbo_sidecars := t\<rparr>"
    using reinstall_pages_sidecars by blast
  from p(5) have "pool_owned (p\<lparr>turbo_sidecars := t\<rparr>) (all_refs cp (remove1 d hs) + seq_refs (dp_state d) + mset bs)"
    by simp
  from release_all [OF this] obtain q where
    q: "op_each release_block (p\<lparr>turbo_sidecars := t\<rparr>) bs = (Inr (), q)"
    "pool_owned q (all_refs cp (remove1 d hs) + seq_refs (dp_state d))" "same_pool p q" by auto
  note rel = release_ignoring_op_each [OF q(1)]
  show ?thesis
    using run p q(2,3) fetch_id_room [OF room]
    by (cases "length (active cp) \<ge> max_sequences cp";
        cases "adopted_caches env f lm (dp_layout d) (next_cell cp) (dp_caches d)")
       (auto simp: adopt_paged_preserving_def ensure_paged_pool_from_layout_def fetch_cell_def t rel
          fetch_id_def adopted_entry_def Let_def u64_max_def intro!: exI [of _ q])
qed

lemma adopted_entry_ok:
  "table_ok p (dp_state d) \<Longrightarrow> dp_layout d = layout p \<Longrightarrow> dp_backend d = PagedKvCache \<Longrightarrow>
   seq_holder_ok (Some p) (adopted_entry i c live now d)"
  by (simp add: seq_holder_ok_def adopted_entry_def with_backend_def)

lemma adopt_preserving_inv:
  assumes inv: "cp_inv cp hs" and d: "d \<in> set hs" and room: "id_room cp"
    and run: "adopt_paged_preserving env f lm now cp d = (r, cp')"
    and alive: "\<forall>d'. r \<noteq> Inl (PoolPanic, d')"
  shows "case r of Inr i \<Rightarrow> cp_inv cp' (remove1 d hs) | Inl (e, d') \<Rightarrow> d' = d \<and> cp' = cp"
proof -
  from adopt_preserving_run [OF inv d room run] alive consider
    (full) "r = Inl (MaxCapacity (max_sequences cp), d)" "cp' = cp"
    | (adopted) live p p' where "r = Inr (next_id cp)" "paged_pool cp = Some p"
       "cp' = cp\<lparr>next_id := Suc (next_id cp), next_cell := next_cell cp + 1, paged_pool := Some p',
               active := hm_insert (next_id cp) (adopted_entry (next_id cp) (next_cell cp) live now d) (active cp)\<rparr>"
       "pool_owned p' (all_refs cp (remove1 d hs) + seq_refs (dp_state d))" "same_pool p p'"
    by blast
  then show ?thesis
  proof cases
    case full
    then show ?thesis by simp
  next
    case adopted
    from held_set [OF inv d] adopted(2) have h: "table_ok p (dp_state d)" "dp_layout d = layout p"
      "dp_backend d = PagedKvCache" by auto
    have "table_ok p' (dp_state d)" using h(1) adopted(5) table_ok_frame [of p' p "seq_refs (dp_state d)"] by simp
    then have "seq_holder_ok (Some p') (adopted_entry (next_id cp) (next_cell cp) live now d)"
      using h adopted(5) by (intro adopted_entry_ok) simp_all
    moreover have "seq_holds (adopted_entry (next_id cp) (next_cell cp) live now d) = seq_refs (dp_state d)"
      by (simp add: seq_holds_def adopted_entry_def with_backend_def)
    ultimately have "cp_inv cp' (remove1 d hs)" unfolding adopted(3)
      using adopted(2,4,5) by (intro cp_inv_insert_seq [OF inv set_remove1_sub]) (simp_all add: pool_holds_def all_refs_def)
    then show ?thesis using adopted(1) by simp
  qed
qed

lemma adopt_paged_inv:
  assumes inv: "cp_inv cp hs" and d: "d \<in> set hs" and room: "id_room cp"
    and run: "adopt_paged env f lm now cp d = (r, cp')" and alive: "r \<noteq> Inl PoolPanic"
  shows "cp_inv cp' (remove1 d hs)"
proof -
  obtain r1 cp1 where run1: "adopt_paged_preserving env f lm now cp d = (r1, cp1)"
    by (cases "adopt_paged_preserving env f lm now cp d")
  have "\<forall>d'. r1 \<noteq> Inl (PoolPanic, d')" using run run1 alive by (auto simp: adopt_paged_def)
  note pres = adopt_preserving_inv [OF inv d room run1 this]
  show ?thesis
  proof (cases r1)
    case (Inr i)
    then show ?thesis using pres run run1 by (simp add: adopt_paged_def)
  next
    case (Inl x)
    obtain e d' where x: "x = (e, d')" by (cases x)
    obtain r2 cp2 where rel: "release_detached_paged cp d = (r2, cp2)" by (cases "release_detached_paged cp d")
    have "cp' = cp2" using Inl x pres run run1 rel by (simp add: adopt_paged_def)
    then show ?thesis using release_detached_inv [OF inv d rel] by simp
  qed
qed

lemma cp_inv_park:
  assumes inv: "cp_inv cp hs" and sub: "set hs' \<subseteq> set hs"
    and ok: "parked_ok (paged_pool cp) x"
    and refs: "sum_list (map set_holds hs) = sum_list (map set_holds hs') + parked_holds x"
  shows "cp_inv (cp\<lparr>next_id := Suc (next_id cp), detached := hm_insert (next_id cp) x (detached cp)\<rparr>) hs'"
    (is "cp_inv ?cp hs'")
proof -
  have keys: "keys_ok cp" using inv by (simp add: cp_inv_def)
  note fresh = fresh_id [OF inv]
  have ins: "set (hm_insert (next_id cp) x (detached cp)) = insert (next_id cp, x) (set (detached cp))"
    using keys fresh by (simp add: hm_set_insert keys_ok_def hm_remove_absent)
  show ?thesis
  proof (rule cp_inv_change [OF inv _ refl, where act = "active cp" and prk = "detached cp" and kept = hs'])
    show "keys_ok ?cp" using keys ins by (auto simp: keys_ok_def less_Suc_eq)
    have "all_refs ?cp hs' = all_refs cp hs"
      using fresh refs by (simp add: all_refs_def hm_total_insert_absent ac_simps)
    then show "pool_holds (paged_pool ?cp) (all_refs ?cp hs')" using inv by (simp add: cp_inv_def)
  qed (use sub ok ins in auto)
qed

lemma park_detached_paged_inv:
  assumes inv: "cp_inv cp hs" and d: "d \<in> set hs" and room: "id_room cp"
    and run: "park_detached_paged cp d = (h, cp')"
  shows "cp_inv cp' (remove1 d hs)"
proof -
  have cp': "cp' = cp\<lparr>next_id := Suc (next_id cp), detached := hm_insert (next_id cp) (ParkedPaged d) (detached cp)\<rparr>"
    using run by (auto simp: park_detached_paged_def fetch_id_room [OF room])
  show ?thesis unfolding cp'
    using inv d held_split [OF d] by (intro cp_inv_park [OF inv set_remove1_sub]) (auto simp: cp_inv_def)
qed

lemma cp_inv_reparked:
  assumes inv: "cp_inv cp hs" and x: "hm_get (detached cp) h = Some x"
  shows "cp_inv (cp\<lparr>detached := hm_insert h x (hm_remove h (detached cp))\<rparr>) hs"
proof -
  have wf: "hm_wf (detached cp)" using inv by (simp add: cp_inv_def keys_ok_def)
  have "set (hm_insert h x (hm_remove h (detached cp))) = set (detached cp)"
    using wf map_of_SomeD [OF x] eq_key_imp_eq_value [OF wf] by (auto simp: hm_set_insert hm_set_remove)
  with inv wf show ?thesis
    by (simp add: cp_inv_def keys_ok_def all_refs_def hm_total_reinsert [OF wf x])
qed

lemma cp_inv_unpark:
  assumes inv: "cp_inv cp hs" and x: "hm_get (detached cp) h = Some x"
  shows "cp_inv (cp\<lparr>detached := hm_remove h (detached cp)\<rparr>) (case x of ParkedPaged d \<Rightarrow> d # hs | _ \<Rightarrow> hs)"
    (is "cp_inv ?cp ?hs")
proof (rule cp_inv_change [OF inv _ refl, where act = "active cp" and prk = "hm_remove h (detached cp)" and kept = hs])
  have wf: "hm_wf (detached cp)" using inv by (simp add: cp_inv_def keys_ok_def)
  have "all_refs ?cp ?hs = all_refs cp hs"
    using hm_total_remove [OF wf x, of parked_holds] by (cases x) (auto simp: all_refs_def ac_simps)
  then show "pool_holds (paged_pool ?cp) (all_refs ?cp ?hs)" using inv by (simp add: cp_inv_def)
  have "parked_ok (paged_pool cp) x" using inv map_of_SomeD [OF x] by (auto simp: cp_inv_def)
  then show "\<forall>d \<in> set ?hs. d \<in> set hs \<or> set_holder_ok (paged_pool ?cp) d" by (cases x) auto
qed (use inv in \<open>auto simp: cp_inv_def keys_ok_def hm_set_remove\<close>)

lemma take_parked_paged_inv:
  assumes inv: "cp_inv cp hs" and run: "take_parked_paged cp h = (x, cp')"
  shows "cp_inv cp' (case x of None \<Rightarrow> hs | Some d \<Rightarrow> d # hs)"
  using run cp_inv_reparked [OF inv, of h] cp_inv_unpark [OF inv, of h] inv
  by (auto simp: take_parked_paged_def split: option.splits parked_cache.splits)

lemma take_parked_inv:
  assumes inv: "cp_inv cp hs" and run: "take_parked cp h = (x, cp')"
  shows "cp_inv cp' hs"
  using run cp_inv_reparked [OF inv, of h] cp_inv_unpark [OF inv, of h] inv
  by (auto simp: take_parked_def split: option.splits parked_cache.splits)

lemma adopt_parked_paged_inv:
  assumes inv: "cp_inv cp hs" and room: "id_room cp"
    and run: "adopt_parked_paged env f lm now cp h = (r, cp')" and alive: "r \<noteq> Inl PoolPanic"
  shows "cp_inv cp' hs"
proof (cases "\<exists>d. hm_get (detached cp) h = Some (ParkedPaged d)")
  case True
  then obtain d where d: "hm_get (detached cp) h = Some (ParkedPaged d)" by blast
  let ?cp = "cp\<lparr>detached := hm_remove h (detached cp)\<rparr>"
  have "cp_inv ?cp (d # hs)" using cp_inv_unpark [OF inv d] by simp
  from adopt_paged_inv [OF this, of d env f lm now r cp'] run d room alive show ?thesis
    by (simp add: adopt_parked_paged_def)
next
  case False
  then show ?thesis
    using run inv cp_inv_reparked [OF inv, of h]
    by (auto simp: adopt_parked_paged_def split: option.splits parked_cache.splits)
qed

section \<open>Cloning a prefix\<close>

lemma mset_take_subset: "mset (take n xs) \<subseteq># mset xs"
  by (metis append_take_drop_id mset_append mset_subset_eq_add_left)

lemma take_layers_refs:
  "(\<Sum>ly \<leftarrow> lys. mset (take n (block_ids ly))) \<subseteq># (\<Sum>ly \<leftarrow> lys. mset (block_ids ly))"
  by (induction lys) (auto intro: subset_mset.add_mono mset_take_subset)

lemma clone_table_layers:
  assumes "clone_table lay st keep target = Some st'" "length (layers st) = num_layers lay"
  shows "seq_block_size st' = block_size lay
    \<and> layers st' = map (\<lambda>ly. \<lparr>block_ids = take keep (block_ids ly), len = target, logical_start = 0\<rparr>) (layers st)
    \<and> (\<forall>ly \<in> set (layers st). keep \<le> length (block_ids ly))"
proof -
  have "map (\<lambda>(g, ly). g\<lparr>block_ids := take keep (block_ids ly), len := target\<rparr>)
      (zip (replicate (length (layers st)) layer_state_new) (layers st))
    = map (\<lambda>ly. \<lparr>block_ids = take keep (block_ids ly), len = target, logical_start = 0\<rparr>) (layers st)"
    by (simp add: zip_replicate1 layer_state_new_def)
  then show ?thesis
    using assms by (auto simp: clone_table_def Let_def sequence_state_new_def list_all_iff split: if_splits)
qed

lemma clone_table_ok:
  assumes tab: "table_ok p st" and cl: "clone_table (layout p) st keep target = Some st'"
    and keep: "keep = target div block_size (layout p)" "target mod block_size (layout p) = 0"
  shows "table_ok p st'" "seq_refs st' \<subseteq># seq_refs st"
proof -
  have sok: "seq_ok p st" using tab by (simp add: table_ok_def)
  note l = clone_table_layers [OF cl] sok [unfolded seq_ok_def]
  show sub: "seq_refs st' \<subseteq># seq_refs st"
    using l take_layers_refs [of keep "layers st"] by (auto simp: seq_refs_def o_def)
  have "seq_ok p st'"
    using l keep by (auto simp: seq_ok_def layer_ok_def div_ceil_def dest: in_set_takeD)
  then show "table_ok p st'" by (rule table_ok_shrink [OF tab _ sub])
qed

lemma clone_prefix_Inr:
  assumes "clone_detached_paged_prefix now cp d target = (Inr d', cp')"
  shows "\<exists>p cs st p'. paged_pool cp = Some p
    \<and> those (map (\<lambda>h. pool_backed_handle_clone h (as_i32 target)) (dp_caches d)) = Some cs
    \<and> clone_table (dp_layout d) (dp_state d) (target div block_size (dp_layout d)) target = Some st
    \<and> pin_with_rollback p [] (twice (table_blocks st)) = (Inr (), p')
    \<and> target mod block_size (dp_layout d) = 0 \<and> target \<le> dp_seq_len d \<and> 0 < target
    \<and> cp' = cp\<lparr>paged_pool := Some p'\<rparr> \<and> dp_caches d' = cs \<and> dp_state d' = st \<and> dp_layout d' = dp_layout d
    \<and> dp_backend d' = PagedKvCache \<and> retained_blocks d' = Some (table_blocks st)
    \<and> dp_prompt_len d' = min (dp_prompt_len d) target \<and> dp_current_offset d' = as_i32 target"
  using assms
  by (auto simp: clone_detached_paged_prefix_def Let_def split: if_splits option.splits prod.splits sum.splits)

lemma clone_prefix_run:
  assumes inv: "cp_inv cp hs" and room: "\<forall>b. count (all_refs cp hs) b + 2 \<le> u32_max"
    and src: "set_holder_ok (paged_pool cp) d" "set_holds d \<subseteq># all_refs cp hs"
    and run: "clone_detached_paged_prefix now cp d target = (Inr d', cp')"
  shows "\<exists>p p' st. paged_pool cp = Some p \<and> cp' = cp\<lparr>paged_pool := Some p'\<rparr>
    \<and> clone_table (layout p) (dp_state d) (target div block_size (layout p)) target = Some st
    \<and> dp_state d' = st \<and> retained_blocks d' = Some (table_blocks st) \<and> dp_layout d' = layout p
    \<and> dp_backend d' = PagedKvCache \<and> table_ok p st \<and> seq_refs st \<subseteq># seq_refs (dp_state d)
    \<and> pool_owned p' (all_refs cp hs + (seq_refs st + seq_refs st)) \<and> same_pool p p'"
proof -
  obtain p bs where p: "paged_pool cp = Some p" "retained_blocks d = Some bs" "table_ok p (dp_state d)"
    "dp_layout d = layout p" using src(1) by (auto simp: set_holder_ok_def)
  from clone_prefix_Inr [OF run] p(1,4) obtain st p' where
    st: "clone_table (layout p) (dp_state d) (target div block_size (layout p)) target = Some st"
    and al: "target mod block_size (layout p) = 0"
    and pin: "pin_with_rollback p [] (twice (table_blocks st)) = (Inr (), p')"
    and d': "cp' = cp\<lparr>paged_pool := Some p'\<rparr>" "dp_state d' = st" "retained_blocks d' = Some (table_blocks st)"
      "dp_layout d' = layout p" "dp_backend d' = PagedKvCache" by auto
  note ok = clone_table_ok [OF p(3) st refl al]
  have own: "pool_owned p (all_refs cp hs)" using inv p(1) by (simp add: cp_inv_def pool_holds_def)
  have "seq_refs (dp_state d) \<subseteq># set_holds d" using p(2) by (simp add: set_holds_def)
  from subset_mset.order_trans [OF ok(2) subset_mset.order_trans [OF this src(2)]]
  have sub: "set (table_blocks st) \<subseteq> set_mset (all_refs cp hs)"
    by (simp add: seq_refs_table_blocks) (drule set_mset_mono, simp)
  have "distinct (table_blocks st)" using ok(1) by (simp add: table_ok_def)
  from retain_twice [OF own this sub room] obtain q where
    q: "op_each retain_block p (twice (table_blocks st)) = (Inr (), q)"
    "pool_owned q (all_refs cp hs + (seq_refs st + seq_refs st))" "same_pool p q"
    by (auto simp: seq_refs_table_blocks)
  have "p' = q" using pin pin_with_rollback_op_each [OF q(1), of "[]"] by simp
  then show ?thesis using p(1) st d' ok q(2,3) by blast
qed

lemma clone_prefix_inv:
  assumes inv: "cp_inv cp hs" and room: "\<forall>b. count (all_refs cp hs) b + 2 \<le> u32_max"
    and src: "set_holder_ok (paged_pool cp) d" "set_holds d \<subseteq># all_refs cp hs"
    and run: "clone_detached_paged_prefix now cp d target = (Inr d', cp')"
  shows "cp_inv cp' (d' # hs)"
proof -
  from clone_prefix_run [OF assms] obtain p p' st where
    c: "paged_pool cp = Some p" "cp' = cp\<lparr>paged_pool := Some p'\<rparr>" "dp_state d' = st"
    "retained_blocks d' = Some (table_blocks st)" "dp_layout d' = layout p" "dp_backend d' = PagedKvCache"
    "table_ok p st" "pool_owned p' (all_refs cp hs + (seq_refs st + seq_refs st))" "same_pool p p'" by blast
  have "table_ok p' st" using c(7,9) table_ok_frame [of p' p "seq_refs st"] by simp
  then have ok: "set_holder_ok (Some p') d'" using c by (simp add: set_holder_ok_def seq_refs_table_blocks)
  have "set_holds d' = seq_refs st + seq_refs st" using c(3,4) by (simp add: set_holds_def seq_refs_table_blocks)
  then show ?thesis unfolding c(2) using c ok by (intro cp_inv_hold [OF inv]) simp_all
qed

section \<open>Trimming a held set\<close>

abbreviation kept_refs :: "nat \<Rightarrow> paged_layer_state list \<Rightarrow> nat multiset" where
  "kept_refs k lys \<equiv> (\<Sum>ly \<leftarrow> lys. mset (take k (block_ids ly)))"

definition dropped_blocks :: "nat \<Rightarrow> paged_layer_state list \<Rightarrow> nat list" where
  "dropped_blocks k lys = concat (map (\<lambda>ly. rev (drop k (block_ids ly))) lys)"

lemma mset_take_drop: "mset (block_ids ly) = mset (take k (block_ids ly)) + mset (drop k (block_ids ly))"
  by (metis append_take_drop_id mset_append)

lemma trim_table_owned:
  assumes "pool_owned p (R + (\<Sum>ly \<leftarrow> lys. mset (block_ids ly) + mset (block_ids ly)))"
  shows "\<exists>p' n. trim_table p k target l lys
      = ([], dropped_blocks k lys, n, map (\<lambda>ly. ly\<lparr>block_ids := take k (block_ids ly), len := target\<rparr>) lys, p')
    \<and> pool_owned p' (R + (kept_refs k lys + kept_refs k lys)) \<and> same_pool p p'"
  using assms
proof (induction lys arbitrary: p l R)
  case Nil
  then show ?case by (simp add: dropped_blocks_def)
next
  case (Cons ly lys)
  let ?T = "mset (take k (block_ids ly))" and ?gone = "rev (drop k (block_ids ly))"
  let ?S = "\<Sum>ly \<leftarrow> lys. mset (block_ids ly) + mset (block_ids ly)"
  have "pool_owned p (((R + (?T + ?T)) + ?S) + mset (twice ?gone))"
    using Cons.prems mset_take_drop [of ly k] by (simp add: ac_simps)
  from release_all [OF this] obtain q where
    q: "op_each release_block p (twice ?gone) = (Inr (), q)" "pool_owned q ((R + (?T + ?T)) + ?S)" "same_pool p q"
    by blast
  from Cons.IH [OF q(2), of "Suc l"] obtain p' n where
    "trim_table q k target (Suc l) lys
      = ([], dropped_blocks k lys, n, map (\<lambda>ly. ly\<lparr>block_ids := take k (block_ids ly), len := target\<rparr>) lys, p')"
    "pool_owned p' (R + (?T + ?T) + (kept_refs k lys + kept_refs k lys))" "same_pool q p'" by blast
  with q(3) release_counting_op_each [OF q(1)] show ?case
    by (auto simp: dropped_blocks_def ac_simps)
qed

text \<open>The trimmed set: its table, and the pins that remain.\<close>

lemma trimmed_pins:
  assumes dist: "distinct (table_blocks st)" and bs: "mset bs = seq_refs st"
  shows "mset (filter (\<lambda>b. b \<notin> set (dropped_blocks k (layers st))) bs) = kept_refs k (layers st)"
proof -
  let ?D = "dropped_blocks k (layers st)" and ?K = "concat (map (\<lambda>ly. take k (block_ids ly)) (layers st))"
  have split: "mset (table_blocks st) = mset (?K @ ?D)"
    unfolding table_blocks_def dropped_blocks_def
    by (induction "layers st" rule: list.induct) (auto simp: mset_concat o_def sum_list_addf mset_take_drop [of _ k])
  then have d: "distinct (?K @ ?D)" using dist mset_eq_imp_distinct_iff by blast
  have "mset (filter (\<lambda>b. b \<notin> set ?D) bs) = filter_mset (\<lambda>b. b \<notin> set ?D) (mset (?K @ ?D))"
    using bs split by (simp add: seq_refs_table_blocks mset_filter)
  also have "\<dots> = mset (filter (\<lambda>b. b \<notin> set ?D) (?K @ ?D))" by (simp only: mset_filter)
  also have "filter (\<lambda>b. b \<notin> set ?D) (?K @ ?D) = ?K"
  proof -
    have "filter (\<lambda>b. b \<notin> set ?D) ?K = ?K" using d by (intro filter_True) auto
    moreover have "filter (\<lambda>b. b \<notin> set ?D) ?D = []" by (simp add: filter_empty_conv)
    ultimately show ?thesis by simp
  qed
  also have "mset ?K = kept_refs k (layers st)" by (simp add: mset_concat o_def)
  finally show ?thesis .
qed

lemma trimmed_table_ok:
  assumes tab: "table_ok p st" and long: "\<forall>ly \<in> set (layers st). target \<le> len ly \<and> logical_start ly = 0"
    and k: "k = target div block_size (layout p)" "target mod block_size (layout p) = 0" "0 < block_size (layout p)"
  shows "table_ok p (st\<lparr>layers := map (\<lambda>ly. ly\<lparr>block_ids := take k (block_ids ly), len := target\<rparr>) (layers st)\<rparr>)"
    (is "table_ok p ?st")
proof (rule table_ok_shrink [OF tab])
  show "seq_refs ?st \<subseteq># seq_refs st" using take_layers_refs [of k "layers st"] by (simp add: seq_refs_def o_def)
  have sok: "seq_ok p st" using tab by (simp add: table_ok_def)
  show "seq_ok p ?st"
    unfolding seq_ok_def
  proof (intro conjI allI impI)
    fix l assume l: "l < num_layers (layout p)"
    with sok have l': "l < length (layers st)" by (simp add: seq_ok_def)
    then have ly: "target \<le> len (layers st ! l)" "logical_start (layers st ! l) = 0" using long by auto
    have lok: "layer_ok p l (layers st ! l)" using sok l by (simp add: seq_ok_def)
    have "div_ceil target (block_size (layout p)) \<le> length (block_ids (layers st ! l))"
      using div_ceil_mono [OF k(3) ly(1)] lok by (simp add: layer_ok_def)
    moreover have "div_ceil target (block_size (layout p)) = k" using k by (simp add: div_ceil_def)
    ultimately show "layer_ok p l (layers ?st ! l)"
      using l' ly lok by (auto simp: layer_ok_def dest: in_set_takeD)
  qed (use sok in \<open>auto simp: seq_ok_def\<close>)
qed

text \<open>\<open>long\<close>: no layer is shorter than the target. The source checks this for the first layer only.\<close>

lemma trim_detached_inv:
  assumes inv: "cp_inv cp hs" and d: "d \<in> set hs"
    and long: "\<forall>ly \<in> set (layers (dp_state d)). target \<le> len ly"
    and run: "trim_detached_paged_to cp d target = (r, d', cp')"
  shows "cp_inv cp' (d' # remove1 d hs) \<and> (\<forall>b e. r \<noteq> Inl (ReleaseFailed b e))"
proof -
  have same: "cp_inv cp (d # remove1 d hs)"
    using inv d held_split [OF d] set_remove1_sub [of d hs] by (auto simp: cp_inv_def all_refs_def ac_simps)
  from held_set [OF inv d] obtain p bs where
    p: "paged_pool cp = Some p" "retained_blocks d = Some bs" "mset bs = seq_refs (dp_state d)"
    "table_ok p (dp_state d)" "dp_layout d = layout p" "dp_backend d = PagedKvCache"
    "pool_owned p (all_refs cp (remove1 d hs) + seq_refs (dp_state d) + mset bs)" by blast
  let ?k = "target div block_size (layout p)" and ?lys = "layers (dp_state d)"
  have "(\<Sum>ly \<leftarrow> ?lys. mset (block_ids ly) + mset (block_ids ly)) = seq_refs (dp_state d) + seq_refs (dp_state d)"
    by (simp add: seq_refs_def sum_list_addf)
  with p(3,7) have "pool_owned p (all_refs cp (remove1 d hs) + (\<Sum>ly \<leftarrow> ?lys. mset (block_ids ly) + mset (block_ids ly)))"
    by (simp add: ac_simps)
  from trim_table_owned [OF this, of ?k target 0] obtain q n where
    q: "trim_table p ?k target 0 ?lys = ([], dropped_blocks ?k ?lys, n,
          map (\<lambda>ly. ly\<lparr>block_ids := take ?k (block_ids ly), len := target\<rparr>) ?lys, q)"
    "pool_owned q (all_refs cp (remove1 d hs) + (kept_refs ?k ?lys + kept_refs ?k ?lys))" "same_pool p q" by blast
  let ?st = "(dp_state d)\<lparr>layers := map (\<lambda>ly. ly\<lparr>block_ids := take ?k (block_ids ly), len := target\<rparr>) ?lys\<rparr>"
  show ?thesis
  proof (cases "d' = d \<and> cp' = cp")
    case True
    then show ?thesis
      using same run p q(1)
      by (auto simp: trim_detached_paged_to_def Let_def split: if_splits)
  next
    case False
    then have res: "cp' = cp\<lparr>paged_pool := Some q\<rparr>" "r = Inr ()" "dp_state d' = ?st" "dp_layout d' = layout p"
      "dp_backend d' = PagedKvCache" "target mod block_size (layout p) = 0" "0 < block_size (layout p)"
      "retained_blocks d' = Some (filter (\<lambda>b. b \<notin> set (dropped_blocks ?k ?lys)) bs)"
      "\<forall>ly \<in> set ?lys. logical_start ly = 0"
      using run p q(1) by (auto simp: trim_detached_paged_to_def Let_def list_ex_iff split: if_splits)
    have st: "seq_refs ?st = kept_refs ?k ?lys" by (simp add: seq_refs_def o_def)
    have "distinct (table_blocks (dp_state d))" using p(4) by (simp add: table_ok_def)
    note pins = trimmed_pins [OF this p(3), of ?k]
    have "table_ok p ?st" using long res by (intro trimmed_table_ok [OF p(4)]) auto
    then have "table_ok q ?st" using q(3) table_ok_frame [of q p "seq_refs ?st"] by simp
    then have "set_holder_ok (Some q) d'" using res q(3) pins st by (simp add: set_holder_ok_def)
    moreover have "set_holds d' = kept_refs ?k ?lys + kept_refs ?k ?lys"
      using res(3,8) pins st by (simp add: set_holds_def)
    moreover have "cp_inv (cp\<lparr>paged_pool := Some q\<rparr>) (d' # remove1 d hs)"
      if ok: "set_holder_ok (Some q) d'" and h: "set_holds d' = kept_refs ?k ?lys + kept_refs ?k ?lys"
    proof (rule cp_inv_change [OF inv _ refl, where act = "active cp" and prk = "detached cp" and kept = "remove1 d hs"])
      show "pool_holds (paged_pool (cp\<lparr>paged_pool := Some q\<rparr>)) (all_refs (cp\<lparr>paged_pool := Some q\<rparr>) (d' # remove1 d hs))"
        using q(2) h by (simp add: pool_holds_def all_refs_def ac_simps)
    qed (use inv p(1) q(3) ok set_remove1_sub [of d hs] in \<open>auto simp: cp_inv_def keys_ok_def\<close>)
    ultimately show ?thesis using res by simp
  qed
qed

end
