(* ===== verification/Pool_Reachable.thy ===== *)
theory Pool_Reachable
  imports Handoff_Ownership
begin

text \<open>
  The operations of the cache pool as a step relation over the pool and the detached sets that
  its callers hold, and what holds in every reachable state: the reference counts are exactly the
  references held.
\<close>

section \<open>The remaining operations\<close>

lemma set_budget_inv: "cp_inv cp hs \<Longrightarrow> cp_inv (set_paged_block_budget cp m) hs"
proof (cases "paged_pool cp")
  case None
  assume "cp_inv cp hs"
  with None show ?thesis by (simp add: set_paged_block_budget_def cp_inv_def keys_ok_def all_refs_def)
next
  case (Some p)
  assume inv: "cp_inv cp hs"
  have "cp_inv (cp\<lparr>paged_pool := Some (set_block_budget p m)\<rparr>) hs"
    using inv Some by (intro cp_inv_set_pool [OF inv]) (auto simp: cp_inv_def pool_holds_def)
  then show ?thesis
    using Some by (simp add: set_paged_block_budget_def cp_inv_def keys_ok_def all_refs_def)
qed

lemma detach_inv:
  assumes inv: "cp_inv cp hs" and run: "detach f now cp i = (r, cp')"
  shows "cp_inv cp' hs"
proof (cases "cp' = cp")
  case False
  then obtain s where s: "hm_get (active cp) i = Some s" "backend s = DenseKvCache"
    "cp' = cp\<lparr>active := hm_remove i (active cp)\<rparr>"
    using run by (auto simp: detach_def Let_def split: option.splits if_splits)
  have "paged s = None"
    using inv map_of_SomeD [OF s(1)] s(2) by (cases "paged s") (auto simp: cp_inv_def seq_holder_ok_def)
  from cp_inv_remove_seq [OF inv s(1) no_table_holds [OF inv s(1) this]] show ?thesis by (simp add: s(3))
qed (use inv in simp)

lemma adopt_inv:
  assumes inv: "cp_inv cp hs" and room: "id_room cp" and run: "adopt env f now cp d = (r, cp')"
  shows "cp_inv cp' hs"
proof -
  obtain r1 cp1 where run1: "adopt_preserving env f now cp d = (r1, cp1)" by (cases "adopt_preserving env f now cp d")
  have cp': "cp' = cp1" using run run1 by (auto simp: adopt_def split: sum.splits prod.splits)
  from run1 consider "cp1 = cp" | "cp1 = cp\<lparr>next_id := Suc (next_id cp)\<rparr>"
    | e where "cp1 = cp\<lparr>next_id := Suc (next_id cp), active := hm_insert (next_id cp) e (active cp)\<rparr>" "paged e = None"
    by (auto simp: adopt_preserving_def fetch_id_room [OF room] Let_def with_backend_def split: if_splits option.splits)
  then show ?thesis
    unfolding cp' using inv cp_inv_bump_id [OF inv] cp_inv_insert_unpaged [OF inv] by cases auto
qed

lemma park_detached_inv:
  assumes inv: "cp_inv cp hs" and room: "id_room cp" and run: "park_detached cp d = (h, cp')"
  shows "cp_inv cp' hs"
proof -
  have cp': "cp' = cp\<lparr>next_id := Suc (next_id cp), detached := hm_insert (next_id cp) (ParkedDense d) (detached cp)\<rparr>"
    using run by (auto simp: park_detached_def fetch_id_room [OF room])
  show ?thesis unfolding cp' by (intro cp_inv_park [OF inv]) simp_all
qed

lemma adopt_parked_inv:
  assumes inv: "cp_inv cp hs" and room: "id_room cp" and run: "adopt_parked env f now cp h = (r, cp')"
  shows "cp_inv cp' hs"
proof -
  obtain x cp1 where t: "take_parked cp h = (x, cp1)" by (cases "take_parked cp h")
  have "next_id cp1 = next_id cp"
    using t by (auto simp: take_parked_def split: option.splits parked_cache.splits)
  then have room1: "id_room cp1" using room by simp
  note inv1 = take_parked_inv [OF inv t]
  show ?thesis
  proof (cases x)
    case None
    then show ?thesis using run t inv1 by (simp add: adopt_parked_def)
  next
    case (Some d)
    then have "adopt env f now cp1 d = (r, cp')" using run t by (simp add: adopt_parked_def)
    from adopt_inv [OF inv1 room1 this] show ?thesis .
  qed
qed

lemma sync_inv:
  assumes inv: "cp_inv cp hs"
    and room: "\<And>p s c st. paged_pool cp = Some p \<Longrightarrow> hm_get (active cp) i = Some s \<Longrightarrow>
      paged s = Some (c, st) \<Longrightarrow> sync_room targets p st"
    and run: "sync_paged_state_with_lengths cp i targets = (r, cp')"
  shows "cp_inv cp' hs"
proof (cases "cp' = cp")
  case False
  then have "with_pool_and_state cp i (\<lambda>p st. sync_layers p st 0 targets) = (r, cp')"
    using run by (auto simp: sync_paged_state_with_lengths_def split: option.splits if_splits)
  from sync_op.with_state_inv [OF inv room this] show ?thesis .
qed (use inv in simp)

text \<open>Restoring a serialised table. Only the successful outcome is covered: the error paths lose the
  table of the sequence.\<close>

lemma restore_paged_run:
  assumes inv: "cp_inv cp hs" and s: "hm_get (active cp) i = Some s" "paged s = Some (c, st)"
    and run: "restore_paged_state cp i new = (Inr (), cp')"
  shows "\<exists>p q p'. paged_pool cp = Some p \<and> pool_owned q (rest_refs cp hs i) \<and> restore_sequence q new = (Inr (), p')
    \<and> layout q = layout p \<and> pool_layer_of q = pool_layer_of p \<and> cp' = cp\<lparr>paged_pool := Some p', next_cell := next_cell cp + 1,
                 active := hm_insert i (s\<lparr>paged := Some (next_cell cp, new)\<rparr>) (active cp)\<rparr>"
proof -
  obtain p where p: "paged_pool cp = Some p" using no_pool_no_table [OF inv s(1)] s(2) by (cases "paged_pool cp") auto
  note h = holder_table [OF inv p s]
  from release_sequence_owned [OF h(1)] obtain q where
    q: "release_sequence p st = (Inr (), st\<lparr>layers := map cleared_layer (layers st)\<rparr>, q)"
    "pool_owned q (rest_refs cp hs i)" "layout q = layout p" "pool_layer_of q = pool_layer_of p" by blast
  have "ensure_paged_pool (set_paged cp i s None) (layout p) = (Inr (), set_paged cp i s None)"
    using p by (simp add: ensure_paged_pool_def set_paged_def)
  moreover obtain x p' where rs: "restore_sequence q new = (x, p')" by (cases "restore_sequence q new")
  ultimately have "x = Inr ()" "cp' = cp\<lparr>paged_pool := Some p', next_cell := next_cell cp + 1,
                 active := hm_insert i (s\<lparr>paged := Some (next_cell cp, new)\<rparr>) (active cp)\<rparr>"
    using run s p h(3,4) q(1)
    by (auto simp: restore_paged_state_def Let_def set_paged_def fetch_cell_def split: if_splits sum.splits)
  then show ?thesis using p q rs by auto
qed

lemma restore_paged_inv:
  assumes inv: "cp_inv cp hs" and s: "hm_get (active cp) i = Some s" "paged s = Some (c, st)"
    and ids: "\<forall>b \<in># seq_refs new. b < u64_max" and win: "\<forall>ly \<in> set (layers new). logical_start ly \<le> len ly"
    and run: "restore_paged_state cp i new = (Inr (), cp')"
  shows "cp_inv cp' hs"
proof -
  from restore_paged_run [OF inv s run] obtain p q p' where
    r: "paged_pool cp = Some p" "pool_owned q (rest_refs cp hs i)" "restore_sequence q new = (Inr (), p')"
    "layout q = layout p" "pool_layer_of q = pool_layer_of p"
    "cp' = cp\<lparr>paged_pool := Some p', next_cell := next_cell cp + 1,
       active := hm_insert i (s\<lparr>paged := Some (next_cell cp, new)\<rparr>) (active cp)\<rparr>" by blast
  from restore_sequence_owned [OF r(2) ids r(3)] win obtain ds where
    ds: "restored_prefix q (rest_refs cp hs i) (concat (map block_ids (layers new))) ds p'"
    "mset ds = seq_refs new" "seq_ok p' new" by auto
  then have own: "pool_owned p' (rest_refs cp hs i + seq_refs new)" "layout p' = layout p"
    "\<forall>b \<in># rest_refs cp hs i. pool_layer_of p' b = pool_layer_of p b" and dist: "distinct ds"
    using r(4,5) by (auto simp: restored_prefix_def)
  have "distinct (table_blocks new)" using dist ds(2) mset_eq_imp_distinct_iff seq_refs_table_blocks by metis
  then have tab: "table_ok p' new" using ds(3) by (simp add: table_ok_def)
  note h = holder_table [OF inv r(1) s]
  have "cp_inv (cp\<lparr>paged_pool := Some p', active := hm_insert i (s\<lparr>paged := Some (next_cell cp, new)\<rparr>) (active cp)\<rparr>) hs"
    using own tab r(1) h(3,4)
    by (intro cp_inv_update_seq [OF inv s(1)]) (simp_all add: pool_holds_def seq_holds_def seq_holder_ok_def)
  then show ?thesis by (simp add: r(6) cp_inv_def keys_ok_def all_refs_def)
qed

section \<open>The step relation\<close>

text \<open>A state is the pool with the sets held outside of it. The premises are the bounds of the counters
  (sequence ids and block ids below \<open>u64::MAX\<close>, reference counts below \<open>u32::MAX\<close>), valid layouts,
  and that the operation did not panic.\<close>

abbreviation ref_room :: "'a cache_pool \<Rightarrow> 'a detached_paged_cache_set list \<Rightarrow> bool" where
  "ref_room cp hs \<equiv> \<forall>b. count (all_refs cp hs) b + 2 \<le> u32_max"

definition table_room :: "('a paged_block_pool \<Rightarrow> paged_sequence_state \<Rightarrow> bool) \<Rightarrow> 'a cache_pool \<Rightarrow> nat \<Rightarrow> bool" where
  "table_room room cp i \<longleftrightarrow>
     (\<forall>p s c st. paged_pool cp = Some p \<longrightarrow> hm_get (active cp) i = Some s \<longrightarrow> paged s = Some (c, st) \<longrightarrow> room p st)"

inductive cp_step ::
  "'a cache_pool \<times> 'a detached_paged_cache_set list \<Rightarrow> 'a cache_pool \<times> 'a detached_paged_cache_set list \<Rightarrow> bool"
where
  step_allocate: "id_room cp \<Longrightarrow>
     \<forall>pl. sl_paged_layout (effective_layout lm ov) = Some pl \<longrightarrow> 0 < block_size pl \<Longrightarrow>
     allocate_with_layout env lm now cp ov = (r, cp') \<Longrightarrow> cp_step (cp, hs) (cp', hs)"
| step_release: "cp_step (cp, hs) (release cp i, hs)"
| step_append: "table_room (append_room l n) cp i \<Longrightarrow>
     append_paged_tokens cp i l n = (r1, cp') \<Longrightarrow> cp_step (cp, hs) (cp', hs)"
| step_trim: "trim_paged_tokens cp i l n = (r2, cp') \<Longrightarrow> cp_step (cp, hs) (cp', hs)"
| step_rewind: "rewind_paged_tokens cp i l n = (r2, cp') \<Longrightarrow> cp_step (cp, hs) (cp', hs)"
| step_sync: "table_room (sync_room targets) cp i \<Longrightarrow>
     sync_paged_state_with_lengths cp i targets = (r1, cp') \<Longrightarrow> cp_step (cp, hs) (cp', hs)"
| step_budget: "cp_step (cp, hs) (set_paged_block_budget cp m, hs)"
| step_restore: "hm_get (active cp) i = Some s \<Longrightarrow> paged s = Some (c, st) \<Longrightarrow>
     \<forall>b \<in># seq_refs new. b < u64_max \<Longrightarrow> \<forall>ly \<in> set (layers new). logical_start ly \<le> len ly \<Longrightarrow>
     restore_paged_state cp i new = (Inr (), cp') \<Longrightarrow> cp_step (cp, hs) (cp', hs)"
| step_detach: "detach f now cp i = (r3, cp') \<Longrightarrow> cp_step (cp, hs) (cp', hs)"
| step_adopt: "id_room cp \<Longrightarrow> adopt env f now cp dd = (r, cp') \<Longrightarrow> cp_step (cp, hs) (cp', hs)"
| step_park: "id_room cp \<Longrightarrow> park_detached cp dd = (h, cp') \<Longrightarrow> cp_step (cp, hs) (cp', hs)"
| step_take: "take_parked cp h = (x, cp') \<Longrightarrow> cp_step (cp, hs) (cp', hs)"
| step_adopt_parked: "id_room cp \<Longrightarrow> adopt_parked env f now cp h = (r, cp') \<Longrightarrow> cp_step (cp, hs) (cp', hs)"
| step_detach_paged: "ref_room cp hs \<Longrightarrow> detach_paged f now cp i = (Inr y, cp') \<Longrightarrow>
     cp_step (cp, hs) (cp', case y of None \<Rightarrow> hs | Some d \<Rightarrow> d # hs)"
| step_adopt_paged: "d \<in> set hs \<Longrightarrow> id_room cp \<Longrightarrow> adopt_paged env f lm now cp d = (r, cp') \<Longrightarrow>
     r \<noteq> Inl PoolPanic \<Longrightarrow> cp_step (cp, hs) (cp', remove1 d hs)"
| step_adopt_preserving: "d \<in> set hs \<Longrightarrow> id_room cp \<Longrightarrow>
     adopt_paged_preserving env f lm now cp d = (Inr i, cp') \<Longrightarrow> cp_step (cp, hs) (cp', remove1 d hs)"
| step_park_paged: "d \<in> set hs \<Longrightarrow> id_room cp \<Longrightarrow> park_detached_paged cp d = (h, cp') \<Longrightarrow>
     cp_step (cp, hs) (cp', remove1 d hs)"
| step_take_paged: "take_parked_paged cp h = (y, cp') \<Longrightarrow>
     cp_step (cp, hs) (cp', case y of None \<Rightarrow> hs | Some d \<Rightarrow> d # hs)"
| step_adopt_parked_paged: "id_room cp \<Longrightarrow> adopt_parked_paged env f lm now cp h = (r, cp') \<Longrightarrow>
     r \<noteq> Inl PoolPanic \<Longrightarrow> cp_step (cp, hs) (cp', hs)"
| step_clone: "d \<in> set hs \<or> peek_parked_paged cp h = Some d \<Longrightarrow> ref_room cp hs \<Longrightarrow>
     clone_detached_paged_prefix now cp d target = (Inr d', cp') \<Longrightarrow> cp_step (cp, hs) (cp', d' # hs)"
| step_trim_detached: "d \<in> set hs \<Longrightarrow> \<forall>ly \<in> set (layers (dp_state d)). target \<le> len ly \<Longrightarrow>
     trim_detached_paged_to cp d target = (r1, d', cp') \<Longrightarrow> cp_step (cp, hs) (cp', d' # remove1 d hs)"
| step_release_detached: "d \<in> set hs \<Longrightarrow> release_detached_paged cp d = (r4, cp') \<Longrightarrow>
     cp_step (cp, hs) (cp', remove1 d hs)"

inductive cp_reachable :: "'a cache_pool \<times> 'a detached_paged_cache_set list \<Rightarrow> bool" where
  reach_new: "cp_reachable (cache_pool_new n, [])"
| reach_step: "cp_reachable s \<Longrightarrow> cp_step s s' \<Longrightarrow> cp_reachable s'"

lemma clone_source:
  assumes inv: "cp_inv cp hs" and src: "d \<in> set hs \<or> peek_parked_paged cp h = Some d"
  shows "set_holder_ok (paged_pool cp) d" "set_holds d \<subseteq># all_refs cp hs"
proof -
  have "d \<in> set hs \<or> (h, ParkedPaged d) \<in> set (detached cp)"
    using src map_of_SomeD [of "detached cp" h]
    by (auto simp: peek_parked_paged_def split: option.splits parked_cache.splits)
  then show "set_holder_ok (paged_pool cp) d" "set_holds d \<subseteq># all_refs cp hs"
  proof (atomize (full), elim disjE)
    assume d: "d \<in> set hs"
    show "set_holder_ok (paged_pool cp) d \<and> set_holds d \<subseteq># all_refs cp hs"
      using inv d unfolding all_refs_def cp_inv_def by (auto intro: subset_mset_addI(2) sum_list_member)
  next
    assume d: "(h, ParkedPaged d) \<in> set (detached cp)"
    have "set_holds d \<subseteq># hm_total parked_holds (detached cp)" using hm_total_member [OF d, of parked_holds] by simp
    moreover have "set_holder_ok (paged_pool cp) d" using inv d by (auto simp: cp_inv_def)
    ultimately show "set_holder_ok (paged_pool cp) d \<and> set_holds d \<subseteq># all_refs cp hs"
      unfolding all_refs_def by (auto intro: subset_mset_addI)
  qed
qed

lemma cp_inv_new: "cp_inv (cache_pool_new n) []"
  by (simp add: cp_inv_def keys_ok_def cache_pool_new_def pool_holds_def all_refs_def)

lemma cp_step_inv:
  assumes "cp_step s s'" "cp_inv (fst s) (snd s)"
  shows "cp_inv (fst s') (snd s')"
  using assms
proof (induction rule: cp_step.induct)
  case (step_allocate cp lm ov env now r cp' hs)
  then show ?case using allocate_inv by fastforce
next
  case (step_append l n cp i r1 cp' hs)
  then show ?case
    using append_op.with_state_inv [of cp hs i l n r1 cp'] by (auto simp: append_paged_tokens_def table_room_def)
next
  case (step_trim cp i l n r2 cp' hs)
  then show ?case using trim_op.with_state_inv [of cp hs i l n r2 cp'] by (auto simp: trim_paged_tokens_def)
next
  case (step_rewind cp i l n r2 cp' hs)
  then show ?case using rewind_op.with_state_inv [of cp hs i l n r2 cp'] by (auto simp: rewind_paged_tokens_def)
next
  case (step_sync targets cp i r1 cp' hs)
  then show ?case using sync_inv [of cp hs i targets r1 cp'] by (auto simp: table_room_def)
next
  case (step_detach_paged cp hs f now i y cp')
  then have "\<forall>b. count (all_refs cp hs) b < u32_max" by (metis add_2_eq_Suc' Suc_le_lessD Suc_lessD)
  with step_detach_paged show ?case using detach_paged_inv [of cp hs f now i y cp'] by simp
next
  case (step_adopt_preserving d hs cp env f lm now i cp')
  then show ?case using adopt_preserving_inv [of cp hs d env f lm now "Inr i" cp'] by simp
next
  case (step_clone d hs cp h now target d' cp')
  then show ?case using clone_prefix_inv [of cp hs d now target d' cp'] clone_source [of cp hs d h] by simp
qed (auto intro: release_inv set_budget_inv restore_paged_inv detach_inv adopt_inv park_detached_inv take_parked_inv
      adopt_parked_inv adopt_paged_inv park_detached_paged_inv take_parked_paged_inv adopt_parked_paged_inv
      dest: trim_detached_inv release_detached_inv)

lemma cp_reachable_inv: "cp_reachable s \<Longrightarrow> cp_inv (fst s) (snd s)"
  by (induction rule: cp_reachable.induct) (auto simp: cp_inv_new intro: cp_step_inv)

end
