(* ===== verification/Pool_Properties.thy ===== *)
theory Pool_Properties
  imports Pool_Reachable
begin

text \<open>
  What the ownership invariant means for the users of the cache pool, each property with a run of
  the model that exercises it.
\<close>

section \<open>Auxiliary facts\<close>

lemma count_list_mset: "count_list xs b = count (mset xs) b"
  by (induction xs) auto

lemma those_map_length: "those (map f xs) = Some ys \<Longrightarrow> length ys = length xs"
  by (induction xs arbitrary: ys) (auto split: option.splits)

lemma those_map_nth: "those (map f xs) = Some ys \<Longrightarrow> i < length xs \<Longrightarrow> f (xs ! i) = Some (ys ! i)"
  by (induction xs arbitrary: ys i) (auto split: option.splits simp: nth_Cons split: nat.splits)

lemma those_map_Some: "(\<And>x. x \<in> set xs \<Longrightarrow> f x \<noteq> None) \<Longrightarrow> \<exists>ys. those (map f xs) = Some ys"
proof (induction xs)
  case (Cons x xs)
  then obtain y ys where "f x = Some y" "those (map f xs) = Some ys" by force
  then show ?case by simp
qed simp

lemma owned_count: "pool_owned p M \<Longrightarrow> pool_refcount p b = count M b"
  by (simp add: ref_owned_def)

lemma reachable_pool:
  assumes "cp_reachable (cp, hs)" "paged_pool cp = Some p"
  shows "pool_owned p (all_refs cp hs)"
  using cp_reachable_inv [OF assms(1)] assms(2) by (simp add: cp_inv_def pool_holds_def)

section \<open>A run for the witnesses\<close>

text \<open>A dense-natural model served from a paged pool of two layers: one sequence is allocated and four
  tokens are appended to each layer (\<open>demo_cp\<close>), or eight to the first layer only (\<open>demo_cp'\<close>); then it
  is detached (\<open>demo_set\<close>, \<open>demo_set'\<close>).\<close>

type_synonym arr = "int list \<times> int"

definition demo_lm :: "arr language_model" where
  "demo_lm = \<lparr>lm_layout = \<lparr>sl_backend = DenseKvCache, sl_num_layers = 2, sl_paged_layout = None\<rparr>, lm_make_caches = []\<rparr>"

definition demo_env :: cache_env where
  "demo_env = \<lparr>env_fast_path = False, env_sidecar_policy = Predecode\<rparr>"

definition demo_paged :: sequence_state_layout where
  "demo_paged = \<lparr>sl_backend = PagedKvCache, sl_num_layers = 2, sl_paged_layout = Some demo_layout\<rparr>"

definition demo_table :: "nat list \<Rightarrow> nat list \<Rightarrow> paged_sequence_state" where
  "demo_table xs ys = \<lparr>seq_block_size = 4,
     layers = [\<lparr>block_ids = xs, len = 4 * length xs, logical_start = 0\<rparr>,
               \<lparr>block_ids = ys, len = 4 * length ys, logical_start = 0\<rparr>]\<rparr>"

definition demo_blocks :: "(nat \<times> paged_block_record) list \<Rightarrow> arr paged_block_pool" where
  "demo_blocks bs = (pool_new demo_layout)\<lparr>next_block_id := length bs, blocks := bs\<rparr>"

definition demo_entry :: "paged_sequence_state \<Rightarrow> arr sequence_cache_set" where
  "demo_entry st = with_backend 0 PagedKvCache [new_paged False Predecode 0 0, new_paged False Predecode 0 1]
     (Some (0, st)) (Some demo_layout) 0"

definition demo_state :: "paged_sequence_state \<Rightarrow> (nat \<times> paged_block_record) list \<Rightarrow> arr cache_pool" where
  "demo_state st bs = \<lparr>next_id = 1, active = [(0, demo_entry st)], max_sequences = 4,
     paged_pool = Some (demo_blocks bs), detached = [], paged_block_budget = None, next_cell = 1\<rparr>"

abbreviation demo_rec :: "nat \<Rightarrow> nat \<Rightarrow> paged_block_record" where
  "demo_rec l n \<equiv> \<lparr>layer_idx = l, refcount = n\<rparr>"

definition demo_detached :: "paged_sequence_state \<Rightarrow> arr detached_paged_cache_set" where
  "demo_detached st =
     \<lparr>dp_caches = [detached_part (new_paged False Predecode 0 0), detached_part (new_paged False Predecode 0 1)],
      dp_state = st, dp_layout = demo_layout, dp_backend = PagedKvCache, dp_prompt_len = 0, dp_current_offset = 0,
      dp_created_at = 0, dp_detached_at = 1, dp_origin_seq_id = 0, retained_blocks = Some (table_blocks st),
      real_pool_bytes = None, dp_pages = no_pages\<rparr>"

lemmas demo_defs = demo_lm_def demo_env_def demo_paged_def demo_table_def demo_blocks_def demo_entry_def demo_state_def
  demo_detached_def with_backend_def

lemma demo_allocate:
  "allocate_with_layout demo_env demo_lm 0 (cache_pool_new 4) (Some demo_paged) = (Inr 0, demo_state (demo_table [] []) [])"
  by (simp add: allocate_with_layout_def fetch_id_def fetch_cell_def Let_def cache_pool_new_def ensure_paged_pool_def
      set_block_budget_def is_pool_backed_def demo_defs demo_layout_def pool_new_def sequence_state_new_def
      layer_state_new_def replicate_2 upt_rec)

lemma demo_append0:
  "append_paged_tokens (demo_state (demo_table [] []) []) 0 0 4 = (Inr (), demo_state (demo_table [0] []) [(0, demo_rec 0 1)])"
  by (simp add: append_paged_tokens_def with_pool_and_state_def demo_defs demo_eval acquire_until.simps)

lemma demo_append1:
  "append_paged_tokens (demo_state (demo_table [0] []) [(0, demo_rec 0 1)]) 0 1 4
     = (Inr (), demo_state (demo_table [0] [1]) [(0, demo_rec 0 1), (1, demo_rec 1 1)])"
  by (simp add: append_paged_tokens_def with_pool_and_state_def demo_defs demo_eval acquire_until.simps)

lemma demo_append2:
  "append_paged_tokens (demo_state (demo_table [0] []) [(0, demo_rec 0 1)]) 0 0 4
     = (Inr (), demo_state (demo_table [0, 1] []) [(0, demo_rec 0 1), (1, demo_rec 0 1)])"
  by (simp add: append_paged_tokens_def with_pool_and_state_def demo_defs demo_eval acquire_until.simps)

lemma demo_room: "table_room (append_room l 4) (demo_state st bs) 0"
  if "length bs + 100 \<le> u64_max" "len (layers st ! l) \<le> 100"
  using that by (auto simp: table_room_def append_room_def demo_defs demo_eval)

lemma demo_reach:
  "cp_reachable (demo_state (demo_table [0] [1]) [(0, demo_rec 0 1), (1, demo_rec 1 1)], [])"
  "cp_reachable (demo_state (demo_table [0, 1] []) [(0, demo_rec 0 1), (1, demo_rec 0 1)], [])"
proof -
  have "cp_reachable (demo_state (demo_table [] []) [], [])"
    by (rule reach_step [OF reach_new step_allocate [OF _ _ demo_allocate]])
       (simp_all add: cache_pool_new_def u64_max_def effective_layout_def demo_paged_def demo_layout_def)
  then have r: "cp_reachable (demo_state (demo_table [0] []) [(0, demo_rec 0 1)], [])"
    by (rule reach_step [OF _ step_append [OF demo_room demo_append0]]) (simp_all add: u64_max_def demo_table_def)
  show "cp_reachable (demo_state (demo_table [0] [1]) [(0, demo_rec 0 1), (1, demo_rec 1 1)], [])"
    by (rule reach_step [OF r step_append [OF demo_room demo_append1]]) (simp_all add: u64_max_def demo_table_def)
  show "cp_reachable (demo_state (demo_table [0, 1] []) [(0, demo_rec 0 1), (1, demo_rec 0 1)], [])"
    by (rule reach_step [OF r step_append [OF demo_room demo_append2]]) (simp_all add: u64_max_def demo_table_def)
qed

definition demo_idle :: "(nat \<times> paged_block_record) list \<Rightarrow> arr cache_pool" where
  "demo_idle bs = (demo_state (demo_table [] []) bs)\<lparr>active := []\<rparr>"

lemma demo_clone_handle:
  "clone_handle shape_ffi (new_paged False Predecode 0 l) = Some (detached_part (new_paged False Predecode 0 l),
     (new_paged False Predecode 0 l))"
  by (simp add: clone_handle_def compact_turbo4_delegated_fp16_sidecars_def new_paged_def kv_new_def
      new_with_mode_and_seed_def opt_tensor_def detached_part_def detached_kv_cache.defs Let_def)

lemma demo_detach:
  "detach_paged shape_ffi 1 (demo_state (demo_table [0] [1]) [(0, demo_rec 0 1), (1, demo_rec 1 1)]) 0
     = (Inr (Some (demo_detached (demo_table [0] [1]))), demo_idle [(0, demo_rec 0 2), (1, demo_rec 1 2)])"
  "detach_paged shape_ffi 1 (demo_state (demo_table [0, 1] []) [(0, demo_rec 0 1), (1, demo_rec 0 1)]) 0
     = (Inr (Some (demo_detached (demo_table [0, 1] []))), demo_idle [(0, demo_rec 0 2), (1, demo_rec 0 2)])"
  by (simp_all add: detach_paged_def demo_defs demo_idle_def demo_clone_handle demo_eval table_blocks_def retain_block_def
      sat_inc_def u32_max_def lift_pages_def layout_is_turbo_mode_def captured_bytes_def real_block_bytes_def)

lemma demo_ref_room:
  assumes "all_refs cp hs = mset bs" "length bs \<le> 100"
  shows "ref_room cp hs"
proof
  fix b
  have "count (mset bs) b \<le> length bs" by (induction bs) auto
  then show "count (all_refs cp hs) b + 2 \<le> u32_max" using assms by (simp add: u32_max_def)
qed

abbreviation demo_d :: "arr detached_paged_cache_set" where
  "demo_d \<equiv> demo_detached (demo_table [0] [1])"

abbreviation demo_u :: "arr detached_paged_cache_set" where
  "demo_u \<equiv> demo_detached (demo_table [0, 1] [])"

abbreviation demo_cp :: "arr cache_pool" where
  "demo_cp \<equiv> demo_idle [(0, demo_rec 0 2), (1, demo_rec 1 2)]"

abbreviation demo_cu :: "arr cache_pool" where
  "demo_cu \<equiv> demo_idle [(0, demo_rec 0 2), (1, demo_rec 0 2)]"

lemma demo_refs:
  "all_refs (demo_state (demo_table [0] [1]) bs) [] = mset [0, 1]"
  "all_refs (demo_state (demo_table [0, 1] []) bs) [] = mset [0, 1]"
  "all_refs demo_cp [demo_d] = mset [0, 1, 0, 1]"
  by (simp_all add: all_refs_def demo_defs demo_idle_def hm_total_def seq_holds_def set_holds_def seq_refs_table_blocks
      table_blocks_def)

lemma demo_detached_reach: "cp_reachable (demo_cp, [demo_d])" "cp_reachable (demo_cu, [demo_u])"
proof -
  have "cp_reachable (demo_cp, case Some demo_d of None \<Rightarrow> [] | Some d \<Rightarrow> d # [])"
    by (rule reach_step [OF demo_reach(1) step_detach_paged [OF demo_ref_room [OF demo_refs(1)] demo_detach(1)]]) simp
  then show "cp_reachable (demo_cp, [demo_d])" by simp
  have "cp_reachable (demo_cu, case Some demo_u of None \<Rightarrow> [] | Some d \<Rightarrow> d # [])"
    by (rule reach_step [OF demo_reach(2) step_detach_paged [OF demo_ref_room [OF demo_refs(2)] demo_detach(2)]]) simp
  then show "cp_reachable (demo_cu, [demo_u])" by simp
qed

lemma demo_room_held: "ref_room demo_cp [demo_d]"
  by (rule demo_ref_room [OF demo_refs(3)]) simp

section \<open>Reference counts\<close>



lemma no_live_blocks:
  assumes own: "pool_owned p {#}"
  shows "live_block_count p = 0
    \<and> (\<forall>l < num_layers (layout p). set (free_lists p ! l) = {b. pool_layer_of p b = Some l})"
proof -
  have inv: "pool_inv p" and rc: "\<forall>b. pool_refcount p b = 0" using own by (auto simp: ref_owned_def)
  have wf: "hm_wf (blocks p)" using inv by (simp add: pool_inv_def blocks_ok_def)
  have z: "refcount r = 0" if "hm_get (blocks p) b = Some r" for b r
    using rc [rule_format, of b] that by (simp add: pool_refcount_def)
  have "\<forall>e \<in> set (blocks p). \<not> is_in_use (snd e)"
    using z wf by (auto simp: is_in_use_def)
  then have "live_block_count p = 0" by (simp add: live_block_count_def filter_empty_conv)
  moreover have "set (free_lists p ! l) = {b. pool_layer_of p b = Some l}" if "l < num_layers (layout p)" for l
    using z pool_inv_free_iff [OF inv that] by (auto simp: pool_layer_of_def)
  ultimately show ?thesis by simp
qed



section \<open>Detached sets\<close>

text \<open>C6: \<open>release_detached_paged\<close> of a set that the pool handed out never fails, and gives back exactly
  two references per entry of its block table.\<close>

theorem release_detached_gives_back:
  assumes "cp_reachable (cp, hs)" "d \<in> set hs"
  shows "\<exists>p cp' p'. release_detached_paged cp d = (Inr (), cp') \<and> paged_pool cp = Some p \<and> paged_pool cp' = Some p'
    \<and> (\<forall>b. pool_refcount p b = pool_refcount p' b + 2 * count_list (table_blocks (dp_state d)) b)
    \<and> active cp' = active cp \<and> detached cp' = detached cp"
proof -
  have inv: "cp_inv cp hs" using cp_reachable_inv [OF assms(1)] by simp
  from release_detached_run [OF inv assms(2)] obtain p p' where
    r: "paged_pool cp = Some p" "release_detached_paged cp d = (Inr (), cp\<lparr>paged_pool := Some p'\<rparr>)"
    "pool_owned p' (all_refs cp (remove1 d hs))" by blast
  from held_set [OF inv assms(2)] r(1) obtain bs where
    "pool_owned p (all_refs cp (remove1 d hs) + seq_refs (dp_state d) + mset bs)" "mset bs = seq_refs (dp_state d)" by auto
  then have "\<forall>b. pool_refcount p b = pool_refcount p' b + 2 * count_list (table_blocks (dp_state d)) b"
    using r(3) by (simp add: owned_count count_list_mset seq_refs_table_blocks)
  then show ?thesis using r by simp
qed

theorem release_detached_gives_back_witness:
  "\<exists>p cp' p'. release_detached_paged demo_cp demo_d = (Inr (), cp') \<and> paged_pool demo_cp = Some p
     \<and> paged_pool cp' = Some p' \<and> pool_refcount p 1 = 2 \<and> pool_refcount p' 1 = 0"
proof -
  from release_detached_gives_back [OF demo_detached_reach(1), of demo_d] obtain p cp' p' where
    r: "release_detached_paged demo_cp demo_d = (Inr (), cp')" "paged_pool demo_cp = Some p" "paged_pool cp' = Some p'"
    "\<forall>b. pool_refcount p b = pool_refcount p' b + 2 * count_list (table_blocks (dp_state demo_d)) b" by auto
  have "pool_refcount p 1 = 2" using r(2) by (auto simp: demo_idle_def demo_state_def demo_blocks_def pool_refcount_def)
  then show ?thesis using r(1-3) r(4) [rule_format, of 1]
    by (simp add: demo_detached_def demo_table_def table_blocks_def)
qed

lemma clone_handle_offset:
  assumes "clone_handle f c = Some (h, c')" "mode c \<noteq> Turbo4Delegated"
  shows "offset h = offset c"
  using assms
  by (auto simp: clone_handle_def compact_turbo4_delegated_fp16_sidecars_def bind_eq_Some_conv Let_def detached_part_def
      detached_kv_cache.defs)

lemma cloned_offsets:
  assumes "those (map (clone_handle f) cs) = Some hs" "\<forall>c \<in> set cs. mode c \<noteq> Turbo4Delegated"
  shows "map (offset \<circ> fst) hs = map offset cs"
proof (rule nth_equalityI)
  show "length (map (offset \<circ> fst) hs) = length (map offset cs)" using those_map_length [OF assms(1)] by simp
  fix i assume "i < length (map (offset \<circ> fst) hs)"
  then have i: "i < length cs" "i < length hs" using those_map_length [OF assms(1)] by simp_all
  obtain h c' where "hs ! i = (h, c')" by (cases "hs ! i")
  with those_map_nth [OF assms(1) i(1)] clone_handle_offset [of f "cs ! i" h c'] assms(2) i
  show "map (offset \<circ> fst) hs ! i = map offset cs ! i" by simp
qed

lemma adopted_offsets:
  assumes "adopted_caches env f lm lay cell ds = Some live" "is_pool_backed lm lay"
  shows "map offset live = map offset ds \<and> (\<forall>c \<in> set live. \<exists>l. paged_backing c = Some \<lparr>backing_state = cell, backing_layer = l\<rparr>)"
proof -
  have "live = map (\<lambda>(l, h). (new_paged (env_fast_path env) (env_sidecar_policy env) cell l)\<lparr>offset := offset h\<rparr>)
                (enumerate 0 ds)" using assms by (simp add: adopted_caches_def)
  then show ?thesis by (auto simp: new_paged_def intro: nth_equalityI simp: nth_enumerate_eq)
qed

text \<open>C5: detaching a paged sequence and adopting the set again is lossless. The detach always succeeds;
  the adopted sequence has the same block table, layout, prompt length and decode position under a new
  id, every block has the reference count it had before, no other sequence changed, and the pool-backed
  caches resume at their offsets on the new sequence's own table.\<close>

theorem detach_adopt_paged_round_trip:
  assumes reach: "cp_reachable (cp, hs)" and room: "ref_room cp hs" "id_room cp"
    and s: "hm_get (active cp) i = Some s" "paged s = Some (c, st)"
    and det: "detach_paged f now cp i = (Inr x, cp1)"
    and ad: "\<forall>d. x = Some d \<longrightarrow> adopt_paged env f lm now' cp1 d = (Inr j, cp2)"
  shows "\<exists>d s' cell p p2. x = Some d \<and> hm_get (active cp2) j = Some s' \<and> paged s' = Some (cell, st)
    \<and> set_paged_layout s' = set_paged_layout s \<and> prompt_len s' = prompt_len s
    \<and> current_offset s' = current_offset s
    \<and> (\<forall>k. k \<noteq> j \<longrightarrow> hm_get (active cp2) k = ((hm_get (active cp))(i := None)) k) \<and> i \<noteq> j
    \<and> paged_pool cp = Some p \<and> paged_pool cp2 = Some p2 \<and> pool_refcount p2 = pool_refcount p
    \<and> (is_pool_backed lm (layout p) \<and> (\<forall>c \<in> set (caches s). mode c \<noteq> Turbo4Delegated) \<longrightarrow>
         map offset (caches s') = map offset (caches s)
         \<and> (\<forall>c \<in> set (caches s'). \<exists>l. paged_backing c = Some \<lparr>backing_state = cell, backing_layer = l\<rparr>))"
proof -
  have inv: "cp_inv cp hs" using cp_reachable_inv [OF reach] by simp
  have rr: "\<forall>b. count (all_refs cp hs) b < u32_max" using room(1) by (metis add_2_eq_Suc' Suc_le_lessD Suc_lessD)
  from detach_paged_run [OF inv rr s det] obtain d p p1 where
    d: "x = Some d" "paged_pool cp = Some p" "cp1 = cp\<lparr>active := hm_remove i (active cp), paged_pool := Some p1\<rparr>"
    "dp_state d = st" "dp_layout d = layout p" "dp_backend d = PagedKvCache"
    "dp_prompt_len d = prompt_len s" "dp_current_offset d = current_offset s" by blast
  have inv1: "cp_inv cp1 (d # hs)" using detach_paged_inv [OF inv rr det] d(1) by simp
  have ad': "adopt_paged env f lm now' cp1 d = (Inr j, cp2)" using ad d(1) by simp
  then have pres: "adopt_paged_preserving env f lm now' cp1 d = (Inr j, cp2)"
    by (auto simp: adopt_paged_def split: prod.splits sum.splits)
  have "id_room cp1" using room(2) d(3) by simp
  from adopt_preserving_run [OF inv1 _ this pres] obtain live p2 where
    a: "j = next_id cp1" "adopted_caches env f lm (dp_layout d) (next_cell cp1) (dp_caches d) = Some live"
    "cp2 = cp1\<lparr>next_id := Suc (next_id cp1), next_cell := next_cell cp1 + 1, paged_pool := Some p2,
       active := hm_insert (next_id cp1) (adopted_entry (next_id cp1) (next_cell cp1) live now' d) (active cp1)\<rparr>"
    "pool_owned p2 (all_refs cp1 hs + seq_refs (dp_state d))" by auto
  let ?s = "adopted_entry (next_id cp1) (next_cell cp1) live now' d"
  have rc: "pool_refcount p2 = pool_refcount p"
  proof
    fix b
    have "all_refs cp1 hs + seq_refs (dp_state d) = all_refs cp hs"
      using all_refs_split [OF inv s(1)] s(2) d(3,4) by (simp add: all_refs_def rest_refs_def seq_holds_def)
    then show "pool_refcount p2 b = pool_refcount p b"
      using owned_count [OF a(4)] owned_count [OF reachable_pool [OF reach d(2)]] by simp
  qed
  have ij: "i \<noteq> j" using active_key_lt [OF inv s(1)] a(1) d(3) by simp
  have others: "\<forall>k. k \<noteq> j \<longrightarrow> hm_get (active cp2) k = ((hm_get (active cp))(i := None)) k"
    using a(1,3) d(3) by (simp add: update_conv' delete_conv')
  have get: "hm_get (active cp2) j = Some ?s" using a(1,3) by (simp add: update_conv')
  have ent: "paged ?s = Some (next_cell cp1, st)" "set_paged_layout ?s = Some (layout p)" "prompt_len ?s = prompt_len s"
    "current_offset ?s = current_offset s" "caches ?s = live"
    using d by (simp_all add: adopted_entry_def with_backend_def)
  have lay: "set_paged_layout s = Some (layout p)" using holder_table(4) [OF inv d(2) s] .
  have offs: "map offset live = map offset (caches s)
      \<and> (\<forall>c \<in> set live. \<exists>l. paged_backing c = Some \<lparr>backing_state = next_cell cp1, backing_layer = l\<rparr>)"
    if pb: "is_pool_backed lm (layout p)" and md: "\<forall>c \<in> set (caches s). mode c \<noteq> Turbo4Delegated"
  proof -
    obtain hs' where cl: "those (map (clone_handle f) (caches s)) = Some hs'" "dp_caches d = map fst hs'"
      using det s d(1) by (auto simp: detach_paged_def Let_def split: if_splits option.splits prod.splits)
    have "map offset (dp_caches d) = map offset (caches s)" using cloned_offsets [OF cl(1) md] cl(2) by (simp add: o_def)
    with adopted_offsets [OF a(2)] pb d(5) show ?thesis by simp
  qed
  show ?thesis
    using d(1,2) get ent lay others ij rc offs a(3)
    by (intro exI [of _ d] exI [of _ ?s] exI [of _ "next_cell cp1"] exI [of _ p] exI [of _ p2]) auto
qed

lemma demo_pool_backed: "is_pool_backed demo_lm demo_layout"
  by (simp add: is_pool_backed_def demo_lm_def demo_layout_def)

theorem detach_adopt_paged_round_trip_witness:
  "\<exists>j cp2 s' cell. adopt_paged demo_env shape_ffi demo_lm 2 demo_cp demo_d = (Inr j, cp2)
     \<and> hm_get (active cp2) j = Some s' \<and> paged s' = Some (cell, demo_table [0] [1])"
proof -
  obtain r cp2 where run: "adopt_paged_preserving demo_env shape_ffi demo_lm 2 demo_cp demo_d = (r, cp2)"
    by (cases "adopt_paged_preserving demo_env shape_ffi demo_lm 2 demo_cp demo_d")
  have inv: "cp_inv demo_cp [demo_d]" using cp_reachable_inv [OF demo_detached_reach(1)] by simp
  have r: "r = Inr 1"
    using adopt_preserving_run [OF inv _ _ run] demo_pool_backed
    by (auto simp: demo_idle_def demo_state_def demo_detached_def adopted_caches_def u64_max_def)
  then have ad: "adopt_paged demo_env shape_ffi demo_lm 2 demo_cp demo_d = (Inr 1, cp2)"
    using run by (simp add: adopt_paged_def)
  have room: "ref_room (demo_state (demo_table [0] [1]) [(0, demo_rec 0 1), (1, demo_rec 1 1)]) []"
    by (rule demo_ref_room [OF demo_refs(1)]) simp
  let ?cp = "demo_state (demo_table [0] [1]) [(0, demo_rec 0 1), (1, demo_rec 1 1)]"
  have s: "hm_get (active ?cp) 0 = Some (demo_entry (demo_table [0] [1]))"
    "paged (demo_entry (demo_table [0] [1])) = Some (0, demo_table [0] [1])" "id_room ?cp"
    by (simp_all add: demo_defs u64_max_def)
  have "\<forall>d. Some demo_d = Some d \<longrightarrow> adopt_paged demo_env shape_ffi demo_lm 2 demo_cp d = (Inr 1, cp2)"
    using ad by simp
  from detach_adopt_paged_round_trip [OF demo_reach(1) room s(3) s(1,2) demo_detach(1) this] ad
  show ?thesis by blast
qed

text \<open>C7: \<open>clone_detached_paged_prefix\<close> shares and does not consume. The clone's table is the first
  \<open>target / block_size\<close> blocks of every layer of the source, at length \<open>target\<close>; each of these blocks
  has gained exactly two references and no other block has changed; sequences and parked sets are
  untouched, and the new state is again one the invariant covers.\<close>

theorem clone_prefix_shares_blocks:
  assumes reach: "cp_reachable (cp, hs)" and room: "ref_room cp hs"
    and src: "d \<in> set hs \<or> peek_parked_paged cp h = Some d"
    and run: "clone_detached_paged_prefix now cp d target = (Inr d', cp')"
  shows "\<exists>p p'. paged_pool cp = Some p \<and> paged_pool cp' = Some p'
    \<and> layers (dp_state d') = map (\<lambda>ly. \<lparr>block_ids = take (target div block_size (layout p)) (block_ids ly),
         len = target, logical_start = 0\<rparr>) (layers (dp_state d))
    \<and> (\<forall>b. pool_refcount p' b = pool_refcount p b + 2 * count_list (table_blocks (dp_state d')) b)
    \<and> active cp' = active cp \<and> detached cp' = detached cp \<and> cp_reachable (cp', d' # hs)"
proof -
  have inv: "cp_inv cp hs" using cp_reachable_inv [OF reach] by simp
  from clone_prefix_run [OF inv room clone_source [OF inv src] run] obtain p p' st where
    c: "paged_pool cp = Some p" "cp' = cp\<lparr>paged_pool := Some p'\<rparr>"
    "clone_table (layout p) (dp_state d) (target div block_size (layout p)) target = Some st" "dp_state d' = st"
    "pool_owned p' (all_refs cp hs + (seq_refs st + seq_refs st))" by blast
  have "length (layers (dp_state d)) = num_layers (layout p)"
    using clone_source(1) [OF inv src] c(1) by (auto simp: set_holder_ok_def table_ok_def seq_ok_def)
  note l = clone_table_layers [OF c(3) this]
  have "\<forall>b. pool_refcount p' b = pool_refcount p b + 2 * count_list (table_blocks (dp_state d')) b"
    using owned_count [OF c(5)] owned_count [OF reachable_pool [OF reach c(1)]] c(4)
    by (simp add: count_list_mset seq_refs_table_blocks)
  moreover have "cp_reachable (cp', d' # hs)" using reach_step [OF reach step_clone [OF src room run]] .
  ultimately show ?thesis using c l by simp
qed

lemma demo_clone:
  "\<exists>d' cp'. clone_detached_paged_prefix 3 demo_cp demo_d 4 = (Inr d', cp')"
  by (simp add: clone_detached_paged_prefix_def demo_idle_def demo_defs layout_is_turbo_mode_def demo_layout_def dp_seq_len_def
      visible_len_def pool_backed_handle_clone_def new_paged_def kv_new_def new_with_mode_and_seed_def detached_part_def
      detached_kv_cache.defs clone_table_def sequence_state_new_def replicate_2 layer_state_new_def table_blocks_def
      twice_def retain_block_def sat_inc_def u32_max_def Let_def)

theorem clone_prefix_shares_blocks_witness:
  "\<exists>d' cp' p'. clone_detached_paged_prefix 3 demo_cp demo_d 4 = (Inr d', cp') \<and> paged_pool cp' = Some p'
     \<and> block_ids (layers (dp_state d') ! 1) = [1] \<and> pool_refcount p' 1 = 4"
proof -
  from demo_clone obtain d' cp' where run: "clone_detached_paged_prefix 3 demo_cp demo_d 4 = (Inr d', cp')" by blast
  have "demo_d \<in> set [demo_d] \<or> peek_parked_paged demo_cp 0 = Some demo_d" by simp
  from clone_prefix_shares_blocks [OF demo_detached_reach(1) demo_room_held this run] obtain p p' where
    c: "paged_pool demo_cp = Some p" "paged_pool cp' = Some p'"
    "layers (dp_state d') = map (\<lambda>ly. \<lparr>block_ids = take (4 div block_size (layout p)) (block_ids ly),
       len = 4, logical_start = 0\<rparr>) (layers (dp_state demo_d))"
    "\<forall>b. pool_refcount p' b = pool_refcount p b + 2 * count_list (table_blocks (dp_state d')) b" by blast
  have p: "p = demo_blocks [(0, demo_rec 0 2), (1, demo_rec 1 2)]" using c(1) by (simp add: demo_idle_def demo_state_def)
  have l: "layers (dp_state d') = [\<lparr>block_ids = [0], len = 4, logical_start = 0\<rparr>, \<lparr>block_ids = [1], len = 4, logical_start = 0\<rparr>]"
    using c(3) by (simp add: p demo_blocks_def demo_layout_def demo_detached_def demo_table_def)
  have "pool_refcount p' 1 = 4"
    using c(4) [rule_format, of 1] by (simp add: p demo_blocks_def pool_refcount_def table_blocks_def l)
  then show ?thesis using run c(2) l by simp
qed

lemma handle_clone_None: "pool_backed_handle_clone h a = None \<longleftrightarrow> pool_backed_handle_clone h b = None"
  by (simp add: pool_backed_handle_clone_def)

text \<open>C8: a set that \<open>clone_eligible\<close> accepts can always be cloned at a positive multiple of the block size
  that no layer falls short of: none of the error paths is taken and no pin fails.\<close>

theorem clone_eligible_succeeds:
  assumes reach: "cp_reachable (cp, hs)" and room: "ref_room cp hs"
    and src: "d \<in> set hs \<or> peek_parked_paged cp h = Some d" and el: "clone_eligible d"
    and target: "0 < target" "target mod block_size (dp_layout d) = 0" "target \<le> dp_seq_len d"
    and long: "\<forall>ly \<in> set (layers (dp_state d)). target \<le> len ly"
  shows "\<exists>d' cp'. clone_detached_paged_prefix now cp d target = (Inr d', cp')"
proof -
  have inv: "cp_inv cp hs" using cp_reachable_inv [OF reach] by simp
  obtain p bs where p: "paged_pool cp = Some p" "retained_blocks d = Some bs" "table_ok p (dp_state d)"
    "dp_layout d = layout p" "dp_backend d = PagedKvCache"
    using clone_source(1) [OF inv src] by (auto simp: set_holder_ok_def)
  let ?bs = "block_size (layout p)" and ?keep = "target div block_size (layout p)"
  have own: "pool_owned p (all_refs cp hs)" using reachable_pool [OF reach p(1)] .
  have bs: "0 < ?bs" using own by (simp add: ref_owned_def pool_inv_def pool_sized_def Let_def)
  have sok: "seq_ok p (dp_state d)" using p(3) by (simp add: table_ok_def)
  have keep: "?keep \<le> length (block_ids ly)" if "ly \<in> set (layers (dp_state d))" for ly
  proof -
    from that obtain l where l: "l < length (layers (dp_state d))" "ly = layers (dp_state d) ! l"
      by (metis in_set_conv_nth)
    then have "layer_ok p l ly" using sok by (simp add: seq_ok_def)
    moreover have "?keep = div_ceil target ?bs" using target(2) p(4) by (simp add: div_ceil_def)
    ultimately show ?thesis
      using div_ceil_mono [OF bs, of target "len ly"] long that by (auto simp: layer_ok_def)
  qed
  obtain st where st: "clone_table (layout p) (dp_state d) ?keep target = Some st"
    using keep sok by (auto simp: clone_table_def Let_def seq_ok_def sequence_state_new_def list_all_iff)
  have "\<exists>cs. those (map (\<lambda>h. pool_backed_handle_clone h (as_i32 target)) (dp_caches d)) = Some cs"
  proof (rule those_map_Some)
    fix x assume "x \<in> set (dp_caches d)"
    then have "pool_backed_handle_clone x 0 \<noteq> None" using el by (simp add: clone_eligible_def list_all_iff)
    then show "pool_backed_handle_clone x (as_i32 target) \<noteq> None" using handle_clone_None [of x 0 "as_i32 target"] by simp
  qed
  then obtain cs where cs: "those (map (\<lambda>h. pool_backed_handle_clone h (as_i32 target)) (dp_caches d)) = Some cs" by blast
  note ok = clone_table_ok [OF p(3) st refl] target(2) p(4)
  have dist: "distinct (table_blocks st)" and refs: "seq_refs st \<subseteq># seq_refs (dp_state d)" using ok by (auto simp: table_ok_def)
  have "seq_refs (dp_state d) \<subseteq># set_holds d" using p(2) by (simp add: set_holds_def)
  from subset_mset.order_trans [OF refs subset_mset.order_trans [OF this clone_source(2) [OF inv src]]]
  have sub: "set (table_blocks st) \<subseteq> set_mset (all_refs cp hs)"
    by (simp add: seq_refs_table_blocks) (drule set_mset_mono, simp)
  from retain_twice [OF own dist sub room] obtain q where
    "op_each retain_block p (twice (table_blocks st)) = (Inr (), q)" by blast
  note pin = pin_with_rollback_op_each [OF this, of "[]"]
  show ?thesis
    using el target p bs cs st pin
    by (simp add: clone_detached_paged_prefix_def Let_def clone_eligible_def list_ex_iff list_all_iff)
qed

theorem clone_eligible_succeeds_witness:
  "\<exists>d' cp'. clone_detached_paged_prefix 3 demo_cp demo_d 4 = (Inr d', cp')"
proof (rule clone_eligible_succeeds [OF demo_detached_reach(1) demo_room_held])
  show "demo_d \<in> set [demo_d] \<or> peek_parked_paged demo_cp 0 = Some demo_d" by simp
  show "clone_eligible demo_d"
    by (simp add: clone_eligible_def demo_defs layout_is_turbo_mode_def demo_layout_def pool_backed_handle_clone_def
        new_paged_def kv_new_def new_with_mode_and_seed_def detached_part_def detached_kv_cache.defs)
qed (simp_all add: demo_defs demo_layout_def dp_seq_len_def visible_len_def)

section \<open>Where the code and its documentation part\<close>

text \<open>\<open>max_sequences\<close> does not bound paged sequences: with a matching or absent pool a paged allocation
  succeeds however many sequences are active, although \<open>CachePool\<close> is documented to enforce a hard upper
  bound.\<close>

lemma paged_allocate_ignores_capacity:
  assumes "sl_backend lay = PagedKvCache" "sl_paged_layout lay = Some pl"
    and "\<forall>p. paged_pool cp = Some p \<longrightarrow> layout p = pl"
  shows "\<exists>cp'. allocate_with_layout env lm now cp (Some lay) = (Inr (next_id cp), cp')
    \<and> max_sequences cp' = max_sequences cp \<and> hm_get (active cp') (next_id cp) \<noteq> None"
  using assms
  by (auto simp: allocate_with_layout_def Let_def fetch_id_def ensure_paged_pool_def fetch_cell_def update_conv'
      split: option.splits)

lemma paged_allocate_ignores_capacity_demo:
  "\<exists>cp'. allocate_with_layout demo_env demo_lm 0 (cache_pool_new 0) (Some demo_paged) = (Inr 0, cp')
     \<and> max_sequences cp' = 0 \<and> hm_get (active cp') 0 \<noteq> None"
  using paged_allocate_ignores_capacity [of demo_paged demo_layout "cache_pool_new 0" demo_env demo_lm 0]
  by (simp add: demo_paged_def cache_pool_new_def)

text \<open>\<open>trim_detached_paged_to\<close> checks its target against the first layer only. A layer with fewer
  blocks is given the target length all the same, so its table then claims tokens for which it has
  no block; the call reports success.\<close>

lemma trim_detached_overstates_short_layer:
  assumes reach: "cp_reachable (cp, hs)" and d: "d \<in> set hs"
    and mode: "\<not> layout_is_turbo_mode (dp_layout d)"
    and target: "target mod block_size (dp_layout d) = 0" "target < dp_seq_len d"
    and win: "\<forall>ly \<in> set (layers (dp_state d)). logical_start ly = 0"
    and short: "ly \<in> set (layers (dp_state d))" "length (block_ids ly) < target div block_size (dp_layout d)"
  shows "\<exists>d' cp'. trim_detached_paged_to cp d target = (Inr (), d', cp')
    \<and> (\<exists>ly' \<in> set (layers (dp_state d')). block_ids ly' = block_ids ly \<and> len ly' = target
         \<and> length (block_ids ly') * block_size (dp_layout d) < len ly')"
proof -
  have inv: "cp_inv cp hs" using cp_reachable_inv [OF reach] by simp
  from held_set [OF inv d] obtain p bs where
    p: "paged_pool cp = Some p" "retained_blocks d = Some bs" "mset bs = seq_refs (dp_state d)"
    "dp_layout d = layout p" "dp_backend d = PagedKvCache"
    "pool_owned p (all_refs cp (remove1 d hs) + seq_refs (dp_state d) + mset bs)" by blast
  let ?k = "target div block_size (layout p)" and ?lys = "layers (dp_state d)"
  have "(\<Sum>ly \<leftarrow> ?lys. mset (block_ids ly) + mset (block_ids ly)) = seq_refs (dp_state d) + seq_refs (dp_state d)"
    by (simp add: seq_refs_def sum_list_addf)
  with p(3,6) have "pool_owned p (all_refs cp (remove1 d hs) + (\<Sum>ly \<leftarrow> ?lys. mset (block_ids ly) + mset (block_ids ly)))"
    by (simp add: ac_simps)
  from trim_table_owned [OF this, of ?k target 0] obtain q n where
    q: "trim_table p ?k target 0 ?lys = ([], dropped_blocks ?k ?lys, n,
          map (\<lambda>ly. ly\<lparr>block_ids := take ?k (block_ids ly), len := target\<rparr>) ?lys, q)" by blast
  have bs: "0 < block_size (layout p)" using p(6) by (simp add: ref_owned_def pool_inv_def pool_sized_def Let_def)
  have "length (block_ids ly) * block_size (layout p) < target"
    using short(2) bs target(1) p(4) by (metis div_mult_mod_eq add.right_neutral mult_less_mono1)
  then have "\<exists>ly' \<in> (\<lambda>ly. ly\<lparr>block_ids := take ?k (block_ids ly), len := target\<rparr>) ` set ?lys.
      block_ids ly' = block_ids ly \<and> len ly' = target \<and> length (block_ids ly') * block_size (layout p) < len ly'"
    using short p(4) by (intro bexI [OF _ imageI [OF short(1)]]) simp
  then show ?thesis
    using mode target win p bs q by (simp add: trim_detached_paged_to_def Let_def list_ex_iff)
qed

lemma trim_detached_overstates_short_layer_demo:
  "\<exists>d' cp'. trim_detached_paged_to demo_cu demo_u 4 = (Inr (), d', cp')
     \<and> (\<exists>ly' \<in> set (layers (dp_state d')). block_ids ly' = [] \<and> len ly' = 4)"
proof -
  let ?ly = "\<lparr>block_ids = [], len = 0, logical_start = 0\<rparr>"
  have "\<exists>d' cp'. trim_detached_paged_to demo_cu demo_u 4 = (Inr (), d', cp')
     \<and> (\<exists>ly' \<in> set (layers (dp_state d')). block_ids ly' = block_ids ?ly \<and> len ly' = 4
         \<and> length (block_ids ly') * block_size (dp_layout demo_u) < len ly')"
    by (rule trim_detached_overstates_short_layer [OF demo_detached_reach(2)])
       (simp_all add: demo_defs demo_layout_def layout_is_turbo_mode_def dp_seq_len_def visible_len_def)
  then show ?thesis by auto
qed

text \<open>The blocks a pool has never registered are not released.\<close>

lemma release_unknown: "pool_layer_of p b = None \<Longrightarrow> release_block p b = (Inl (UnknownBlock b), p)"
  by (simp add: release_block_def pool_layer_of_def)

lemma release_ignoring_unknown:
  "\<forall>b \<in> set bs. pool_layer_of p b = None \<Longrightarrow> release_ignoring p bs = p"
  by (induction bs) (auto simp: release_ignoring_def release_unknown)

text \<open>A detached set cannot be retried on a different pool, although \<open>adopt_paged_preserving\<close> is
  documented to hand it back for that. Adopting it into a fresh pool reports success, but the blocks of
  the new sequence's table are unknown to that pool.\<close>

lemma adopt_on_other_pool_dangles:
  assumes "dp_backend d = PagedKvCache" "0 < n"
    "adopted_caches env f lm (dp_layout d) 0 (dp_caches d) = Some live"
  shows "\<exists>cp' s cell p. adopt_paged_preserving env f lm now (cache_pool_new n) d = (Inr 0, cp')
    \<and> hm_get (active cp') 0 = Some s \<and> paged s = Some (cell, dp_state d) \<and> paged_pool cp' = Some p
    \<and> (\<forall>b \<in> set (table_blocks (dp_state d)). pool_layer_of p b = None)"
proof -
  obtain t where t: "reinstall_pages (dp_layout d) (dp_pages d) (pool_new (dp_layout d))
      = (pool_new (dp_layout d))\<lparr>turbo_sidecars := t\<rparr>"
    using reinstall_pages_sidecars by blast
  let ?p = "(pool_new (dp_layout d))\<lparr>turbo_sidecars := t\<rparr>"
  have un: "pool_layer_of ?p b = None" for b by (simp add: pool_layer_of_def pool_new_def Let_def)
  have "release_ignoring ?p bs = ?p" for bs using release_ignoring_unknown un by blast
  then show ?thesis
    using assms un t
    by (simp add: adopt_paged_preserving_def cache_pool_new_def ensure_paged_pool_from_layout_def fetch_id_def
        fetch_cell_def Let_def with_backend_def)
qed

lemma adopt_on_other_pool_dangles_demo:
  "\<exists>cp' s cell p. adopt_paged_preserving demo_env shape_ffi demo_lm 2 (cache_pool_new 1) demo_d = (Inr 0, cp')
     \<and> hm_get (active cp') 0 = Some s \<and> paged s = Some (cell, demo_table [0] [1])
     \<and> paged_pool cp' = Some p \<and> pool_layer_of p 0 = None"
proof -
  obtain live where "adopted_caches demo_env shape_ffi demo_lm (dp_layout demo_d) 0 (dp_caches demo_d) = Some live"
    using demo_pool_backed by (auto simp: adopted_caches_def demo_detached_def)
  moreover have "dp_backend demo_d = PagedKvCache" "dp_state demo_d = demo_table [0] [1]" by (simp_all add: demo_detached_def)
  moreover have "0 \<in> set (table_blocks (demo_table [0] [1]))" by (simp add: demo_table_def table_blocks_def)
  ultimately show ?thesis using adopt_on_other_pool_dangles [of demo_d 1 demo_env shape_ffi demo_lm live 2] by fastforce
qed

end
