(* ===== verification/Paged_Properties.thy ===== *)
theory Paged_Properties
  imports Paged_Sequences
begin

text \<open>
  Properties of the block allocator and of the block tables of \<open>cache/paged.rs\<close>: when an acquisition
  succeeds, what trimming, releasing and restoring a sequence do to the reference counts, and two
  places where the documentation promises more than the code does.
\<close>

section \<open>Acquiring\<close>

text \<open>C10: \<open>acquire_block\<close>. It succeeds exactly when the layer exists and either a freed block of this very
  layer can be reused or the budget allows another block to be minted; the returned block was
  unreferenced and now has one reference, nothing else changed hands, and a failed call changes nothing.
  Minting never takes the number of blocks past the budget.\<close>

theorem acquire_block_exact:
  assumes inv: "pool_inv p" and room: "next_block_id p < u64_max"
  shows "case acquire_block p l of
      (Inl e, p') \<Rightarrow> p' = p \<and> (l \<ge> num_layers (layout p)
        \<or> free_lists p ! l = [] \<and> (\<exists>m. block_budget p = Some m \<and> m \<le> allocated_block_count p))
    | (Inr b, p') \<Rightarrow> l < num_layers (layout p) \<and> pool_inv p' \<and> pool_refcount p b = 0
        \<and> pool_refcount p' = (pool_refcount p)(b := 1) \<and> pool_layer_of p' b = Some l
        \<and> (free_lists p ! l = [] \<longrightarrow> (\<forall>m. block_budget p = Some m \<longrightarrow> allocated_block_count p' \<le> m))
        \<and> (free_lists p ! l \<noteq> [] \<longrightarrow> allocated_block_count p' = allocated_block_count p)"
proof (cases "acquire_block p l")
  case (Pair r p')
  show ?thesis
  proof (cases r)
    case (Inl e)
    then have "\<nexists>b q. acquire_block p l = (Inr b, q)" using Pair by simp
    then have "l \<ge> num_layers (layout p)
        \<or> free_lists p ! l = [] \<and> (\<exists>m. block_budget p = Some m \<and> m \<le> allocated_block_count p)"
      using acquire_block_Inr_iff [OF inv, of l] by (auto simp: not_less)
    then show ?thesis using acquire_block_Inl [OF inv] Pair Inl by auto
  next
    case (Inr b)
    then have acq: "acquire_block p l = (Inr b, p')" using Pair by simp
    note l = acquire_block_layer [OF acq]
    have "free_lists p ! l = [] \<longrightarrow> (\<forall>m. block_budget p = Some m \<longrightarrow> allocated_block_count p' \<le> m)"
      using acquire_block_mint [OF acq] fresh_block_unregistered [OF inv]
      by (auto simp: allocated_block_count_def hm_length_insert_absent)
    moreover have "free_lists p ! l \<noteq> [] \<longrightarrow> allocated_block_count p' = allocated_block_count p"
      using acquire_block_reuse [OF inv l] acq by (auto simp: allocated_block_count_def)
    ultimately show ?thesis
      using acq l acquire_block_inv [OF inv room acq] acquire_block_refcount [OF inv acq] by simp
  qed
qed

theorem acquire_block_exact_witness:
  "\<exists>b p'. acquire_block demo_pool 1 = (Inr b, p') \<and> pool_inv p' \<and> pool_refcount p' b = 1"
proof -
  have inv: "pool_inv demo_pool" using demo_owned(1) by (simp add: ref_owned_def)
  have run: "\<exists>b p'. acquire_block demo_pool 1 = (Inr b, p')" by (simp add: demo_eval)
  have room: "next_block_id demo_pool < u64_max" by (simp add: demo_eval)
  from acquire_block_exact [OF inv room, of 1] run show ?thesis by auto
qed

text \<open>The admission figure overstates what can be acquired. Free lists are per layer, so a block freed in
  one layer cannot serve another: with the budget spent on registered blocks, \<open>acquire_block\<close> fails for
  a layer without freed blocks however large \<open>free_block_budget\<close> is. Its documentation says that an
  acquisition succeeds whenever fewer blocks than the budget are live.\<close>

lemma free_budget_not_acquirable:
  assumes "l < num_layers (layout p)" "free_lists p ! l = []" "block_budget p = Some m" "m \<le> allocated_block_count p"
  shows "acquire_block p l = (Inl (BudgetExhausted (allocated_block_count p) m), p)
    \<and> free_block_budget p = Some (m - live_block_count p)"
  using assms by (simp add: acquire_block_def validate_layer_def allocated_block_count_def free_block_budget_def)

text \<open>The witness frees the only budgeted block of layer 0 and then asks for one in layer 1.\<close>

definition demo_freed :: "nat paged_block_pool" where
  "demo_freed = snd (release_block (snd (acquire_block (set_block_budget demo_pool (Some 1)) 0)) 0)"

lemma free_budget_not_acquirable_demo:
  "acquire_block demo_freed 1 = (Inl (BudgetExhausted 1 1), demo_freed) \<and> free_block_budget demo_freed = Some 1"
proof -
  have e: "demo_freed = demo_pool\<lparr>block_budget := Some 1, next_block_id := 1,
      blocks := [(0, \<lparr>layer_idx = 0, refcount = 0\<rparr>)], free_lists := [[0], []]\<rparr>"
    by (simp add: demo_freed_def demo_eval set_block_budget_def free_row_of_def sidecars_forget_def)
  have "allocated_block_count demo_freed = 1" "live_block_count demo_freed = 0"
    by (simp_all add: e allocated_block_count_def live_block_count_def is_in_use_def)
  moreover have "1 < num_layers (layout demo_freed)" "free_lists demo_freed ! 1 = []" "block_budget demo_freed = Some 1"
    by (simp_all add: e demo_eval)
  ultimately show ?thesis using free_budget_not_acquirable [of 1 demo_freed 1] by simp
qed

section \<open>Trimming, releasing and restoring\<close>





text \<open>C13: \<open>restore_sequence\<close> on every branch. The blocks it registered form a prefix of the table, each of
  them was unreferenced before and has one reference now, and nobody else's counter changed; on success
  the prefix is the whole table. A failed restore leaves the prefix referenced: the caller has no handle
  to give it back.\<close>

theorem restore_sequence_exact:
  assumes own: "pool_owned p M" and ids: "\<forall>b \<in># seq_refs st. b < u64_max"
    and res: "restore_sequence p st = (r, p')"
  shows "\<exists>ds rest. concat (map block_ids (layers st)) = ds @ rest \<and> distinct ds \<and> (\<forall>b \<in> set ds. b \<notin># M)
    \<and> pool_owned p' (M + mset ds) \<and> (r = Inr () \<longrightarrow> rest = [])"
proof -
  from restore_sequence_owned [OF assms] obtain ds where
    ds: "restored_prefix p M (concat (map block_ids (layers st))) ds p'" "r = Inr () \<longrightarrow> mset ds = seq_refs st" by blast
  then obtain rest where split: "concat (map block_ids (layers st)) = ds @ rest" by (auto simp: restored_prefix_def)
  have "r = Inr () \<longrightarrow> rest = []"
  proof
    assume "r = Inr ()"
    then have "mset ds = mset (ds @ rest)" using ds(2) split by (simp add: seq_refs_concat)
    then show "rest = []" by simp
  qed
  with ds(1) split show ?thesis by (auto simp: restored_prefix_def)
qed

definition demo_restored :: paged_sequence_state where
  "demo_restored = \<lparr>seq_block_size = 4, layers = [\<lparr>block_ids = [7], len = 4, logical_start = 0\<rparr>,
     \<lparr>block_ids = [7], len = 4, logical_start = 0\<rparr>]\<rparr>"

text \<open>The witness restores a table that lists block 7 for both layers: the second layer is refused, and
  block 7 stays referenced.\<close>

theorem restore_sequence_exact_witness:
  "\<exists>e p'. restore_sequence demo_pool demo_restored = (Inl e, p') \<and> pool_refcount p' 7 = 1 \<and> pool_inv p'"
proof -
  obtain r p' where run: "restore_sequence demo_pool demo_restored = (r, p')"
    by (cases "restore_sequence demo_pool demo_restored")
  have res: "\<exists>e. r = Inl e" "pool_refcount p' 7 = 1"
    using run by (auto simp: restore_sequence_def demo_restored_def demo_eval restore_block_def sat_inc_def pool_refcount_def)
  have ids: "\<forall>b \<in># seq_refs demo_restored. b < u64_max" by (simp add: seq_refs_concat demo_restored_def u64_max_def)
  have own: "pool_owned demo_pool {#}" using demo_owned(1) by (simp add: demo_seq_def seq_refs_new)
  from restore_sequence_exact [OF own ids run] have "pool_inv p'" by (auto simp: ref_owned_def)
  with run res show ?thesis by auto
qed

text \<open>Restoring the block id \<open>u64::MAX\<close> breaks the allocator: the id cursor saturates on this id, so the
  next minted block is the restored one, which is still referenced. Two owners then share a block
  whose counter is 1.\<close>

lemma restored_max_id_is_minted_again:
  assumes inv: "pool_inv p" and l: "l < num_layers (layout p)" and new: "hm_get (blocks p) u64_max = None"
    and e: "free_lists p ! l = []" "block_budget p = None"
  shows "\<exists>p1 p2. restore_block p u64_max l = (Inr (), p1) \<and> pool_refcount p1 u64_max = 1
    \<and> acquire_block p1 l = (Inr u64_max, p2) \<and> pool_refcount p2 u64_max = 1"
proof -
  have "next_block_id p \<le> u64_max" using inv by (simp add: pool_inv_def blocks_ok_def)
  then show ?thesis
    using l new e
    by (simp add: restore_block_def validate_layer_def sat_inc_def acquire_block_def pool_refcount_def hm_simps
        block_record_new_def max_def Let_def)
qed

lemma restored_max_id_is_minted_again_demo:
  "\<exists>p1 p2. restore_block demo_pool u64_max 0 = (Inr (), p1) \<and> pool_refcount p1 u64_max = 1
     \<and> acquire_block p1 0 = (Inr u64_max, p2)"
proof -
  have "pool_inv demo_pool" using demo_owned(1) by (simp add: ref_owned_def)
  moreover have "0 < num_layers (layout demo_pool)" "hm_get (blocks demo_pool) u64_max = None"
    "free_lists demo_pool ! 0 = []" "block_budget demo_pool = None" by (simp_all add: demo_eval)
  ultimately show ?thesis using restored_max_id_is_minted_again [of demo_pool 0] by blast
qed

end
