(* ===== verification/Radix_Trie.thy ===== *)
theory Radix_Trie
  imports Mlxcel_Prelude
begin

text \<open>
  The path-compressed radix trie of the prompt cache
  (\<open>src/src/server/prompt_cache/trie.rs\<close>). Tokens are integers, a digest is any type with equality.

  The source walks the tree with raw pointers, records the path and repairs \<open>subtree_count\<close> bottom-up; here
  the walk is the recursion and the repair happens on its way back, at the same nodes and in the same
  order. \<open>below\<close> is the abstraction: the stored records with the token sequences they are filed under.
\<close>

section \<open>Data and operations\<close>

record 'd digest_and_len =
  digest :: 'd
  token_len :: nat

datatype 'd trie_node =
  TrieNode (edge: "int list") (entries: "'d digest_and_len list") (subtree_count: nat)
    (children: "(int \<times> 'd trie_node) list")

lemma child_size [termination_simp]:
  "(k, c) \<in> set ch \<Longrightarrow> size c < Suc (a + size_list (\<lambda>x. Suc (size (snd x))) ch)"
  by (induction ch) auto

lemma hm_child_size [termination_simp]:
  "hm_get ch k = Some c \<Longrightarrow> size c < Suc (a + size_list (\<lambda>x. Suc (size (snd x))) ch)"
  using child_size map_of_SomeD by metis

fun common_prefix_len :: "int list \<Rightarrow> int list \<Rightarrow> nat" where
  "common_prefix_len (x # xs) (y # ys) = (if x = y then Suc (common_prefix_len xs ys) else 0)"
| "common_prefix_len _ _ = 0"

definition recompute_subtree_count :: "'d trie_node \<Rightarrow> nat" where
  "recompute_subtree_count t = length (entries t) + sum_list (map (\<lambda>(_, c). subtree_count c) (children t))"

definition recount :: "'d trie_node \<Rightarrow> 'd trie_node" where
  "recount t = TrieNode (edge t) (entries t) (recompute_subtree_count t) (children t)"

text \<open>Replace the record with the same digest in place, or push.\<close>

fun upsert :: "'d digest_and_len \<Rightarrow> 'd digest_and_len list \<Rightarrow> 'd digest_and_len list" where
  "upsert r [] = [r]"
| "upsert r (x # xs) = (if digest x = digest r then r # xs else x # upsert r xs)"

text \<open>The intermediate node for an edge that diverges after \<open>common\<close> tokens.\<close>

definition split_child :: "'d trie_node \<Rightarrow> int list \<Rightarrow> nat \<Rightarrow> 'd digest_and_len \<Rightarrow> 'd trie_node" where
  "split_child c toks common r =
     (let shared = take common (edge c); old_remainder = drop common (edge c);
          old_child = TrieNode old_remainder (entries c) (subtree_count c) (children c);
          kept = hm_insert (hd old_remainder) old_child []
      in recount
           (if length toks = common then TrieNode shared [r] 0 kept
            else let new_remainder = drop common toks
              in TrieNode shared [] 0 (hm_insert (hd new_remainder) (TrieNode new_remainder [r] 1 []) kept)))"

fun insert_into :: "'d trie_node \<Rightarrow> int list \<Rightarrow> 'd digest_and_len \<Rightarrow> 'd trie_node" where
  "insert_into (TrieNode e es n ch) toks r =
     (if toks = [] then recount (TrieNode e (upsert r es) n ch)
      else case hm_get ch (hd toks) of
        None \<Rightarrow> recount (TrieNode e es n (hm_insert (hd toks) (TrieNode toks [r] 1 []) ch))
      | Some c \<Rightarrow>
          let common = common_prefix_len (edge c) toks in
          if common = length (edge c)
          then recount (TrieNode e es n (hm_insert (hd toks) (insert_into c (drop common toks) r) ch))
          else recount (TrieNode e es n (hm_insert (hd toks) (split_child c toks common r) (hm_remove (hd toks) ch))))"

definition merge_only_child_if_empty :: "'d trie_node \<Rightarrow> 'd trie_node" where
  "merge_only_child_if_empty t =
     (if entries t \<noteq> [] \<or> length (children t) \<noteq> 1 then t
      else let c = snd (hd (children t))
        in recount (TrieNode (edge t @ edge c) (entries c) (subtree_count t) (children c)))"

text \<open>\<open>root\<close> tells whether the node is the root, which is never merged. A failed removal changes nothing.\<close>

fun remove_from :: "bool \<Rightarrow> 'd trie_node \<Rightarrow> int list \<Rightarrow> 'd \<Rightarrow> bool \<times> 'd trie_node" where
  "remove_from root (TrieNode e es n ch) toks d =
     (if toks = [] then
        let es' = filter (\<lambda>r. digest r \<noteq> d) es
        in if length es' = length es then (False, TrieNode e es n ch) else (True, recount (TrieNode e es' n ch))
      else case hm_get ch (hd toks) of
        None \<Rightarrow> (False, TrieNode e es n ch)
      | Some c \<Rightarrow>
          if length toks < length (edge c) \<or> take (length (edge c)) toks \<noteq> edge c then (False, TrieNode e es n ch)
          else case remove_from False c (drop (length (edge c)) toks) d of
            (False, _) \<Rightarrow> (False, TrieNode e es n ch)
          | (True, c') \<Rightarrow>
              let ch' = (if entries c' = [] \<and> children c' = [] then hm_remove (hd toks) ch
                         else hm_insert (hd toks) c' ch);
                  t = TrieNode e es n ch'
              in (True, recount (if root then t else merge_only_child_if_empty t)))"

record 'd trie_match =
  subtree :: "'d trie_node"
  consumed_from_subtree_edge :: nat
  depth :: nat

fun walk_from :: "'d trie_node \<Rightarrow> int list \<Rightarrow> nat \<Rightarrow> 'd trie_match option" where
  "walk_from (TrieNode e es n ch) toks consumed =
     (let stop = (if consumed = 0 then None
                  else Some \<lparr>subtree = TrieNode e es n ch, consumed_from_subtree_edge = 0, depth = consumed\<rparr>)
      in if toks = [] then stop
         else case hm_get ch (hd toks) of
           None \<Rightarrow> stop
         | Some c \<Rightarrow>
             let matched = common_prefix_len (edge c) toks in
             if matched = 0 then stop
             else if matched < length (edge c)
             then Some \<lparr>subtree = c, consumed_from_subtree_edge = matched, depth = consumed + matched\<rparr>
             else walk_from c (drop matched toks) (consumed + matched))"

definition walk_longest :: "'d trie_node \<Rightarrow> int list \<Rightarrow> 'd trie_match option" where
  "walk_longest t toks = (if subtree_count t = 0 then None else walk_from t toks 0)"

text \<open>The iterative walk of \<open>for_each_candidate\<close>, with its explicit stack.\<close>

function dfs :: "'d trie_node list \<Rightarrow> 'd digest_and_len list" where
  "dfs [] = []"
| "dfs (t # stack) = entries t @ dfs (rev (map snd (children t)) @ stack)"
  by pat_completeness auto
termination
proof (relation "measure (\<lambda>ts. sum_list (map size ts))", goal_cases)
  case (2 t stack)
  have "sum_list (map size (map snd ch)) \<le> size_list (size_prod (\<lambda>_. 0) size) ch" for ch :: "(int \<times> 'a trie_node) list"
    by (induction ch) auto
  then show ?case by (cases t) (simp add: rev_map [symmetric] sum_list_rev le_imp_less_Suc trans_le_add2)
qed simp

definition trie_new :: "'d trie_node" where
  "trie_new = TrieNode [] [] 0 []"

definition trie_len :: "'d trie_node \<Rightarrow> nat" where
  "trie_len t = subtree_count t"

definition trie_insert :: "'d trie_node \<Rightarrow> int list \<Rightarrow> 'd \<Rightarrow> 'd trie_node" where
  "trie_insert t toks d = insert_into t toks \<lparr>digest = d, token_len = length toks\<rparr>"

definition trie_remove :: "'d trie_node \<Rightarrow> int list \<Rightarrow> 'd \<Rightarrow> bool \<times> 'd trie_node" where
  "trie_remove t toks d = remove_from True t toks d"

definition find_longest_prefix :: "'d trie_node \<Rightarrow> int list \<Rightarrow> nat \<Rightarrow> 'd trie_match option" where
  "find_longest_prefix t toks min_len =
     (case walk_longest t toks of None \<Rightarrow> None | Some m \<Rightarrow> if depth m < min_len then None else Some m)"

definition candidates :: "'d trie_match \<Rightarrow> 'd digest_and_len list" where
  "candidates m = dfs [subtree m]"

section \<open>Abstraction and invariant\<close>

text \<open>The stored records, each with the tokens that lead from the end of the node's edge to it.\<close>

fun below :: "'d trie_node \<Rightarrow> (int list \<times> 'd digest_and_len) list" where
  "below (TrieNode e es n ch) =
     map (Pair []) es @ concat (map (\<lambda>(k, c). map (\<lambda>(q, r). (edge c @ q, r)) (below c)) ch)"

fun trie_ok :: "'d trie_node \<Rightarrow> bool" where
  "trie_ok (TrieNode e es n ch) \<longleftrightarrow>
     distinct (map digest es) \<and> hm_wf ch \<and> n = length es + sum_list (map (\<lambda>(_, c). subtree_count c) ch)
     \<and> (\<forall>(k, c) \<in> set ch. edge c \<noteq> [] \<and> hd (edge c) = k \<and> 0 < subtree_count c \<and> trie_ok c)"

section \<open>Basic facts\<close>

lemma common_prefix_len_split:
  obtains p a b where "xs = p @ a" "ys = p @ b" "length p = common_prefix_len xs ys"
    "a = [] \<or> b = [] \<or> hd a \<noteq> hd b"
proof (induction xs ys arbitrary: thesis rule: common_prefix_len.induct)
  case (1 x xs y ys)
  show ?case
  proof (cases "x = y")
    case True
    with "1.IH" obtain p a b where "xs = p @ a" "ys = p @ b" "length p = common_prefix_len xs ys"
      "a = [] \<or> b = [] \<or> hd a \<noteq> hd b" by blast
    with True show ?thesis by (intro "1.prems" [of "x # p" a b]) auto
  next
    case False
    then show ?thesis by (intro "1.prems" [of "[]" "x # xs" "y # ys"]) auto
  qed
next
  case "2_1"
  then show ?case by (metis append_Nil common_prefix_len.simps(2) list.size(3))
next
  case "2_2"
  then show ?case by (metis append_Nil common_prefix_len.simps(3) list.size(3))
qed

lemma common_prefix_len_append [simp]:
  "common_prefix_len (p @ xs) (p @ ys) = length p + common_prefix_len xs ys"
  by (induction p) auto

lemma common_prefix_len_self [simp]: "common_prefix_len p (p @ ys) = length p"
  by (induction p) auto

lemma common_prefix_len_Nil [simp]: "common_prefix_len xs [] = 0" "common_prefix_len [] ys = 0"
  by (cases xs; simp)+

lemma common_prefix_len_commute: "common_prefix_len xs ys = common_prefix_len ys xs"
  by (induction xs ys rule: common_prefix_len.induct) auto

lemma common_prefix_len_hd: "common_prefix_len xs ys = 0 \<longleftrightarrow> xs = [] \<or> ys = [] \<or> hd xs \<noteq> hd ys"
  by (cases xs; cases ys) auto

lemma recount_sel [simp]:
  "edge (recount t) = edge t" "entries (recount t) = entries t" "children (recount t) = children t"
  by (simp_all add: recount_def)

lemma below_recount [simp]: "below (recount t) = below t"
  by (cases t) (simp add: recount_def)

lemma below_count_irrelevant: "below (TrieNode e es n ch) = below (TrieNode e' es n' ch)"
  by simp

lemma trie_ok_count: "trie_ok t \<Longrightarrow> subtree_count t = length (below t)"
proof (induction t rule: trie_ok.induct)
  case (1 e es n ch)
  have "map (\<lambda>(_, c). subtree_count c) ch = map (\<lambda>(k, c). length (below c)) ch"
    using 1 by (auto intro!: map_cong)
  from arg_cong [OF this, of sum_list]
  have "n = length es + sum_list (map (\<lambda>(k, c). length (below c)) ch)" using "1.prems" by simp
  then show ?case by (simp add: length_concat o_def case_prod_unfold)
qed

lemma below_Nil_iff: "trie_ok (TrieNode e es n ch) \<Longrightarrow> ([], r) \<in> set (below (TrieNode e es n ch)) \<longleftrightarrow> r \<in> set es"
  by auto

text \<open>A record filed under \<open>x # xs\<close> lives in the child with key \<open>x\<close>.\<close>

lemma below_Cons_iff:
  assumes "trie_ok (TrieNode e es n ch)"
  shows "(x # xs, r) \<in> set (below (TrieNode e es n ch)) \<longleftrightarrow>
    (\<exists>c q. hm_get ch x = Some c \<and> x # xs = edge c @ q \<and> (q, r) \<in> set (below c))"
proof
  assume "(x # xs, r) \<in> set (below (TrieNode e es n ch))"
  then obtain k c q where c: "(k, c) \<in> set ch" "(q, r) \<in> set (below c)" "x # xs = edge c @ q" by auto
  then have "edge c \<noteq> []" "hd (edge c) = k" using assms by auto
  then have "k = x" using c(3) by (metis hd_append2 list.sel(1))
  then show "\<exists>c q. hm_get ch x = Some c \<and> x # xs = edge c @ q \<and> (q, r) \<in> set (below c)"
    using assms c by (auto simp: map_of_eq_Some_iff)
next
  assume "\<exists>c q. hm_get ch x = Some c \<and> x # xs = edge c @ q \<and> (q, r) \<in> set (below c)"
  then obtain c q where c: "hm_get ch x = Some c" "x # xs = edge c @ q" "(q, r) \<in> set (below c)" by blast
  show "(x # xs, r) \<in> set (below (TrieNode e es n ch))"
    unfolding c(2) using map_of_SomeD [OF c(1)] c(3) by force
qed

lemma trie_ok_child:
  assumes "trie_ok (TrieNode e es n ch)" "hm_get ch k = Some c"
  shows "trie_ok c" "edge c \<noteq> []" "hd (edge c) = k" "0 < subtree_count c"
  using assms map_of_SomeD [OF assms(2)] by auto

lemma child_below: "trie_ok (TrieNode e es n ch) \<Longrightarrow> hm_get ch k = Some c \<Longrightarrow> below c \<noteq> []"
  using trie_ok_child trie_ok_count by fastforce

lemma digest_upsert: "digest ` set (upsert r es) = insert (digest r) (digest ` set es)"
  by (induction es) auto

lemma distinct_upsert: "distinct (map digest es) \<Longrightarrow> distinct (map digest (upsert r es))"
  by (induction es) (auto simp: digest_upsert image_iff)

lemma set_upsert:
  "distinct (map digest es) \<Longrightarrow> set (upsert r es) = insert r {x \<in> set es. digest x \<noteq> digest r}"
  by (induction es) (auto simp: image_iff)

lemma length_upsert_pos: "0 < length (upsert r es)"
  by (cases es) auto

lemma trie_ok_recount:
  assumes "distinct (map digest es)" "hm_wf ch"
    "\<forall>(k, c) \<in> set ch. edge c \<noteq> [] \<and> hd (edge c) = k \<and> 0 < subtree_count c \<and> trie_ok c"
  shows "trie_ok (recount (TrieNode e es n ch))"
  using assms by (simp add: recount_def recompute_subtree_count_def)

section \<open>Insertion\<close>

abbreviation under :: "int list \<Rightarrow> (int list \<times> 'd digest_and_len) list \<Rightarrow> (int list \<times> 'd digest_and_len) set" where
  "under e xs \<equiv> (\<lambda>(q, x). (e @ q, x)) ` set xs"

lemma split_child_ok:
  fixes c :: "'d trie_node" and r :: "'d digest_and_len"
  assumes ok: "trie_ok c" "edge c \<noteq> []" and toks: "toks \<noteq> []" "hd (edge c) = hd toks"
    and common: "common = common_prefix_len (edge c) toks" "common \<noteq> length (edge c)" and cnt: "0 < subtree_count c"
  defines "s \<equiv> split_child c toks common r"
  shows "trie_ok s \<and> edge s = take common (edge c) \<and> 0 < common \<and> 0 < subtree_count s
    \<and> under (edge s) (below s) = insert (toks, r) (under (edge c) (below c))"
proof -
  obtain p a b where sp: "edge c = p @ a" "toks = p @ b" "length p = common" "a = [] \<or> b = [] \<or> hd a \<noteq> hd b"
    using common_prefix_len_split [of "edge c" toks] common(1) by metis
  have a: "a \<noteq> []" using common(2) sp(1,3) by auto
  have pos: "0 < common" using ok(2) toks common(1) common_prefix_len_hd [of "edge c" toks] by auto
  obtain e es n ch where c: "c = TrieNode e es n ch" by (cases c)
  have e: "e = p @ a" using sp(1) c by simp
  let ?old = "TrieNode a es n ch"
  have old: "trie_ok ?old" "below ?old = below c" "0 < n" using ok(1) cnt c by auto
  show ?thesis
  proof (cases "b = []")
    case True
    have s: "s = recount (TrieNode p [r] 0 [(hd a, ?old)])"
      using True sp c by (simp add: s_def split_child_def Let_def)
    have "set (below s) = insert ([], r) (under a (below c))"
      unfolding s using old(2) by (simp del: below.simps(1) add: below.simps(1) [of p])
    then have "under (edge s) (below s) = insert (toks, r) (under (edge c) (below c))"
      using True sp s by (auto simp: image_iff)
    moreover have "trie_ok s" "0 < subtree_count s"
      unfolding s using old a by (simp_all add: recount_def recompute_subtree_count_def)
    ultimately show ?thesis using s sp pos by simp
  next
    case False
    then have ne: "hd a \<noteq> hd b" using sp(4) a by simp
    have s: "s = recount (TrieNode p [] 0 [(hd a, ?old), (hd b, TrieNode b [r] 1 [])])"
      using False sp c ne by (simp add: s_def split_child_def Let_def)
    have "set (below s) = insert (b, r) (under a (below c))"
      unfolding s using old(2) by (simp del: below.simps(1) add: below.simps(1) [of p] below.simps(1) [of b])
    then have "under (edge s) (below s) = insert (toks, r) (under (edge c) (below c))"
      using sp s by (auto simp: image_iff)
    moreover have "trie_ok s" "0 < subtree_count s"
      unfolding s using old a False ne by (simp_all add: recount_def recompute_subtree_count_def)
    ultimately show ?thesis using s sp pos by simp
  qed
qed

text \<open>The records of a node outside the child with key \<open>k\<close>.\<close>

definition others :: "'d digest_and_len list \<Rightarrow> (int \<times> 'd trie_node) list \<Rightarrow> int \<Rightarrow> (int list \<times> 'd digest_and_len) set" where
  "others es ch k = Pair [] ` set es \<union> (\<Union>(k', c) \<in> set (hm_remove k ch). under (edge c) (below c))"

lemma set_below_node:
  "set (below (TrieNode e es n ch)) = Pair [] ` set es \<union> (\<Union>(k, c) \<in> set ch. under (edge c) (below c))"
  by (simp add: case_prod_unfold)

lemma set_below_insert:
  "hm_wf ch \<Longrightarrow> set (below (TrieNode e es n (hm_insert k c ch))) = others es ch k \<union> under (edge c) (below c)"
  unfolding set_below_node others_def by (auto simp: hm_set_insert)

lemma set_below_get:
  assumes "hm_wf ch" "hm_get ch k = Some c"
  shows "set (below (TrieNode e es n ch)) = others es ch k \<union> under (edge c) (below c)"
proof -
  have "hm_insert k c ch = ch" by (rule update_triv [OF assms(2)])
  then show ?thesis using set_below_insert [OF assms(1), of e es n k c] by (simp del: below.simps)
qed

lemma set_below_absent: "hm_get ch k = None \<Longrightarrow> set (below (TrieNode e es n ch)) = others es ch k"
  unfolding set_below_node others_def by (simp add: hm_remove_absent)

lemma set_below_remove: "set (below (TrieNode e es n (hm_remove k ch))) = others es ch k"
  unfolding set_below_node others_def by simp

lemma others_hd:
  assumes "trie_ok (TrieNode e es n ch)" "(q, x) \<in> others es ch k" "q \<noteq> []"
  shows "hd q \<noteq> k"
  using assms by (auto simp: others_def hm_set_remove hd_append)

lemma others_hm_remove [simp]: "others es (hm_remove k ch) k = others es ch k"
  by (simp add: others_def delete_idem)

lemma children_insert_ok:
  assumes "trie_ok (TrieNode e es n ch)" "edge c \<noteq> []" "hd (edge c) = k" "0 < subtree_count c" "trie_ok c"
  shows "\<forall>(k', c') \<in> set (hm_insert k c ch). edge c' \<noteq> [] \<and> hd (edge c') = k' \<and> 0 < subtree_count c' \<and> trie_ok c'"
  using assms by (auto simp: hm_set_insert hm_set_remove)

lemma recount_pos: "below t \<noteq> [] \<Longrightarrow> trie_ok (recount t) \<Longrightarrow> 0 < subtree_count (recount t)"
  by (simp add: trie_ok_count)

definition inserted :: "(int list \<times> 'd digest_and_len) set \<Rightarrow> int list \<Rightarrow> 'd digest_and_len \<Rightarrow> (int list \<times> 'd digest_and_len) set" where
  "inserted S toks r = insert (toks, r) {(q, x) \<in> S. \<not> (q = toks \<and> digest x = digest r)}"

lemma inserted_others:
  assumes "trie_ok (TrieNode e es n ch)" "toks \<noteq> []"
  shows "inserted (others es ch (hd toks) \<union> S) toks r = others es ch (hd toks) \<union> inserted S toks r"
  using others_hd [OF assms(1), of toks _ "hd toks"] assms(2) by (auto simp: inserted_def)

lemma inserted_under: "inserted (under e xs) (e @ q) r = (\<lambda>(p, x). (e @ p, x)) ` inserted (set xs) q r"
  by (force simp: inserted_def)

lemma inserted_absent: "(\<And>x. (toks, x) \<notin> S) \<Longrightarrow> inserted S toks r = insert (toks, r) S"
  by (auto simp: inserted_def)

lemma insert_into_ok:
  assumes "trie_ok t"
  shows "trie_ok (insert_into t toks r) \<and> edge (insert_into t toks r) = edge t
    \<and> set (below (insert_into t toks r)) = inserted (set (below t)) toks r"
  using assms
proof (induction t toks r rule: insert_into.induct)
  case (1 e es n ch toks r)
  let ?t = "TrieNode e es n ch"
  have wf: "hm_wf ch" "distinct (map digest es)" using "1.prems" by auto
  show ?case
  proof (cases "toks = []")
    case True
    have "trie_ok (recount (TrieNode e (upsert r es) n ch))"
      using "1.prems" distinct_upsert [OF wf(2)] by (intro trie_ok_recount) auto
    moreover have "set (below (TrieNode e (upsert r es) n ch)) = inserted (set (below ?t)) [] r"
    proof -
      define K where "K = (\<Union>(k, c) \<in> set ch. under (edge c) (below c))"
      have "q \<noteq> []" if "(q, x) \<in> K" for q x using that "1.prems" by (auto simp: K_def)
      then show ?thesis unfolding set_below_node K_def [symmetric] set_upsert [OF wf(2)]
        by (auto simp: inserted_def)
    qed
    ultimately show ?thesis using True by simp
  next
    case ne: False
    let ?k = "hd toks"
    show ?thesis
    proof (cases "hm_get ch ?k")
      case None
      let ?leaf = "TrieNode toks [r] 1 []"
      have "trie_ok (recount (TrieNode e es n (hm_insert ?k ?leaf ch)))"
        using "1.prems" ne wf by (intro trie_ok_recount children_insert_ok [OF "1.prems"]) auto
      moreover have "set (below (TrieNode e es n (hm_insert ?k ?leaf ch))) = inserted (set (below ?t)) toks r"
        using inserted_others [OF "1.prems" ne, of "{}"]
        by (simp add: set_below_insert [OF wf(1)] set_below_absent [OF None] inserted_def del: below.simps)
           (simp add: Un_commute)
      ultimately show ?thesis using ne None by (simp del: below.simps)
    next
      case (Some c)
      note ck = trie_ok_child [OF "1.prems" Some]
      let ?common = "common_prefix_len (edge c) toks"
      note B = set_below_get [OF wf(1) Some, of e es n]
      show ?thesis
      proof (cases "?common = length (edge c)")
        case True
        obtain q where q: "toks = edge c @ q"
          using common_prefix_len_split [of "edge c" toks] True by (metis append_Nil2 append_eq_append_conv)
        let ?c = "insert_into c (drop ?common toks) r"
        have dr: "drop ?common toks = q" using q True by simp
        from "1.IH" [OF ne Some refl True ck(1)] have ih: "trie_ok ?c" "edge ?c = edge c"
          "set (below ?c) = inserted (set (below c)) q r" unfolding dr by auto
        have "(q, r) \<in> set (below ?c)" using ih(3) by (simp add: inserted_def)
        then have pos: "0 < subtree_count ?c" using trie_ok_count [OF ih(1)] by (cases "below ?c") auto
        have "trie_ok (recount (TrieNode e es n (hm_insert ?k ?c ch)))"
          using ih pos ck wf by (intro trie_ok_recount children_insert_ok [OF "1.prems"]) auto
        moreover have "set (below (TrieNode e es n (hm_insert ?k ?c ch))) = inserted (set (below ?t)) toks r"
          unfolding B set_below_insert [OF wf(1)] inserted_others [OF "1.prems" ne]
          using inserted_under [of "edge c" "below c" q r] ih(2,3) q by simp
        ultimately show ?thesis using ne Some True by (simp add: Let_def del: below.simps)
      next
        case False
        let ?c = "split_child c toks ?common r"
        have hd: "hd (edge c) = hd toks" using ck(3) by simp
        note split = split_child_ok [OF ck(1,2) ne hd refl False ck(4), of r]
        then have sp: "trie_ok ?c" "edge ?c = take ?common (edge c)" "0 < ?common" "0 < subtree_count ?c" by blast+
        from split have un: "under (edge ?c) (below ?c) = insert (toks, r) (under (edge c) (below c))" by blast
        have "(toks, x) \<notin> under (edge c) (below c)" for x
          using False common_prefix_len_append [of "edge c" "[]"] by auto
        note ins = inserted_absent [OF this]
        have wf': "hm_wf (hm_remove ?k ch)" using wf(1) by simp
        have tk: "edge ?c \<noteq> []" "hd (edge ?c) = ?k" using sp ck(2,3) by auto
        have "\<forall>(k', c') \<in> set (hm_insert ?k ?c (hm_remove ?k ch)).
            edge c' \<noteq> [] \<and> hd (edge c') = k' \<and> 0 < subtree_count c' \<and> trie_ok c'"
          using "1.prems" sp tk by (auto simp: hm_set_insert [OF wf'] hm_set_remove)
        then have "trie_ok (recount (TrieNode e es n (hm_insert ?k ?c (hm_remove ?k ch))))"
          using wf by (intro trie_ok_recount) auto
        moreover have "set (below (TrieNode e es n (hm_insert ?k ?c (hm_remove ?k ch)))) = inserted (set (below ?t)) toks r"
          unfolding B set_below_insert [OF wf'] inserted_others [OF "1.prems" ne] ins un others_hm_remove ..
        ultimately show ?thesis using ne Some False by (simp add: Let_def del: below.simps)
      qed
    qed
  qed
qed

section \<open>Removal\<close>

definition removed :: "(int list \<times> 'd digest_and_len) set \<Rightarrow> int list \<Rightarrow> 'd \<Rightarrow> (int list \<times> 'd digest_and_len) set" where
  "removed S toks d = {(q, x) \<in> S. \<not> (q = toks \<and> digest x = d)}"

definition stored_in :: "(int list \<times> 'd digest_and_len) set \<Rightarrow> int list \<Rightarrow> 'd \<Rightarrow> bool" where
  "stored_in S toks d \<longleftrightarrow> (\<exists>x. (toks, x) \<in> S \<and> digest x = d)"

lemma removed_absent: "\<not> stored_in S toks d \<Longrightarrow> removed S toks d = S"
  by (auto simp: removed_def stored_in_def)

lemma removed_others:
  assumes "trie_ok (TrieNode e es n ch)" "toks \<noteq> []"
  shows "removed (others es ch (hd toks) \<union> S) toks d = others es ch (hd toks) \<union> removed S toks d"
    "stored_in (others es ch (hd toks) \<union> S) toks d \<longleftrightarrow> stored_in S toks d"
  using others_hd [OF assms(1), of toks _ "hd toks"] assms(2) by (auto simp: removed_def stored_in_def)

lemma removed_under:
  "removed (under e xs) (e @ q) d = (\<lambda>(p, x). (e @ p, x)) ` removed (set xs) q d"
  "stored_in (under e xs) (e @ q) d \<longleftrightarrow> stored_in (set xs) q d"
  by (force simp: removed_def stored_in_def)+

lemma under_inject: "under e xs = under e ys \<longleftrightarrow> set xs = set ys"
  by (rule inj_image_eq_iff) (auto simp: inj_on_def)

lemma recount_ok: "trie_ok t \<Longrightarrow> recount t = t"
  by (cases t) (simp add: recount_def recompute_subtree_count_def)

lemma under_map: "under e (map (\<lambda>(q, x). (f @ q, x)) xs) = under (e @ f) xs"
  by (simp add: image_image case_prod_unfold)

lemma merge_ok:
  assumes "trie_ok (recount t)"
  defines "m \<equiv> merge_only_child_if_empty t"
  shows "trie_ok (recount m) \<and> (\<exists>s. edge m = edge t @ s) \<and> under (edge m) (below m) = under (edge t) (below t)"
proof (cases "entries t \<noteq> [] \<or> length (children t) \<noteq> 1")
  case True
  then have "m = t" by (simp add: m_def merge_only_child_if_empty_def)
  then show ?thesis using assms(1) by simp
next
  case False
  then obtain k c where kc: "children t = [(k, c)]" by (cases "children t") auto
  obtain e es n ch where t: "t = TrieNode e es n ch" by (cases t)
  obtain e' es' n' ch' where c: "c = TrieNode e' es' n' ch'" by (cases c)
  have m: "m = recount (TrieNode (e @ e') es' n ch')"
    using False kc t c by (simp add: m_def merge_only_child_if_empty_def)
  have "trie_ok c" using assms(1) kc t by (simp add: recount_def)
  then have "trie_ok m" unfolding m using c by (intro trie_ok_recount) auto
  moreover have "under (edge m) (below m) = under (edge t) (below t)"
  proof -
    have "below t = map (\<lambda>(q, x). (e' @ q, x)) (below c)" "below m = below c" "edge m = e @ e'"
      unfolding m using False kc t c by simp_all
    then show ?thesis using under_map [of e e' "below c"] t by (simp only: trie_node.sel)
  qed
  ultimately show ?thesis using t m by (simp add: recount_ok)
qed

lemma trie_ok_empty_iff: "trie_ok t \<Longrightarrow> subtree_count t = 0 \<longleftrightarrow> entries t = [] \<and> children t = []"
proof (cases t)
  case (TrieNode e es n ch)
  assume "trie_ok t"
  then show ?thesis using TrieNode by (cases ch) auto
qed

lemma below_retain:
  assumes "trie_ok (TrieNode e es n ch)"
  shows "set (below (TrieNode e' (filter (\<lambda>r. digest r \<noteq> d) es) n' ch)) = removed (set (below (TrieNode e es n ch))) [] d"
    "length (filter (\<lambda>r. digest r \<noteq> d) es) \<noteq> length es \<longleftrightarrow> stored_in (set (below (TrieNode e es n ch))) [] d"
proof -
  define K where "K = (\<Union>(k, c) \<in> set ch. under (edge c) (below c))"
  have K: "q \<noteq> []" if "(q, x) \<in> K" for q x using that assms by (auto simp: K_def)
  show "set (below (TrieNode e' (filter (\<lambda>r. digest r \<noteq> d) es) n' ch)) = removed (set (below (TrieNode e es n ch))) [] d"
    unfolding set_below_node K_def [symmetric] using K by (auto simp: removed_def)
  have "stored_in (set (below (TrieNode e es n ch))) [] d \<longleftrightarrow> (\<exists>x \<in> set es. digest x = d)"
    unfolding set_below_node K_def [symmetric] using K by (auto simp: stored_in_def)
  then show "length (filter (\<lambda>r. digest r \<noteq> d) es) \<noteq> length es \<longleftrightarrow> stored_in (set (below (TrieNode e es n ch))) [] d"
    by (metis (mono_tags, lifting) filter_True length_filter_less nat_neq_iff)
qed

lemma remove_from_ok:
  assumes "trie_ok t" "remove_from root t toks d = (b, t')"
  shows "trie_ok t' \<and> b = stored_in (set (below t)) toks d
    \<and> under (edge t') (below t') = (\<lambda>(p, x). (edge t @ p, x)) ` removed (set (below t)) toks d
    \<and> (\<exists>s. edge t' = edge t @ s) \<and> (root \<longrightarrow> edge t' = edge t)"
  using assms
proof (induction root t toks d arbitrary: b t' rule: remove_from.induct)
  case (1 root e es n ch toks d)
  let ?t = "TrieNode e es n ch"
  note ok = "1.prems"(1)
  have wf: "hm_wf ch" "distinct (map digest es)" using ok by auto
  have same: ?case if "b = False" "t' = ?t" "\<not> stored_in (set (below ?t)) toks d"
    using that ok removed_absent [OF that(3)] by (simp del: below.simps)
  show ?case
  proof (cases "toks = []")
    case True
    let ?es = "filter (\<lambda>r. digest r \<noteq> d) es"
    note ret = below_retain [OF ok, where d = d]
    show ?thesis
    proof (cases "length ?es = length es")
      case True
      then have bt: "b = False" "t' = ?t" using "1.prems"(2) \<open>toks = []\<close> by (auto simp: Let_def)
      have "\<not> stored_in (set (below ?t)) toks d" unfolding \<open>toks = []\<close> using ret(2) True by blast
      then show ?thesis by (rule same [OF bt])
    next
      case False
      then have t': "b" "t' = recount (TrieNode e ?es n ch)" using "1.prems"(2) \<open>toks = []\<close> by (auto simp: Let_def)
      have "trie_ok t'" unfolding t' using ok by (intro trie_ok_recount) (auto simp: distinct_map_filter)
      then show ?thesis using t' ret(1) [of e n] ret(2) False \<open>toks = []\<close> by (simp del: below.simps)
    qed
  next
    case ne: False
    let ?k = "hd toks"
    show ?thesis
    proof (cases "hm_get ch ?k")
      case None
      have "\<not> stored_in (set (below ?t)) toks d"
        using removed_others(2) [OF ok ne, of "{}"] by (simp add: set_below_absent [OF None] stored_in_def del: below.simps)
      moreover have "b = False" "t' = ?t" using "1.prems"(2) ne None by auto
      ultimately show ?thesis by (intro same)
    next
      case (Some c)
      note ck = trie_ok_child [OF ok Some]
      note B = set_below_get [OF wf(1) Some, of e es n]
      show ?thesis
      proof (cases "length toks < length (edge c) \<or> take (length (edge c)) toks \<noteq> edge c")
        case True
        then have "(toks, x) \<notin> under (edge c) (below c)" for x by auto
        then have "\<not> stored_in (under (edge c) (below c)) toks d" unfolding stored_in_def by blast
        then have "\<not> stored_in (set (below ?t)) toks d" unfolding B removed_others(2) [OF ok ne] .
        moreover have "b = False" "t' = ?t" using "1.prems"(2) ne Some True by auto
        ultimately show ?thesis by (intro same)
      next
        case False
        define q where "q = drop (length (edge c)) toks"
        have toks: "toks = edge c @ q" using False append_take_drop_id [of "length (edge c)" toks] by (simp add: q_def)
        obtain b' c' where rc: "remove_from False c q d = (b', c')" by fastforce
        note ih = "1.IH" [OF ne Some False ck(1), folded q_def, OF rc]
        have st: "stored_in (set (below ?t)) toks d \<longleftrightarrow> b'"
          unfolding B removed_others(2) [OF ok ne] using ih removed_under(2) [of "edge c" "below c" q d] toks by simp
        show ?thesis
        proof (cases b')
          case False
          then have "b = False" "t' = ?t" using "1.prems"(2) ne Some \<open>\<not> (_ \<or> _)\<close> rc
            by (auto simp: q_def [symmetric])
          then show ?thesis using False st by (intro same) blast+
        next
          case True
          define ch' where "ch' = (if entries c' = [] \<and> children c' = [] then hm_remove ?k ch else hm_insert ?k c' ch)"
          have run: "b" "t' = recount (if root then TrieNode e es n ch' else merge_only_child_if_empty (TrieNode e es n ch'))"
            using "1.prems"(2) ne Some \<open>\<not> (_ \<or> _)\<close> rc True by (auto simp: q_def [symmetric] ch'_def Let_def)
          have u: "under (edge c') (below c') = removed (under (edge c) (below c)) toks d"
            using ih removed_under(1) [of "edge c" "below c" q d] toks by simp
          have c': "trie_ok c'" "edge c' \<noteq> []" "hd (edge c') = ?k" using ih ck by auto
          have bel: "set (below (TrieNode e es n ch')) = removed (set (below ?t)) toks d"
          proof (cases "entries c' = [] \<and> children c' = []")
            case True
            then have "below c' = []" using trie_ok_empty_iff [OF c'(1)] trie_ok_count [OF c'(1)] by simp
            then show ?thesis unfolding B removed_others(1) [OF ok ne] u [symmetric] using True
              by (simp add: ch'_def set_below_remove del: below.simps)
          next
            case False
            then have "ch' = hm_insert ?k c' ch" unfolding ch'_def by (rule if_not_P)
            then show ?thesis unfolding B removed_others(1) [OF ok ne] u [symmetric]
              by (simp add: set_below_insert [OF wf(1)] del: below.simps)
          qed
          have kids: "\<forall>(k', x) \<in> set ch'. edge x \<noteq> [] \<and> hd (edge x) = k' \<and> 0 < subtree_count x \<and> trie_ok x"
          proof (cases "entries c' = [] \<and> children c' = []")
            case True
            then show ?thesis using ok by (auto simp: ch'_def hm_set_remove)
          next
            case False
            then have "0 < subtree_count c'" using trie_ok_empty_iff [OF c'(1)] by blast
            moreover have "ch' = hm_insert ?k c' ch" unfolding ch'_def using False by (rule if_not_P)
            ultimately show ?thesis using children_insert_ok [OF ok c'(2,3)] c'(1) by simp
          qed
          have "hm_wf ch'" using wf(1) by (simp add: ch'_def)
          then have "trie_ok (recount (TrieNode e es n ch'))" using wf(2) kids by (intro trie_ok_recount) auto
          note m = merge_ok [OF this] this
          have "under e (below (TrieNode e es n ch')) = (\<lambda>(p, x). (e @ p, x)) ` removed (set (below ?t)) toks d"
            unfolding bel ..
          then show ?thesis using run st True m by (cases root) (simp_all del: below.simps)
        qed
      qed
    qed
  qed
qed

section \<open>Lookup\<close>

lemma mset_dfs: "mset (dfs ts) = mset (concat (map (\<lambda>t. map snd (below t)) ts))"
proof (induction ts rule: dfs.induct)
  case (2 t stack)
  have "mset (concat (map f (rev xs))) = mset (concat (map f xs))"
    for f :: "'a trie_node \<Rightarrow> 'a digest_and_len list" and xs by (induction xs) auto
  moreover have "map snd (below t) = entries t @ concat (map (\<lambda>c. map snd (below c)) (map snd (children t)))"
    by (cases t) (simp add: map_concat o_def case_prod_unfold)
  ultimately show ?case using 2 by simp
qed simp

lemma set_candidates: "set (candidates m) = snd ` set (below (subtree m))"
  using arg_cong [OF mset_dfs [of "[subtree m]"], of set_mset] by (simp add: candidates_def)

text \<open>The reference: the longest common prefix over a set of stored sequences, and who attains it.\<close>

definition is_best :: "(int list \<times> 'd digest_and_len) set \<Rightarrow> int list \<Rightarrow> nat \<Rightarrow> bool" where
  "is_best S toks M \<longleftrightarrow> (\<exists>(q, x) \<in> S. common_prefix_len q toks = M) \<and> (\<forall>(q, x) \<in> S. common_prefix_len q toks \<le> M)"

definition attaining :: "(int list \<times> 'd digest_and_len) set \<Rightarrow> int list \<Rightarrow> nat \<Rightarrow> 'd digest_and_len set" where
  "attaining S toks M = {x. \<exists>q. (q, x) \<in> S \<and> common_prefix_len q toks = M}"

lemma best_all: "S \<noteq> {} \<Longrightarrow> (\<And>q x. (q, x) \<in> S \<Longrightarrow> common_prefix_len q toks = M) \<Longrightarrow> is_best S toks M \<and> attaining S toks M = snd ` S"
  by (force simp: is_best_def attaining_def)

lemma best_Un:
  assumes "is_best S toks M" "\<And>q x. (q, x) \<in> O' \<Longrightarrow> common_prefix_len q toks < M"
  shows "is_best (O' \<union> S) toks M \<and> attaining (O' \<union> S) toks M = attaining S toks M"
  using assms by (fastforce simp: is_best_def attaining_def)

lemma best_under:
  assumes "is_best (set xs) toks M"
  shows "is_best (under e xs) (e @ toks) (length e + M) \<and> attaining (under e xs) (e @ toks) (length e + M) = attaining (set xs) toks M"
proof -
  have mem: "(p, x) \<in> under e xs \<longleftrightarrow> (\<exists>q. p = e @ q \<and> (q, x) \<in> set xs)" for p x by force
  have "is_best (under e xs) (e @ toks) (length e + M)"
    using assms by (simp add: is_best_def case_prod_unfold)
  moreover have "attaining (under e xs) (e @ toks) (length e + M) = attaining (set xs) toks M"
    unfolding attaining_def mem by force
  ultimately show ?thesis ..
qed

lemma is_best_unique: "is_best S toks M \<Longrightarrow> is_best S toks N \<Longrightarrow> M = N"
  by (fastforce simp: is_best_def)

lemma others_common:
  assumes "trie_ok (TrieNode e es n ch)" "(q, x) \<in> others es ch (hd toks)"
  shows "common_prefix_len q toks = 0"
  using others_hd [OF assms] by (auto simp: common_prefix_len_hd)

lemma common_prefix_len_mid:
  assumes "common_prefix_len e toks < length e"
  shows "common_prefix_len (e @ q) toks = common_prefix_len e toks"
  using assms by (induction e toks rule: common_prefix_len.induct) (auto split: if_splits)

definition walk_result :: "'d trie_match option \<Rightarrow> (int list \<times> 'd digest_and_len) set \<Rightarrow> int list \<Rightarrow> nat \<Rightarrow> nat \<Rightarrow> bool" where
  "walk_result res S toks consumed M \<longleftrightarrow> is_best S toks M \<and>
     (case res of None \<Rightarrow> consumed + M = 0
      | Some m \<Rightarrow> 0 < consumed + M \<and> depth m = consumed + M \<and> snd ` set (below (subtree m)) = attaining S toks M)"

lemma walk_from_ok:
  assumes "trie_ok t" "below t \<noteq> []"
  shows "\<exists>M. walk_result (walk_from t toks consumed) (set (below t)) toks consumed M"
  using assms
proof (induction t toks consumed rule: walk_from.induct)
  case (1 e es n ch toks consumed)
  let ?t = "TrieNode e es n ch"
  note ok = "1.prems"(1)
  have wf: "hm_wf ch" using ok by simp
  have ne: "set (below ?t) \<noteq> {}" using "1.prems"(2) by (simp del: below.simps)
  have stop: ?case if w: "walk_from ?t toks consumed = (if consumed = 0 then None
      else Some \<lparr>subtree = ?t, consumed_from_subtree_edge = 0, depth = consumed\<rparr>)"
    and z: "\<And>q x. (q, x) \<in> set (below ?t) \<Longrightarrow> common_prefix_len q toks = 0"
    using best_all [OF ne z] unfolding w
    by (intro exI [of _ 0]) (simp add: walk_result_def del: below.simps)
  show ?case
  proof (cases "toks = []")
    case True
    then show ?thesis by (intro stop) auto
  next
    case tne: False
    show ?thesis
    proof (cases "hm_get ch (hd toks)")
      case None
      show ?thesis
      proof (rule stop)
        show "common_prefix_len q toks = 0" if "(q, x) \<in> set (below ?t)" for q x
          using others_common [OF ok] that unfolding set_below_absent [OF None] by blast
      qed (use tne None in simp)
    next
      case (Some c)
      note ck = trie_ok_child [OF ok Some]
      note B = set_below_get [OF wf Some, of e es n]
      have cne: "below c \<noteq> []" using child_below [OF ok Some] .
      let ?m = "common_prefix_len (edge c) toks"
      have pos: "?m \<noteq> 0" using common_prefix_len_hd [of "edge c" toks] ck tne by simp
      have oth: "common_prefix_len q toks < ?m + k" if "(q, x) \<in> others es ch (hd toks)" for q x k
        using others_common [OF ok that] pos by simp
      show ?thesis
      proof (cases "?m < length (edge c)")
        case True
        have w: "walk_from ?t toks consumed = Some \<lparr>subtree = c, consumed_from_subtree_edge = ?m, depth = consumed + ?m\<rparr>"
          using tne Some pos True by (simp add: Let_def)
        have "is_best (under (edge c) (below c)) toks ?m \<and> attaining (under (edge c) (below c)) toks ?m = snd ` under (edge c) (below c)"
          using cne common_prefix_len_mid [OF True] by (intro best_all) auto
        moreover have "snd ` under (edge c) (below c) = snd ` set (below c)" by (simp add: image_image case_prod_unfold)
        ultimately show ?thesis unfolding w B
          using best_Un [of "under (edge c) (below c)" toks ?m "others es ch (hd toks)"] oth [of _ _ 0] pos
          by (intro exI [of _ ?m]) (simp add: walk_result_def)
      next
        case False
        obtain p a b where sp: "edge c = p @ a" "toks = p @ b" "length p = ?m"
          by (rule common_prefix_len_split [of "edge c" toks])
        then have m: "?m = length (edge c)" "toks = edge c @ b" using False by auto
        have w: "walk_from ?t toks consumed = walk_from c b (consumed + ?m)"
          using tne Some pos False m(2) by (simp add: Let_def)
        have dr: "drop ?m toks = b" using m by simp
        from "1.IH" [OF refl tne Some refl pos False ck(1) cne] obtain M
          where M: "walk_result (walk_from c b (consumed + ?m)) (set (below c)) b (consumed + ?m) M"
          unfolding dr by blast
        then have bu: "is_best (under (edge c) (below c)) toks (?m + M)"
          "attaining (under (edge c) (below c)) toks (?m + M) = attaining (set (below c)) b M"
          using best_under [of "below c" b M "edge c"] m by (simp_all add: walk_result_def)
        have "walk_result (walk_from c b (consumed + ?m)) (set (below ?t)) toks consumed (?m + M)"
          unfolding B using M best_Un [OF bu(1) oth] bu(2) pos
          by (simp add: walk_result_def add.assoc split: option.splits)
        then show ?thesis unfolding w by blast
      qed
    qed
  qed
qed

section \<open>The trie as an index of token sequences\<close>

text \<open>What the trie stores: pairs of a token sequence and a digest. A well-formed trie has an empty root
  edge and records the length of each sequence next to its digest.\<close>

definition contents :: "'d trie_node \<Rightarrow> (int list \<times> 'd) set" where
  "contents t = (\<lambda>(q, x). (q, digest x)) ` set (below t)"

definition trie_wf :: "'d trie_node \<Rightarrow> bool" where
  "trie_wf t \<longleftrightarrow> trie_ok t \<and> edge t = [] \<and> (\<forall>(q, x) \<in> set (below t). token_len x = length q)"

lemma distinct_below: "trie_ok t \<Longrightarrow> distinct (map (\<lambda>(q, x). (q, digest x)) (below t))"
proof (induction t rule: trie_ok.induct)
  case (1 e es n ch)
  let ?f = "\<lambda>(q, x :: 'a digest_and_len). (q :: int list, digest x)"
  let ?g = "\<lambda>(k, c). map (\<lambda>(q, x). (edge c @ q, digest x)) (below c)"
  have kid: "edge c \<noteq> [] \<and> hd (edge c) = k" if "(k, c) \<in> set ch" for k c using "1.prems" that by auto
  have one: "distinct (?g (k, c))" if "(k, c) \<in> set ch" for k c
  proof -
    have "distinct (map ?f (below c))" using "1.IH" [of "(k, c)" k c] "1.prems" that by auto
    then have "distinct (map (map_prod ((@) (edge c)) id) (map ?f (below c)))"
      by (subst distinct_map) (auto simp: inj_on_def)
    then show ?thesis by (simp add: o_def case_prod_unfold)
  qed
  have "distinct (concat (map ?g ch))" if "distinct (map fst ch)" "set ch \<subseteq> S"
    "\<forall>(k, c) \<in> S. edge c \<noteq> [] \<and> hd (edge c) = k \<and> distinct (?g (k, c))"
    for ch :: "(int \<times> 'a trie_node) list" and S
    using that
  proof (induction ch)
    case (Cons kc ch)
    obtain k c where kc: "kc = (k, c)" by (cases kc)
    have "set (?g (k, c)) \<inter> set (?g (k', c')) = {}" if "(k', c') \<in> set ch" for k' c'
    proof -
      have "k' \<noteq> k" using Cons.prems(1) kc that by force
      moreover have "edge c \<noteq> []" "hd (edge c) = k" "edge c' \<noteq> []" "hd (edge c') = k'"
        using Cons.prems(2,3) kc that by auto
      ultimately have "edge c @ q \<noteq> edge c' @ q'" for q q' by (metis hd_append2)
      then show ?thesis by fastforce
    qed
    then have "set (?g (k, c)) \<inter> set (concat (map ?g ch)) = {}" by (force simp: case_prod_unfold)
    then show ?case using Cons kc by auto
  qed simp
  note all = this
  have dis: "distinct (concat (map ?g ch))"
    using all [of ch "set ch"] "1.prems" one by fastforce
  have eq: "map ?f (below (TrieNode e es n ch)) = map (Pair []) (map digest es) @ concat (map ?g ch)"
    by (simp add: map_concat o_def case_prod_unfold)
  have "([], d) \<notin> set (concat (map ?g ch))" for d using kid by auto
  moreover have "set (map (Pair []) ds) \<inter> X = {}" if "\<And>d. ([], d) \<notin> X" for ds :: "'a list" and X :: "(int list \<times> 'a) set"
    using that by auto
  ultimately have "set (map (Pair []) (map digest es)) \<inter> set (concat (map ?g ch)) = {}" by blast
  moreover have "distinct (map (Pair ([] :: int list)) (map digest es))"
    using "1.prems" by (simp only: trie_ok.simps distinct_map inj_on_def) simp
  ultimately show ?case unfolding eq distinct_append using dis by blast
qed

lemma trie_len_contents: "trie_ok t \<Longrightarrow> trie_len t = card (contents t)"
  using distinct_card [OF distinct_below, of t] trie_ok_count [of t] by (simp add: trie_len_def contents_def)

lemma trie_wf_new: "trie_wf trie_new \<and> contents trie_new = {}"
  by (simp add: trie_wf_def trie_new_def contents_def)

lemma trie_wf_insert:
  assumes "trie_wf t"
  shows "trie_wf (trie_insert t toks d) \<and> contents (trie_insert t toks d) = insert (toks, d) (contents t)"
proof -
  let ?r = "\<lparr>digest = d, token_len = length toks\<rparr>"
  from insert_into_ok [of t toks ?r] assms have
    i: "trie_ok (trie_insert t toks d)" "edge (trie_insert t toks d) = edge t"
      "set (below (trie_insert t toks d)) = inserted (set (below t)) toks ?r"
    by (simp_all add: trie_wf_def trie_insert_def)
  have "contents (trie_insert t toks d) = insert (toks, d) (contents t)"
    unfolding contents_def i(3) by (force simp: inserted_def)
  then show ?thesis using i assms by (auto simp: trie_wf_def inserted_def)
qed

lemma trie_wf_remove:
  assumes "trie_wf t" "trie_remove t toks d = (b, t')"
  shows "trie_wf t' \<and> contents t' = contents t - {(toks, d)} \<and> (b \<longleftrightarrow> (toks, d) \<in> contents t)"
proof -
  have e: "trie_ok t" "edge t = []" and run: "remove_from True t toks d = (b, t')"
    using assms by (simp_all add: trie_wf_def trie_remove_def)
  note ok = remove_from_ok [OF e(1) run]
  then have r: "trie_ok t'" "b = stored_in (set (below t)) toks d" "edge t' = []" using e(2) by simp_all
  have "under (edge t') (below t') = (\<lambda>(p, x). (edge t @ p, x)) ` removed (set (below t)) toks d"
    using ok by (elim conjE)
  then have B: "set (below t') = removed (set (below t)) toks d" unfolding r(3) e(2) by simp
  have "contents t' = contents t - {(toks, d)}"
    unfolding contents_def B by (force simp: removed_def)
  moreover have "b \<longleftrightarrow> (toks, d) \<in> contents t" unfolding r(2) by (force simp: stored_in_def contents_def)
  ultimately show ?thesis using assms(1) r(1,3) by (auto simp: trie_wf_def B removed_def)
qed

definition trie_lookup :: "'d trie_node \<Rightarrow> int list \<Rightarrow> nat \<Rightarrow> (nat \<times> 'd digest_and_len list) option" where
  "trie_lookup t toks n = map_option (\<lambda>m. (depth m, candidates m)) (find_longest_prefix t toks n)"

text \<open>The linear scan the lookup replaces: the answer over a set of stored pairs.\<close>

definition scan_answers :: "(int list \<times> 'd) set \<Rightarrow> int list \<Rightarrow> nat \<Rightarrow> (nat \<times> 'd digest_and_len list) option \<Rightarrow> bool" where
  "scan_answers C toks n res \<longleftrightarrow>
     (case res of
        None \<Rightarrow> \<forall>(q, d) \<in> C. common_prefix_len q toks < max 1 n
      | Some (k, cs) \<Rightarrow> max 1 n \<le> k \<and> (\<forall>(q, d) \<in> C. common_prefix_len q toks \<le> k) \<and> cs \<noteq> []
          \<and> set cs = {\<lparr>digest = d, token_len = length q\<rparr> | q d. (q, d) \<in> C \<and> common_prefix_len q toks = k})"

lemma contents_records:
  assumes "trie_wf t"
  shows "(q, x) \<in> set (below t) \<longleftrightarrow> (q, digest x) \<in> contents t \<and> x = \<lparr>digest = digest x, token_len = length q\<rparr>"
proof -
  have len: "token_len y = length p" if "(p, y) \<in> set (below t)" for p y using assms that by (auto simp: trie_wf_def)
  show ?thesis
  proof
    assume "(q, x) \<in> set (below t)"
    then show "(q, digest x) \<in> contents t \<and> x = \<lparr>digest = digest x, token_len = length q\<rparr>"
      using len [of q x] by (force simp: contents_def)
  next
    assume a: "(q, digest x) \<in> contents t \<and> x = \<lparr>digest = digest x, token_len = length q\<rparr>"
    then obtain y where y: "(q, y) \<in> set (below t)" "digest y = digest x" by (auto simp: contents_def)
    then have "y = x" using len [OF y(1)] a by (cases y; cases x) simp
    then show "(q, x) \<in> set (below t)" using y(1) by simp
  qed
qed

lemma is_best_contents: "(\<forall>(q, x) \<in> set (below t). P q) \<longleftrightarrow> (\<forall>(q, d) \<in> contents t. P q)"
  unfolding contents_def by (auto simp: case_prod_unfold)

lemma trie_lookup_scans:
  assumes wf: "trie_wf t"
  shows "scan_answers (contents t) toks n (trie_lookup t toks n)"
proof (cases "below t = []")
  case True
  then have "subtree_count t = 0" using wf trie_ok_count by (fastforce simp: trie_wf_def)
  then show ?thesis using True
    by (simp add: trie_lookup_def find_longest_prefix_def walk_longest_def scan_answers_def contents_def)
next
  case False
  then have "walk_longest t toks = walk_from t toks 0"
    using wf trie_ok_count [of t] by (simp add: trie_wf_def walk_longest_def)
  moreover obtain M where M: "walk_result (walk_from t toks 0) (set (below t)) toks 0 M"
    using walk_from_ok [of t toks 0] wf False by (auto simp: trie_wf_def)
  ultimately have W: "is_best (set (below t)) toks M" "walk_longest t toks = None \<longleftrightarrow> M = 0"
    "\<And>m. walk_longest t toks = Some m \<Longrightarrow> depth m = M \<and> set (candidates m) = attaining (set (below t)) toks M"
    by (auto simp: walk_result_def set_candidates split: option.splits)
  have le: "\<forall>(q, d) \<in> contents t. common_prefix_len q toks \<le> M"
    using W(1) is_best_contents [of t "\<lambda>q. common_prefix_len q toks \<le> M"] by (simp add: is_best_def)
  have ne: "attaining (set (below t)) toks M \<noteq> {}" using W(1) by (auto simp: is_best_def attaining_def)
  have att: "attaining (set (below t)) toks M =
      {\<lparr>digest = d, token_len = length q\<rparr> | q d. (q, d) \<in> contents t \<and> common_prefix_len q toks = M}"
    unfolding attaining_def contents_records [OF wf] by auto
  show ?thesis
  proof (cases "M = 0 \<or> M < n")
    case True
    then have "trie_lookup t toks n = None"
      using W(2,3) by (auto simp: trie_lookup_def find_longest_prefix_def split: option.splits)
    then show ?thesis using True le by (fastforce simp: scan_answers_def)
  next
    case False
    then obtain m where m: "walk_longest t toks = Some m" using W(2) by auto
    then have "trie_lookup t toks n = Some (M, candidates m)"
      using W(3) False by (auto simp: trie_lookup_def find_longest_prefix_def)
    moreover have "candidates m \<noteq> []" using W(3) [OF m] ne by auto
    ultimately show ?thesis using False W(3) [OF m] le att by (simp add: scan_answers_def)
  qed
qed

section \<open>The interface of a prefix index\<close>

locale prefix_index =
  fixes new :: 's and ins :: "'s \<Rightarrow> int list \<Rightarrow> 'd \<Rightarrow> 's" and del :: "'s \<Rightarrow> int list \<Rightarrow> 'd \<Rightarrow> bool \<times> 's"
    and look :: "'s \<Rightarrow> int list \<Rightarrow> nat \<Rightarrow> (nat \<times> 'd digest_and_len list) option" and count :: "'s \<Rightarrow> nat"
    and wf :: "'s \<Rightarrow> bool" and stored :: "'s \<Rightarrow> (int list \<times> 'd) set"
  assumes wf_new: "wf new" and stored_new: "stored new = {}"
    and wf_ins: "wf s \<Longrightarrow> wf (ins s q d)" and stored_ins: "wf s \<Longrightarrow> stored (ins s q d) = insert (q, d) (stored s)"
    and wf_del: "wf s \<Longrightarrow> wf (snd (del s q d))"
    and stored_del: "wf s \<Longrightarrow> stored (snd (del s q d)) = stored s - {(q, d)}"
    and del_iff: "wf s \<Longrightarrow> fst (del s q d) \<longleftrightarrow> (q, d) \<in> stored s"
    and finite_stored: "finite (stored s)" and count_card: "wf s \<Longrightarrow> count s = card (stored s)"
    and look_scan: "wf s \<Longrightarrow> scan_answers (stored s) toks n (look s toks n)"
begin

lemma count_zero_iff: "wf s \<Longrightarrow> count s = 0 \<longleftrightarrow> stored s = {}"
  using count_card finite_stored by auto

text \<open>A stored sequence that agrees with the request on at least \<open>n\<close> tokens is never missed.\<close>

lemma look_complete:
  assumes "wf s" "(q, d) \<in> stored s" "max 1 n \<le> common_prefix_len q toks"
  shows "\<exists>k cs. look s toks n = Some (k, cs) \<and> common_prefix_len q toks \<le> k"
  using look_scan [OF assms(1), of toks n] assms(2,3) by (fastforce simp: scan_answers_def split: option.splits)

lemma look_sound:
  assumes "wf s" "look s toks n = Some (k, cs)" "x \<in> set cs"
  shows "\<exists>q. (q, digest x) \<in> stored s \<and> token_len x = length q \<and> common_prefix_len q toks = k \<and> max 1 n \<le> k"
  using look_scan [OF assms(1), of toks n] assms(2,3) by (auto simp: scan_answers_def)

end

interpretation rt: prefix_index trie_new trie_insert trie_remove trie_lookup trie_len trie_wf contents
proof unfold_locales
  fix t :: "'d trie_node" and q d
  show "trie_wf t \<Longrightarrow> trie_wf (snd (trie_remove t q d))" "trie_wf t \<Longrightarrow> contents (snd (trie_remove t q d)) = contents t - {(q, d)}"
    "trie_wf t \<Longrightarrow> fst (trie_remove t q d) \<longleftrightarrow> (q, d) \<in> contents t"
    using trie_wf_remove [of t q d "fst (trie_remove t q d)" "snd (trie_remove t q d)"] by auto
  show "finite (contents t)" by (simp add: contents_def)
  show "trie_wf t \<Longrightarrow> trie_len t = card (contents t)" by (simp add: trie_wf_def trie_len_contents)
qed (simp_all add: trie_wf_new trie_wf_insert trie_lookup_scans)

end
