(* ===== verification/Trie_Properties.thy ===== *)
theory Trie_Properties
  imports Radix_Trie "HOL-Library.Sublist"
begin

text \<open>
  The rest of \<open>src/src/server/prompt_cache/trie.rs\<close>: \<open>pop_prefixes\<close> with its two passes, and the
  properties of the trie. Runs of insertions and removals refine a plain set of (tokens, digest) pairs; the
  longest-prefix walk answers what a linear scan of that set answers; \<open>pop_prefixes\<close> removes exactly the
  records at strict prefixes and repairs every count, but leaves emptied nodes behind.
\<close>

section \<open>Popping the strict prefixes\<close>

text \<open>Pass 1: the drained records, the number drained per level, the edge lengths, and the trie with
  the strict-prefix nodes emptied and its counts not yet repaired.\<close>

fun pop_pass1 :: "'d trie_node \<Rightarrow> int list \<Rightarrow> 'd digest_and_len list \<times> nat list \<times> nat list \<times> 'd trie_node" where
  "pop_pass1 (TrieNode e es n ch) toks =
     (if toks = [] then ([], [0], [], TrieNode e es n ch)
      else case hm_get ch (hd toks) of
        None \<Rightarrow> (es, [length es], [], TrieNode e [] n ch)
      | Some c \<Rightarrow>
          if length toks < length (edge c) \<or> take (length (edge c)) toks \<noteq> edge c
          then (es, [length es], [], TrieNode e [] n ch)
          else case pop_pass1 c (drop (length (edge c)) toks) of
            (collected, drained, edge_lengths, c') \<Rightarrow>
              (es @ collected, length es # drained, length (edge c) # edge_lengths,
               TrieNode e [] n (hm_insert (hd toks) c' ch)))"

fun suffix_sum :: "nat list \<Rightarrow> nat list" where
  "suffix_sum [] = [0]"
| "suffix_sum (d # ds) = (let s = suffix_sum ds in (hd s + d) # s)"

text \<open>Pass 2: \<open>None\<close> is the panic of \<open>expect("path persists from Pass 1")\<close>.\<close>

fun pop_pass2 :: "'d trie_node \<Rightarrow> int list \<Rightarrow> nat list \<Rightarrow> nat list \<Rightarrow> 'd trie_node option" where
  "pop_pass2 (TrieNode e es n ch) toks [] sums = Some (TrieNode e es (n - hd sums) ch)"
| "pop_pass2 (TrieNode e es n ch) toks (l # ls) sums =
     (case hm_get ch (hd toks) of
        None \<Rightarrow> None
      | Some c \<Rightarrow> map_option (\<lambda>c'. TrieNode e es (n - hd sums) (hm_insert (hd toks) c' ch))
          (pop_pass2 c (drop l toks) ls (tl sums)))"

definition pop_prefixes :: "'d trie_node \<Rightarrow> int list \<Rightarrow> ('d digest_and_len list \<times> 'd trie_node) option" where
  "pop_prefixes t toks =
     (if toks = [] then Some ([], t)
      else case pop_pass1 t toks of
        (collected, drained_per_level, edge_lengths, t') \<Rightarrow>
          if list_all (\<lambda>d. d = 0) drained_per_level then Some (collected, t')
          else map_option (Pair collected) (pop_pass2 t' toks edge_lengths (suffix_sum drained_per_level)))"

text \<open>What \<open>pop_prefixes\<close> keeps of the invariant: keys, digests and counts, but not that every child
  subtree is inhabited.\<close>

fun trie_shape :: "'d trie_node \<Rightarrow> bool" where
  "trie_shape (TrieNode e es n ch) \<longleftrightarrow>
     distinct (map digest es) \<and> hm_wf ch \<and> n = length es + hm_sum subtree_count ch
     \<and> (\<forall>(k, c) \<in> set ch. edge c \<noteq> [] \<and> hd (edge c) = k \<and> trie_shape c)"

lemma hm_sum_pairs: "sum_list (map (\<lambda>(_, c). f c) ch) = hm_sum f ch"
  by (simp add: hm_sum_def o_def case_prod_unfold)

lemma trie_ok_shape: "trie_ok t \<Longrightarrow> trie_shape t"
proof (induction t rule: trie_ok.induct)
  case (1 e es n ch)
  then show ?case by (fastforce simp: hm_sum_pairs)
qed

lemma shape_count: "trie_shape t \<Longrightarrow> subtree_count t = length (below t)"
proof (induction t rule: trie_shape.induct)
  case (1 e es n ch)
  have "map (\<lambda>e. subtree_count (snd e)) ch = map (\<lambda>e. length (below (snd e))) ch" using 1 by (auto intro!: map_cong)
  from arg_cong [OF this, of sum_list]
  have "n = length es + sum_list (map (\<lambda>e. length (below (snd e))) ch)" using "1.prems" by (simp add: hm_sum_def)
  then show ?case by (simp add: length_concat o_def case_prod_unfold)
qed

lemma shape_child:
  assumes "trie_shape (TrieNode e es n ch)" "hm_get ch k = Some c"
  shows "trie_shape c" "edge c \<noteq> []" "hd (edge c) = k" "subtree_count c \<le> hm_sum subtree_count ch"
  using assms map_of_SomeD [OF assms(2)] hm_sum_remove [of ch k c subtree_count] by auto

lemma suffix_sum_Cons: "suffix_sum ds \<noteq> [] \<and> hd (suffix_sum ds) = sum_list ds"
  by (induction ds) (auto simp: Let_def)

lemma others_not_prefix:
  assumes "trie_shape (TrieNode e es n ch)" "(q, x) \<in> others [] ch (hd toks)"
  shows "\<not> strict_prefix q toks"
proof -
  obtain k c p where c: "(k, c) \<in> set ch" "k \<noteq> hd toks" "q = edge c @ p"
    using assms(2) by (auto simp: others_def hm_set_remove)
  then have "edge c \<noteq> []" "hd (edge c) = k" using assms(1) by auto
  then show ?thesis using c by (auto simp: strict_prefix_def prefix_def)
qed

lemma others_split: "others es ch k = Pair [] ` set es \<union> others [] ch k"
  by (simp add: others_def)

definition unpopped :: "(int list \<times> 'd digest_and_len) set \<Rightarrow> int list \<Rightarrow> (int list \<times> 'd digest_and_len) set" where
  "unpopped S toks = {(q, x) \<in> S. \<not> strict_prefix q toks}"

definition popped :: "(int list \<times> 'd digest_and_len) set \<Rightarrow> int list \<Rightarrow> 'd digest_and_len set" where
  "popped S toks = {x. \<exists>q. (q, x) \<in> S \<and> strict_prefix q toks}"

lemma popped_Un: "unpopped (A \<union> B) toks = unpopped A toks \<union> unpopped B toks"
  "popped (A \<union> B) toks = popped A toks \<union> popped B toks"
  by (auto simp: unpopped_def popped_def)

lemma popped_entries:
  "toks \<noteq> [] \<Longrightarrow> unpopped (Pair [] ` set es) toks = {}" "toks \<noteq> [] \<Longrightarrow> popped (Pair [] ` set es) toks = set es"
  by (auto simp: unpopped_def popped_def strict_prefix_def)

lemma popped_none:
  assumes "\<And>q x. (q, x) \<in> S \<Longrightarrow> \<not> strict_prefix q toks"
  shows "unpopped S toks = S" "popped S toks = {}"
  using assms by (auto simp: unpopped_def popped_def)

lemma popped_under:
  "unpopped (under e xs) (e @ q) = (\<lambda>(p, x). (e @ p, x)) ` unpopped (set xs) q"
  "popped (under e xs) (e @ q) = popped (set xs) q"
  by (force simp: unpopped_def popped_def strict_prefix_def)+

lemma popped_empty [simp]: "unpopped {} toks = {}" "popped {} toks = {}"
  by (auto simp: unpopped_def popped_def)

lemma popped_Nil: "unpopped S [] = S" "popped S [] = {}"
  by (auto simp: unpopped_def popped_def)

text \<open>One node on the path: its own records go, the other children stay.\<close>

lemma popped_node:
  assumes "trie_shape (TrieNode e es n ch)" "toks \<noteq> []"
  shows "unpopped (others es ch (hd toks) \<union> S) toks = others [] ch (hd toks) \<union> unpopped S toks"
    "popped (others es ch (hd toks) \<union> S) toks = set es \<union> popped S toks"
proof -
  have o: "unpopped (others [] ch (hd toks)) toks = others [] ch (hd toks)" "popped (others [] ch (hd toks)) toks = {}"
    using others_not_prefix [OF assms(1)] by (intro popped_none; blast)+
  show "unpopped (others es ch (hd toks) \<union> S) toks = others [] ch (hd toks) \<union> unpopped S toks"
    "popped (others es ch (hd toks) \<union> S) toks = set es \<union> popped S toks"
    unfolding others_split [of es] popped_Un popped_entries [OF assms(2)] o by auto
qed

lemma popped_stop:
  assumes ok: "trie_shape (TrieNode e es n ch)" "toks \<noteq> []"
    and stop: "\<And>c. hm_get ch (hd toks) = Some c \<Longrightarrow> length toks < length (edge c) \<or> take (length (edge c)) toks \<noteq> edge c"
  shows "set (below (TrieNode e [] m ch)) = unpopped (set (below (TrieNode e es n ch))) toks"
    "set es = popped (set (below (TrieNode e es n ch))) toks"
proof -
  have wf: "hm_wf ch" using ok(1) by simp
  have "set (below (TrieNode e [] m ch)) = unpopped (set (below (TrieNode e es n ch))) toks
    \<and> set es = popped (set (below (TrieNode e es n ch))) toks"
  proof (cases "hm_get ch (hd toks)")
    case None
    then show ?thesis using popped_node [OF ok, of "{}"]
      by (simp add: set_below_absent del: below.simps)
  next
    case (Some c)
    have np: "\<not> strict_prefix q toks" if "(q, x) \<in> under (edge c) (below c)" for q x
      using stop [OF Some] that by (auto simp: strict_prefix_def prefix_def)
    have u: "unpopped (under (edge c) (below c)) toks = under (edge c) (below c)" "popped (under (edge c) (below c)) toks = {}"
      by (rule popped_none, erule np)+
    show ?thesis unfolding set_below_get [OF wf Some] popped_node [OF ok] using u by simp
  qed
  then show "set (below (TrieNode e [] m ch)) = unpopped (set (below (TrieNode e es n ch))) toks"
    "set es = popped (set (below (TrieNode e es n ch))) toks" by blast+
qed

lemma pop_passes:
  assumes "trie_shape t" "pop_pass1 t toks = (collected, drained, ls, t1)"
  shows "\<exists>t2. pop_pass2 t1 toks ls (suffix_sum drained) = Some t2 \<and> trie_shape t2 \<and> edge t2 = edge t
    \<and> edge t1 = edge t \<and> subtree_count t2 + sum_list drained = subtree_count t
    \<and> set (below t2) = unpopped (set (below t)) toks \<and> set collected = popped (set (below t)) toks
    \<and> (list_all (\<lambda>d. d = 0) drained \<longrightarrow> t1 = t \<and> t2 = t)"
  using assms
proof (induction t toks arbitrary: collected drained ls t1 rule: pop_pass1.induct)
  case (1 e es n ch toks)
  let ?t = "TrieNode e es n ch"
  note ok = "1.prems"(1)
  have wf: "hm_wf ch" and n: "n = length es + hm_sum subtree_count ch" using ok by auto
  have fin: ?case if "toks \<noteq> []" "(collected, drained, ls, t1) = (es, [length es], [], TrieNode e [] n ch)"
    "\<And>c. hm_get ch (hd toks) = Some c \<Longrightarrow> length toks < length (edge c) \<or> take (length (edge c)) toks \<noteq> edge c"
    using that(2) ok popped_stop(1) [OF ok that(1,3), of "n - length es"]
      popped_stop(2) [OF ok that(1,3)]
    by (intro exI [of _ "TrieNode e [] (n - length es) ch"]) (simp del: below.simps)
  show ?case
  proof (cases "toks = []")
    case True
    then have "collected = []" "drained = [0]" "ls = []" "t1 = ?t" using "1.prems"(2) by auto
    then show ?thesis using ok True popped_Nil [of "set (below ?t)"]
      by (intro exI [of _ ?t]) (simp del: below.simps trie_shape.simps)
  next
    case ne: False
    show ?thesis
    proof (cases "\<exists>c. hm_get ch (hd toks) = Some c \<and> \<not> (length toks < length (edge c) \<or> take (length (edge c)) toks \<noteq> edge c)")
      case False
      then show ?thesis using "1.prems"(2) ne by (intro fin) (auto split: option.splits if_splits)
    next
      case True
      then obtain c where c: "hm_get ch (hd toks) = Some c"
        and e: "\<not> (length toks < length (edge c) \<or> take (length (edge c)) toks \<noteq> edge c)" by blast
      define q where "q = drop (length (edge c)) toks"
      have toks: "toks = edge c @ q" using e append_take_drop_id [of "length (edge c)" toks] by (simp add: q_def)
      obtain col dr l c1 where p1: "pop_pass1 c q = (col, dr, l, c1)" using prod_cases4 by blast
      have run: "collected = es @ col" "drained = length es # dr" "ls = length (edge c) # l"
        "t1 = TrieNode e [] n (hm_insert (hd toks) c1 ch)"
        using "1.prems"(2) ne c e p1 by (auto simp: q_def [symmetric])
      note ck = shape_child [OF ok c]
      from "1.IH" [OF ne c e ck(1), folded q_def, OF p1] obtain c2
        where p2: "pop_pass2 c1 q l (suffix_sum dr) = Some c2" "trie_shape c2" "edge c2 = edge c" "edge c1 = edge c"
        and cnt: "subtree_count c2 + sum_list dr = subtree_count c"
        and bel: "set (below c2) = unpopped (set (below c)) q" "set col = popped (set (below c)) q"
        and zero: "list_all (\<lambda>d. d = 0) dr \<longrightarrow> c1 = c \<and> c2 = c" by blast
      let ?t2 = "TrieNode e [] (n - (sum_list dr + length es)) (hm_insert (hd toks) c2 ch)"
      have two: "pop_pass2 t1 toks ls (suffix_sum drained) = Some ?t2"
        using p2(1) suffix_sum_Cons [of dr] by (simp add: run update_conv' q_def Let_def update_last)
      have sum: "hm_sum subtree_count (hm_insert (hd toks) c2 ch) + sum_list dr = hm_sum subtree_count ch"
        using hm_sum_insert_present [OF wf c, of subtree_count c2] cnt by simp
      have "trie_shape ?t2" using ok p2 ck n sum wf by (auto simp: hm_set_insert hm_set_remove)
      moreover have "set (below ?t2) = unpopped (set (below ?t)) toks" "set collected = popped (set (below ?t)) toks"
        unfolding set_below_insert [OF wf] set_below_get [OF wf c] popped_node [OF ok ne] run(1)
        using popped_under [of "edge c" "below c" q] bel p2(3) toks by auto
      moreover have "t1 = ?t \<and> ?t2 = ?t" if "list_all (\<lambda>d. d = 0) drained"
      proof -
        have "es = []" "c1 = c" "c2 = c" "sum_list dr = 0" using that zero cnt by (auto simp: run)
        then show ?thesis using update_triv [OF c] by (simp add: run del: sum_list_eq_0_iff)
      qed
      ultimately show ?thesis using two sum n by (intro exI [of _ ?t2]) (simp add: run del: below.simps)
    qed
  qed
qed

section \<open>Runs of the trie and of a plain set\<close>

datatype 'd trie_op = Insert "int list" 'd | Remove "int list" 'd

fun trie_apply :: "'d trie_node \<Rightarrow> 'd trie_op \<Rightarrow> 'd trie_node" where
  "trie_apply t (Insert q d) = trie_insert t q d"
| "trie_apply t (Remove q d) = snd (trie_remove t q d)"

definition trie_run :: "'d trie_op list \<Rightarrow> 'd trie_node" where
  "trie_run ops = foldl trie_apply trie_new ops"

fun set_apply :: "(int list \<times> 'd) set \<Rightarrow> 'd trie_op \<Rightarrow> (int list \<times> 'd) set" where
  "set_apply C (Insert q d) = insert (q, d) C"
| "set_apply C (Remove q d) = C - {(q, d)}"

definition set_run :: "'d trie_op list \<Rightarrow> (int list \<times> 'd) set" where
  "set_run ops = foldl set_apply {} ops"

lemma trie_run_refines: "trie_wf (trie_run ops) \<and> contents (trie_run ops) = set_run ops"
proof (induction ops rule: rev_induct)
  case (snoc x xs)
  then show ?case
    by (cases x) (simp_all add: trie_run_def set_run_def rt.wf_ins rt.stored_ins rt.wf_del rt.stored_del)
qed (simp add: trie_run_def set_run_def rt.wf_new rt.stored_new)

section \<open>Properties\<close>

text \<open>C3: the radix trie is a set of (token sequence, digest) pairs. After any sequence of insertions and
  removals from the empty trie it stores exactly the pairs that a plain set driven by the same operations holds,
  its root count is their number, and a removal reports \<open>true\<close> exactly when its pair is stored.\<close>

theorem trie_refines_set:
  "contents (trie_run ops) = set_run ops \<and> trie_len (trie_run ops) = card (set_run ops)
   \<and> (fst (trie_remove (trie_run ops) q d) \<longleftrightarrow> (q, d) \<in> set_run ops)"
  using trie_run_refines [of ops] rt.count_card [of "trie_run ops"] rt.del_iff [of "trie_run ops" q d] by simp

text \<open>C4: the longest-prefix walk answers what a linear scan of the stored sequences answers. It misses exactly when
  no stored sequence shares \<open>max 1 min_len\<close> leading tokens with the request; otherwise its depth is the longest
  common prefix of any stored sequence with the request, and the candidates are exactly the stored records
  that attain it, each with the length of its sequence.\<close>

theorem find_longest_prefix_is_scan:
  "scan_answers (set_run ops) toks min_len (trie_lookup (trie_run ops) toks min_len)"
  using rt.look_scan [of "trie_run ops"] trie_run_refines [of ops] by simp

text \<open>C16: \<open>pop_prefixes\<close> never panics on a trie built by insertions and removals. It returns the
  records filed at strict prefixes of the request, keeps exactly the others, and leaves the root count equal to
  the number of records kept.\<close>

theorem pop_prefixes_exact:
  "\<exists>popped t. pop_prefixes (trie_run ops) toks = Some (popped, t)
     \<and> contents t = {(q, d) \<in> set_run ops. \<not> strict_prefix q toks}
     \<and> set popped = {\<lparr>digest = d, token_len = length q\<rparr> | q d. (q, d) \<in> set_run ops \<and> strict_prefix q toks}
     \<and> trie_len t = length (below t)"
proof (cases "toks = []")
  case True
  then show ?thesis using trie_run_refines [of ops] trie_ok_count [of "trie_run ops"]
    by (simp add: pop_prefixes_def trie_wf_def trie_len_def)
next
  case False
  let ?t = "trie_run ops"
  have wf: "trie_wf ?t" and C: "contents ?t = set_run ops" using trie_run_refines by auto
  have sh: "trie_shape ?t" using wf trie_ok_shape by (auto simp: trie_wf_def)
  obtain col dr ls t1 where p1: "pop_pass1 ?t toks = (col, dr, ls, t1)" using prod_cases4 by blast
  from pop_passes [OF sh p1] obtain t2 where t2: "pop_pass2 t1 toks ls (suffix_sum dr) = Some t2" "trie_shape t2"
    "set (below t2) = unpopped (set (below ?t)) toks" "set col = popped (set (below ?t)) toks"
    and z: "list_all (\<lambda>d. d = 0) dr \<longrightarrow> t1 = ?t \<and> t2 = ?t" by blast
  have run: "pop_prefixes ?t toks = Some (col, t2)"
    using False p1 t2(1) z by (simp add: pop_prefixes_def)
  have "contents t2 = {(q, d) \<in> set_run ops. \<not> strict_prefix q toks}"
    unfolding contents_def t2(3) C [symmetric] by (force simp: unpopped_def)
  moreover have "set col = {\<lparr>digest = d, token_len = length q\<rparr> | q d. (q, d) \<in> set_run ops \<and> strict_prefix q toks}"
    unfolding t2(4) popped_def contents_records [OF wf] C by auto
  ultimately show ?thesis using run shape_count [OF t2(2)] by (simp add: trie_len_def)
qed

text \<open>After \<open>pop_prefixes\<close> the walk can report a match without a candidate. Store \<open>[1]\<close>, pop the
  prefixes of \<open>[1, 2]\<close>, store \<open>[3]\<close>: looking up \<open>[1, 5]\<close> then matches one token in an emptied node,
  although \<open>find_longest_prefix\<close> promises a subtree with at least one stored digest, and although no
  stored sequence shares a token with the request.\<close>

lemma popped_node_matches_without_candidate:
  "\<exists>t m. pop_prefixes (trie_insert trie_new [1] d) [1, 2] = Some ([\<lparr>digest = d, token_len = 1\<rparr>], t)
     \<and> contents (trie_insert t [3] d) = {([3], d)}
     \<and> find_longest_prefix (trie_insert t [3] d) [1, 5] 1 = Some m \<and> depth m = 1 \<and> candidates m = []"
  by (simp add: trie_insert_def trie_new_def pop_prefixes_def recount_def recompute_subtree_count_def contents_def
      find_longest_prefix_def walk_longest_def candidates_def Let_def)

end
