(* ===== verification/Prompt_Key.thy ===== *)
theory Prompt_Key
  imports Mlxcel_Prelude "HOL-Library.Word" "HOL-Library.Char_ord" "HOL-Library.List_Lexorder" "HOL-Library.Multiset"
begin

text \<open>
  Identity of a prompt-cache bucket: \<open>src/src/server/prompt_cache/key.rs\<close> and \<open>types.rs\<close>. The hash functions
  are third-party code and a parameter of every definition that uses them; what is modelled is the byte string that
  is hashed. Strings are sequences of bytes (\<open>char\<close> is an 8-bit character), tokens are 32-bit integers.
  The JSON writer of \<open>serde_json\<close> for strings and numbers is a parameter as well.
\<close>

type_synonym byte = "8 word"

section \<open>Byte encodings\<close>

text \<open>\<open>to_le_bytes\<close> of an integer of \<open>w\<close> bytes; a negative integer is encoded in two's complement.\<close>

fun to_le_bytes :: "nat \<Rightarrow> int \<Rightarrow> byte list" where
  "to_le_bytes 0 n = []"
| "to_le_bytes (Suc w) n = word_of_int n # to_le_bytes w (n div 256)"

definition as_bytes :: "string \<Rightarrow> byte list" where
  "as_bytes s = map (\<lambda>c. of_nat (of_char c)) s"

definition write_field :: "byte list \<Rightarrow> byte list" where
  "write_field bs = to_le_bytes 8 (int (length bs)) @ bs"

definition hex_digit :: "nat \<Rightarrow> char" where
  "hex_digit n = ''0123456789abcdef'' ! n"

definition to_hex :: "byte list \<Rightarrow> string" where
  "to_hex bs = concat (map (\<lambda>b. [hex_digit (unat b div 16), hex_digit (unat b mod 16)]) bs)"

section \<open>Keys and buckets\<close>

record prompt_cache_key =
  model_id :: string
  lora_id :: "string option"
  template_sig_of :: string
  session_key :: "string option"
  mm_digest :: "byte list"
  key_tokens :: "int list"
  prefix_len :: nat

definition new_full :: "string \<Rightarrow> string option \<Rightarrow> string \<Rightarrow> string option \<Rightarrow> byte list \<Rightarrow> int list \<Rightarrow> prompt_cache_key" where
  "new_full m l t s mm toks =
     \<lparr>model_id = m, lora_id = l, template_sig_of = t, session_key = s, mm_digest = mm,
      key_tokens = toks, prefix_len = length toks\<rparr>"

definition new_prefix ::
  "string \<Rightarrow> string option \<Rightarrow> string \<Rightarrow> string option \<Rightarrow> byte list \<Rightarrow> int list \<Rightarrow> nat \<Rightarrow> prompt_cache_key" where
  "new_prefix m l t s mm toks n =
     \<lparr>model_id = m, lora_id = l, template_sig_of = t, session_key = s, mm_digest = mm,
      key_tokens = toks, prefix_len = min n (length toks)\<rparr>"

definition effective_prefix_len :: "prompt_cache_key \<Rightarrow> nat" where
  "effective_prefix_len k = min (prefix_len k) (length (key_tokens k))"

definition unwrap_str :: "string option \<Rightarrow> string" where
  "unwrap_str s = (case s of None \<Rightarrow> [] | Some x \<Rightarrow> x)"

text \<open>The byte string that \<open>PromptCacheKey::digest\<close> feeds to the hasher, and the digest.\<close>

definition digest_input :: "prompt_cache_key \<Rightarrow> byte list" where
  "digest_input k =
     as_bytes ''mlxcel:prompt-cache:v2'' @ write_field (as_bytes (model_id k))
     @ write_field (as_bytes (unwrap_str (lora_id k))) @ write_field (as_bytes (template_sig_of k))
     @ write_field (as_bytes (unwrap_str (session_key k))) @ mm_digest k
     @ to_le_bytes 8 (int (effective_prefix_len k))
     @ concat (map (to_le_bytes 4) (take (effective_prefix_len k) (key_tokens k)))"

definition key_digest :: "(byte list \<Rightarrow> 'd) \<Rightarrow> prompt_cache_key \<Rightarrow> 'd" where
  "key_digest blake3 k = blake3 (digest_input k)"

definition multimodal_input :: "byte list list \<Rightarrow> byte list list \<Rightarrow> byte list" where
  "multimodal_input image_bytes audio_bytes =
     as_bytes ''mlxcel:prompt-cache:multimodal:v1''
     @ to_le_bytes 8 (int (length image_bytes)) @ concat (map write_field image_bytes)
     @ to_le_bytes 8 (int (length audio_bytes)) @ concat (map write_field audio_bytes)"

definition multimodal_digest :: "(byte list \<Rightarrow> byte list) \<Rightarrow> byte list list \<Rightarrow> byte list list \<Rightarrow> byte list" where
  "multimodal_digest blake3 image_bytes audio_bytes = blake3 (multimodal_input image_bytes audio_bytes)"

record bucket_key =
  b_model_id :: string
  b_lora_id :: "string option"
  b_template_sig :: string
  b_mm_digest :: "byte list"
  b_session_key :: "string option"

record sessionless_bucket_key =
  sl_model_id :: string
  sl_lora_id :: "string option"
  sl_template_sig :: string
  sl_mm_digest :: "byte list"

definition bucket_from_key :: "prompt_cache_key \<Rightarrow> bucket_key" where
  "bucket_from_key k = \<lparr>b_model_id = model_id k, b_lora_id = lora_id k, b_template_sig = template_sig_of k,
     b_mm_digest = mm_digest k, b_session_key = session_key k\<rparr>"

definition sessionless_from_key :: "prompt_cache_key \<Rightarrow> sessionless_bucket_key" where
  "sessionless_from_key k = \<lparr>sl_model_id = model_id k, sl_lora_id = lora_id k, sl_template_sig = template_sig_of k,
     sl_mm_digest = mm_digest k\<rparr>"

section \<open>Session keys\<close>

definition ANONYMOUS_SESSION_SENTINEL :: string where
  "ANONYMOUS_SESSION_SENTINEL = ''__mlxcel_anon__''"

datatype session_key_source = PromptCacheKeySource | SessionHeader | UserField | Anonymous

definition resolve_session_key :: "string option \<Rightarrow> string option \<Rightarrow> string option \<Rightarrow> string \<times> session_key_source" where
  "resolve_session_key prompt_cache_key header_session_id user =
     (case prompt_cache_key of
        Some (c # k) \<Rightarrow> (c # k, PromptCacheKeySource)
      | _ \<Rightarrow> (case header_session_id of
           Some (c # h) \<Rightarrow> (c # h, SessionHeader)
         | _ \<Rightarrow> (case user of
              Some (c # u) \<Rightarrow> (c # u, UserField)
            | _ \<Rightarrow> (ANONYMOUS_SESSION_SENTINEL, Anonymous))))"

definition recordable_session_key :: "string \<Rightarrow> string option" where
  "recordable_session_key resolved =
     (if resolved = [] \<or> resolved = ANONYMOUS_SESSION_SENTINEL then None else Some resolved)"

section \<open>Template signatures\<close>

datatype 'n json = JNull | JBool bool | JNumber 'n | JString string | JArray "'n json list"
  | JObject "(string \<times> 'n json) list"

datatype tool_choice = ToolMode string | ToolSpecific string

record 'n tool =
  tool_type :: string
  fn_name :: string
  fn_description :: "string option"
  fn_parameters :: "'n json option"

text \<open>What the writer of \<open>serde_json\<close> prints for a number and for a string.\<close>

record 'n json_writer =
  num_text :: "'n \<Rightarrow> string"
  str_text :: "string \<Rightarrow> string"

definition comma_separated :: "string list \<Rightarrow> string" where
  "comma_separated xs = (case xs of [] \<Rightarrow> [] | x # ys \<Rightarrow> x @ concat (map (\<lambda>y. '','' @ y) ys))"

fun canonicalize_value :: "'n json_writer \<Rightarrow> 'n json \<Rightarrow> string" where
  "canonicalize_value w JNull = ''null''"
| "canonicalize_value w (JBool b) = (if b then ''true'' else ''false'')"
| "canonicalize_value w (JNumber n) = num_text w n"
| "canonicalize_value w (JString s) = str_text w s"
| "canonicalize_value w (JArray xs) = ''['' @ comma_separated (map (canonicalize_value w) xs) @ '']''"
| "canonicalize_value w (JObject m) =
     ''{'' @ comma_separated (map (\<lambda>k. str_text w k @ '':'' @
        (case map_of (map (\<lambda>(k, v). (k, canonicalize_value w v)) m) k of Some t \<Rightarrow> t | None \<Rightarrow> ''null''))
       (sort (map fst m))) @ ''}''"

abbreviation canonicalize_map :: "'n json_writer \<Rightarrow> (string \<times> 'n json) list \<Rightarrow> string" where
  "canonicalize_map w m \<equiv> canonicalize_value w (JObject m)"

definition tools_digest :: "(byte list \<Rightarrow> byte list) \<Rightarrow> 'n json_writer \<Rightarrow> 'n tool list option \<Rightarrow> string" where
  "tools_digest blake3 w tools =
     (let ts = (case tools of None \<Rightarrow> [] | Some x \<Rightarrow> x) in
      to_hex (blake3 (as_bytes ''mlxcel:prompt-cache:tools-digest:v1'' @ to_le_bytes 8 (int (length ts))
        @ concat (map (\<lambda>t. write_field (as_bytes (tool_type t)) @ write_field (as_bytes (fn_name t))
            @ write_field (as_bytes (unwrap_str (fn_description t)))
            @ write_field (as_bytes (case fn_parameters t of Some v \<Rightarrow> canonicalize_value w v | None \<Rightarrow> ''null''))) ts))))"

definition tool_choice_tag :: "tool_choice option \<Rightarrow> string" where
  "tool_choice_tag tc = (case tc of None \<Rightarrow> ''__absent__'' | Some (ToolMode s) \<Rightarrow> ''mode:'' @ s
     | Some (ToolSpecific f) \<Rightarrow> ''specific:'' @ f)"

definition template_sig ::
  "(byte list \<Rightarrow> byte list) \<Rightarrow> 'n json_writer \<Rightarrow> string \<Rightarrow> (string \<times> 'n json) list \<Rightarrow> tool_choice option
   \<Rightarrow> 'n tool list option \<Rightarrow> string" where
  "template_sig blake3 w source kwargs tc tools =
     to_hex (blake3 (as_bytes ''mlxcel:prompt-cache:template-sig:v1'' @ write_field (as_bytes source)
       @ write_field (as_bytes (canonicalize_map w kwargs)) @ write_field (as_bytes (tool_choice_tag tc))
       @ write_field (as_bytes (tools_digest blake3 w tools))))"

section \<open>The encodings are injective\<close>

lemma length_to_le_bytes [simp]: "length (to_le_bytes w n) = w"
  by (induction w arbitrary: n) auto

lemma byte_eq_iff: "(word_of_int m :: byte) = word_of_int n \<longleftrightarrow> m mod 256 = n mod 256"
  by (simp add: word_of_int_eq_iff take_bit_eq_mod)

lemma mod_256_split: "(m :: int) mod (256 * k) = n mod (256 * k) \<longleftrightarrow> m mod 256 = n mod 256 \<and> (m div 256) mod k = (n div 256) mod k"
  if "0 < k"
proof -
  have split: "x mod (256 * k) = 256 * (x div 256 mod k) + x mod 256" for x :: int
    using zmod_zmult2_eq [of k x 256] that by simp
  show ?thesis
  proof
    assume eq: "m mod (256 * k) = n mod (256 * k)"
    then have "m mod 256 = n mod 256" by (metis mod_mod_cancel dvd_triv_left)
    then show "m mod 256 = n mod 256 \<and> (m div 256) mod k = (n div 256) mod k" using eq unfolding split by simp
  qed (simp add: split)
qed

lemma to_le_bytes_eq_iff: "to_le_bytes w m = to_le_bytes w n \<longleftrightarrow> m mod 256 ^ w = n mod 256 ^ w"
proof (induction w arbitrary: m n)
  case (Suc w)
  show ?case using mod_256_split [of "256 ^ w" m n] Suc [of "m div 256" "n div 256"]
    by (simp add: byte_eq_iff)
qed simp

lemma to_le_bytes_u64: "m < 2 ^ 64 \<Longrightarrow> n < 2 ^ 64 \<Longrightarrow> to_le_bytes 8 (int m) = to_le_bytes 8 (int n) \<longleftrightarrow> m = n"
  by (simp add: to_le_bytes_eq_iff)

definition i32_range :: "int \<Rightarrow> bool" where
  "i32_range n \<longleftrightarrow> - (2 ^ 31) \<le> n \<and> n < 2 ^ 31"

lemma to_le_bytes_i32: "i32_range m \<Longrightarrow> i32_range n \<Longrightarrow> to_le_bytes 4 m = to_le_bytes 4 n \<longleftrightarrow> m = n"
proof
  assume r: "i32_range m" "i32_range n" and "to_le_bytes 4 m = to_le_bytes 4 n"
  then have "2 ^ 32 dvd m - n" by (simp add: to_le_bytes_eq_iff mod_eq_dvd_iff)
  moreover have "\<bar>m - n\<bar> < 2 ^ 32" using r by (auto simp: i32_range_def abs_less_iff)
  ultimately have "m - n = 0" using dvd_imp_le_int [of "m - n" "2 ^ 32"] by force
  then show "m = n" by simp
qed simp

lemma of_nat_inverse_eq:
  assumes "(of_nat (of_char c) :: byte) = of_nat (of_char d)"
  shows "(of_char c :: nat) = of_char d"
proof -
  have "of_char x < (256 :: nat)" for x :: char using nat_of_char_less_256 by simp
  then show ?thesis using arg_cong [OF assms, of unat] by (simp add: unat_of_nat)
qed

lemma as_bytes_inject [simp]: "as_bytes s = as_bytes t \<longleftrightarrow> s = t"
proof -
  have "inj (\<lambda>c. of_nat (of_char c) :: byte)" by (rule injI) (simp add: of_nat_inverse_eq [THEN of_char_eqI])
  then show ?thesis by (simp add: as_bytes_def inj_map_eq_map)
qed

lemma length_as_bytes [simp]: "length (as_bytes s) = length s"
  by (simp add: as_bytes_def)

lemma write_field_inject:
  assumes "length a < 2 ^ 64" "length b < 2 ^ 64"
  shows "write_field a @ x = write_field b @ y \<longleftrightarrow> a = b \<and> x = y"
proof
  assume eq: "write_field a @ x = write_field b @ y"
  then have "to_le_bytes 8 (int (length a)) = to_le_bytes 8 (int (length b)) \<and> a @ x = b @ y"
    by (simp add: write_field_def)
  then show "a = b \<and> x = y" using to_le_bytes_u64 [OF assms] by auto
qed simp

lemma concat_tokens_inject:
  assumes "length xs = length ys" "list_all i32_range xs" "list_all i32_range ys"
  shows "concat (map (to_le_bytes 4) xs) = concat (map (to_le_bytes 4) ys) \<longleftrightarrow> xs = ys"
  using assms
proof (induction xs ys rule: list_induct2)
  case (Cons x xs y ys)
  then show ?case by (simp add: to_le_bytes_i32)
qed simp

section \<open>Properties\<close>

definition key_wf :: "prompt_cache_key \<Rightarrow> bool" where
  "key_wf k \<longleftrightarrow> length (model_id k) < 2 ^ 64 \<and> length (unwrap_str (lora_id k)) < 2 ^ 64
     \<and> length (template_sig_of k) < 2 ^ 64 \<and> length (unwrap_str (session_key k)) < 2 ^ 64
     \<and> length (mm_digest k) = 32 \<and> length (key_tokens k) < 2 ^ 64 \<and> list_all i32_range (key_tokens k)"

text \<open>C22: the encoding behind \<open>PromptCacheKey::digest\<close> is unambiguous. Two keys feed the same byte string to the
  hasher exactly when they agree on the model, the template signature, the multimodal digest, the token prefix
  that participates, and on the LoRA adapter and session with \<open>None\<close> and the empty string identified. So two
  keys of different identity share a bucket digest only through a collision of the hash function.\<close>

theorem digest_input_injective:
  assumes "key_wf k" "key_wf k'"
  shows "digest_input k = digest_input k' \<longleftrightarrow>
    model_id k = model_id k' \<and> unwrap_str (lora_id k) = unwrap_str (lora_id k')
    \<and> template_sig_of k = template_sig_of k' \<and> unwrap_str (session_key k) = unwrap_str (session_key k')
    \<and> mm_digest k = mm_digest k'
    \<and> take (effective_prefix_len k) (key_tokens k) = take (effective_prefix_len k') (key_tokens k')"
    (is "?l \<longleftrightarrow> ?r")
proof -
  let ?n = "effective_prefix_len k" and ?m = "effective_prefix_len k'"
  have len: "?n < 2 ^ 64" "?m < 2 ^ 64" "length (take ?n (key_tokens k)) = ?n" "length (take ?m (key_tokens k')) = ?m"
    using assms by (auto simp: key_wf_def effective_prefix_len_def)
  have toks: "list_all i32_range (take ?n (key_tokens k))" "list_all i32_range (take ?m (key_tokens k'))"
    using assms by (auto simp: key_wf_def list_all_iff dest: in_set_takeD)
  have "?l \<longleftrightarrow> model_id k = model_id k' \<and> unwrap_str (lora_id k) = unwrap_str (lora_id k')
    \<and> template_sig_of k = template_sig_of k' \<and> unwrap_str (session_key k) = unwrap_str (session_key k')
    \<and> mm_digest k = mm_digest k' \<and> to_le_bytes 8 (int ?n) = to_le_bytes 8 (int ?m)
    \<and> concat (map (to_le_bytes 4) (take ?n (key_tokens k))) = concat (map (to_le_bytes 4) (take ?m (key_tokens k')))"
    using assms by (simp add: digest_input_def key_wf_def write_field_inject)
  also have "\<dots> \<longleftrightarrow> ?r"
    using to_le_bytes_u64 [OF len(1,2)] concat_tokens_inject [OF _ toks] len(3,4) by metis
  finally show ?thesis .
qed

definition demo_key :: "string option \<Rightarrow> int list \<Rightarrow> prompt_cache_key" where
  "demo_key s toks = new_full ''m'' None ''t'' s (replicate 32 0) toks"

theorem digest_input_injective_witness:
  "digest_input (demo_key None [5, -1]) = digest_input (demo_key (Some []) [5, -1])
   \<and> digest_input (demo_key None [5, -1]) \<noteq> digest_input (demo_key None [5, 255])"
proof -
  have wf: "key_wf (demo_key None [5, -1])" "key_wf (demo_key (Some []) [5, -1])" "key_wf (demo_key None [5, 255])"
    by (simp_all add: key_wf_def demo_key_def new_full_def unwrap_str_def i32_range_def)
  show ?thesis unfolding digest_input_injective [OF wf(1) wf(2)] digest_input_injective [OF wf(1) wf(3)]
    by (simp add: demo_key_def new_full_def unwrap_str_def effective_prefix_len_def)
qed

text \<open>C23: the template signature does not depend on the order in which the keyword arguments arrive: two maps with
  distinct keys and the same entries have the same signature, whatever the hash function and the number printer.\<close>

theorem template_sig_order_free:
  assumes "distinct (map fst kwargs)" "distinct (map fst kwargs')" "set kwargs = set kwargs'"
  shows "template_sig h w source kwargs tc tools = template_sig h w source kwargs' tc tools"
proof -
  let ?r = "\<lambda>m. map (\<lambda>(k, v). (k, canonicalize_value w v)) m"
  have "mset kwargs = mset kwargs'"
    using assms set_eq_iff_mset_eq_distinct [of kwargs kwargs'] by (simp add: distinct_map)
  then have "sort (map fst kwargs) = sort (map fst kwargs')"
    by (metis mset_map properties_for_sort mset_sort sorted_sort)
  moreover have "map_of (?r kwargs) = map_of (?r kwargs')"
    using assms by (intro map_of_inject_set [THEN iffD2]) (auto simp: o_def case_prod_unfold)
  ultimately show ?thesis by (simp add: template_sig_def)
qed

definition demo_writer :: "nat json_writer" where
  "demo_writer = \<lparr>num_text = \<lambda>n. replicate n CHR ''1'', str_text = \<lambda>s. s\<rparr>"

theorem template_sig_order_free_witness:
  "template_sig (\<lambda>x. x) demo_writer ''tmpl'' [(''a'', JBool True), (''b'', JNumber 2)] None None
   = template_sig (\<lambda>x. x) demo_writer ''tmpl'' [(''b'', JNumber 2), (''a'', JBool True)] None None"
  by (rule template_sig_order_free) auto

end
