(* ===== verification/Block_Hash.thy ===== *)
theory Block_Hash
  imports Prompt_Key
begin

text \<open>
  Automatic prefix caching: the block-hash chain of \<open>src/src/server/prompt_cache/block_hash.rs\<close> and the check of
  \<open>apc_lookup.rs\<close> that a cached entry agrees with a request block by block. SHA-256 and BLAKE3 are the parameter
  \<open>H\<close>, one function from byte strings to byte strings per algorithm.
\<close>

section \<open>The chain\<close>

datatype apc_hash_algo = Sha256 | Blake3

type_synonym block_hasher = "apc_hash_algo \<Rightarrow> byte list \<Rightarrow> byte list"

definition DEFAULT_APC_BLOCK_SIZE :: nat where
  "DEFAULT_APC_BLOCK_SIZE = 16"

definition ZERO_HASH :: "byte list" where
  "ZERO_HASH = replicate 32 0"

definition APC_BLOCK_DOMAIN :: "byte list" where
  "APC_BLOCK_DOMAIN = as_bytes ''mlxcel:apc:block:v1''"

definition block_input :: "byte list \<Rightarrow> int list \<Rightarrow> byte list \<Rightarrow> byte list" where
  "block_input parent toks extra =
     APC_BLOCK_DOMAIN @ parent @ to_le_bytes 8 (int (length toks)) @ concat (map (to_le_bytes 4) toks) @ extra"

definition hash_block :: "block_hasher \<Rightarrow> apc_hash_algo \<Rightarrow> byte list \<Rightarrow> int list \<Rightarrow> byte list \<Rightarrow> byte list" where
  "hash_block H algo parent toks extra = H algo (block_input parent toks extra)"

record block_hash_chain =
  hashes :: "byte list list"
  chain_block_size :: nat
  token_count :: nat
  chain_algo :: apc_hash_algo

text \<open>The loop over the block indices, with the running parent hash.\<close>

fun chain_loop :: "block_hasher \<Rightarrow> int list \<Rightarrow> nat \<Rightarrow> apc_hash_algo \<Rightarrow> byte list \<Rightarrow> nat list \<Rightarrow> byte list \<Rightarrow> byte list list" where
  "chain_loop H toks bs algo extra [] parent = []"
| "chain_loop H toks bs algo extra (i # is) parent =
     (let start = i * bs; stop = min ((i + 1) * bs) (length toks);
          h = hash_block H algo parent (drop start (take stop toks)) extra
      in h # chain_loop H toks bs algo extra is h)"

definition chain_compute :: "block_hasher \<Rightarrow> int list \<Rightarrow> nat \<Rightarrow> apc_hash_algo \<Rightarrow> byte list \<Rightarrow> block_hash_chain" where
  "chain_compute H toks block_size algo extra =
     (let bs = (if block_size = 0 then DEFAULT_APC_BLOCK_SIZE else block_size);
          block_count = div_ceil (length toks) bs
      in \<lparr>hashes = chain_loop H toks bs algo extra [0..<block_count] ZERO_HASH, chain_block_size = bs,
          token_count = length toks, chain_algo = algo\<rparr>)"

definition chain_len :: "block_hash_chain \<Rightarrow> nat" where
  "chain_len c = length (hashes c)"

definition full_blocks :: "block_hash_chain \<Rightarrow> nat" where
  "full_blocks c = token_count c div chain_block_size c"

section \<open>The lookup-time check\<close>

definition apc_consistent_prefix_len ::
  "block_hasher \<Rightarrow> int list \<Rightarrow> byte list list \<Rightarrow> nat \<Rightarrow> apc_hash_algo \<Rightarrow> byte list \<Rightarrow> nat \<Rightarrow> nat" where
  "apc_consistent_prefix_len H request_tokens candidate_hashes block_size algo extra matched_len =
     (if block_size = 0 \<or> matched_len < block_size then 0
      else let coverable = matched_len div block_size in
        if coverable = 0 then 0
        else let coverable_blocks = min coverable (length candidate_hashes) in
          if coverable_blocks = 0 then 0
          else let cap_tokens = min (coverable_blocks * block_size) (length request_tokens);
                   request_chain = chain_compute H (take cap_tokens request_tokens) block_size algo extra;
                   upper = min coverable_blocks (length (hashes request_chain));
                   consistent_blocks = length (takeWhile (\<lambda>(req, cand). req = cand)
                                                 (take upper (zip (hashes request_chain) candidate_hashes)))
               in consistent_blocks * block_size)"

section \<open>Chains by recursion on the tokens\<close>

text \<open>The chain as a recursion that consumes one block at a time, with the byte strings it hashes.\<close>

function chain_from :: "block_hasher \<Rightarrow> nat \<Rightarrow> apc_hash_algo \<Rightarrow> byte list \<Rightarrow> byte list \<Rightarrow> int list \<Rightarrow> byte list list" where
  "chain_from H bs algo extra parent toks =
     (if toks = [] \<or> bs = 0 then []
      else let h = hash_block H algo parent (take bs toks) extra
        in h # chain_from H bs algo extra h (drop bs toks))"
  by pat_completeness auto
termination by (relation "measure (\<lambda>(_, _, _, _, _, toks). length toks)") auto

declare chain_from.simps [simp del]

function inputs_from :: "block_hasher \<Rightarrow> nat \<Rightarrow> apc_hash_algo \<Rightarrow> byte list \<Rightarrow> byte list \<Rightarrow> int list \<Rightarrow> byte list list" where
  "inputs_from H bs algo extra parent toks =
     (if toks = [] \<or> bs = 0 then []
      else block_input parent (take bs toks) extra
           # inputs_from H bs algo extra (hash_block H algo parent (take bs toks) extra) (drop bs toks))"
  by pat_completeness auto
termination by (relation "measure (\<lambda>(_, _, _, _, _, toks). length toks)") auto

declare inputs_from.simps [simp del]

lemma div_ceil_step: "0 < bs \<Longrightarrow> n \<noteq> 0 \<Longrightarrow> div_ceil n bs = Suc (div_ceil (n - bs) bs)"
proof (rule antisym)
  assume a: "0 < bs" "n \<noteq> 0"
  show "div_ceil n bs \<le> Suc (div_ceil (n - bs) bs)"
    unfolding div_ceil_le_iff [OF a(1)] using div_ceil_covers [OF a(1), of "n - bs"] by simp
  obtain k where k: "div_ceil n bs = Suc k" using a div_ceil_le_iff [of bs n 0] by (cases "div_ceil n bs") auto
  then have "n \<le> Suc k * bs" using div_ceil_le_iff [OF a(1), of n "Suc k"] by simp
  then have "div_ceil (n - bs) bs \<le> k" unfolding div_ceil_le_iff [OF a(1)] by simp
  then show "Suc (div_ceil (n - bs) bs) \<le> div_ceil n bs" using k by simp
qed

lemma length_chain_from: "0 < bs \<Longrightarrow> length (chain_from H bs algo extra parent toks) = div_ceil (length toks) bs"
proof (induction H bs algo extra parent toks rule: chain_from.induct)
  case (1 H bs algo extra parent toks)
  show ?case
  proof (cases "toks = []")
    case True
    then show ?thesis by (simp add: chain_from.simps)
  next
    case False
    then show ?thesis using 1 div_ceil_step [of bs "length toks"] by (simp add: chain_from.simps [of H bs algo extra parent toks] Let_def)
  qed
qed

lemma chain_loop_eq:
  assumes "0 < bs" "i \<le> div_ceil (length toks) bs"
  shows "chain_loop H toks bs algo extra [i..<div_ceil (length toks) bs] parent = chain_from H bs algo extra parent (drop (i * bs) toks)"
  using assms(2)
proof (induction "div_ceil (length toks) bs - i" arbitrary: i parent)
  case 0
  then have "length toks \<le> i * bs" using div_ceil_covers [OF assms(1), of "length toks"] by simp
  then show ?case using 0 by (simp add: chain_from.simps)
next
  case (Suc n)
  let ?m = "div_ceil (length toks) bs"
  have i: "i < ?m" using Suc.hyps(2) by simp
  then have "\<not> length toks \<le> i * bs" using div_ceil_le_iff [OF assms(1), of "length toks" i] by simp
  then have ne: "drop (i * bs) toks \<noteq> []" by simp
  have blk: "drop (i * bs) (take (min ((i + 1) * bs) (length toks)) toks) = take bs (drop (i * bs) toks)"
    by (simp add: drop_take min_def)
  have "n = ?m - Suc i" using Suc.hyps(2) by simp
  from Suc.hyps(1) [OF this] i have ih: "chain_loop H toks bs algo extra [Suc i..<?m] h = chain_from H bs algo extra h (drop (Suc i * bs) toks)"
    for h by simp
  have "[i..<?m] = i # [Suc i..<?m]" using i by (rule upt_conv_Cons)
  then show ?case using ne assms(1) blk ih
    by (simp add: chain_from.simps [of H bs algo extra parent "drop (i * bs) toks"] Let_def add.commute)
qed

lemma chain_compute_hashes:
  "0 < bs \<Longrightarrow> hashes (chain_compute H toks bs algo extra) = chain_from H bs algo extra ZERO_HASH toks"
  using chain_loop_eq [of bs 0 toks H algo extra ZERO_HASH] by (simp add: chain_compute_def Let_def)

text \<open>The first \<open>k\<close> hashes depend on the first \<open>k\<close> blocks only.\<close>

lemma take_chain_from:
  assumes "0 < bs" "k * bs \<le> length toks"
  shows "take k (chain_from H bs algo extra parent toks) = chain_from H bs algo extra parent (take (k * bs) toks)"
  using assms(2)
proof (induction k arbitrary: parent toks)
  case 0
  then show ?case by (simp add: chain_from.simps)
next
  case (Suc k)
  then have ne: "toks \<noteq> []" "take (Suc k * bs) toks \<noteq> []" and le: "k * bs \<le> length (drop bs toks)"
    using assms(1) by auto
  have "take bs (take (Suc k * bs) toks) = take bs toks" "drop bs (take (Suc k * bs) toks) = take (k * bs) (drop bs toks)"
    by (simp_all add: min_def take_drop add.commute)
  then show ?case
    using Suc.IH [OF le] ne assms(1) chain_from.simps [of H bs algo extra parent toks]
      chain_from.simps [of H bs algo extra parent "take (Suc k * bs) toks"] by (simp add: Let_def)
qed

section \<open>Agreement of two chains\<close>

lemma length_concat_tokens: "length (concat (map (to_le_bytes 4) xs)) = 4 * length xs"
  by (induction xs) auto

lemma block_input_inject:
  assumes "length p = length q" "length e = length e'" "length xs < 2 ^ 64" "length ys < 2 ^ 64"
    "list_all i32_range xs" "list_all i32_range ys"
  shows "block_input p xs e = block_input q ys e' \<longleftrightarrow> p = q \<and> xs = ys \<and> e = e'"
proof
  assume "block_input p xs e = block_input q ys e'"
  then have 1: "p = q" "to_le_bytes 8 (int (length xs)) = to_le_bytes 8 (int (length ys))"
    and 2: "concat (map (to_le_bytes 4) xs) @ e = concat (map (to_le_bytes 4) ys) @ e'"
    using assms(1) by (simp_all add: block_input_def)
  have len: "length xs = length ys" using 1(2) to_le_bytes_u64 [OF assms(3,4)] by simp
  then show "p = q \<and> xs = ys \<and> e = e'"
    using 1(1) 2 concat_tokens_inject [OF len assms(5,6)] length_concat_tokens [of xs] length_concat_tokens [of ys] by simp
qed simp

definition no_collision :: "block_hasher \<Rightarrow> apc_hash_algo \<Rightarrow> byte list set \<Rightarrow> byte list set \<Rightarrow> bool" where
  "no_collision H algo A B \<longleftrightarrow> (\<forall>x\<in>A. \<forall>y\<in>B. H algo x = H algo y \<longrightarrow> x = y)"

definition agreement :: "byte list list \<Rightarrow> byte list list \<Rightarrow> nat" where
  "agreement xs ys = length (takeWhile (\<lambda>(x, y). x = y) (zip xs ys))"

lemma agreement_Cons: "agreement (x # xs) (y # ys) = (if x = y then Suc (agreement xs ys) else 0)"
  by (simp add: agreement_def)

lemma agreement_Nil [simp]: "agreement [] ys = 0" "agreement xs [] = 0"
  by (simp_all add: agreement_def)

lemma agreement_le: "agreement xs ys \<le> length xs" "agreement xs ys \<le> length ys"
  using length_takeWhile_le [of "\<lambda>(x, y). x = y" "zip xs ys"] by (simp_all add: agreement_def)

lemma agreement_take: "k \<le> length ys \<Longrightarrow> agreement (take k ys) ys = k"
proof (induction ys arbitrary: k)
  case (Cons y ys)
  then show ?case by (cases k) (simp_all add: agreement_Cons)
qed simp

lemma agreement_sound:
  assumes "0 < bs" "bs < 2 ^ 64" "\<And>x. length (H algo x) = 32" "length extra = length extra'" "length p = 32" "length q = 32"
    "no_collision H algo (set (inputs_from H bs algo extra p xs)) (set (inputs_from H bs algo extra' q ys))"
    "list_all i32_range xs" "list_all i32_range ys"
  defines "c \<equiv> agreement (chain_from H bs algo extra p xs) (chain_from H bs algo extra' q ys)"
  shows "take (c * bs) xs = take (c * bs) ys \<and> (0 < c \<longrightarrow> p = q \<and> extra = extra')"
  using assms(5-9) unfolding c_def
proof (induction "length xs" arbitrary: p q xs ys rule: less_induct)
  case less
  show ?case
  proof (cases "xs = [] \<or> ys = []")
    case True
    then show ?thesis by (auto simp: chain_from.simps)
  next
    case False
    let ?X = "take bs xs" and ?Y = "take bs ys"
    let ?h = "hash_block H algo p ?X extra" and ?g = "hash_block H algo q ?Y extra'"
    have cx: "chain_from H bs algo extra p xs = ?h # chain_from H bs algo extra ?h (drop bs xs)"
      and cy: "chain_from H bs algo extra' q ys = ?g # chain_from H bs algo extra' ?g (drop bs ys)"
      and ix: "inputs_from H bs algo extra p xs = block_input p ?X extra # inputs_from H bs algo extra ?h (drop bs xs)"
      and iy: "inputs_from H bs algo extra' q ys = block_input q ?Y extra' # inputs_from H bs algo extra' ?g (drop bs ys)"
      using False assms(1) by (simp_all add: chain_from.simps [of H bs algo _ _ xs] chain_from.simps [of H bs algo _ _ ys]
          inputs_from.simps [of H bs algo _ _ xs] inputs_from.simps [of H bs algo _ _ ys] Let_def)
    show ?thesis
    proof (cases "?h = ?g")
      case False
      then show ?thesis unfolding cx cy agreement_Cons by simp
    next
      case True
      have "block_input p ?X extra = block_input q ?Y extra'"
        using True less.prems(3) unfolding no_collision_def ix iy hash_block_def by simp
      moreover have "list_all i32_range ?X" "list_all i32_range ?Y" "length ?X < 2 ^ 64" "length ?Y < 2 ^ 64"
        using less.prems(4,5) assms(2) by (auto simp: list_all_iff dest: in_set_takeD)
      ultimately have eq: "p = q" "?X = ?Y" "extra = extra'"
        using block_input_inject [of p q extra extra' ?X ?Y] less.prems(1,2) assms(4) by auto
      let ?c = "agreement (chain_from H bs algo extra ?h (drop bs xs)) (chain_from H bs algo extra' ?g (drop bs ys))"
      have "take (?c * bs) (drop bs xs) = take (?c * bs) (drop bs ys)"
      proof (rule less.hyps [THEN conjunct1])
        show "length (drop bs xs) < length xs" using \<open>\<not> (xs = [] \<or> ys = [])\<close> assms(1) by simp
        show "length ?h = 32" "length ?g = 32" by (simp_all add: hash_block_def assms(3))
        show "no_collision H algo (set (inputs_from H bs algo extra ?h (drop bs xs))) (set (inputs_from H bs algo extra' ?g (drop bs ys)))"
          using less.prems(3) unfolding no_collision_def ix iy by simp
        show "list_all i32_range (drop bs xs)" "list_all i32_range (drop bs ys)"
          using less.prems(4,5) by (auto simp: list_all_iff dest: in_set_dropD)
      qed
      then have "take (Suc ?c * bs) xs = take (Suc ?c * bs) ys"
        using eq(2) by (simp add: take_add)
      then show ?thesis unfolding cx cy agreement_Cons using True eq by simp
    qed
  qed
qed

lemma inputs_from_take:
  assumes "0 < bs"
  shows "set (inputs_from H bs algo extra parent (take (k * bs) toks)) \<subseteq> set (inputs_from H bs algo extra parent toks)"
proof (induction k arbitrary: parent toks)
  case 0
  then show ?case by (simp add: inputs_from.simps)
next
  case (Suc k)
  show ?case
  proof (cases "toks = []")
    case False
    define T where "T = take (Suc k * bs) toks"
    have T: "take bs T = take bs toks" "drop bs T = take (k * bs) (drop bs toks)" "T \<noteq> []"
      using False assms by (simp_all add: T_def min_def take_drop add.commute)
    show ?thesis unfolding T_def [symmetric]
      using Suc.IH [of "hash_block H algo parent (take bs toks) extra" "drop bs toks"] False assms
      by (auto simp: T inputs_from.simps [of H bs algo extra parent toks] inputs_from.simps [of H bs algo extra parent T])
  qed simp
qed

text \<open>The check compares the first blocks of the two chains.\<close>

lemma apc_consistent_prefix_len_eq:
  fixes cand :: "byte list list"
  assumes "0 < bs" "m \<le> length req"
  defines "k \<equiv> min (m div bs) (length cand)"
  shows "apc_consistent_prefix_len H req cand bs algo extra m
    = agreement (chain_from H bs algo extra ZERO_HASH (take (k * bs) req)) cand * bs"
proof -
  have kb: "k * bs \<le> m" by (metis k_def min.cobounded1 div_times_less_eq_dividend mult_le_mono1 order.trans)
  have cap: "min (k * bs) (length req) = k * bs" using kb assms(2) by simp
  have len: "length (chain_from H bs algo extra ZERO_HASH (take (k * bs) req)) = k"
    using kb assms(1,2) div_ceil_step by (simp add: length_chain_from div_ceil_def)
  show ?thesis
  proof (cases "k = 0")
    case True
    then show ?thesis using assms(1)
      by (auto simp: apc_consistent_prefix_len_def Let_def k_def chain_from.simps)
  next
    case False
    then have nz: "\<not> m < bs" "m div bs \<noteq> 0" using assms(1) by (auto simp: k_def)
    have "take k (zip (chain_from H bs algo extra ZERO_HASH (take (k * bs) req)) cand)
      = zip (chain_from H bs algo extra ZERO_HASH (take (k * bs) req)) cand"
      using len by (simp add: k_def)
    then show ?thesis using False nz assms(1) cap len
      by (simp add: apc_consistent_prefix_len_def Let_def k_def [symmetric] chain_compute_hashes agreement_def)
  qed
qed

section \<open>Properties\<close>

definition chain_inputs :: "block_hasher \<Rightarrow> nat \<Rightarrow> apc_hash_algo \<Rightarrow> byte list \<Rightarrow> int list \<Rightarrow> byte list set" where
  "chain_inputs H bs algo extra toks = set (inputs_from H bs algo extra ZERO_HASH toks)"

text \<open>C24: the block-hash check never lets an entry be adopted past a divergence. Let an entry's chain have been computed
  over \<open>cand\<close> with the multimodal digest \<open>extra'\<close>. If no two of the blocks hashed for the request and for the
  entry collide, the length the check returns is a multiple of the block size, at most the length claimed by
  the matcher, and the request agrees with the entry on that many tokens; if it is positive, the multimodal
  digests agree too.\<close>

theorem apc_check_is_sound:
  fixes H :: block_hasher and extra extra' :: "byte list"
  assumes "0 < bs" "bs < 2 ^ 64" "m \<le> length req"
    and out: "\<forall>x. length (H algo x) = 32" and ex: "length extra = length extra'"
    and i32: "list_all i32_range req" "list_all i32_range cand"
    and nc: "no_collision H algo (chain_inputs H bs algo extra req) (chain_inputs H bs algo extra' cand)"
  defines "n \<equiv> apc_consistent_prefix_len H req (hashes (chain_compute H cand bs algo extra')) bs algo extra m"
  shows "bs dvd n \<and> n \<le> m \<and> take n req = take n cand \<and> (0 < n \<longrightarrow> extra = extra')"
proof -
  let ?cand = "chain_from H bs algo extra' ZERO_HASH cand"
  define k where "k = min (m div bs) (length ?cand)"
  let ?req = "take (k * bs) req"
  define c where "c = agreement (chain_from H bs algo extra ZERO_HASH ?req) ?cand"
  have n: "n = c * bs"
    using apc_consistent_prefix_len_eq [OF assms(1,3), of H ?cand algo extra]
    by (simp add: n_def c_def k_def chain_compute_hashes [OF assms(1)])
  have "no_collision H algo (set (inputs_from H bs algo extra ZERO_HASH ?req)) (set (inputs_from H bs algo extra' ZERO_HASH cand))"
    using nc inputs_from_take [OF assms(1), of H algo extra ZERO_HASH k req]
    unfolding no_collision_def chain_inputs_def by blast
  moreover have "list_all i32_range ?req" using i32(1) by (auto simp: list_all_iff dest: in_set_takeD)
  ultimately have s: "take (c * bs) ?req = take (c * bs) cand \<and> (0 < c \<longrightarrow> extra = extra')"
    using agreement_sound [OF assms(1,2), where H = H and algo = algo and extra = extra and extra' = extra' and p = ZERO_HASH
        and q = ZERO_HASH and xs = ?req and ys = cand] out ex i32(2) by (simp add: c_def ZERO_HASH_def)
  have "k * bs \<le> m" by (metis k_def min.cobounded1 div_times_less_eq_dividend mult_le_mono1 order.trans)
  moreover have ck: "c \<le> k"
    using agreement_le(1) [of "chain_from H bs algo extra ZERO_HASH ?req" ?cand] calculation assms(1,3)
    by (simp add: c_def length_chain_from div_ceil_def)
  moreover have cb: "c * bs \<le> k * bs" using ck by (rule mult_le_mono1)
  ultimately have "n \<le> m" unfolding n by (metis order.trans)
  moreover have "take (c * bs) ?req = take n req" unfolding n using cb by (simp add: min_absorb1 take_take del: mult_le_cancel2)
  ultimately show ?thesis using s n assms(1) by simp
qed

definition demo_hasher :: block_hasher where
  "demo_hasher _ x = take 32 (drop 59 x @ replicate 32 0)"

lemma demo_hasher_32: "length (demo_hasher algo x) = 32"
  by (simp add: demo_hasher_def)

lemma demo_inputs:
  "chain_inputs demo_hasher 1 Sha256 (replicate 32 0) [5, 6] = {block_input ZERO_HASH [5] (replicate 32 0),
     block_input (demo_hasher Sha256 (block_input ZERO_HASH [5] (replicate 32 0))) [6] (replicate 32 0)}"
  "chain_inputs demo_hasher 1 Sha256 (replicate 32 0) [5, 7] = {block_input ZERO_HASH [5] (replicate 32 0),
     block_input (demo_hasher Sha256 (block_input ZERO_HASH [5] (replicate 32 0))) [7] (replicate 32 0)}"
  by (simp_all add: chain_inputs_def inputs_from.simps hash_block_def)

lemma demo_hash_token:
  "length p = 32 \<Longrightarrow> demo_hasher a (block_input p [t] (replicate 32 0)) = to_le_bytes 4 t @ replicate 28 0"
  by (simp add: demo_hasher_def block_input_def APC_BLOCK_DOMAIN_def numeral_eq_Suc)

theorem apc_check_is_sound_witness:
  "let n = apc_consistent_prefix_len demo_hasher [5, 6] (hashes (chain_compute demo_hasher [5, 7] 1 Sha256 (replicate 32 0)))
             1 Sha256 (replicate 32 0) 2
   in n = 1 \<and> take n [5, 6 :: int] = take n [5, 7]"
proof -
  let ?e = "replicate 32 (0 :: byte)"
  have "no_collision demo_hasher Sha256 (chain_inputs demo_hasher 1 Sha256 ?e [5, 6]) (chain_inputs demo_hasher 1 Sha256 ?e [5, 7])"
    unfolding no_collision_def demo_inputs by (simp add: demo_hash_token ZERO_HASH_def to_le_bytes_i32 i32_range_def)
  from apc_check_is_sound [of 1 2 "[5, 6]" demo_hasher Sha256 ?e ?e "[5, 7]", OF _ _ _ _ _ _ _ this]
  have s: "let n = apc_consistent_prefix_len demo_hasher [5, 6] (hashes (chain_compute demo_hasher [5, 7] 1 Sha256 ?e)) 1 Sha256 ?e 2
    in n \<le> 2 \<and> take n [5, 6 :: int] = take n [5, 7]"
    by (simp add: demo_hasher_32 i32_range_def Let_def)
  have "apc_consistent_prefix_len demo_hasher [5, 6] (hashes (chain_compute demo_hasher [5, 7] 1 Sha256 ?e)) 1 Sha256 ?e 2 = 1"
    by (simp add: apc_consistent_prefix_len_def chain_compute_def div_ceil_def hash_block_def demo_hash_token ZERO_HASH_def
        Let_def to_le_bytes_i32 i32_range_def upt_rec)
  then show ?thesis using s by simp
qed

text \<open>On a true match the check rounds down to a block boundary: a fully agreeing match of 20 tokens with blocks of 16
  yields 16.\<close>

lemma apc_check_floors:
  assumes "0 < bs" "m \<le> length req" "m \<le> length cand" "take m req = take m cand"
  shows "apc_consistent_prefix_len H req (hashes (chain_compute H cand bs algo extra)) bs algo extra m = m div bs * bs"
proof -
  let ?cand = "chain_from H bs algo extra ZERO_HASH cand"
  define k where "k = min (m div bs) (length ?cand)"
  have "m div bs \<le> length ?cand"
    using assms(1,3) by (simp add: length_chain_from div_ceil_def div_le_mono le_SucI)
  then have k: "k = m div bs" by (simp add: k_def)
  have kb: "k * bs \<le> m" using k by simp
  have "take (k * bs) req = take (k * bs) cand"
    using arg_cong [OF assms(4), of "take (k * bs)"] kb by (simp add: min_absorb1)
  then have "chain_from H bs algo extra ZERO_HASH (take (k * bs) req) = take k ?cand"
    using take_chain_from [OF assms(1), of k cand H algo extra ZERO_HASH] kb assms(3) by simp
  moreover have "agreement (take k ?cand) ?cand = k"
    using agreement_take [of k ?cand] by (simp add: k_def)
  ultimately show ?thesis
    using apc_consistent_prefix_len_eq [OF assms(1,2), of H ?cand algo extra] k
    by (simp add: k_def [symmetric] chain_compute_hashes [OF assms(1)])
qed

end
