(* ===== verification/Prompt_Store.thy ===== *)
theory Prompt_Store
  imports Block_Hash Radix_Trie Pool_Handoff
begin

text \<open>
  The store of detached KV caches between requests: \<open>src/src/server/prompt_cache/{store,lookup,entry,policy,types}.rs\<close>.

  \<open>Inner\<close> is the record \<open>prompt_store\<close>; each operation is a function on it. The digest of a key is computed by the
  parameter \<open>blake3\<close> (bytes to digests) and the block-hash chains by \<open>H\<close>. Instants and durations are natural
  numbers; an operation that reads the clock takes the instants it reads as arguments. An \<open>Arc<CacheEntry>\<close> handed
  out by a lookup is the digest with the entry; the one thing a holder can do to it, \<open>take_detached\<close>, is the
  operation \<open>take_detached\<close> below. Byte counts are machine words that saturate where the source saturates.
  The metrics sink and lock poisoning have no counterpart.
\<close>

section \<open>Data\<close>

record apc_config =
  apc_on :: bool
  apc_block_size :: nat
  apc_num_blocks :: "nat option"
  apc_hash :: apc_hash_algo

record prompt_cache_config =
  enabled :: bool
  capacity_bytes :: nat
  max_entries :: nat
  ttl :: nat
  min_prefix_tokens :: nat
  apc :: apc_config
  snapshot_capacity_bytes :: nat
  snapshot_max_entries :: nat
  snapshot_ttl :: nat

datatype 'a detached_kv_set = Dense "'a detached_cache_set" | Paged "'a detached_paged_cache_set"

record 'a cache_entry =
  e_tokens :: "int list"
  e_detached :: "'a detached_kv_set option"
  e_last_used :: nat
  e_size_bytes :: nat
  apc_block_hashes :: "byte list list option"

record 'a entry_slot =
  entry :: "'a cache_entry"
  bucket :: bucket_key
  sessionless :: sessionless_bucket_key

record 's model_snapshot_entry =
  s_tokens :: "int list"
  s_snapshot :: 's
  s_last_used :: nat
  s_size_bytes :: nat

record 's snapshot_slot =
  s_entry :: "'s model_snapshot_entry"
  s_bucket :: bucket_key
  s_sessionless :: sessionless_bucket_key

record ('a, 'd, 's) prompt_store =
  config :: prompt_cache_config
  store_entries :: "('d, 'a entry_slot) hmap"
  tries :: "(sessionless_bucket_key, 'd trie_node) hmap"
  snapshots :: "('d, 's snapshot_slot) hmap"
  total_bytes :: nat
  snapshot_bytes :: nat
  inserts :: nat
  rejections_oversized :: nat
  lookups :: nat
  hits :: nat
  evictions_lru :: nat
  evictions_ttl :: nat
  snapshot_inserts :: nat
  snapshot_rejections_oversized :: nat
  snapshot_lookups :: nat
  snapshot_hits :: nat
  snapshot_evictions_lru :: nat
  snapshot_evictions_ttl :: nat
  pending_paged_releases :: "'a detached_kv_set list"

datatype insert_error = Disabled | PrefixTooShort nat nat | OversizedEntry nat nat

section \<open>Configuration and entries\<close>

definition apc_is_enabled :: "apc_config \<Rightarrow> bool" where
  "apc_is_enabled a \<longleftrightarrow> apc_on a \<and> 0 < apc_block_size a"

definition apc_default :: apc_config where
  "apc_default = \<lparr>apc_on = False, apc_block_size = DEFAULT_APC_BLOCK_SIZE, apc_num_blocks = None, apc_hash = Sha256\<rparr>"

definition is_enabled :: "prompt_cache_config \<Rightarrow> bool" where
  "is_enabled c \<longleftrightarrow> enabled c \<and> 0 < capacity_bytes c \<and> 0 < max_entries c"

definition apc_enabled :: "prompt_cache_config \<Rightarrow> bool" where
  "apc_enabled c \<longleftrightarrow> is_enabled c \<and> apc_is_enabled (apc c)"

definition config_new :: "bool \<Rightarrow> nat \<Rightarrow> nat \<Rightarrow> nat \<Rightarrow> nat \<Rightarrow> prompt_cache_config" where
  "config_new en cap mx t mn =
     \<lparr>enabled = en, capacity_bytes = cap, max_entries = mx, ttl = t, min_prefix_tokens = mn, apc = apc_default,
      snapshot_capacity_bytes = 2 * 1024 * 1024 * 1024 div 4, snapshot_max_entries = 1024 * 4,
      snapshot_ttl = 3600 * 2\<rparr>"

fun kv_set_nbytes :: "'a mlx_ffi \<Rightarrow> 'a detached_kv_set \<Rightarrow> nat" where
  "kv_set_nbytes f (Dense d) = set_nbytes f d"
| "kv_set_nbytes f (Paged p) = dp_nbytes f p"

definition entry_new :: "'a mlx_ffi \<Rightarrow> nat \<Rightarrow> int list \<Rightarrow> 'a detached_kv_set \<Rightarrow> 'a cache_entry" where
  "entry_new f now toks d =
     \<lparr>e_tokens = toks, e_detached = Some d, e_last_used = now, e_size_bytes = kv_set_nbytes f d, apc_block_hashes = None\<rparr>"

definition with_apc_block_hashes :: "'a cache_entry \<Rightarrow> byte list list \<Rightarrow> 'a cache_entry" where
  "with_apc_block_hashes e hs = e\<lparr>apc_block_hashes := Some hs\<rparr>"

definition has_detached :: "'a cache_entry \<Rightarrow> bool" where
  "has_detached e \<longleftrightarrow> e_detached e \<noteq> None"

definition touch :: "nat \<Rightarrow> 'a cache_entry \<Rightarrow> 'a cache_entry" where
  "touch now e = e\<lparr>e_last_used := now\<rparr>"

section \<open>Removal\<close>

definition usize_max :: nat where
  "usize_max = 2 ^ 64 - 1"

definition sat_add :: "nat \<Rightarrow> nat \<Rightarrow> nat" where
  "sat_add a b = min (a + b) usize_max"

definition store_new :: "prompt_cache_config \<Rightarrow> ('a, 'd, 's) prompt_store" where
  "store_new c = \<lparr>config = c, store_entries = [], tries = [], snapshots = [], total_bytes = 0, snapshot_bytes = 0,
     inserts = 0, rejections_oversized = 0, lookups = 0, hits = 0, evictions_lru = 0, evictions_ttl = 0,
     snapshot_inserts = 0, snapshot_rejections_oversized = 0, snapshot_lookups = 0, snapshot_hits = 0,
     snapshot_evictions_lru = 0, snapshot_evictions_ttl = 0, pending_paged_releases = []\<rparr>"

definition stash_paged_pins_for_release :: "('a, 'd, 's) prompt_store \<Rightarrow> 'a cache_entry \<Rightarrow> ('a, 'd, 's) prompt_store" where
  "stash_paged_pins_for_release st e =
     (case e_detached e of
        Some (Paged p) \<Rightarrow> st\<lparr>pending_paged_releases := pending_paged_releases st @ [Paged p]\<rparr>
      | _ \<Rightarrow> st)"

text \<open>The entry that is returned has been drained by the stash.\<close>

definition remove_entry ::
  "('a, 'd, 's) prompt_store \<Rightarrow> 'd \<Rightarrow> (bucket_key \<times> 'a cache_entry) option \<times> ('a, 'd, 's) prompt_store" where
  "remove_entry st dg =
     (case hm_get (store_entries st) dg of
        None \<Rightarrow> (None, st)
      | Some slot \<Rightarrow>
          let st1 = st\<lparr>store_entries := hm_remove dg (store_entries st),
                       total_bytes := total_bytes st - e_size_bytes (entry slot)\<rparr>;
              st2 = stash_paged_pins_for_release st1 (entry slot);
              st3 = (case hm_get (tries st2) (sessionless slot) of
                       None \<Rightarrow> st2
                     | Some t \<Rightarrow>
                         let t' = snd (trie_remove t (e_tokens (entry slot)) dg)
                         in if trie_len t' = 0 then st2\<lparr>tries := hm_remove (sessionless slot) (tries st2)\<rparr>
                            else st2\<lparr>tries := hm_insert (sessionless slot) t' (tries st2)\<rparr>)
          in (Some (bucket slot, (entry slot)\<lparr>e_detached := None\<rparr>), st3))"

definition remove_snapshot ::
  "('a, 'd, 's) prompt_store \<Rightarrow> 'd \<Rightarrow> (bucket_key \<times> 's model_snapshot_entry) option \<times> ('a, 'd, 's) prompt_store" where
  "remove_snapshot st dg =
     (case hm_get (snapshots st) dg of
        None \<Rightarrow> (None, st)
      | Some slot \<Rightarrow>
          (Some (s_bucket slot, s_entry slot),
           st\<lparr>snapshots := hm_remove dg (snapshots st),
              snapshot_bytes := snapshot_bytes st - s_size_bytes (s_entry slot)\<rparr>))"

text \<open>The removal loop over collected digests: the bytes freed and how many digests were present.\<close>

fun remove_all :: "('st \<Rightarrow> 'd \<Rightarrow> ('b \<times> 'e) option \<times> 'st) \<Rightarrow> ('e \<Rightarrow> nat) \<Rightarrow> 'st \<Rightarrow> 'd list \<Rightarrow> nat \<times> nat \<times> 'st" where
  "remove_all rm sz st [] = (0, 0, st)"
| "remove_all rm sz st (dg # ds) =
     (case rm st dg of
        (r, st1) \<Rightarrow> (case remove_all rm sz st1 ds of
           (bytes, n, st2) \<Rightarrow> (case r of None \<Rightarrow> (bytes, n, st2) | Some (_, e) \<Rightarrow> (sz e + bytes, Suc n, st2))))"

abbreviation "remove_entries \<equiv> remove_all remove_entry e_size_bytes"

abbreviation "remove_snapshots \<equiv> remove_all remove_snapshot s_size_bytes"

definition sweep_ttl :: "('a, 'd, 's) prompt_store \<Rightarrow> nat \<Rightarrow> (nat \<times> nat) \<times> ('a, 'd, 's) prompt_store" where
  "sweep_ttl st now =
     (if ttl (config st) = 0 \<or> store_entries st = [] then ((0, 0), st)
      else let stale = map fst (filter (\<lambda>(_, slot). ttl (config st) \<le> now - e_last_used (entry slot)) (store_entries st))
        in case remove_entries st stale of
             (bytes, _, st1) \<Rightarrow>
               ((bytes, length stale), st1\<lparr>evictions_ttl := sat_add (evictions_ttl st1) (length stale)\<rparr>))"

definition sweep_snapshot_ttl :: "('a, 'd, 's) prompt_store \<Rightarrow> nat \<Rightarrow> (nat \<times> nat) \<times> ('a, 'd, 's) prompt_store" where
  "sweep_snapshot_ttl st now =
     (if snapshot_ttl (config st) = 0 \<or> snapshots st = [] then ((0, 0), st)
      else let stale = map fst (filter (\<lambda>(_, slot). snapshot_ttl (config st) \<le> now - s_last_used (s_entry slot)) (snapshots st))
        in case remove_snapshots st stale of
             (bytes, _, st1) \<Rightarrow>
               ((bytes, length stale), st1\<lparr>snapshot_evictions_ttl := sat_add (snapshot_evictions_ttl st1) (length stale)\<rparr>))"

definition sweep_drained :: "('a, 'd, 's) prompt_store \<Rightarrow> (nat \<times> nat) \<times> ('a, 'd, 's) prompt_store" where
  "sweep_drained st =
     (if store_entries st = [] then ((0, 0), st)
      else let drained = map fst (filter (\<lambda>(_, slot). \<not> has_detached (entry slot)) (store_entries st))
        in case remove_entries st drained of (bytes, _, st1) \<Rightarrow> ((bytes, length drained), st1))"

section \<open>Eviction\<close>

text \<open>\<open>Iterator::min_by_key\<close>: the first of the minimal elements.\<close>

definition min_by_key :: "('x \<Rightarrow> nat) \<Rightarrow> 'x list \<Rightarrow> 'x option" where
  "min_by_key f xs = (case xs of [] \<Rightarrow> None | x # ys \<Rightarrow> Some (foldl (\<lambda>m y. if f y < f m then y else m) x ys))"

definition evict_oldest :: "('a, 'd, 's) prompt_store \<Rightarrow> nat \<times> ('a, 'd, 's) prompt_store" where
  "evict_oldest st =
     (case min_by_key (\<lambda>(_, slot). e_last_used (entry slot)) (store_entries st) of
        Some (dg, _) \<Rightarrow>
          (case remove_entry st dg of
             (r, st1) \<Rightarrow>
               let freed = (case r of Some (_, e) \<Rightarrow> e_size_bytes e | None \<Rightarrow> 0)
               in (freed, if 0 < freed then st1\<lparr>evictions_lru := sat_add (evictions_lru st1) 1\<rparr> else st1))
      | None \<Rightarrow> (0, st))"

definition evict_oldest_snapshot :: "('a, 'd, 's) prompt_store \<Rightarrow> nat \<times> ('a, 'd, 's) prompt_store" where
  "evict_oldest_snapshot st =
     (case min_by_key (\<lambda>(_, slot). s_last_used (s_entry slot)) (snapshots st) of
        Some (dg, _) \<Rightarrow>
          (case remove_snapshot st dg of
             (Some (_, e), st1) \<Rightarrow>
               (s_size_bytes e, st1\<lparr>snapshot_evictions_lru := sat_add (snapshot_evictions_lru st1) 1\<rparr>)
           | (None, st1) \<Rightarrow> (0, st1))
      | None \<Rightarrow> (0, st))"

lemma min_by_key_in: "min_by_key f xs = Some x \<Longrightarrow> x \<in> set xs"
proof -
  have "foldl (\<lambda>m y. if f y < f m then y else m) x ys \<in> insert x (set ys)" for x ys
    by (induction ys arbitrary: x) auto
  then show "min_by_key f xs = Some x \<Longrightarrow> x \<in> set xs" by (fastforce simp: min_by_key_def split: list.splits)
qed

lemma store_entries_remove: "store_entries (snd (remove_entry st dg)) = hm_remove dg (store_entries st)"
  by (auto simp: remove_entry_def stash_paged_pins_for_release_def Let_def hm_remove_absent
      split: option.splits detached_kv_set.splits)

lemma snapshots_remove: "snapshots (snd (remove_snapshot st dg)) = hm_remove dg (snapshots st)"
  by (auto simp: remove_snapshot_def hm_remove_absent split: option.splits)

lemma length_hm_remove_less: "(k, v) \<in> set m \<Longrightarrow> length (hm_remove k m) < length m"
proof (induction m)
  case (Cons e m)
  have "length (hm_remove k m) \<le> length m" by (rule length_delete_le)
  then show ?case using Cons by auto
qed simp

lemma evict_oldest_length: "0 < fst (evict_oldest st) \<Longrightarrow> length (store_entries (snd (evict_oldest st))) < length (store_entries st)"
proof (cases "min_by_key (\<lambda>(_, slot). e_last_used (entry slot)) (store_entries st)")
  case (Some x)
  obtain dg slot where x: "x = (dg, slot)" by (cases x)
  have "(dg, slot) \<in> set (store_entries st)" using min_by_key_in [OF Some] x by simp
  moreover have "store_entries (snd (evict_oldest st)) = hm_remove dg (store_entries st)"
    using store_entries_remove [of st dg] Some x by (cases "remove_entry st dg") (simp add: evict_oldest_def Let_def)
  ultimately show ?thesis using length_hm_remove_less by metis
qed (simp add: evict_oldest_def)

lemma evict_oldest_snapshot_length:
  "0 < fst (evict_oldest_snapshot st) \<Longrightarrow> length (snapshots (snd (evict_oldest_snapshot st))) < length (snapshots st)"
proof (cases "min_by_key (\<lambda>(_, slot). s_last_used (s_entry slot)) (snapshots st)")
  case (Some x)
  obtain dg slot where x: "x = (dg, slot)" by (cases x)
  have "(dg, slot) \<in> set (snapshots st)" using min_by_key_in [OF Some] x by simp
  moreover have "snapshots (snd (evict_oldest_snapshot st)) = hm_remove dg (snapshots st)"
    using snapshots_remove [of st dg] Some x
    by (cases "remove_snapshot st dg") (auto simp: evict_oldest_snapshot_def split: option.splits)
  ultimately show ?thesis using length_hm_remove_less by metis
qed (simp add: evict_oldest_snapshot_def)

text \<open>\<open>while over { n = evict_oldest(); if n == 0 { break } freed += n }\<close>.\<close>

function evict_while :: "(('a, 'd, 's) prompt_store \<Rightarrow> bool) \<Rightarrow> nat \<Rightarrow> ('a, 'd, 's) prompt_store \<Rightarrow> nat \<times> ('a, 'd, 's) prompt_store" where
  "evict_while over freed st =
     (if over st then
        (if fst (evict_oldest st) = 0 then (freed, snd (evict_oldest st))
         else evict_while over (freed + fst (evict_oldest st)) (snd (evict_oldest st)))
      else (freed, st))"
  by pat_completeness auto
termination
  by (relation "measure (\<lambda>(_, _, st). length (store_entries st))") (auto simp: evict_oldest_length)

function evict_snapshots_while ::
  "(('a, 'd, 's) prompt_store \<Rightarrow> bool) \<Rightarrow> nat \<Rightarrow> ('a, 'd, 's) prompt_store \<Rightarrow> nat \<times> ('a, 'd, 's) prompt_store" where
  "evict_snapshots_while over freed st =
     (if over st then
        (if fst (evict_oldest_snapshot st) = 0 then (freed, snd (evict_oldest_snapshot st))
         else evict_snapshots_while over (freed + fst (evict_oldest_snapshot st)) (snd (evict_oldest_snapshot st)))
      else (freed, st))"
  by pat_completeness auto
termination
  by (relation "measure (\<lambda>(_, _, st). length (snapshots st))") (auto simp: evict_oldest_snapshot_length)

declare evict_while.simps [simp del] evict_snapshots_while.simps [simp del]

definition enforce_caps :: "('a, 'd, 's) prompt_store \<Rightarrow> nat \<times> ('a, 'd, 's) prompt_store" where
  "enforce_caps st =
     (case evict_while (\<lambda>s. max_entries (config s) < length (store_entries s)) 0 st of
        (freed, st1) \<Rightarrow> evict_while (\<lambda>s. capacity_bytes (config s) < total_bytes s) freed st1)"

definition enforce_snapshot_caps :: "('a, 'd, 's) prompt_store \<Rightarrow> nat \<times> ('a, 'd, 's) prompt_store" where
  "enforce_snapshot_caps st =
     (case evict_snapshots_while (\<lambda>s. snapshot_max_entries (config s) < length (snapshots s)) 0 st of
        (freed, st1) \<Rightarrow> evict_snapshots_while (\<lambda>s. snapshot_capacity_bytes (config s) < snapshot_bytes s) freed st1)"

section \<open>Insertion\<close>

definition trie_or_new :: "'d trie_node option \<Rightarrow> 'd trie_node" where
  "trie_or_new t = (case t of None \<Rightarrow> trie_new | Some x \<Rightarrow> x)"

definition insert_entry ::
  "block_hasher \<Rightarrow> (byte list \<Rightarrow> 'd) \<Rightarrow> ('a, 'd, 's) prompt_store \<Rightarrow> prompt_cache_key \<Rightarrow> 'a cache_entry
   \<Rightarrow> (insert_error + unit) \<times> ('a, 'd, 's) prompt_store" where
  "insert_entry H blake3 st key e =
     (let dg = key_digest blake3 key; entry_bytes = e_size_bytes e; c = config st;
          sl = sessionless_from_key key
      in if \<not> is_enabled c then (Inl Disabled, stash_paged_pins_for_release st e)
         else if effective_prefix_len key < min_prefix_tokens c
         then (Inl (PrefixTooShort (effective_prefix_len key) (min_prefix_tokens c)), stash_paged_pins_for_release st e)
         else if capacity_bytes c < entry_bytes
         then (Inl (OversizedEntry entry_bytes (capacity_bytes c)),
               stash_paged_pins_for_release (st\<lparr>rejections_oversized := sat_add (rejections_oversized st) 1\<rparr>) e)
         else
           let st1 = (case remove_entry st dg of
                        (Some _, s) \<Rightarrow> s\<lparr>evictions_lru := sat_add (evictions_lru s) 1\<rparr>
                      | (None, s) \<Rightarrow> s);
               e1 = (if apc_enabled c
                     then with_apc_block_hashes e
                            (hashes (chain_compute H (e_tokens e) (apc_block_size (apc c)) (apc_hash (apc c)) (mm_digest key)))
                     else e);
               slot = \<lparr>entry = e1, bucket = bucket_from_key key, sessionless = sl\<rparr>;
               st2 = st1\<lparr>total_bytes := sat_add (total_bytes st1) entry_bytes,
                         store_entries := hm_insert dg slot (store_entries st1),
                         tries := hm_insert sl (trie_insert (trie_or_new (hm_get (tries st1) sl)) (e_tokens e1) dg) (tries st1),
                         inserts := sat_add (inserts st1) 1\<rparr>
           in (Inr (), snd (enforce_caps st2)))"

definition insert_snapshot ::
  "(byte list \<Rightarrow> 'd) \<Rightarrow> ('a, 'd, 's) prompt_store \<Rightarrow> prompt_cache_key \<Rightarrow> 's model_snapshot_entry
   \<Rightarrow> (insert_error + unit) \<times> ('a, 'd, 's) prompt_store" where
  "insert_snapshot blake3 st key e =
     (let dg = key_digest blake3 key; entry_bytes = s_size_bytes e; c = config st
      in if \<not> is_enabled c then (Inl Disabled, st)
         else if effective_prefix_len key < min_prefix_tokens c
         then (Inl (PrefixTooShort (effective_prefix_len key) (min_prefix_tokens c)), st)
         else if snapshot_capacity_bytes c < entry_bytes
         then (Inl (OversizedEntry entry_bytes (snapshot_capacity_bytes c)),
               st\<lparr>snapshot_rejections_oversized := sat_add (snapshot_rejections_oversized st) 1\<rparr>)
         else
           let st1 = (case remove_snapshot st dg of
                        (Some _, s) \<Rightarrow> s\<lparr>snapshot_evictions_lru := sat_add (snapshot_evictions_lru s) 1\<rparr>
                      | (None, s) \<Rightarrow> s);
               slot = \<lparr>s_entry = e, s_bucket = bucket_from_key key, s_sessionless = sessionless_from_key key\<rparr>;
               st2 = st1\<lparr>snapshot_bytes := sat_add (snapshot_bytes st1) entry_bytes,
                         snapshots := hm_insert dg slot (snapshots st1),
                         snapshot_inserts := sat_add (snapshot_inserts st1) 1\<rparr>
           in (Inr (), snd (enforce_snapshot_caps st2)))"

section \<open>Candidate selection\<close>

record 'd best_candidate =
  c_digest :: 'd
  c_matched :: nat
  c_last_used :: nat

definition beats :: "'d best_candidate \<Rightarrow> 'd best_candidate \<Rightarrow> bool" where
  "beats a b = (if c_matched a \<noteq> c_matched b then c_matched b < c_matched a else c_last_used b < c_last_used a)"

definition offer :: "'d best_candidate option \<Rightarrow> 'd best_candidate \<Rightarrow> 'd best_candidate option" where
  "offer best c = (case best of None \<Rightarrow> Some c | Some x \<Rightarrow> if beats c x then Some c else Some x)"

definition same_session :: "bucket_key \<Rightarrow> prompt_cache_key \<Rightarrow> bool" where
  "same_session b key =
     (case (b_session_key b, session_key key) of (Some x, Some y) \<Rightarrow> x = y | (None, None) \<Rightarrow> True | _ \<Rightarrow> False)"

definition pick_tier :: "'d best_candidate option \<times> 'd best_candidate option \<Rightarrow> 'd best_candidate option" where
  "pick_tier tiers =
     (case tiers of
        (Some s, Some x) \<Rightarrow> if c_matched s < c_matched x then Some x else Some s
      | (Some s, None) \<Rightarrow> Some s
      | (None, Some x) \<Rightarrow> Some x
      | (None, None) \<Rightarrow> None)"

definition add_candidate ::
  "prompt_cache_key \<Rightarrow> 'd \<Rightarrow> 'a entry_slot \<Rightarrow> nat \<Rightarrow> 'd best_candidate option \<times> 'd best_candidate option
   \<Rightarrow> 'd best_candidate option \<times> 'd best_candidate option" where
  "add_candidate key dg slot matched tiers =
     (let c = \<lparr>c_digest = dg, c_matched = matched, c_last_used = e_last_used (entry slot)\<rparr>
      in if same_session (bucket slot) key then (offer (fst tiers) c, snd tiers) else (fst tiers, offer (snd tiers) c))"

definition visit_candidate ::
  "('d, 'a entry_slot) hmap \<Rightarrow> prompt_cache_key \<Rightarrow> int list \<Rightarrow> nat \<Rightarrow> bool \<Rightarrow> nat
   \<Rightarrow> 'd best_candidate option \<times> 'd best_candidate option \<Rightarrow> 'd digest_and_len
   \<Rightarrow> 'd best_candidate option \<times> 'd best_candidate option" where
  "visit_candidate slots key toks min_len apc_partial_allowed match_depth tiers dl =
     (case hm_get slots (digest dl) of
        None \<Rightarrow> tiers
      | Some slot \<Rightarrow>
          if \<not> has_detached (entry slot) then tiers
          else if length toks < token_len dl \<and> \<not> apc_partial_allowed then tiers
          else let matched = min match_depth (token_len dl)
            in if \<not> apc_partial_allowed \<and> matched \<noteq> token_len dl then tiers
               else if matched < min_len then tiers
               else add_candidate key (digest dl) slot matched tiers)"

definition select_best ::
  "('d, 'a entry_slot) hmap \<Rightarrow> 'd trie_node \<Rightarrow> prompt_cache_key \<Rightarrow> int list \<Rightarrow> nat \<Rightarrow> bool \<Rightarrow> 'd best_candidate option" where
  "select_best slots trie key toks min_len apc_partial_allowed =
     (case find_longest_prefix trie toks min_len of
        None \<Rightarrow> None
      | Some m \<Rightarrow> pick_tier (foldl (visit_candidate slots key toks min_len apc_partial_allowed (depth m)) (None, None) (candidates m)))"

definition scan_candidate ::
  "sessionless_bucket_key \<Rightarrow> prompt_cache_key \<Rightarrow> int list \<Rightarrow> nat \<Rightarrow> bool
   \<Rightarrow> 'd best_candidate option \<times> 'd best_candidate option \<Rightarrow> 'd \<times> 'a entry_slot
   \<Rightarrow> 'd best_candidate option \<times> 'd best_candidate option" where
  "scan_candidate sl key toks min_len apc_partial_allowed tiers kv =
     (case kv of (dg, slot) \<Rightarrow>
        let stored = e_tokens (entry slot); n = length stored in
        if sessionless slot \<noteq> sl \<or> \<not> has_detached (entry slot) then tiers
        else if n < min_len then tiers
        else if \<not> apc_partial_allowed \<and> (length toks < n \<or> stored \<noteq> take n toks) then tiers
        else let common = (if apc_partial_allowed then common_prefix_len stored toks else n)
          in if common < min_len then tiers else add_candidate key dg slot common tiers)"

definition select_best_by_scan ::
  "('d, 'a entry_slot) hmap \<Rightarrow> sessionless_bucket_key \<Rightarrow> prompt_cache_key \<Rightarrow> int list \<Rightarrow> nat \<Rightarrow> bool \<Rightarrow> 'd best_candidate option" where
  "select_best_by_scan slots sl key toks min_len apc_partial_allowed =
     pick_tier (foldl (scan_candidate sl key toks min_len apc_partial_allowed) (None, None) slots)"

section \<open>Lookup\<close>

text \<open>The three lock sections of \<open>lookup_longest_prefix\<close>: sweep, select, commit.\<close>

definition lookup_sweep :: "('a, 'd, 's) prompt_store \<Rightarrow> nat \<Rightarrow> ('a, 'd, 's) prompt_store" where
  "lookup_sweep st now = snd (sweep_ttl (snd (sweep_drained st)) now)"

definition lookup_select ::
  "('a, 'd, 's) prompt_store \<Rightarrow> prompt_cache_key \<Rightarrow> int list \<Rightarrow> 'd best_candidate option" where
  "lookup_select st key toks =
     (let c = config st; sl = sessionless_from_key key; min_len = min_prefix_tokens c in
      case hm_get (tries st) sl of
        None \<Rightarrow> None
      | Some t \<Rightarrow>
          (case select_best (store_entries st) t key toks min_len (apc_enabled c) of
             Some w \<Rightarrow> Some w
           | None \<Rightarrow> select_best_by_scan (store_entries st) sl key toks min_len (apc_enabled c)))"

definition lookup_commit ::
  "block_hasher \<Rightarrow> ('a, 'd, 's) prompt_store \<Rightarrow> prompt_cache_key \<Rightarrow> int list \<Rightarrow> nat \<Rightarrow> 'd best_candidate option
   \<Rightarrow> ('d \<times> 'a cache_entry \<times> nat) option \<times> ('a, 'd, 's) prompt_store" where
  "lookup_commit H st key toks now best =
     (let st1 = st\<lparr>lookups := sat_add (lookups st) 1\<rparr>; c = config st1 in
      case best of
        None \<Rightarrow> (None, st1)
      | Some w \<Rightarrow>
          (case hm_get (store_entries st1) (c_digest w) of
             None \<Rightarrow> (None, st1)
           | Some slot \<Rightarrow>
               let apc_matched =
                     (case (if apc_enabled c then apc_block_hashes (entry slot) else None) of
                        Some hs \<Rightarrow> apc_consistent_prefix_len H toks hs (apc_block_size (apc c)) (apc_hash (apc c))
                                     (mm_digest key) (c_matched w)
                      | None \<Rightarrow> c_matched w)
               in if apc_matched < min_prefix_tokens c then (None, st1)
                  else let e = touch now (entry slot)
                    in (Some (c_digest w, e, apc_matched),
                        st1\<lparr>hits := sat_add (hits st1) 1,
                            store_entries := hm_insert (c_digest w) (slot\<lparr>entry := e\<rparr>) (store_entries st1)\<rparr>)))"

definition lookup_longest_prefix ::
  "block_hasher \<Rightarrow> ('a, 'd, 's) prompt_store \<Rightarrow> prompt_cache_key \<Rightarrow> int list \<Rightarrow> nat \<Rightarrow> nat
   \<Rightarrow> ('d \<times> 'a cache_entry \<times> nat) option \<times> ('a, 'd, 's) prompt_store" where
  "lookup_longest_prefix H st key toks sweep_now touch_now =
     (if \<not> is_enabled (config st) then (None, st)
      else let st1 = lookup_sweep st sweep_now
        in lookup_commit H st1 key toks touch_now (lookup_select st1 key toks))"

definition snapshot_candidate ::
  "sessionless_bucket_key \<Rightarrow> prompt_cache_key \<Rightarrow> int list \<Rightarrow> nat \<Rightarrow> ('d \<times> nat \<times> nat) option \<Rightarrow> 'd \<times> 's snapshot_slot
   \<Rightarrow> ('d \<times> nat \<times> nat) option" where
  "snapshot_candidate sl key toks min_len best kv =
     (case kv of (dg, slot) \<Rightarrow>
        let stored = s_tokens (s_entry slot); n = length stored; used = s_last_used (s_entry slot) in
        if s_sessionless slot \<noteq> sl then best
        else if \<not> same_session (s_bucket slot) key then best
        else if n < min_len \<or> length toks < n then best
        else if stored \<noteq> take n toks then best
        else (case best of
                None \<Rightarrow> Some (dg, n, used)
              | Some (_, best_len, best_used) \<Rightarrow>
                  if best_len < n \<or> n = best_len \<and> best_used < used then Some (dg, n, used) else best))"

definition lookup_snapshot_prefix ::
  "('a, 'd, 's) prompt_store \<Rightarrow> prompt_cache_key \<Rightarrow> int list \<Rightarrow> nat \<Rightarrow> nat
   \<Rightarrow> ('d \<times> 's model_snapshot_entry \<times> nat) option \<times> ('a, 'd, 's) prompt_store" where
  "lookup_snapshot_prefix st key toks sweep_now touch_now =
     (if \<not> is_enabled (config st) then (None, st)
      else let st1 = snd (sweep_snapshot_ttl st sweep_now);
               best = foldl (snapshot_candidate (sessionless_from_key key) key toks (min_prefix_tokens (config st1))) None
                        (snapshots st1);
               st2 = st1\<lparr>snapshot_lookups := sat_add (snapshot_lookups st1) 1\<rparr>
        in case best of
             None \<Rightarrow> (None, st2)
           | Some (dg, matched, _) \<Rightarrow>
               (case hm_get (snapshots st2) dg of
                  None \<Rightarrow> (None, st2)
                | Some slot \<Rightarrow>
                    let e = (s_entry slot)\<lparr>s_last_used := touch_now\<rparr>
                    in (Some (dg, e, matched),
                        st2\<lparr>snapshot_hits := sat_add (snapshot_hits st2) 1,
                            snapshots := hm_insert dg (slot\<lparr>s_entry := e\<rparr>) (snapshots st2)\<rparr>)))"

section \<open>Maintenance\<close>

definition evict_if_needed :: "('a, 'd, 's) prompt_store \<Rightarrow> nat \<Rightarrow> nat \<Rightarrow> nat \<times> ('a, 'd, 's) prompt_store" where
  "evict_if_needed st now1 now2 =
     (if \<not> is_enabled (config st) then (0, st)
      else case sweep_drained st of ((f1, _), st1) \<Rightarrow>
        (case sweep_ttl st1 now1 of ((f2, _), st2) \<Rightarrow>
          (case enforce_caps st2 of (f3, st3) \<Rightarrow>
            (case sweep_snapshot_ttl st3 now2 of ((f4, _), st4) \<Rightarrow>
              (case enforce_snapshot_caps st4 of (f5, st5) \<Rightarrow> (f1 + f2 + f3 + f4 + f5, st5))))))"

definition evict_one_lru :: "('a, 'd, 's) prompt_store \<Rightarrow> nat \<times> ('a, 'd, 's) prompt_store" where
  "evict_one_lru st = evict_oldest st"

datatype release_status = ReleasedNow | NothingMatched | RefusedSharedBucket

record release_outcome =
  status :: release_status
  matched_entries :: nat
  matched_snapshots :: nat
  released_bytes :: nat

definition release_session :: "('a, 'd, 's) prompt_store \<Rightarrow> string \<Rightarrow> release_outcome \<times> ('a, 'd, 's) prompt_store" where
  "release_session st session =
     (if session = [] \<or> session = ANONYMOUS_SESSION_SENTINEL
      then (\<lparr>status = RefusedSharedBucket, matched_entries = 0, matched_snapshots = 0, released_bytes = 0\<rparr>, st)
      else let entry_digests = map fst (filter (\<lambda>(_, slot). b_session_key (bucket slot) = Some session) (store_entries st));
               snapshot_digests = map fst (filter (\<lambda>(_, slot). b_session_key (s_bucket slot) = Some session) (snapshots st))
        in case remove_entries st entry_digests of (b1, n1, st1) \<Rightarrow>
          (case remove_snapshots st1 snapshot_digests of (b2, n2, st2) \<Rightarrow>
             (\<lparr>status = (if 0 < n1 + n2 then ReleasedNow else NothingMatched),
               matched_entries = n1, matched_snapshots = n2, released_bytes = min (b1 + b2) usize_max\<rparr>, st2)))"

definition clear :: "('a, 'd, 's) prompt_store \<Rightarrow> ('a, 'd, 's) prompt_store" where
  "clear st = st\<lparr>store_entries := [], tries := [], snapshots := [], total_bytes := 0, snapshot_bytes := 0\<rparr>"

definition drain_pending_paged_releases ::
  "('a, 'd, 's) prompt_store \<Rightarrow> 'a detached_paged_cache_set list \<times> ('a, 'd, 's) prompt_store" where
  "drain_pending_paged_releases st =
     (concat (map (\<lambda>x. case x of Paged p \<Rightarrow> [p] | Dense _ \<Rightarrow> []) (pending_paged_releases st)),
      st\<lparr>pending_paged_releases := []\<rparr>)"

text \<open>What the holder of an entry does at adopt time.\<close>

definition take_detached :: "('a, 'd, 's) prompt_store \<Rightarrow> 'd \<Rightarrow> 'a detached_kv_set option \<times> ('a, 'd, 's) prompt_store" where
  "take_detached st dg =
     (case hm_get (store_entries st) dg of
        None \<Rightarrow> (None, st)
      | Some slot \<Rightarrow> (e_detached (entry slot),
          st\<lparr>store_entries := hm_insert dg (slot\<lparr>entry := (entry slot)\<lparr>e_detached := None\<rparr>\<rparr>) (store_entries st)\<rparr>))"

definition store_len :: "('a, 'd, 's) prompt_store \<Rightarrow> nat" where
  "store_len st = length (store_entries st) + length (snapshots st)"

definition store_bytes :: "('a, 'd, 's) prompt_store \<Rightarrow> nat" where
  "store_bytes st = total_bytes st + snapshot_bytes st"

definition has_pending_paged_releases :: "('a, 'd, 's) prompt_store \<Rightarrow> bool" where
  "has_pending_paged_releases st \<longleftrightarrow> pending_paged_releases st \<noteq> []"

record apc_store_stats =
  total_blocks_stored :: nat
  unique_block_hashes :: nat
  apc_active_entries :: nat

definition apc_stats :: "('a, 'd, 's) prompt_store \<Rightarrow> apc_store_stats" where
  "apc_stats st =
     (if \<not> apc_enabled (config st)
      then \<lparr>total_blocks_stored = 0, unique_block_hashes = 0, apc_active_entries = 0\<rparr>
      else let chains = List.map_filter (\<lambda>(_, slot). apc_block_hashes (entry slot)) (store_entries st)
        in \<lparr>total_blocks_stored = sum_list (map length chains), unique_block_hashes = card (set (concat chains)),
            apc_active_entries = length chains\<rparr>)"

end
