(* ===== verification/Store_Invariant.thy ===== *)
theory Store_Invariant
  imports Prompt_Store Pool_Ownership
begin

text \<open>
  The invariant of the prompt-cache store and its preservation by every operation: the per-bucket tries index
  exactly the entries, the byte counters are the sums of the entry sizes, only paged sets wait for release, and
  no paged set is ever lost. The trie enters through the laws of its interface \<open>rt\<close> only.
\<close>

section \<open>Invariant\<close>

abbreviation "size_of \<equiv> \<lambda>slot. e_size_bytes (entry slot)"

abbreviation "snapshot_size_of \<equiv> \<lambda>slot. s_size_bytes (s_entry slot)"

definition bucket_of :: "('d, 'a entry_slot) hmap \<Rightarrow> sessionless_bucket_key \<Rightarrow> (int list \<times> 'd) set" where
  "bucket_of slots b = {(e_tokens (entry slot), dg) | dg slot. (dg, slot) \<in> set slots \<and> sessionless slot = b}"

definition index_ok :: "('d, 'a entry_slot) hmap \<Rightarrow> (sessionless_bucket_key, 'd trie_node) hmap \<Rightarrow> bool" where
  "index_ok slots ts \<longleftrightarrow> hm_wf ts
     \<and> (\<forall>b. hm_get ts b = None \<longrightarrow> bucket_of slots b = {})
     \<and> (\<forall>b t. hm_get ts b = Some t \<longrightarrow> trie_wf t \<and> contents t = bucket_of slots b \<and> bucket_of slots b \<noteq> {})"

fun is_paged :: "'a detached_kv_set \<Rightarrow> bool" where
  "is_paged (Paged _) = True"
| "is_paged (Dense _) = False"

definition store_inv :: "('a, 'd, 's) prompt_store \<Rightarrow> bool" where
  "store_inv st \<longleftrightarrow>
     hm_wf (store_entries st) \<and> hm_wf (snapshots st) \<and> index_ok (store_entries st) (tries st)
     \<and> total_bytes st = hm_sum size_of (store_entries st)
     \<and> snapshot_bytes st = hm_sum snapshot_size_of (snapshots st)
     \<and> (\<forall>x \<in> set (pending_paged_releases st). is_paged x)"

text \<open>The paged sets that the store is responsible for: in its entries, or waiting to be released.\<close>

fun paged_of :: "'a detached_kv_set option \<Rightarrow> 'a detached_paged_cache_set multiset" where
  "paged_of (Some (Paged p)) = {#p#}"
| "paged_of _ = {#}"

definition paged_parked :: "('a, 'd, 's) prompt_store \<Rightarrow> 'a detached_paged_cache_set multiset" where
  "paged_parked st =
     hm_total (\<lambda>slot. paged_of (e_detached (entry slot))) (store_entries st)
     + sum_list (map (\<lambda>x. paged_of (Some x)) (pending_paged_releases st))"

section \<open>Buckets\<close>

lemma bucket_of_remove:
  assumes "hm_wf slots" "hm_get slots dg = Some slot"
  shows "bucket_of (hm_remove dg slots) b =
    (if b = sessionless slot then bucket_of slots b - {(e_tokens (entry slot), dg)} else bucket_of slots b)"
proof -
  have uniq: "slot' = slot" if "(dg, slot') \<in> set slots" for slot'
    using that assms map_of_is_SomeI by fastforce
  have "(q, d) \<in> bucket_of (hm_remove dg slots) b \<longleftrightarrow> (q, d) \<in> bucket_of slots b \<and> d \<noteq> dg" for q d
    by (auto simp: bucket_of_def hm_set_remove)
  moreover have "(q, dg) \<in> bucket_of slots b \<longleftrightarrow> b = sessionless slot \<and> q = e_tokens (entry slot)" for q
  proof
    assume "(q, dg) \<in> bucket_of slots b"
    then obtain slot' where "(dg, slot') \<in> set slots" "sessionless slot' = b" "q = e_tokens (entry slot')"
      by (auto simp: bucket_of_def)
    then show "b = sessionless slot \<and> q = e_tokens (entry slot)" using uniq [of slot'] by simp
  next
    assume "b = sessionless slot \<and> q = e_tokens (entry slot)"
    then show "(q, dg) \<in> bucket_of slots b" using map_of_SomeD [OF assms(2)] by (auto simp: bucket_of_def)
  qed
  ultimately show ?thesis by (auto simp del: not_None_eq)
qed

lemma bucket_of_insert:
  assumes "hm_wf slots" "hm_get slots dg = None"
  shows "bucket_of (hm_insert dg slot slots) b =
    (if b = sessionless slot then insert (e_tokens (entry slot), dg) (bucket_of slots b) else bucket_of slots b)"
proof -
  have "set (hm_insert dg slot slots) = insert (dg, slot) (set slots)"
    using hm_set_insert [OF assms(1), of dg slot] hm_remove_absent [OF assms(2)] by simp
  then show ?thesis by (auto simp: bucket_of_def)
qed

lemma bucket_of_update:
  assumes "hm_wf slots" "hm_get slots dg = Some slot" "e_tokens (entry slot') = e_tokens (entry slot)"
    "sessionless slot' = sessionless slot"
  shows "bucket_of (hm_insert dg slot' slots) b = bucket_of slots b"
proof -
  have a: "hm_get (hm_remove dg slots) dg = None" "hm_wf (hm_remove dg slots)" using assms(1) by (simp_all add: delete_conv)
  have "set (hm_insert dg slot' slots) = set (hm_insert dg slot' (hm_remove dg slots))"
    by (simp add: hm_set_insert [OF assms(1)] hm_set_insert [OF a(2)] delete_idem)
  then have "bucket_of (hm_insert dg slot' slots) b = bucket_of (hm_insert dg slot' (hm_remove dg slots)) b"
    by (simp add: bucket_of_def)
  also have "\<dots> = bucket_of slots b"
    unfolding bucket_of_insert [OF a(2,1)] bucket_of_remove [OF assms(1,2)] assms(3,4)
    using map_of_SomeD [OF assms(2)] by (auto simp: bucket_of_def)
  finally show ?thesis .
qed

lemma index_ok_cong: "index_ok slots ts \<Longrightarrow> (\<And>b. bucket_of slots' b = bucket_of slots b) \<Longrightarrow> index_ok slots' ts"
  by (simp add: index_ok_def)

lemma index_ok_get:
  assumes "index_ok slots ts" "hm_get ts b = Some t"
  shows "trie_wf t" "contents t = bucket_of slots b"
  using assms by (simp_all add: index_ok_def)

lemma index_ok_present:
  assumes "index_ok slots ts" "(dg, slot) \<in> set slots"
  obtains t where "hm_get ts (sessionless slot) = Some t"
proof (cases "hm_get ts (sessionless slot)")
  case None
  then have "bucket_of slots (sessionless slot) = {}" using assms(1) by (simp add: index_ok_def)
  then show ?thesis using assms(2) by (auto simp: bucket_of_def)
qed

text \<open>One bucket changes.\<close>

lemma index_ok_set:
  assumes "index_ok slots ts" "trie_wf t" "contents t = bucket_of slots' b" "contents t \<noteq> {}"
    "\<And>b'. b' \<noteq> b \<Longrightarrow> bucket_of slots' b' = bucket_of slots b'"
  shows "index_ok slots' (hm_insert b t ts)"
  using assms unfolding index_ok_def by (simp add: update_conv')

lemma index_ok_drop:
  assumes "index_ok slots ts" "bucket_of slots' b = {}" "\<And>b'. b' \<noteq> b \<Longrightarrow> bucket_of slots' b' = bucket_of slots b'"
  shows "index_ok slots' (hm_remove b ts)"
  using assms unfolding index_ok_def by (simp add: delete_conv')

section \<open>Removal\<close>

lemma stash_fields [simp]:
  "config (stash_paged_pins_for_release st e) = config st"
  "store_entries (stash_paged_pins_for_release st e) = store_entries st"
  "tries (stash_paged_pins_for_release st e) = tries st"
  "snapshots (stash_paged_pins_for_release st e) = snapshots st"
  "total_bytes (stash_paged_pins_for_release st e) = total_bytes st"
  "snapshot_bytes (stash_paged_pins_for_release st e) = snapshot_bytes st"
  by (simp_all add: stash_paged_pins_for_release_def split: option.split detached_kv_set.split)

lemma stash_pending:
  "pending_paged_releases (stash_paged_pins_for_release st e) =
     pending_paged_releases st @ (case e_detached e of Some (Paged p) \<Rightarrow> [Paged p] | _ \<Rightarrow> [])"
  by (simp add: stash_paged_pins_for_release_def split: option.split detached_kv_set.split)

lemma stash_inv: "store_inv st \<Longrightarrow> store_inv (stash_paged_pins_for_release st e)"
  by (auto simp: store_inv_def stash_pending split: option.splits detached_kv_set.splits)

lemma stash_parked: "paged_parked (stash_paged_pins_for_release st e) = paged_parked st + paged_of (e_detached e)"
  by (auto simp: paged_parked_def stash_pending split: option.splits detached_kv_set.splits)

lemma store_inv_counters [simp]:
  "store_inv (st\<lparr>rejections_oversized := n\<rparr>) = store_inv st" "store_inv (st\<lparr>lookups := n\<rparr>) = store_inv st"
  "store_inv (st\<lparr>evictions_lru := n\<rparr>) = store_inv st" "store_inv (st\<lparr>evictions_ttl := n\<rparr>) = store_inv st"
  "store_inv (st\<lparr>snapshot_rejections_oversized := n\<rparr>) = store_inv st"
  "store_inv (st\<lparr>snapshot_lookups := n\<rparr>) = store_inv st"
  "store_inv (st\<lparr>snapshot_evictions_lru := n\<rparr>) = store_inv st"
  "store_inv (st\<lparr>snapshot_evictions_ttl := n\<rparr>) = store_inv st"
  by (simp_all add: store_inv_def)

lemma paged_parked_counters [simp]:
  "paged_parked (st\<lparr>rejections_oversized := n\<rparr>) = paged_parked st" "paged_parked (st\<lparr>lookups := n\<rparr>) = paged_parked st"
  "paged_parked (st\<lparr>evictions_lru := n\<rparr>) = paged_parked st" "paged_parked (st\<lparr>evictions_ttl := n\<rparr>) = paged_parked st"
  "paged_parked (st\<lparr>snapshot_rejections_oversized := n\<rparr>) = paged_parked st"
  "paged_parked (st\<lparr>snapshot_lookups := n\<rparr>) = paged_parked st"
  "paged_parked (st\<lparr>snapshot_evictions_lru := n\<rparr>) = paged_parked st"
  "paged_parked (st\<lparr>snapshot_evictions_ttl := n\<rparr>) = paged_parked st"
  by (simp_all add: paged_parked_def)

lemma remove_entry_absent: "hm_get (store_entries st) dg = None \<Longrightarrow> remove_entry st dg = (None, st)"
  by (simp add: remove_entry_def)

lemma remove_entry_fields [simp]:
  "config (snd (remove_entry st dg)) = config st"
  "snapshots (snd (remove_entry st dg)) = snapshots st"
  "snapshot_bytes (snd (remove_entry st dg)) = snapshot_bytes st"
  by (simp_all add: remove_entry_def Let_def split: option.split)

lemma remove_entry_result:
  "fst (remove_entry st dg) = map_option (\<lambda>slot. (bucket slot, (entry slot)\<lparr>e_detached := None\<rparr>)) (hm_get (store_entries st) dg)"
  by (simp add: remove_entry_def Let_def split: option.split)

lemma remove_entry_present:
  assumes "hm_get (store_entries st) dg = Some slot"
  shows "total_bytes (snd (remove_entry st dg)) = total_bytes st - size_of slot"
    "pending_paged_releases (snd (remove_entry st dg)) = pending_paged_releases (stash_paged_pins_for_release st (entry slot))"
    "tries (snd (remove_entry st dg)) = (case hm_get (tries st) (sessionless slot) of None \<Rightarrow> tries st
       | Some t \<Rightarrow> if trie_len (snd (trie_remove t (e_tokens (entry slot)) dg)) = 0 then hm_remove (sessionless slot) (tries st)
           else hm_insert (sessionless slot) (snd (trie_remove t (e_tokens (entry slot)) dg)) (tries st))"
  using assms by (auto simp: remove_entry_def Let_def stash_pending split: option.split)

lemma remove_entry_index:
  assumes ok: "index_ok (store_entries st) (tries st)" and wf: "hm_wf (store_entries st)"
    and g: "hm_get (store_entries st) dg = Some slot"
  shows "index_ok (hm_remove dg (store_entries st)) (tries (snd (remove_entry st dg)))"
proof -
  let ?b = "sessionless slot" and ?q = "e_tokens (entry slot)"
  obtain t where t: "hm_get (tries st) ?b = Some t" using index_ok_present [OF ok map_of_SomeD [OF g]] .
  note it = index_ok_get [OF ok t]
  let ?t = "snd (trie_remove t ?q dg)"
  have c: "contents ?t = bucket_of (hm_remove dg (store_entries st)) ?b"
    using rt.stored_del [OF it(1)] it(2) bucket_of_remove [OF wf g, of ?b] by simp
  have o: "bucket_of (hm_remove dg (store_entries st)) b = bucket_of (store_entries st) b" if "b \<noteq> ?b" for b
    using bucket_of_remove [OF wf g, of b] that by simp
  show ?thesis
  proof (cases "trie_len ?t = 0")
    case True
    then have "contents ?t = {}" using rt.count_zero_iff [OF rt.wf_del [OF it(1)]] by simp
    then have "index_ok (hm_remove dg (store_entries st)) (hm_remove ?b (tries st))"
      using c o by (intro index_ok_drop [OF ok]) auto
    then show ?thesis using True t by (simp add: remove_entry_present(3) [OF g])
  next
    case False
    then have "contents ?t \<noteq> {}" using rt.count_zero_iff [OF rt.wf_del [OF it(1)]] by simp
    then have "index_ok (hm_remove dg (store_entries st)) (hm_insert ?b ?t (tries st))"
      using c o by (intro index_ok_set [OF ok rt.wf_del [OF it(1)]]) auto
    then show ?thesis using False t by (simp add: remove_entry_present(3) [OF g])
  qed
qed

lemma remove_entry_inv:
  assumes "store_inv st"
  shows "store_inv (snd (remove_entry st dg)) \<and> paged_parked (snd (remove_entry st dg)) = paged_parked st"
proof (cases "hm_get (store_entries st) dg")
  case None
  then show ?thesis using assms by (simp add: remove_entry_absent)
next
  case (Some slot)
  have wf: "hm_wf (store_entries st)" and ix: "index_ok (store_entries st) (tries st)"
    and tot: "total_bytes st = hm_sum size_of (store_entries st)" using assms by (auto simp: store_inv_def)
  have "total_bytes (snd (remove_entry st dg)) = hm_sum size_of (hm_remove dg (store_entries st))"
    using hm_sum_remove [OF wf Some, of size_of] tot by (simp add: remove_entry_present(1) [OF Some])
  moreover have "\<forall>x \<in> set (pending_paged_releases (snd (remove_entry st dg))). is_paged x"
    using assms stash_inv [OF assms] by (simp add: remove_entry_present(2) [OF Some] store_inv_def)
  ultimately have "store_inv (snd (remove_entry st dg))"
    using assms remove_entry_index [OF ix wf Some] wf by (simp add: store_inv_def store_entries_remove)
  moreover have "paged_parked (snd (remove_entry st dg)) = paged_parked st"
    using hm_total_remove [OF wf Some, of "\<lambda>slot. paged_of (e_detached (entry slot))"] stash_parked [of st "entry slot"]
    by (simp add: paged_parked_def store_entries_remove remove_entry_present(2) [OF Some])
  ultimately show ?thesis ..
qed

lemma remove_snapshot_fields [simp]:
  "config (snd (remove_snapshot st dg)) = config st" "store_entries (snd (remove_snapshot st dg)) = store_entries st"
  "tries (snd (remove_snapshot st dg)) = tries st" "total_bytes (snd (remove_snapshot st dg)) = total_bytes st"
  "pending_paged_releases (snd (remove_snapshot st dg)) = pending_paged_releases st"
  by (simp_all add: remove_snapshot_def split: option.split)

lemma remove_snapshot_result:
  "fst (remove_snapshot st dg) = map_option (\<lambda>slot. (s_bucket slot, s_entry slot)) (hm_get (snapshots st) dg)"
  by (simp add: remove_snapshot_def split: option.split)

lemma remove_snapshot_inv:
  assumes "store_inv st"
  shows "store_inv (snd (remove_snapshot st dg))"
proof (cases "hm_get (snapshots st) dg")
  case None
  then show ?thesis using assms by (simp add: remove_snapshot_def)
next
  case (Some slot)
  have "hm_wf (snapshots st)" using assms by (simp add: store_inv_def)
  from hm_sum_remove [OF this Some, of snapshot_size_of] this
  show ?thesis using assms Some by (simp add: store_inv_def remove_snapshot_def)
qed

section \<open>Removal loops\<close>

text \<open>Both loops remove the digests collected from a map, through an operation that removes one.\<close>

locale removal =
  fixes rm :: "'st \<Rightarrow> 'd \<Rightarrow> ('b \<times> 'e) option \<times> 'st" and mp :: "'st \<Rightarrow> ('d, 'v) hmap" and val :: "'v \<Rightarrow> 'b \<times> 'e"
    and sz :: "'e \<Rightarrow> nat" and good :: "'st \<Rightarrow> bool" and rest :: "'st \<Rightarrow> 'r"
  assumes rm_map: "mp (snd (rm st dg)) = hm_remove dg (mp st)"
    and rm_result: "fst (rm st dg) = map_option val (hm_get (mp st) dg)"
    and rm_good: "good st \<Longrightarrow> good (snd (rm st dg))"
    and rm_rest: "good st \<Longrightarrow> rest (snd (rm st dg)) = rest st"
    and good_wf: "good st \<Longrightarrow> hm_wf (mp st)"
begin

definition size_at :: "'st \<Rightarrow> 'd \<Rightarrow> nat" where
  "size_at st dg = (case hm_get (mp st) dg of None \<Rightarrow> 0 | Some v \<Rightarrow> sz (snd (val v)))"

lemma remove_all_step:
  "snd (snd (remove_all rm sz st (dg # ds))) = snd (snd (remove_all rm sz (snd (rm st dg)) ds))"
  "fst (remove_all rm sz st (dg # ds)) = size_at st dg + fst (remove_all rm sz (snd (rm st dg)) ds)"
  "fst (snd (remove_all rm sz st (dg # ds))) =
     (if hm_get (mp st) dg = None then 0 else 1) + fst (snd (remove_all rm sz (snd (rm st dg)) ds))"
  using rm_result [of st dg]
  by (cases "rm st dg"; cases "remove_all rm sz (snd (rm st dg)) ds"; cases "hm_get (mp st) dg";
      auto simp: case_prod_unfold size_at_def)+

lemma remove_all_good:
  assumes "good st"
  shows "good (snd (snd (remove_all rm sz st ds))) \<and> rest (snd (snd (remove_all rm sz st ds))) = rest st"
  using assms
proof (induction ds arbitrary: st)
  case (Cons dg ds)
  then show ?case using Cons.IH [OF rm_good [OF Cons.prems], of dg] rm_rest [OF Cons.prems, of dg]
    unfolding remove_all_step by simp
qed simp

lemma remove_all_map: "mp (snd (snd (remove_all rm sz st ds))) = filter (\<lambda>e. fst e \<notin> set ds) (mp st)"
proof (induction ds arbitrary: st)
  case (Cons dg ds)
  have "filter (\<lambda>e. fst e \<notin> set ds) (hm_remove dg (mp st)) = filter (\<lambda>e. fst e \<notin> set (dg # ds)) (mp st)"
    by (auto simp: AList.delete_eq intro!: filter_cong)
  then show ?case using Cons.IH [of "snd (rm st dg)"] rm_map [of st dg] unfolding remove_all_step by simp
qed simp

lemma remove_all_counts:
  assumes "distinct ds"
  shows "fst (remove_all rm sz st ds) = sum_list (map (size_at st) ds)
    \<and> fst (snd (remove_all rm sz st ds)) = length (filter (\<lambda>dg. hm_get (mp st) dg \<noteq> None) ds)"
  using assms
proof (induction ds arbitrary: st)
  case (Cons dg ds)
  let ?s = "snd (rm st dg)"
  have get: "hm_get (mp ?s) d = hm_get (mp st) d" if "d \<in> set ds" for d
    using that Cons.prems by (auto simp: rm_map delete_conv)
  then have "sum_list (map (size_at ?s) ds) = sum_list (map (size_at st) ds)"
    "filter (\<lambda>dg. hm_get (mp ?s) dg \<noteq> None) ds = filter (\<lambda>dg. hm_get (mp st) dg \<noteq> None) ds"
    by (auto simp: size_at_def intro: filter_cong arg_cong [of _ _ sum_list] map_cong)
  then show ?case using Cons.IH [of ?s] Cons.prems unfolding remove_all_step by auto
qed simp

text \<open>The digests of the values that satisfy \<open>P\<close>: exactly those are removed, each counted once.\<close>

lemma remove_matching:
  fixes P :: "'v \<Rightarrow> bool"
  assumes "good st"
  defines "ds \<equiv> map fst (filter (\<lambda>(_, v). P v) (mp st))" and "m \<equiv> filter (\<lambda>e. P (snd e)) (mp st)"
  shows "mp (snd (snd (remove_all rm sz st ds))) = filter (\<lambda>e. \<not> P (snd e)) (mp st)
    \<and> fst (remove_all rm sz st ds) = hm_sum (\<lambda>v. sz (snd (val v))) m \<and> fst (snd (remove_all rm sz st ds)) = length m"
proof -
  have wf: "hm_wf (mp st)" using assms(1) by (rule good_wf)
  have m: "m = filter (\<lambda>(_, v). P v) (mp st)" by (simp add: m_def case_prod_unfold)
  have get: "hm_get (mp st) (fst e) = Some (snd e)" if "e \<in> set (mp st)" for e
    using map_of_is_SomeI [OF wf, of "fst e" "snd e"] that by simp
  have keys: "fst e \<in> set ds \<longleftrightarrow> P (snd e)" if "e \<in> set (mp st)" for e
  proof
    assume "fst e \<in> set ds"
    then obtain e' where "e' \<in> set (mp st)" "P (snd e')" "fst e' = fst e" by (auto simp: ds_def)
    then show "P (snd e)" using get [of e'] get [OF that] by simp
  next
    assume "P (snd e)"
    then have "e \<in> set (filter (\<lambda>(_, v). P v) (mp st))" using that by (simp add: case_prod_unfold)
    then show "fst e \<in> set ds" unfolding ds_def set_map by (rule imageI)
  qed
  have "mp (snd (snd (remove_all rm sz st ds))) = filter (\<lambda>e. \<not> P (snd e)) (mp st)"
    unfolding remove_all_map using keys by (auto intro: filter_cong)
  moreover have dis: "distinct ds" using wf by (simp add: ds_def distinct_map_filter)
  moreover have "map (size_at st) ds = map (\<lambda>e. sz (snd (val (snd e)))) m"
    using get by (auto simp: ds_def m size_at_def)
  then have "sum_list (map (size_at st) ds) = hm_sum (\<lambda>v. sz (snd (val v))) m" unfolding hm_sum_def by (rule arg_cong)
  moreover have "length ds = length m" by (simp add: ds_def m)
  moreover have "filter (\<lambda>dg. hm_get (mp st) dg \<noteq> None) ds = ds"
    using get by (force simp: ds_def filter_id_conv)
  ultimately show ?thesis using remove_all_counts [OF dis, of st] by metis
qed

end

interpretation er: removal remove_entry store_entries "\<lambda>slot. (bucket slot, (entry slot)\<lparr>e_detached := None\<rparr>)" e_size_bytes
  store_inv "\<lambda>st. (paged_parked st, config st, snapshots st, snapshot_bytes st)"
  by unfold_locales (simp_all add: store_entries_remove remove_entry_result remove_entry_inv store_inv_def [THEN iffD1])

interpretation sr: removal remove_snapshot snapshots "\<lambda>slot. (s_bucket slot, s_entry slot)" s_size_bytes
  store_inv "\<lambda>st. (paged_parked st, config st, store_entries st, tries st, total_bytes st, pending_paged_releases st)"
  by unfold_locales
    (simp_all add: snapshots_remove remove_snapshot_result remove_snapshot_inv paged_parked_def store_inv_def [THEN iffD1])

section \<open>Sweeps and eviction\<close>

text \<open>What every internal step of the store keeps.\<close>

definition keeps :: "('a, 'd, 's) prompt_store \<Rightarrow> ('a, 'd, 's) prompt_store \<Rightarrow> bool" where
  "keeps st st' \<longleftrightarrow> store_inv st' \<and> paged_parked st' = paged_parked st \<and> config st' = config st"

lemma keeps_refl: "store_inv st \<Longrightarrow> keeps st st"
  by (simp add: keeps_def)

lemma keeps_trans [trans]: "keeps st st' \<Longrightarrow> keeps st' st'' \<Longrightarrow> keeps st st''"
  by (simp add: keeps_def)

lemma keepsD: "keeps st st' \<Longrightarrow> store_inv st'" "keeps st st' \<Longrightarrow> config st' = config st"
  by (simp_all add: keeps_def)

lemma keeps_counters [simp]:
  "keeps st (st'\<lparr>lookups := n\<rparr>) = keeps st st'" "keeps st (st'\<lparr>evictions_lru := n\<rparr>) = keeps st st'"
  "keeps st (st'\<lparr>evictions_ttl := n\<rparr>) = keeps st st'" "keeps st (st'\<lparr>snapshot_evictions_ttl := n\<rparr>) = keeps st st'"
  "keeps st (st'\<lparr>snapshot_evictions_lru := n\<rparr>) = keeps st st'" "keeps st (st'\<lparr>snapshot_lookups := n\<rparr>) = keeps st st'"
  by (simp_all add: keeps_def)

lemma remove_entry_keeps: "store_inv st \<Longrightarrow> keeps st (snd (remove_entry st dg))"
  by (simp add: keeps_def remove_entry_inv)

lemma remove_snapshot_keeps: "store_inv st \<Longrightarrow> keeps st (snd (remove_snapshot st dg))"
  by (simp add: keeps_def remove_snapshot_inv paged_parked_def)

lemma remove_entries_keeps: "store_inv st \<Longrightarrow> keeps st (snd (snd (remove_entries st ds)))"
  using er.remove_all_good [of st ds] by (simp add: keeps_def)

lemma remove_snapshots_keeps: "store_inv st \<Longrightarrow> keeps st (snd (snd (remove_snapshots st ds)))"
  using sr.remove_all_good [of st ds] by (simp add: keeps_def)

lemma sweep_ttl_keeps: "store_inv st \<Longrightarrow> keeps st (snd (sweep_ttl st now))"
  using remove_entries_keeps [of st] by (simp add: sweep_ttl_def Let_def keeps_refl case_prod_unfold)

lemma sweep_snapshot_ttl_keeps: "store_inv st \<Longrightarrow> keeps st (snd (sweep_snapshot_ttl st now))"
  using remove_snapshots_keeps [of st] by (simp add: sweep_snapshot_ttl_def Let_def keeps_refl case_prod_unfold)

lemma sweep_drained_keeps: "store_inv st \<Longrightarrow> keeps st (snd (sweep_drained st))"
  using remove_entries_keeps [of st] by (simp add: sweep_drained_def Let_def keeps_refl case_prod_unfold)

lemma evict_oldest_keeps: "store_inv st \<Longrightarrow> keeps st (snd (evict_oldest st))"
  using remove_entry_keeps [of st] by (simp add: evict_oldest_def Let_def keeps_refl case_prod_unfold split: option.split)

lemma evict_oldest_snapshot_keeps:
  assumes "store_inv st"
  shows "keeps st (snd (evict_oldest_snapshot st))"
proof (cases "min_by_key (\<lambda>(_, slot). s_last_used (s_entry slot)) (snapshots st)")
  case None
  then show ?thesis using assms by (simp add: evict_oldest_snapshot_def keeps_refl)
next
  case (Some x)
  then show ?thesis using remove_snapshot_keeps [OF assms, of "fst x"]
    by (cases x; cases "remove_snapshot st (fst x)") (auto simp: evict_oldest_snapshot_def split: option.split)
qed

lemma evict_while_keeps: "store_inv st \<Longrightarrow> keeps st (snd (evict_while over freed st))"
proof (induction over freed st rule: evict_while.induct)
  case (1 over freed st)
  note k = evict_oldest_keeps [OF "1.prems"]
  show ?case using 1(1) keepsD(1) [OF k] k keeps_trans [OF k] keeps_refl [OF "1.prems"]
    by (subst evict_while.simps) auto
qed

lemma evict_snapshots_while_keeps: "store_inv st \<Longrightarrow> keeps st (snd (evict_snapshots_while over freed st))"
proof (induction over freed st rule: evict_snapshots_while.induct)
  case (1 over freed st)
  note k = evict_oldest_snapshot_keeps [OF "1.prems"]
  show ?case using 1(1) keepsD(1) [OF k] k keeps_trans [OF k] keeps_refl [OF "1.prems"]
    by (subst evict_snapshots_while.simps) auto
qed

lemma enforce_caps_keeps: "store_inv st \<Longrightarrow> keeps st (snd (enforce_caps st))"
  using evict_while_keeps [of st] evict_while_keeps keeps_trans keepsD(1)
  by (simp add: enforce_caps_def case_prod_unfold) blast

lemma enforce_snapshot_caps_keeps: "store_inv st \<Longrightarrow> keeps st (snd (enforce_snapshot_caps st))"
  using evict_snapshots_while_keeps [of st] evict_snapshots_while_keeps keeps_trans keepsD(1)
  by (simp add: enforce_snapshot_caps_def case_prod_unfold) blast

section \<open>Insertion\<close>

definition entry_room :: "('a, 'd, 's) prompt_store \<Rightarrow> nat \<Rightarrow> bool" where
  "entry_room st n \<longleftrightarrow> total_bytes st + n \<le> usize_max"

text \<open>The state after the new slot is filed and before the caps are enforced.\<close>

lemma filed_inv:
  fixes n :: nat
  assumes inv: "store_inv st" and none: "hm_get (store_entries st) dg = None" and room: "entry_room st (size_of slot)"
  defines "st' \<equiv> st\<lparr>total_bytes := sat_add (total_bytes st) (size_of slot),
    store_entries := hm_insert dg slot (store_entries st),
    tries := hm_insert (sessionless slot) (trie_insert (trie_or_new (hm_get (tries st) (sessionless slot))) (e_tokens (entry slot)) dg) (tries st),
    inserts := n\<rparr>"
  shows "store_inv st' \<and> paged_parked st' = paged_parked st + paged_of (e_detached (entry slot))"
proof -
  let ?b = "sessionless slot"
  let ?t = "trie_or_new (hm_get (tries st) ?b)"
  have wf: "hm_wf (store_entries st)" and ix: "index_ok (store_entries st) (tries st)"
    and tot: "total_bytes st = hm_sum size_of (store_entries st)" using inv by (auto simp: store_inv_def)
  have t: "trie_wf ?t \<and> contents ?t = bucket_of (store_entries st) ?b"
    using ix by (cases "hm_get (tries st) ?b") (auto simp: trie_or_new_def index_ok_def rt.wf_new rt.stored_new)
  have "index_ok (hm_insert dg slot (store_entries st)) (hm_insert ?b (trie_insert ?t (e_tokens (entry slot)) dg) (tries st))"
    using t by (intro index_ok_set [OF ix]) (simp_all add: rt.wf_ins rt.stored_ins bucket_of_insert [OF wf none])
  moreover have "total_bytes st' = hm_sum size_of (hm_insert dg slot (store_entries st))"
    using room by (simp add: st'_def sat_add_def entry_room_def tot hm_sum_insert_absent [OF none])
  ultimately have "store_inv st'" using inv wf by (simp add: store_inv_def st'_def)
  moreover have "paged_parked st' = paged_parked st + paged_of (e_detached (entry slot))"
    by (simp add: paged_parked_def st'_def hm_total_insert_absent [OF none])
  ultimately show ?thesis ..
qed

lemma remove_then_absent: "hm_get (store_entries (snd (remove_entry st dg))) dg = None"
  by (simp add: store_entries_remove delete_conv)

lemma total_bytes_remove: "total_bytes (snd (remove_entry st dg)) \<le> total_bytes st"
  by (cases "hm_get (store_entries st) dg") (simp_all add: remove_entry_absent remove_entry_present)

text \<open>The slot that \<open>insert_entry\<close> files.\<close>

definition filed_slot :: "block_hasher \<Rightarrow> prompt_cache_config \<Rightarrow> prompt_cache_key \<Rightarrow> 'a cache_entry \<Rightarrow> 'a entry_slot" where
  "filed_slot H c key e =
     \<lparr>entry = (if apc_enabled c then with_apc_block_hashes e
        (hashes (chain_compute H (e_tokens e) (apc_block_size (apc c)) (apc_hash (apc c)) (mm_digest key))) else e),
      bucket = bucket_from_key key, sessionless = sessionless_from_key key\<rparr>"

lemma filed_slot_fields [simp]:
  "e_tokens (entry (filed_slot H c key e)) = e_tokens e" "size_of (filed_slot H c key e) = e_size_bytes e"
  "e_detached (entry (filed_slot H c key e)) = e_detached e" "sessionless (filed_slot H c key e) = sessionless_from_key key"
  by (simp_all add: filed_slot_def with_apc_block_hashes_def)

text \<open>An insert is refused and changes at most a counter and the release queue, or it files the slot and then enforces the caps.\<close>

lemma insert_entry_cases:
  fixes H :: block_hasher and blake3 :: "byte list \<Rightarrow> 'd" and key :: prompt_cache_key
    and st :: "('a, 'd, 's) prompt_store"
  obtains (refused) err n where "fst (insert_entry H blake3 st key e) = Inl err"
      "snd (insert_entry H blake3 st key e) = stash_paged_pins_for_release (st\<lparr>rejections_oversized := n\<rparr>) e"
      "store_entries (snd (insert_entry H blake3 st key e)) = store_entries st"
    | (accepted) st2 where "fst (insert_entry H blake3 st key e) = Inr ()"
      "snd (insert_entry H blake3 st key e) = snd (enforce_caps st2)"
      "store_entries st2 = hm_insert (key_digest blake3 key) (filed_slot H (config st) key e) (hm_remove (key_digest blake3 key) (store_entries st))"
      "store_inv st \<Longrightarrow> entry_room st (e_size_bytes e) \<Longrightarrow>
         store_inv st2 \<and> config st2 = config st \<and> paged_parked st2 = paged_parked st + paged_of (e_detached e)"
proof -
  let ?c = "config st" and ?dg = "key_digest blake3 key"
  consider (no) "\<not> is_enabled ?c \<or> effective_prefix_len key < min_prefix_tokens ?c \<or> capacity_bytes ?c < e_size_bytes e"
    | (yes) "is_enabled ?c" "\<not> effective_prefix_len key < min_prefix_tokens ?c" "\<not> capacity_bytes ?c < e_size_bytes e" by blast
  then show thesis
  proof cases
    case no
    then have "\<exists>err. fst (insert_entry H blake3 st key e) = Inl err" unfolding insert_entry_def Let_def
      by (cases "is_enabled ?c"; cases "effective_prefix_len key < min_prefix_tokens ?c") simp_all
    then obtain err where "fst (insert_entry H blake3 st key e) = Inl err" ..
    moreover have "snd (insert_entry H blake3 st key e) = stash_paged_pins_for_release (st\<lparr>rejections_oversized :=
        if is_enabled ?c \<and> \<not> effective_prefix_len key < min_prefix_tokens ?c then sat_add (rejections_oversized st) 1
        else rejections_oversized st\<rparr>) e"
      using no by (auto simp: insert_entry_def Let_def)
    ultimately show thesis by (intro refused) simp_all
  next
    case yes
    define slot where "slot = filed_slot H ?c key e"
    define st1 where "st1 = (case remove_entry st ?dg of
        (Some _, s) \<Rightarrow> s\<lparr>evictions_lru := sat_add (evictions_lru s) 1\<rparr> | (None, s) \<Rightarrow> s)"
    have st1: "st1 = snd (remove_entry st ?dg) \<or> (\<exists>n. st1 = (snd (remove_entry st ?dg))\<lparr>evictions_lru := n\<rparr>)"
      by (auto simp: st1_def split: prod.split option.split)
    define st2 where "st2 = st1\<lparr>total_bytes := sat_add (total_bytes st1) (size_of slot),
      store_entries := hm_insert ?dg slot (store_entries st1),
      tries := hm_insert (sessionless slot) (trie_insert (trie_or_new (hm_get (tries st1) (sessionless slot))) (e_tokens (entry slot)) ?dg) (tries st1),
      inserts := sat_add (inserts st1) 1\<rparr>"
    have ins: "insert_entry H blake3 st key e = (Inr (), snd (enforce_caps st2))"
      using yes by (simp add: insert_entry_def Let_def st2_def st1_def slot_def filed_slot_def with_apc_block_hashes_def)
    have "store_entries st2 = hm_insert ?dg slot (hm_remove ?dg (store_entries st))"
      using st1 by (auto simp: st2_def store_entries_remove)
    moreover have "store_inv st2 \<and> config st2 = ?c \<and> paged_parked st2 = paged_parked st + paged_of (e_detached e)"
      if inv: "store_inv st" and room: "entry_room st (e_size_bytes e)"
    proof -
      have k: "keeps st st1" using st1 remove_entry_keeps [OF inv, of ?dg] by auto
      have "hm_get (store_entries st1) ?dg = None" "total_bytes st1 \<le> total_bytes st"
        using st1 remove_then_absent [of st ?dg] total_bytes_remove [of st ?dg] by auto
      then have "store_inv st2 \<and> paged_parked st2 = paged_parked st1 + paged_of (e_detached (entry slot))"
        unfolding st2_def using room by (intro filed_inv keepsD(1) [OF k]) (simp_all add: entry_room_def slot_def)
      then show ?thesis using k by (simp add: keeps_def slot_def st2_def)
    qed
    ultimately show thesis using ins by (intro accepted) (simp_all add: slot_def)
  qed
qed

lemma insert_entry_inv:
  fixes H :: block_hasher and blake3 :: "byte list \<Rightarrow> 'd" and key :: prompt_cache_key
    and st :: "('a, 'd, 's) prompt_store"
  assumes inv: "store_inv st" and room: "entry_room st (e_size_bytes e)"
  defines "st' \<equiv> snd (insert_entry H blake3 st key e)"
  shows "store_inv st' \<and> config st' = config st \<and> paged_parked st' = paged_parked st + paged_of (e_detached e)"
proof (cases rule: insert_entry_cases [of H blake3 st key e])
  case (refused err n)
  then show ?thesis using inv by (simp add: st'_def stash_inv stash_parked)
next
  case (accepted st2)
  then show ?thesis using enforce_caps_keeps [of st2] inv room by (simp add: st'_def keeps_def)
qed

definition snapshot_room :: "('a, 'd, 's) prompt_store \<Rightarrow> nat \<Rightarrow> bool" where
  "snapshot_room st n \<longleftrightarrow> snapshot_bytes st + n \<le> usize_max"

lemma insert_snapshot_inv:
  assumes inv: "store_inv st" and room: "snapshot_room st (s_size_bytes e)"
  shows "keeps st (snd (insert_snapshot blake3 st key e))"
proof -
  let ?c = "config st" and ?dg = "key_digest blake3 key"
  consider (refused) "\<not> is_enabled ?c \<or> effective_prefix_len key < min_prefix_tokens ?c \<or> snapshot_capacity_bytes ?c < s_size_bytes e"
    | (accepted) "is_enabled ?c" "\<not> effective_prefix_len key < min_prefix_tokens ?c" "\<not> snapshot_capacity_bytes ?c < s_size_bytes e" by blast
  then show ?thesis
  proof cases
    case refused
    then have "snd (insert_snapshot blake3 st key e) = st \<or>
        snd (insert_snapshot blake3 st key e) = st\<lparr>snapshot_rejections_oversized := sat_add (snapshot_rejections_oversized st) 1\<rparr>"
      by (auto simp: insert_snapshot_def Let_def)
    moreover have "keeps st st" "keeps st (st\<lparr>snapshot_rejections_oversized := n\<rparr>)" for n
      using inv by (simp_all add: keeps_def)
    ultimately show ?thesis by metis
  next
    case accepted
    define slot where "slot = \<lparr>s_entry = e, s_bucket = bucket_from_key key, s_sessionless = sessionless_from_key key\<rparr>"
    define st1 where "st1 = (case remove_snapshot st ?dg of
        (Some _, s) \<Rightarrow> s\<lparr>snapshot_evictions_lru := sat_add (snapshot_evictions_lru s) 1\<rparr> | (None, s) \<Rightarrow> s)"
    have st1: "st1 = snd (remove_snapshot st ?dg) \<or> (\<exists>n. st1 = (snd (remove_snapshot st ?dg))\<lparr>snapshot_evictions_lru := n\<rparr>)"
    proof (cases "remove_snapshot st ?dg")
      case (Pair r s)
      then show ?thesis by (cases r) (auto simp: st1_def)
    qed
    define st2 where "st2 = st1\<lparr>snapshot_bytes := sat_add (snapshot_bytes st1) (s_size_bytes e),
      snapshots := hm_insert ?dg slot (snapshots st1), snapshot_inserts := sat_add (snapshot_inserts st1) 1\<rparr>"
    have st': "snd (insert_snapshot blake3 st key e) = snd (enforce_snapshot_caps st2)"
      using accepted by (simp add: insert_snapshot_def Let_def st2_def st1_def slot_def)
    have k: "keeps st st1" using st1 remove_snapshot_keeps [OF inv, of ?dg] by auto
    have none: "hm_get (snapshots st1) ?dg = None" using st1 by (auto simp: snapshots_remove delete_conv)
    have le: "snapshot_bytes st1 \<le> snapshot_bytes st" using st1 by (auto simp: remove_snapshot_def split: option.splits)
    have "store_inv st2" using keepsD(1) [OF k] room le
      by (simp add: st2_def store_inv_def hm_sum_insert_absent [OF none] snapshot_room_def sat_add_def slot_def)
    moreover have "paged_parked st2 = paged_parked st1" by (simp add: st2_def paged_parked_def)
    moreover have "config st2 = config st" using keepsD(2) [OF k] by (simp add: st2_def)
    ultimately show ?thesis using enforce_snapshot_caps_keeps [of st2] k by (simp add: st' keeps_def)
  qed
qed

section \<open>Lookups and maintenance\<close>

text \<open>Replacing a slot by one with the same tokens, bucket and size.\<close>

lemma replace_slot_inv:
  assumes inv: "store_inv st" and g: "hm_get (store_entries st) dg = Some slot"
    and same: "e_tokens (entry slot') = e_tokens (entry slot)" "sessionless slot' = sessionless slot" "size_of slot' = size_of slot"
  shows "store_inv (st\<lparr>store_entries := hm_insert dg slot' (store_entries st)\<rparr>)"
    "paged_parked (st\<lparr>store_entries := hm_insert dg slot' (store_entries st)\<rparr>) + paged_of (e_detached (entry slot))
     = paged_parked st + paged_of (e_detached (entry slot'))"
proof -
  have wf: "hm_wf (store_entries st)" and ix: "index_ok (store_entries st) (tries st)" using inv by (auto simp: store_inv_def)
  show "store_inv (st\<lparr>store_entries := hm_insert dg slot' (store_entries st)\<rparr>)"
    using inv index_ok_cong [OF ix bucket_of_update [OF wf g same(1,2)]] hm_sum_insert_present [OF wf g, of size_of slot'] same(3)
    by (simp add: store_inv_def)
  show "paged_parked (st\<lparr>store_entries := hm_insert dg slot' (store_entries st)\<rparr>) + paged_of (e_detached (entry slot))
     = paged_parked st + paged_of (e_detached (entry slot'))"
    using hm_total_insert_present [OF wf g, of "\<lambda>slot. paged_of (e_detached (entry slot))" slot']
      hm_total_remove [OF wf g, of "\<lambda>slot. paged_of (e_detached (entry slot))"]
    by (simp add: paged_parked_def)
qed

lemma lookup_sweep_keeps: "store_inv st \<Longrightarrow> keeps st (lookup_sweep st now)"
  using sweep_drained_keeps [of st] sweep_ttl_keeps keeps_trans keepsD(1) by (simp add: lookup_sweep_def) blast

lemma lookup_commit_keeps:
  assumes "store_inv st"
  shows "keeps st (snd (lookup_commit H st key toks now best))"
proof (cases "fst (lookup_commit H st key toks now best)")
  case None
  then have "snd (lookup_commit H st key toks now best) = st\<lparr>lookups := sat_add (lookups st) 1\<rparr>"
    by (auto simp: lookup_commit_def Let_def split: option.splits if_splits)
  then show ?thesis using assms keeps_refl by simp
next
  case (Some x)
  then obtain dg slot where slot: "hm_get (store_entries st) dg = Some slot"
    and st': "snd (lookup_commit H st key toks now best) = (st\<lparr>lookups := sat_add (lookups st) 1,
      hits := sat_add (hits st) 1, store_entries := hm_insert dg (slot\<lparr>entry := touch now (entry slot)\<rparr>) (store_entries st)\<rparr>)"
    by (auto simp: lookup_commit_def Let_def split: option.splits if_splits)
  let ?s = "slot\<lparr>entry := touch now (entry slot)\<rparr>"
  let ?r = "st\<lparr>store_entries := hm_insert dg ?s (store_entries st)\<rparr>"
  have "store_inv ?r" "paged_parked ?r = paged_parked st"
    using replace_slot_inv [OF assms slot, of ?s] by (simp_all add: touch_def)
  then show ?thesis unfolding st' keeps_def by (simp add: store_inv_def paged_parked_def)
qed

lemma lookup_keeps: "store_inv st \<Longrightarrow> keeps st (snd (lookup_longest_prefix H st key toks now now'))"
  using keeps_refl [of st] lookup_sweep_keeps [of st now] lookup_commit_keeps keeps_trans keepsD(1)
  by (simp add: lookup_longest_prefix_def Let_def) blast

lemma lookup_snapshot_keeps:
  assumes inv: "store_inv st"
  shows "keeps st (snd (lookup_snapshot_prefix st key toks now now'))"
proof -
  let ?st1 = "snd (sweep_snapshot_ttl st now)"
  let ?st2 = "?st1\<lparr>snapshot_lookups := sat_add (snapshot_lookups ?st1) 1\<rparr>"
  have k: "keeps st ?st2" using sweep_snapshot_ttl_keeps [OF inv, of now] by simp
  have upd: "keeps st (?st2\<lparr>snapshot_hits := n, snapshots := hm_insert dg (slot\<lparr>s_entry := (s_entry slot)\<lparr>s_last_used := now'\<rparr>\<rparr>) (snapshots ?st2)\<rparr>)"
    if g: "hm_get (snapshots ?st2) dg = Some slot" for dg slot n
  proof -
    have "hm_wf (snapshots ?st2)" using keepsD(1) [OF k] by (simp add: store_inv_def)
    from hm_sum_insert_present [OF this g, of snapshot_size_of "slot\<lparr>s_entry := (s_entry slot)\<lparr>s_last_used := now'\<rparr>\<rparr>"]
    show ?thesis using k by (simp add: keeps_def store_inv_def paged_parked_def)
  qed
  show ?thesis
  proof (cases "is_enabled (config st)")
    case False
    then show ?thesis using inv by (simp add: lookup_snapshot_prefix_def keeps_refl)
  next
    case True
    then show ?thesis using k upd by (simp add: lookup_snapshot_prefix_def Let_def split: option.split)
  qed
qed

lemma evict_if_needed_keeps:
  assumes "store_inv st"
  shows "keeps st (snd (evict_if_needed st now1 now2))"
proof -
  define s1 where "s1 = snd (sweep_drained st)"
  define s2 where "s2 = snd (sweep_ttl s1 now1)"
  define s3 where "s3 = snd (enforce_caps s2)"
  define s4 where "s4 = snd (sweep_snapshot_ttl s3 now2)"
  have 1: "keeps st s1" using sweep_drained_keeps [OF assms] by (simp add: s1_def)
  have 2: "keeps s1 s2" using sweep_ttl_keeps [OF keepsD(1) [OF 1]] by (simp add: s2_def)
  have 3: "keeps s2 s3" using enforce_caps_keeps [OF keepsD(1) [OF 2]] by (simp add: s3_def)
  have 4: "keeps s3 s4" using sweep_snapshot_ttl_keeps [OF keepsD(1) [OF 3]] by (simp add: s4_def)
  have "keeps st (snd (enforce_snapshot_caps s4))"
    using 1 2 3 4 enforce_snapshot_caps_keeps [OF keepsD(1) [OF 4]] keeps_trans by metis
  then show ?thesis using keeps_refl [OF assms]
    by (simp add: evict_if_needed_def s1_def s2_def s3_def s4_def case_prod_unfold)
qed

lemma release_session_keeps: "store_inv st \<Longrightarrow> keeps st (snd (release_session st session))"
  using keeps_refl [of st] remove_entries_keeps [of st] remove_snapshots_keeps keeps_trans keepsD(1)
  by (simp add: release_session_def Let_def case_prod_unfold) blast

lemma clear_inv: "store_inv st \<Longrightarrow> store_inv (clear st)"
  by (simp add: store_inv_def clear_def index_ok_def bucket_of_def)

lemma drain_inv:
  assumes "store_inv st" "drain_pending_paged_releases st = (ps, st')"
  shows "store_inv st' \<and> mset ps + paged_parked st' = paged_parked st"
proof -
  have "sum_list (map (\<lambda>x. paged_of (Some x)) xs) = mset (concat (map (\<lambda>x. case x of Paged p \<Rightarrow> [p] | Dense _ \<Rightarrow> []) xs))"
    for xs :: "'a detached_kv_set list" by (induction xs) (auto split: detached_kv_set.split)
  then show ?thesis using assms by (auto simp: drain_pending_paged_releases_def store_inv_def paged_parked_def)
qed

lemma take_detached_inv:
  assumes "store_inv st" "take_detached st dg = (d, st')"
  shows "store_inv st' \<and> paged_of d + paged_parked st' = paged_parked st"
proof (cases "hm_get (store_entries st) dg")
  case None
  then show ?thesis using assms by (simp add: take_detached_def)
next
  case (Some slot)
  then show ?thesis using assms replace_slot_inv [OF assms(1) Some, of "slot\<lparr>entry := (entry slot)\<lparr>e_detached := None\<rparr>\<rparr>"]
    by (auto simp: take_detached_def ac_simps)
qed

lemma store_new_inv: "store_inv (store_new c) \<and> paged_parked (store_new c) = {#}"
  by (simp add: store_inv_def store_new_def index_ok_def bucket_of_def paged_parked_def)

end
