(* ===== verification/Store_Lookup.thy ===== *)
theory Store_Lookup
  imports Store_Invariant
begin

text \<open>
  What \<open>lookup_longest_prefix\<close> selects. The two tiers of candidates are folds that keep a maximal element; the
  trie path and the scan path are related to the same set of candidates, so that the result can be stated
  without reference to either.
\<close>

section \<open>Tiers\<close>

lemma beats_irrefl [simp]: "\<not> beats c c"
  by (simp add: beats_def)

lemma not_beats_trans: "\<not> beats a b \<Longrightarrow> \<not> beats b c \<Longrightarrow> \<not> beats a c"
  by (auto simp: beats_def split: if_splits)

lemma beats_trans: "beats a b \<Longrightarrow> \<not> beats c b \<Longrightarrow> \<not> beats c a"
  by (auto simp: beats_def split: if_splits)

definition is_top :: "'d best_candidate option \<Rightarrow> 'd best_candidate set \<Rightarrow> bool" where
  "is_top b C \<longleftrightarrow> (case b of None \<Rightarrow> C = {} | Some c \<Rightarrow> c \<in> C \<and> (\<forall>c' \<in> C. \<not> beats c' c))"

lemma is_top_offer: "is_top b C \<Longrightarrow> is_top (offer b c) (insert c C)"
proof (cases b)
  case (Some x)
  assume "is_top b C"
  then have x: "x \<in> C" "\<And>c'. c' \<in> C \<Longrightarrow> \<not> beats c' x" using Some by (auto simp: is_top_def)
  show ?thesis
  proof (cases "beats c x")
    case True
    have "\<not> beats c' c" if "c' \<in> C" for c' using beats_trans [OF True x(2) [OF that]] .
    then show ?thesis using True Some by (simp add: is_top_def offer_def)
  qed (use x Some in \<open>simp add: is_top_def offer_def\<close>)
qed (simp add: is_top_def offer_def)

text \<open>A visit contributes nothing, or a candidate to one of the two tiers.\<close>

definition tier_step ::
  "('x \<Rightarrow> (bool \<times> 'd best_candidate) option) \<Rightarrow> 'd best_candidate option \<times> 'd best_candidate option \<Rightarrow> 'x
   \<Rightarrow> 'd best_candidate option \<times> 'd best_candidate option" where
  "tier_step f t x = (case f x of None \<Rightarrow> t
     | Some (same, c) \<Rightarrow> if same then (offer (fst t) c, snd t) else (fst t, offer (snd t) c))"

lemma tier_fold:
  assumes "is_top (fst t) A" "is_top (snd t) B"
  shows "is_top (fst (foldl (tier_step f) t xs)) (A \<union> {c. \<exists>x \<in> set xs. f x = Some (True, c)})
    \<and> is_top (snd (foldl (tier_step f) t xs)) (B \<union> {c. \<exists>x \<in> set xs. f x = Some (False, c)})"
  using assms
proof (induction xs arbitrary: t A B)
  case (Cons x xs)
  define A' where "A' = A \<union> {c. f x = Some (True, c)}"
  define B' where "B' = B \<union> {c. f x = Some (False, c)}"
  have "is_top (fst (tier_step f t x)) A' \<and> is_top (snd (tier_step f t x)) B'"
    using Cons.prems is_top_offer [of "fst t" A] is_top_offer [of "snd t" B]
    by (auto simp: tier_step_def A'_def B'_def split: option.split)
  moreover have "A \<union> {c. \<exists>y \<in> set (x # xs). f y = Some (True, c)} = A' \<union> {c. \<exists>y \<in> set xs. f y = Some (True, c)}"
    "B \<union> {c. \<exists>y \<in> set (x # xs). f y = Some (False, c)} = B' \<union> {c. \<exists>y \<in> set xs. f y = Some (False, c)}"
    by (auto simp: A'_def B'_def)
  ultimately show ?case using Cons.IH [of "tier_step f t x" A' B'] by simp
qed simp

text \<open>The winner: longest match, the session's own entries preferred, then most recently used.\<close>

definition best_of :: "'d best_candidate set \<Rightarrow> 'd best_candidate set \<Rightarrow> 'd best_candidate option \<Rightarrow> bool" where
  "best_of same other res \<longleftrightarrow>
     (case res of
        None \<Rightarrow> same = {} \<and> other = {}
      | Some c \<Rightarrow>
          (\<forall>c' \<in> same \<union> other. c_matched c' \<le> c_matched c)
          \<and> (c \<in> same \<and> (\<forall>c' \<in> same. \<not> beats c' c)
             \<or> c \<in> other \<and> (\<forall>c' \<in> other. \<not> beats c' c) \<and> (\<forall>c' \<in> same. c_matched c' < c_matched c)))"

lemma pick_tier_best:
  assumes "is_top (fst t) same" "is_top (snd t) other"
  shows "best_of same other (pick_tier t)"
proof -
  obtain a b where t: "t = (a, b)" by (cases t)
  have le: "c_matched c' \<le> c_matched c" if "\<not> beats c' c" for c c' :: "'a best_candidate"
    using that by (auto simp: beats_def split: if_splits)
  show ?thesis
    using assms unfolding t by (cases a; cases b) (fastforce simp: is_top_def best_of_def pick_tier_def dest: le)+
qed

text \<open>Candidates that cannot win may be added: they match less.\<close>

lemma best_of_extend:
  assumes "best_of same other (Some c)"
    "\<And>c'. c' \<in> same' \<Longrightarrow> c' \<in> same \<or> c_matched c' < c_matched c" "\<And>c'. c' \<in> other' \<Longrightarrow> c' \<in> other \<or> c_matched c' < c_matched c"
    "same \<subseteq> same'" "other \<subseteq> other'"
  shows "best_of same' other' (Some c)"
proof -
  have low: "\<not> beats c' c" if "c_matched c' < c_matched c" for c' using that by (simp add: beats_def)
  have "\<forall>c' \<in> same' \<union> other'. c_matched c' \<le> c_matched c"
    using assms(1-3) by (fastforce simp: best_of_def)
  moreover have "\<forall>c' \<in> same'. \<not> beats c' c" if "\<forall>c' \<in> same. \<not> beats c' c" using that assms(2) low by blast
  moreover have "\<forall>c' \<in> other'. \<not> beats c' c" if "\<forall>c' \<in> other. \<not> beats c' c" using that assms(3) low by blast
  moreover have "\<forall>c' \<in> same'. c_matched c' < c_matched c" if "\<forall>c' \<in> same. c_matched c' < c_matched c" using that assms(2) by blast
  ultimately show ?thesis using assms(1,4,5) unfolding best_of_def option.case by blast
qed

section \<open>The candidates of both paths\<close>

lemma common_prefix_len_le: "common_prefix_len xs ys \<le> length xs" "common_prefix_len xs ys \<le> length ys"
  by (induction xs ys rule: common_prefix_len.induct) auto

lemma common_prefix_len_take: "take (common_prefix_len xs ys) xs = take (common_prefix_len xs ys) ys"
  by (induction xs ys rule: common_prefix_len.induct) auto

lemma common_prefix_len_full: "common_prefix_len xs ys = length xs \<longleftrightarrow> length xs \<le> length ys \<and> xs = take (length xs) ys"
  by (induction xs ys rule: common_prefix_len.induct) auto

definition cand_of :: "'d \<Rightarrow> 'a entry_slot \<Rightarrow> nat \<Rightarrow> 'd best_candidate" where
  "cand_of dg slot n = \<lparr>c_digest = dg, c_matched = n, c_last_used = e_last_used (entry slot)\<rparr>"

lemma cand_of_sel [simp]: "c_digest (cand_of dg slot n) = dg" "c_matched (cand_of dg slot n) = n"
  by (simp_all add: cand_of_def)

definition admissible :: "bool \<Rightarrow> int list \<Rightarrow> nat \<Rightarrow> 'a entry_slot \<Rightarrow> bool" where
  "admissible part toks min_len slot \<longleftrightarrow>
     (let q = e_tokens (entry slot); n = common_prefix_len q toks
      in has_detached (entry slot) \<and> min_len \<le> n \<and> (part \<or> n = length q))"

definition offered ::
  "('d, 'a entry_slot) hmap \<Rightarrow> sessionless_bucket_key \<Rightarrow> prompt_cache_key \<Rightarrow> int list \<Rightarrow> nat \<Rightarrow> bool \<Rightarrow> bool \<Rightarrow> 'd best_candidate set" where
  "offered slots sl key toks min_len part same =
     {cand_of dg slot (common_prefix_len (e_tokens (entry slot)) toks) | dg slot.
        (dg, slot) \<in> set slots \<and> sessionless slot = sl \<and> same_session (bucket slot) key = same
        \<and> admissible part toks min_len slot}"

definition scan_offer ::
  "sessionless_bucket_key \<Rightarrow> prompt_cache_key \<Rightarrow> int list \<Rightarrow> nat \<Rightarrow> bool \<Rightarrow> 'd \<times> 'a entry_slot \<Rightarrow> (bool \<times> 'd best_candidate) option" where
  "scan_offer sl key toks min_len part kv =
     (if sessionless (snd kv) = sl \<and> admissible part toks min_len (snd kv)
      then Some (same_session (bucket (snd kv)) key,
                 cand_of (fst kv) (snd kv) (common_prefix_len (e_tokens (entry (snd kv))) toks))
      else None)"

lemma add_candidate_eq:
  "add_candidate key dg slot n t =
     (if same_session (bucket slot) key then (offer (fst t) (cand_of dg slot n), snd t) else (fst t, offer (snd t) (cand_of dg slot n)))"
  by (simp add: add_candidate_def cand_of_def Let_def)

lemma scan_candidate_eq: "scan_candidate sl key toks min_len part = tier_step (scan_offer sl key toks min_len part)"
proof (intro ext)
  fix t :: "'a best_candidate option \<times> 'a best_candidate option" and kv :: "'a \<times> 'b entry_slot"
  obtain dg slot where kv: "kv = (dg, slot)" by (cases kv)
  let ?q = "e_tokens (entry slot)"
  have "\<not> part \<Longrightarrow> length ?q \<le> length toks \<and> ?q = take (length ?q) toks \<longleftrightarrow> common_prefix_len ?q toks = length ?q"
    using common_prefix_len_full [of ?q toks] by simp
  then show "scan_candidate sl key toks min_len part t kv = tier_step (scan_offer sl key toks min_len part) t kv"
    using common_prefix_len_le(1) [of ?q toks]
    by (cases part) (auto simp: kv scan_candidate_def tier_step_def scan_offer_def admissible_def add_candidate_eq Let_def)
qed

lemma select_best_by_scan_best:
  "best_of (offered slots sl key toks min_len part True) (offered slots sl key toks min_len part False)
     (select_best_by_scan slots sl key toks min_len part)"
proof -
  let ?f = "scan_offer sl key toks min_len part"
  have off: "{c. \<exists>x \<in> set slots. ?f x = Some (b, c)} = offered slots sl key toks min_len part b" for b
    by (force simp: scan_offer_def offered_def split: if_splits)
  have "is_top (fst (foldl (tier_step ?f) (None, None) slots)) (offered slots sl key toks min_len part True)
    \<and> is_top (snd (foldl (tier_step ?f) (None, None) slots)) (offered slots sl key toks min_len part False)"
    using tier_fold [of "(None, None)" "{}" "{}" ?f slots] off by (simp add: is_top_def)
  then show ?thesis unfolding select_best_by_scan_def scan_candidate_eq by (intro pick_tier_best) simp_all
qed

definition trie_offer ::
  "('d, 'a entry_slot) hmap \<Rightarrow> prompt_cache_key \<Rightarrow> int list \<Rightarrow> nat \<Rightarrow> bool \<Rightarrow> nat \<Rightarrow> 'd digest_and_len \<Rightarrow> (bool \<times> 'd best_candidate) option" where
  "trie_offer slots key toks min_len part k dl =
     (case hm_get slots (digest dl) of
        None \<Rightarrow> None
      | Some slot \<Rightarrow>
          if has_detached (entry slot) \<and> (part \<or> token_len dl \<le> length toks \<and> token_len dl \<le> k) \<and> min_len \<le> min k (token_len dl)
          then Some (same_session (bucket slot) key, cand_of (digest dl) slot (min k (token_len dl)))
          else None)"

lemma visit_candidate_eq:
  "visit_candidate slots key toks min_len part k = tier_step (trie_offer slots key toks min_len part k)"
proof (intro ext)
  fix t :: "'a best_candidate option \<times> 'a best_candidate option" and dl :: "'a digest_and_len"
  show "visit_candidate slots key toks min_len part k t dl = tier_step (trie_offer slots key toks min_len part k) t dl"
    by (cases "hm_get slots (digest dl)"; cases part)
       (auto simp: visit_candidate_def tier_step_def trie_offer_def add_candidate_eq Let_def min_def not_le)
qed

text \<open>The trie surfaces the deepest candidates; what it leaves out matches less.\<close>

lemma trie_offers:
  assumes inv: "store_inv st" and t: "hm_get (tries st) sl = Some t" and m: "find_longest_prefix t toks min_len = Some m"
  shows "{c. \<exists>x \<in> set (candidates m). trie_offer (store_entries st) key toks min_len part (depth m) x = Some (b, c)}
    = {c \<in> offered (store_entries st) sl key toks min_len part b. c_matched c = depth m}"
    and "c \<in> offered (store_entries st) sl key toks min_len part b \<Longrightarrow> c_matched c \<le> depth m"
proof -
  let ?slots = "store_entries st" and ?k = "depth m"
  have wf: "hm_wf ?slots" and ix: "index_ok ?slots (tries st)" using inv by (auto simp: store_inv_def)
  note it = index_ok_get [OF ix t]
  have "trie_lookup t toks min_len = Some (?k, candidates m)" using m by (simp add: trie_lookup_def)
  with rt.look_scan [OF it(1), of toks min_len] have
    k: "min_len \<le> ?k" and le: "\<And>q d. (q, d) \<in> contents t \<Longrightarrow> common_prefix_len q toks \<le> ?k"
    and cs: "set (candidates m) = {\<lparr>digest = d, token_len = length q\<rparr> | q d. (q, d) \<in> contents t \<and> common_prefix_len q toks = ?k}"
    by (auto simp: scan_answers_def)
  have mem: "(q, d) \<in> contents t \<longleftrightarrow> (\<exists>slot. hm_get ?slots d = Some slot \<and> sessionless slot = sl \<and> e_tokens (entry slot) = q)" for q d
    unfolding it(2) bucket_of_def using wf by (auto simp: map_of_eq_Some_iff)
  show "c_matched c \<le> ?k" if cin: "c \<in> offered ?slots sl key toks min_len part b"
  proof -
    obtain dg slot where c: "c = cand_of dg slot (common_prefix_len (e_tokens (entry slot)) toks)"
      "(dg, slot) \<in> set ?slots" "sessionless slot = sl" using cin by (auto simp: offered_def)
    then have "(e_tokens (entry slot), dg) \<in> contents t" unfolding it(2) bucket_of_def by blast
    from le [OF this] show ?thesis using c(1) by simp
  qed
  have adm: "admissible part toks min_len slot \<longleftrightarrow> has_detached (entry slot) \<and> (part \<or> length q \<le> length toks \<and> length q \<le> ?k) \<and> min_len \<le> min ?k (length q)"
    and mn: "min ?k (length q) = ?k"
    if "e_tokens (entry slot) = q" "common_prefix_len q toks = ?k" for slot q
    using that common_prefix_len_le [of q toks] by (auto simp: admissible_def Let_def min_def)
  have off: "trie_offer ?slots key toks min_len part ?k \<lparr>digest = d, token_len = length q\<rparr> = Some (b, c)
      \<longleftrightarrow> (\<exists>slot. hm_get ?slots d = Some slot \<and> admissible part toks min_len slot \<and> same_session (bucket slot) key = b \<and> c = cand_of d slot ?k)"
    if qd: "(q, d) \<in> contents t" "common_prefix_len q toks = ?k" for q d c
  proof -
    have "\<exists>slot. hm_get ?slots d = Some slot \<and> sessionless slot = sl \<and> e_tokens (entry slot) = q"
      using qd(1) mem [of q d] by (rule iffD1 [rotated])
    then obtain slot where s: "hm_get ?slots d = Some slot" "e_tokens (entry slot) = q" by (elim exE conjE)
    show ?thesis unfolding trie_offer_def using s(1) adm [OF s(2) qd(2)] mn [OF s(2) qd(2)] by (auto simp del: min_less_iff_conj)
  qed
  show "{c. \<exists>x \<in> set (candidates m). trie_offer ?slots key toks min_len part ?k x = Some (b, c)}
    = {c \<in> offered ?slots sl key toks min_len part b. c_matched c = ?k}" (is "?L = ?R")
  proof (rule set_eqI)
    fix c
    have "c \<in> ?L \<longleftrightarrow> (\<exists>q d slot. hm_get ?slots d = Some slot \<and> sessionless slot = sl \<and> e_tokens (entry slot) = q \<and> common_prefix_len q toks = ?k
        \<and> admissible part toks min_len slot \<and> same_session (bucket slot) key = b \<and> c = cand_of d slot ?k)"
      unfolding cs using off mem by fastforce
    also have "\<dots> \<longleftrightarrow> c \<in> ?R"
    proof
      assume "\<exists>q d slot. hm_get ?slots d = Some slot \<and> sessionless slot = sl \<and> e_tokens (entry slot) = q \<and> common_prefix_len q toks = ?k
        \<and> admissible part toks min_len slot \<and> same_session (bucket slot) key = b \<and> c = cand_of d slot ?k"
      then obtain d slot where s: "(d, slot) \<in> set ?slots" "sessionless slot = sl" "admissible part toks min_len slot"
        "same_session (bucket slot) key = b" "c = cand_of d slot (common_prefix_len (e_tokens (entry slot)) toks)" "c_matched c = ?k"
        by (elim exE conjE) (auto dest: map_of_SomeD)
      then show "c \<in> ?R" unfolding offered_def by blast
    next
      assume "c \<in> ?R"
      then obtain d slot where s: "(d, slot) \<in> set ?slots" "sessionless slot = sl" "admissible part toks min_len slot"
        "same_session (bucket slot) key = b" "c = cand_of d slot (common_prefix_len (e_tokens (entry slot)) toks)" "c_matched c = ?k"
        unfolding offered_def by blast
      have "hm_get ?slots d = Some slot" using wf s(1) by simp
      moreover have "common_prefix_len (e_tokens (entry slot)) toks = ?k" using s(5,6) by simp
      ultimately show "\<exists>q d slot. hm_get ?slots d = Some slot \<and> sessionless slot = sl \<and> e_tokens (entry slot) = q \<and> common_prefix_len q toks = ?k
        \<and> admissible part toks min_len slot \<and> same_session (bucket slot) key = b \<and> c = cand_of d slot ?k"
        using s by metis
    qed
    finally show "c \<in> ?L \<longleftrightarrow> c \<in> ?R" .
  qed
qed

lemma select_best_best:
  assumes "store_inv st" "hm_get (tries st) sl = Some t"
    and "select_best (store_entries st) t key toks min_len part = Some w"
  shows "best_of (offered (store_entries st) sl key toks min_len part True) (offered (store_entries st) sl key toks min_len part False) (Some w)"
proof -
  obtain m where m: "find_longest_prefix t toks min_len = Some m" using assms(3) by (auto simp: select_best_def split: option.splits)
  let ?o = "offered (store_entries st) sl key toks min_len part"
  let ?A = "\<lambda>b. {c \<in> ?o b. c_matched c = depth m}"
  let ?f = "trie_offer (store_entries st) key toks min_len part (depth m)"
  have "is_top (fst (foldl (tier_step ?f) (None, None) (candidates m))) (?A True)
    \<and> is_top (snd (foldl (tier_step ?f) (None, None) (candidates m))) (?A False)"
    using tier_fold [of "(None, None)" "{}" "{}" ?f "candidates m"] trie_offers(1) [OF assms(1,2) m] by (simp add: is_top_def)
  then have "best_of (?A True) (?A False) (Some w)"
    using pick_tier_best [of "foldl (tier_step ?f) (None, None) (candidates m)" "?A True" "?A False"] assms(3) m
    by (simp add: select_best_def visit_candidate_eq)
  moreover from this have "c_matched w = depth m" by (auto simp: best_of_def)
  ultimately show ?thesis
    using trie_offers(2) [OF assms(1,2) m] by (elim best_of_extend) (force simp: order.order_iff_strict)+
qed

lemma lookup_select_best:
  assumes "store_inv st"
  shows "best_of
    (offered (store_entries st) (sessionless_from_key key) key toks (min_prefix_tokens (config st)) (apc_enabled (config st)) True)
    (offered (store_entries st) (sessionless_from_key key) key toks (min_prefix_tokens (config st)) (apc_enabled (config st)) False)
    (lookup_select st key toks)"
proof (cases "hm_get (tries st) (sessionless_from_key key)")
  case None
  then have "bucket_of (store_entries st) (sessionless_from_key key) = {}" using assms by (auto simp: store_inv_def index_ok_def)
  then have "offered (store_entries st) (sessionless_from_key key) key toks n p b = {}" for n p b
    by (auto simp: offered_def bucket_of_def)
  then show ?thesis using None by (simp add: lookup_select_def best_of_def)
next
  case (Some t)
  show ?thesis
    using select_best_best [OF assms Some] select_best_by_scan_best Some
    by (auto simp: lookup_select_def Let_def split: option.split)
qed

end
