(* ===== verification/Store_Runs.thy ===== *)
theory Store_Runs
  imports Store_Lookup
begin

text \<open>
  Runs of the prompt-cache store, with a ledger of the paged sets that went in and came out; what the sweeps leave,
  which slot properties every run keeps, which entry a lookup picks, and when the eviction loops reach their caps.
\<close>

section \<open>Shrinking\<close>

definition shrinks :: "('a, 'd, 's) prompt_store \<Rightarrow> ('a, 'd, 's) prompt_store \<Rightarrow> bool" where
  "shrinks st st' \<longleftrightarrow> set (store_entries st') \<subseteq> set (store_entries st) \<and> length (store_entries st') \<le> length (store_entries st)"

lemma shrinks_refl: "shrinks st st"
  by (simp add: shrinks_def)

lemma shrinks_trans: "shrinks st st' \<Longrightarrow> shrinks st' st'' \<Longrightarrow> shrinks st st''"
  by (auto simp: shrinks_def)

lemma remove_entry_shrinks: "shrinks st (snd (remove_entry st dg))"
  by (auto simp: shrinks_def store_entries_remove hm_set_remove length_delete_le)

lemma evict_oldest_shrinks: "shrinks st (snd (evict_oldest st))"
  using remove_entry_shrinks [of st] shrinks_refl [of st]
  by (auto simp: evict_oldest_def Let_def case_prod_unfold shrinks_def split: option.split)

lemma evict_while_shrinks: "shrinks st (snd (evict_while over freed st))"
proof (induction over freed st rule: evict_while.induct)
  case (1 over freed st)
  show ?case using 1 shrinks_refl [of st] evict_oldest_shrinks [of st] shrinks_trans [OF evict_oldest_shrinks]
    by (subst evict_while.simps) auto
qed

lemma enforce_caps_shrinks: "shrinks st (snd (enforce_caps st))"
  using shrinks_trans [OF evict_while_shrinks evict_while_shrinks] by (simp add: enforce_caps_def case_prod_unfold)

lemma remove_entries_entries: "store_entries (snd (snd (remove_entries st ds))) = filter (\<lambda>e. fst e \<notin> set ds) (store_entries st)"
  by (rule er.remove_all_map)

section \<open>Sweeps\<close>

definition fresh :: "prompt_cache_config \<Rightarrow> nat \<Rightarrow> 'a entry_slot \<Rightarrow> bool" where
  "fresh c now slot \<longleftrightarrow> ttl c = 0 \<or> now - e_last_used (entry slot) < ttl c"

lemma sweep_drained_entries:
  assumes "store_inv st"
  shows "store_entries (snd (sweep_drained st)) = filter (\<lambda>e. has_detached (entry (snd e))) (store_entries st)"
  using er.remove_matching [OF assms, of "\<lambda>slot. \<not> has_detached (entry slot)"]
  by (simp add: sweep_drained_def Let_def case_prod_unfold)

lemma sweep_ttl_entries:
  assumes "store_inv st"
  shows "store_entries (snd (sweep_ttl st now)) = filter (\<lambda>e. fresh (config st) now (snd e)) (store_entries st)"
  using er.remove_matching [OF assms, of "\<lambda>slot. ttl (config st) \<le> now - e_last_used (entry slot)"]
  by (simp add: sweep_ttl_def Let_def case_prod_unfold fresh_def not_le)

lemma lookup_sweep_entries:
  assumes "store_inv st"
  shows "store_entries (lookup_sweep st now) =
    filter (\<lambda>e. has_detached (entry (snd e)) \<and> fresh (config st) now (snd e)) (store_entries st)"
  using sweep_drained_entries [OF assms] sweep_ttl_entries [of "snd (sweep_drained st)" now] sweep_drained_keeps [OF assms]
  by (simp add: lookup_sweep_def keeps_def conj_commute)

section \<open>A property of every slot\<close>

definition all_slots :: "('a entry_slot \<Rightarrow> bool) \<Rightarrow> ('a, 'd, 's) prompt_store \<Rightarrow> bool" where
  "all_slots P st \<longleftrightarrow> (\<forall>e \<in> set (store_entries st). P (snd e))"

lemma all_slots_shrinks: "shrinks st st' \<Longrightarrow> all_slots P st \<Longrightarrow> all_slots P st'"
  by (auto simp: all_slots_def shrinks_def)

lemma all_slots_same: "store_entries st' = store_entries st \<Longrightarrow> all_slots P st' = all_slots P st"
  by (simp add: all_slots_def)

lemma all_slots_update:
  assumes "all_slots P st" "P slot"
  shows "all_slots P (st\<lparr>store_entries := hm_insert dg slot (store_entries st)\<rparr>)"
proof -
  have "set (hm_insert dg slot m) \<subseteq> insert (dg, slot) (set m)" for m :: "('b, 'a entry_slot) hmap"
    by (induction m) auto
  then show ?thesis using assms by (fastforce simp: all_slots_def)
qed

lemma all_slots_get: "all_slots P st \<Longrightarrow> hm_get (store_entries st) dg = Some slot \<Longrightarrow> P slot"
  using map_of_SomeD by (fastforce simp: all_slots_def)

lemma evict_oldest_snapshot_entries: "store_entries (snd (evict_oldest_snapshot st)) = store_entries st"
proof (cases "min_by_key (\<lambda>(_, slot). s_last_used (s_entry slot)) (snapshots st)")
  case (Some x)
  obtain dg slot where x: "x = (dg, slot)" by (cases x)
  obtain r s where r: "remove_snapshot st dg = (r, s)" by fastforce
  then have "store_entries s = store_entries st" using remove_snapshot_fields(2) [of st dg] by simp
  then show ?thesis using Some x r by (cases r) (auto simp: evict_oldest_snapshot_def)
qed (simp add: evict_oldest_snapshot_def)

lemma evict_snapshots_while_entries: "store_entries (snd (evict_snapshots_while over freed st)) = store_entries st"
proof (induction over freed st rule: evict_snapshots_while.induct)
  case (1 over freed st)
  then show ?case using evict_oldest_snapshot_entries [of st] by (subst evict_snapshots_while.simps) simp
qed

lemma enforce_snapshot_caps_entries: "store_entries (snd (enforce_snapshot_caps st)) = store_entries st"
  by (simp add: enforce_snapshot_caps_def case_prod_unfold evict_snapshots_while_entries)

lemma remove_snapshots_entries: "store_entries (snd (snd (remove_snapshots st ds))) = store_entries st"
proof (induction ds arbitrary: st)
  case (Cons dg ds)
  then show ?case using sr.remove_all_step(1) [of st dg ds] by simp
qed simp

lemma sweep_snapshot_ttl_entries: "store_entries (snd (sweep_snapshot_ttl st now)) = store_entries st"
  by (simp add: sweep_snapshot_ttl_def Let_def case_prod_unfold remove_snapshots_entries)

lemma shrinks_filter: "store_entries st' = filter Q (store_entries st) \<Longrightarrow> shrinks st st'"
  by (auto simp: shrinks_def)

lemma sweeps_shrink: "shrinks st (snd (sweep_drained st))" "shrinks st (snd (sweep_ttl st now))"
  unfolding sweep_drained_def sweep_ttl_def
  by (auto simp: Let_def case_prod_unfold shrinks_refl intro!: shrinks_filter remove_entries_entries)

lemma lookup_sweep_shrinks: "shrinks st (lookup_sweep st now)"
  unfolding lookup_sweep_def by (rule shrinks_trans [OF sweeps_shrink(1) sweeps_shrink(2)])

lemma evict_if_needed_shrinks: "shrinks st (snd (evict_if_needed st now1 now2))"
proof -
  define s3 where "s3 = snd (enforce_caps (snd (sweep_ttl (snd (sweep_drained st)) now1)))"
  have "shrinks st s3" unfolding s3_def
    by (rule shrinks_trans [OF shrinks_trans [OF sweeps_shrink(1) sweeps_shrink(2)] enforce_caps_shrinks])
  moreover have "store_entries (snd (enforce_snapshot_caps (snd (sweep_snapshot_ttl s3 now2)))) = store_entries s3"
    by (simp add: enforce_snapshot_caps_entries sweep_snapshot_ttl_entries)
  ultimately show ?thesis
    using shrinks_refl [of st] by (simp add: evict_if_needed_def s3_def case_prod_unfold shrinks_def)
qed

lemma release_session_shrinks: "shrinks st (snd (release_session st session))"
  using shrinks_filter [OF remove_entries_entries] shrinks_refl [of st]
  by (auto simp: release_session_def Let_def case_prod_unfold shrinks_def remove_snapshots_entries remove_entries_entries)

lemma insert_snapshot_entries: "store_entries (snd (insert_snapshot blake3 st key e)) = store_entries st"
proof -
  obtain r s where r: "remove_snapshot st (key_digest blake3 key) = (r, s)" by fastforce
  then have "store_entries s = store_entries st" using remove_snapshot_fields(2) [of st "key_digest blake3 key"] by simp
  then show ?thesis by (cases r) (simp_all add: insert_snapshot_def Let_def r enforce_snapshot_caps_entries)
qed

lemma lookup_snapshot_entries: "store_entries (snd (lookup_snapshot_prefix st key toks now now')) = store_entries st"
  by (simp add: lookup_snapshot_prefix_def Let_def sweep_snapshot_ttl_entries split: option.split)

text \<open>A slot property that does not look at the timestamp or the payload.\<close>

definition stable :: "('a entry_slot \<Rightarrow> bool) \<Rightarrow> bool" where
  "stable P \<longleftrightarrow> (\<forall>slot now d. P slot \<longrightarrow> P (slot\<lparr>entry := (entry slot)\<lparr>e_last_used := now\<rparr>\<rparr>)
     \<and> P (slot\<lparr>entry := (entry slot)\<lparr>e_detached := d\<rparr>\<rparr>))"

lemma lookup_all_slots:
  assumes "all_slots P st" "stable P"
  shows "all_slots P (snd (lookup_longest_prefix H st key toks now now'))"
proof -
  let ?s = "lookup_sweep st now"
  have s: "all_slots P ?s" using all_slots_shrinks [OF lookup_sweep_shrinks assms(1)] .
  have "all_slots P (snd (lookup_commit H ?s key toks now' best))" for best
  proof (cases "fst (lookup_commit H ?s key toks now' best)")
    case None
    then have "store_entries (snd (lookup_commit H ?s key toks now' best)) = store_entries ?s"
      by (auto simp: lookup_commit_def Let_def split: option.splits if_splits)
    then show ?thesis using s by (simp add: all_slots_def)
  next
    case (Some x)
    then obtain dg slot where slot: "hm_get (store_entries ?s) dg = Some slot"
      and st': "store_entries (snd (lookup_commit H ?s key toks now' best)) = hm_insert dg (slot\<lparr>entry := touch now' (entry slot)\<rparr>) (store_entries ?s)"
      by (auto simp: lookup_commit_def Let_def split: option.splits if_splits)
    have "P (slot\<lparr>entry := touch now' (entry slot)\<rparr>)"
      using assms(2) all_slots_get [OF s slot] by (simp add: stable_def touch_def)
    from all_slots_update [OF s this, of dg] show ?thesis by (simp add: all_slots_def st')
  qed
  then show ?thesis using assms(1) by (simp add: lookup_longest_prefix_def Let_def)
qed

lemma take_detached_all_slots:
  assumes "all_slots P st" "stable P" "take_detached st dg = (d, st')"
  shows "all_slots P st'"
proof (cases "hm_get (store_entries st) dg")
  case None
  then show ?thesis using assms by (simp add: take_detached_def)
next
  case (Some slot)
  have "P (slot\<lparr>entry := (entry slot)\<lparr>e_detached := None\<rparr>\<rparr>)" using assms(2) all_slots_get [OF assms(1) Some] by (simp add: stable_def)
  from all_slots_update [OF assms(1) this, of dg] show ?thesis using Some assms(3) by (auto simp: take_detached_def)
qed

lemma insert_all_slots:
  assumes "all_slots P st" "P (filed_slot H (config st) key e)"
  shows "all_slots P (snd (insert_entry H blake3 st key e))"
proof (cases rule: insert_entry_cases [of H blake3 st key e])
  case refused
  then show ?thesis using assms(1) by (simp add: all_slots_def)
next
  case (accepted st2)
  have "all_slots P (snd (remove_entry st (key_digest blake3 key)))" by (rule all_slots_shrinks [OF remove_entry_shrinks assms(1)])
  from all_slots_update [OF this assms(2), of "key_digest blake3 key"] have "all_slots P st2"
    using accepted(3) by (simp add: all_slots_def store_entries_remove)
  from all_slots_shrinks [OF enforce_caps_shrinks this] show ?thesis using accepted(2) by simp
qed

section \<open>Runs\<close>

text \<open>A state of a run: the store, the paged sets given to it, those it handed back (to an adopter or to the
  scheduler that releases them), and those it dropped.\<close>

inductive store_run ::
  "block_hasher \<Rightarrow> (byte list \<Rightarrow> 'd) \<Rightarrow> prompt_cache_config \<Rightarrow> ('a, 'd, 's) prompt_store \<Rightarrow> 'a detached_paged_cache_set multiset
   \<Rightarrow> 'a detached_paged_cache_set multiset \<Rightarrow> 'a detached_paged_cache_set multiset \<Rightarrow> bool"
  for H :: block_hasher and blake3 :: "byte list \<Rightarrow> 'd" and c :: prompt_cache_config
where
  run_new: "store_run H blake3 c (store_new c) {#} {#} {#}"
| run_insert: "store_run H blake3 c st given returned dropped \<Longrightarrow> entry_room st (e_size_bytes e) \<Longrightarrow>
    store_run H blake3 c (snd (insert_entry H blake3 st key e)) (given + paged_of (e_detached e)) returned dropped"
| run_insert_snapshot: "store_run H blake3 c st given returned dropped \<Longrightarrow> snapshot_room st (s_size_bytes s) \<Longrightarrow>
    store_run H blake3 c (snd (insert_snapshot blake3 st key s)) given returned dropped"
| run_lookup: "store_run H blake3 c st given returned dropped \<Longrightarrow>
    store_run H blake3 c (snd (lookup_longest_prefix H st key toks now now')) given returned dropped"
| run_lookup_snapshot: "store_run H blake3 c st given returned dropped \<Longrightarrow>
    store_run H blake3 c (snd (lookup_snapshot_prefix st key toks now now')) given returned dropped"
| run_evict: "store_run H blake3 c st given returned dropped \<Longrightarrow>
    store_run H blake3 c (snd (evict_if_needed st now now')) given returned dropped"
| run_evict_one: "store_run H blake3 c st given returned dropped \<Longrightarrow>
    store_run H blake3 c (snd (evict_one_lru st)) given returned dropped"
| run_release: "store_run H blake3 c st given returned dropped \<Longrightarrow>
    store_run H blake3 c (snd (release_session st session)) given returned dropped"
| run_drain: "store_run H blake3 c st given returned dropped \<Longrightarrow> drain_pending_paged_releases st = (ps, st') \<Longrightarrow>
    store_run H blake3 c st' given (returned + mset ps) dropped"
| run_take: "store_run H blake3 c st given returned dropped \<Longrightarrow> take_detached st dg = (d, st') \<Longrightarrow>
    store_run H blake3 c st' given (returned + paged_of d) dropped"
| run_clear: "store_run H blake3 c st given returned dropped \<Longrightarrow>
    store_run H blake3 c (clear st) given returned (dropped + hm_total (\<lambda>slot. paged_of (e_detached (entry slot))) (store_entries st))"

lemma clear_parked:
  "paged_parked (clear st) + hm_total (\<lambda>slot. paged_of (e_detached (entry slot))) (store_entries st) = paged_parked st"
  by (simp add: paged_parked_def clear_def)

lemma store_run_inv:
  assumes "store_run H blake3 c st given returned dropped"
  shows "store_inv st \<and> config st = c \<and> paged_parked st + returned + dropped = given"
  using assms
proof induction
  case run_new
  then show ?case using store_new_inv [of c] by (simp add: store_new_def)
next
  case (run_insert st given returned dropped e key)
  then show ?case using insert_entry_inv [of st e H blake3 key] by (simp add: ac_simps)
next
  case (run_insert_snapshot st given returned dropped s key)
  then show ?case using insert_snapshot_inv [of st s blake3 key] by (simp add: keeps_def)
next
  case (run_lookup st given returned dropped key toks now now')
  then show ?case using lookup_keeps [of st H key toks now now'] by (simp add: keeps_def)
next
  case (run_lookup_snapshot st given returned dropped key toks now now')
  then show ?case using lookup_snapshot_keeps [of st key toks now now'] by (simp add: keeps_def)
next
  case (run_evict st given returned dropped now now')
  then show ?case using evict_if_needed_keeps [of st now now'] by (simp add: keeps_def)
next
  case (run_evict_one st given returned dropped)
  then show ?case using evict_oldest_keeps [of st] by (simp add: keeps_def evict_one_lru_def)
next
  case (run_release st given returned dropped session)
  then show ?case using release_session_keeps [of st session] by (simp add: keeps_def)
next
  case (run_drain st given returned dropped ps st')
  then show ?case using drain_inv [of st ps st'] by (auto simp: ac_simps drain_pending_paged_releases_def)
next
  case (run_take st given returned dropped dg d st')
  then show ?case using take_detached_inv [of st dg d st'] by (auto simp: ac_simps take_detached_def split: option.splits)
next
  case (run_clear st given returned dropped)
  then show ?case using clear_inv [of st] clear_parked [of st] by (auto simp: clear_def ac_simps)
qed

lemma store_run_slots:
  assumes "store_run H blake3 c st given returned dropped" "stable P" "\<And>key e. P (filed_slot H c key e)"
  shows "all_slots P st"
  using assms
proof (induction rule: store_run.induct)
  case run_new
  then show ?case by (simp add: all_slots_def store_new_def)
next
  case (run_insert st given returned dropped e key)
  have "config st = c" using store_run_inv [OF run_insert.hyps(1)] by blast
  then show ?case using insert_all_slots [of P st H key e blake3] run_insert by simp
next
  case (run_insert_snapshot st given returned dropped s key)
  then show ?case using all_slots_same [OF insert_snapshot_entries] by blast
next
  case (run_lookup st given returned dropped key toks now now')
  then show ?case using lookup_all_slots by blast
next
  case (run_lookup_snapshot st given returned dropped key toks now now')
  then show ?case using all_slots_same [OF lookup_snapshot_entries] by blast
next
  case (run_evict st given returned dropped now now')
  then show ?case using all_slots_shrinks [OF evict_if_needed_shrinks] by blast
next
  case (run_evict_one st given returned dropped)
  then show ?case using all_slots_shrinks [OF evict_oldest_shrinks] by (simp add: evict_one_lru_def)
next
  case (run_release st given returned dropped session)
  then show ?case using all_slots_shrinks [OF release_session_shrinks] by blast
next
  case (run_drain st given returned dropped ps st')
  then show ?case by (auto simp: drain_pending_paged_releases_def all_slots_def)
next
  case (run_take st given returned dropped dg d st')
  have "all_slots P st" by (rule run_take.IH [OF run_take.prems])
  then show ?case by (rule take_detached_all_slots [OF _ run_take.prems(1) run_take.hyps(2)])
next
  case (run_clear st given returned dropped)
  then show ?case by (simp add: all_slots_def clear_def)
qed

section \<open>What a lookup returns\<close>

definition reusable :: "('a, 'd, 's) prompt_store \<Rightarrow> nat \<Rightarrow> prompt_cache_key \<Rightarrow> 'd \<Rightarrow> 'a entry_slot \<Rightarrow> bool" where
  "reusable st now key dg slot \<longleftrightarrow>
     (dg, slot) \<in> set (store_entries st) \<and> sessionless slot = sessionless_from_key key
     \<and> has_detached (entry slot) \<and> fresh (config st) now slot"

lemma offered_sweep:
  assumes "store_inv st"
  shows "offered (store_entries (lookup_sweep st now)) (sessionless_from_key key) key toks min_len part b =
    {cand_of dg slot (common_prefix_len (e_tokens (entry slot)) toks) | dg slot.
       reusable st now key dg slot \<and> same_session (bucket slot) key = b
       \<and> min_len \<le> common_prefix_len (e_tokens (entry slot)) toks
       \<and> (part \<or> common_prefix_len (e_tokens (entry slot)) toks = length (e_tokens (entry slot)))}"
  unfolding offered_def lookup_sweep_entries [OF assms] by (auto simp: reusable_def admissible_def Let_def)

text \<open>The commit step on a winner.\<close>

lemma lookup_commit_some:
  assumes "store_inv st" "(dg, slot) \<in> set (store_entries st)" "c_digest w = dg"
    "n = (case (if apc_enabled (config st) then apc_block_hashes (entry slot) else None) of
        Some hs \<Rightarrow> apc_consistent_prefix_len H toks hs (apc_block_size (apc (config st))) (apc_hash (apc (config st))) (mm_digest key) (c_matched w)
      | None \<Rightarrow> c_matched w)"
  shows "fst (lookup_commit H st key toks now (Some w)) =
    (if n < min_prefix_tokens (config st) then None else Some (dg, touch now (entry slot), n))"
proof -
  have "hm_get (store_entries st) dg = Some slot" using assms(1,2) by (simp add: store_inv_def)
  then show ?thesis using assms(3,4)
    by (cases "apc_block_hashes (entry slot)") (simp_all add: lookup_commit_def Let_def)
qed

lemma lookup_winner:
  fixes toks :: "int list" and now :: nat and st :: "('a, 'd, 's) prompt_store"
  assumes inv: "store_inv st" and en: "is_enabled (config st)"
  defines "st1 \<equiv> lookup_sweep st now" and "mlen \<equiv> \<lambda>slot :: 'a entry_slot. common_prefix_len (e_tokens (entry slot)) toks"
    and "good \<equiv> \<lambda>slot :: 'a entry_slot. min_prefix_tokens (config st) \<le> common_prefix_len (e_tokens (entry slot)) toks
      \<and> (apc_enabled (config st) \<or> common_prefix_len (e_tokens (entry slot)) toks = length (e_tokens (entry slot)))"
  shows "(\<forall>dg slot. reusable st now key dg slot \<longrightarrow> \<not> good slot) \<and> fst (lookup_longest_prefix H st key toks now now') = None
    \<or> (\<exists>dg slot. reusable st now key dg slot \<and> good slot
        \<and> fst (lookup_longest_prefix H st key toks now now') = fst (lookup_commit H st1 key toks now' (Some (cand_of dg slot (mlen slot))))
        \<and> (\<forall>dg' slot'. reusable st now key dg' slot' \<and> good slot' \<longrightarrow> mlen slot' \<le> mlen slot
            \<and> (same_session (bucket slot') key \<and> \<not> same_session (bucket slot) key \<longrightarrow> mlen slot' < mlen slot)
            \<and> (mlen slot' = mlen slot \<and> same_session (bucket slot') key = same_session (bucket slot) key
                \<longrightarrow> e_last_used (entry slot') \<le> e_last_used (entry slot))))"
proof -
  let ?off = "\<lambda>b. {cand_of dg slot (mlen slot) | dg slot. reusable st now key dg slot \<and> same_session (bucket slot) key = b \<and> good slot}"
  have k: "keeps st st1" using lookup_sweep_keeps [OF inv] by (simp add: st1_def)
  have cfg: "config st1 = config st" using keepsD(2) [OF k] .
  have run: "fst (lookup_longest_prefix H st key toks now now') = fst (lookup_commit H st1 key toks now' (lookup_select st1 key toks))"
    using en by (simp add: lookup_longest_prefix_def Let_def st1_def)
  have best: "best_of (?off True) (?off False) (lookup_select st1 key toks)"
    using lookup_select_best [OF keepsD(1) [OF k], of key toks] offered_sweep [OF inv, of now key toks]
    unfolding cfg by (simp add: st1_def mlen_def good_def)
  show ?thesis
  proof (cases "lookup_select st1 key toks")
    case None
    then have "\<not> good slot" if "reusable st now key dg slot" for dg slot
      using best that by (cases "same_session (bucket slot) key") (auto simp: best_of_def)
    then show ?thesis using None run by (simp add: lookup_commit_def Let_def)
  next
    case (Some w)
    have le: "c_matched c' \<le> c_matched w" if "c' \<in> ?off True \<or> c' \<in> ?off False" for c'
      using best that unfolding Some best_of_def option.case by blast
    obtain b where b: "w \<in> ?off b" "\<And>c'. c' \<in> ?off b \<Longrightarrow> \<not> beats c' w" "\<And>c'. \<not> b \<Longrightarrow> c' \<in> ?off True \<Longrightarrow> c_matched c' < c_matched w"
      using best unfolding Some best_of_def option.case by blast
    then obtain dg slot where w: "w = cand_of dg slot (mlen slot)" "reusable st now key dg slot" "good slot"
      "same_session (bucket slot) key = b" by blast
    have "mlen slot' \<le> mlen slot
        \<and> (same_session (bucket slot') key \<and> \<not> same_session (bucket slot) key \<longrightarrow> mlen slot' < mlen slot)
        \<and> (mlen slot' = mlen slot \<and> same_session (bucket slot') key = same_session (bucket slot) key
            \<longrightarrow> e_last_used (entry slot') \<le> e_last_used (entry slot))"
      if r: "reusable st now key dg' slot'" "good slot'" for dg' slot'
    proof -
      let ?c = "cand_of dg' slot' (mlen slot')"
      have c: "?c \<in> ?off (same_session (bucket slot') key)" using r by blast
      have "mlen slot' \<le> mlen slot"
        using le [of ?c] c w(1) by (cases "same_session (bucket slot') key") auto
      moreover have "mlen slot' < mlen slot" if "same_session (bucket slot') key" "\<not> same_session (bucket slot) key"
        using b(3) [of ?c] c that w(1,4) by auto
      moreover have "e_last_used (entry slot') \<le> e_last_used (entry slot)"
        if "mlen slot' = mlen slot" "same_session (bucket slot') key = same_session (bucket slot) key"
        using b(2) [of ?c] c that w(1,4) by (simp add: beats_def cand_of_def)
      ultimately show ?thesis by blast
    qed
    moreover have "fst (lookup_longest_prefix H st key toks now now') = fst (lookup_commit H st1 key toks now' (Some (cand_of dg slot (mlen slot))))"
      using run unfolding Some w(1) .
    ultimately show ?thesis using w(2,3) by (intro disjI2 exI [of _ dg] exI [of _ slot]) blast
  qed
qed

section \<open>Caps\<close>

lemma evict_oldest_pos:
  assumes "store_inv st" "store_entries st \<noteq> []" "all_slots (\<lambda>slot. 0 < size_of slot) st"
  shows "0 < fst (evict_oldest st)"
proof -
  obtain y where y: "min_by_key (\<lambda>(_, slot). e_last_used (entry slot)) (store_entries st) = Some y"
    using assms(2) by (cases "store_entries st") (auto simp: min_by_key_def)
  obtain dg slot where "y = (dg, slot)" by (cases y)
  with y have m: "min_by_key (\<lambda>(_, slot). e_last_used (entry slot)) (store_entries st) = Some (dg, slot)" by simp
  then have "(dg, slot) \<in> set (store_entries st)" by (rule min_by_key_in)
  then have "hm_get (store_entries st) dg = Some slot" "0 < size_of slot"
    using assms(1,3) by (auto simp: store_inv_def all_slots_def)
  then show ?thesis using m remove_entry_result [of st dg] by (simp add: evict_oldest_def Let_def case_prod_unfold)
qed

lemma evict_while_stops:
  assumes "store_inv st" "all_slots (\<lambda>slot. 0 < size_of slot) st" "\<And>s. store_inv s \<Longrightarrow> over s \<Longrightarrow> store_entries s \<noteq> []"
  shows "\<not> over (snd (evict_while over freed st))"
  using assms
proof (induction over freed st rule: evict_while.induct)
  case (1 over freed st)
  show ?case
  proof (cases "over st")
    case True
    then have pos: "0 < fst (evict_oldest st)" using evict_oldest_pos 1(2-4) by blast
    have "\<not> over (snd (evict_while over (freed + fst (evict_oldest st)) (snd (evict_oldest st))))"
      using 1(1) [OF True] pos keepsD(1) [OF evict_oldest_keeps [OF 1(2)]] all_slots_shrinks [OF evict_oldest_shrinks 1(3)] 1(4) by simp
    then show ?thesis using True pos by (subst evict_while.simps) simp
  qed (simp add: evict_while.simps [of over freed st])
qed

lemma enforce_caps_bounds:
  assumes "store_inv st" "all_slots (\<lambda>slot. 0 < size_of slot) st"
  shows "length (store_entries (snd (enforce_caps st))) \<le> max_entries (config st)
    \<and> total_bytes (snd (enforce_caps st)) \<le> capacity_bytes (config st)"
proof -
  let ?o1 = "\<lambda>s :: ('a, 'b, 'c) prompt_store. max_entries (config s) < length (store_entries s)"
  let ?o2 = "\<lambda>s :: ('a, 'b, 'c) prompt_store. capacity_bytes (config s) < total_bytes s"
  define s1 where "s1 = snd (evict_while ?o1 0 st)"
  define f where "f = fst (evict_while ?o1 0 st)"
  define s2 where "s2 = snd (evict_while ?o2 f s1)"
  have k1: "keeps st s1" unfolding s1_def by (rule evict_while_keeps [OF assms(1)])
  have k2: "keeps s1 s2" unfolding s2_def by (rule evict_while_keeps [OF keepsD(1) [OF k1]])
  have "\<not> ?o1 s1" unfolding s1_def by (rule evict_while_stops [OF assms]) auto
  moreover have "shrinks s1 s2" unfolding s2_def by (rule evict_while_shrinks)
  moreover have "\<not> ?o2 s2" unfolding s2_def
  proof (rule evict_while_stops [OF keepsD(1) [OF k1]])
    show "all_slots (\<lambda>slot. 0 < size_of slot) s1" unfolding s1_def by (rule all_slots_shrinks [OF evict_while_shrinks assms(2)])
    show "store_entries s \<noteq> []" if "store_inv s" "capacity_bytes (config s) < total_bytes s" for s :: "('a, 'b, 'c) prompt_store"
      using that by (auto simp: store_inv_def)
  qed
  ultimately have "length (store_entries s2) \<le> max_entries (config st)" "total_bytes s2 \<le> capacity_bytes (config st)"
    using keepsD(2) [OF k1] keepsD(2) [OF k2] by (auto simp: shrinks_def)
  then show ?thesis by (simp add: enforce_caps_def case_prod_unfold s2_def s1_def f_def)
qed

lemma hm_insert_absent: "hm_get m k = None \<Longrightarrow> hm_insert k v m = m @ [(k, v)]"
  by (induction m) auto

lemma min_by_key_snoc:
  assumes "min_by_key k xs = Some m" "k m \<le> k x"
  shows "min_by_key k (xs @ [x]) = Some m"
  using assms by (cases xs) (auto simp: min_by_key_def)

section \<open>Chains of block hashes\<close>

text \<open>The chain an entry carries is the one its tokens and its bucket determine.\<close>

definition chain_slot :: "block_hasher \<Rightarrow> prompt_cache_config \<Rightarrow> 'a entry_slot \<Rightarrow> bool" where
  "chain_slot H c slot \<longleftrightarrow> (apc_enabled c \<longrightarrow> apc_block_hashes (entry slot) =
     Some (hashes (chain_compute H (e_tokens (entry slot)) (apc_block_size (apc c)) (apc_hash (apc c)) (sl_mm_digest (sessionless slot)))))"

lemma store_run_chains: "store_run H blake3 c st given returned dropped \<Longrightarrow> all_slots (chain_slot H c) st"
  by (rule store_run_slots) (auto simp: stable_def chain_slot_def filed_slot_def with_apc_block_hashes_def sessionless_from_key_def)

text \<open>The number of tokens of a request that an entry can serve.\<close>

definition usable_len :: "prompt_cache_config \<Rightarrow> int list \<Rightarrow> 'a entry_slot \<Rightarrow> nat option" where
  "usable_len c toks slot =
     (let n = common_prefix_len (e_tokens (entry slot)) toks
      in if apc_enabled c then Some (n div apc_block_size (apc c) * apc_block_size (apc c))
         else if n = length (e_tokens (entry slot)) then Some n else None)"

lemma lookup_commit_usable:
  assumes "store_inv st" "config st = c" "(dg, slot) \<in> set (store_entries st)" "chain_slot H c slot"
    "sessionless slot = sessionless_from_key key"
    "apc_enabled c \<or> common_prefix_len (e_tokens (entry slot)) toks = length (e_tokens (entry slot))"
    "usable_len c toks slot = Some n"
  shows "fst (lookup_commit H st key toks now (Some (cand_of dg slot (common_prefix_len (e_tokens (entry slot)) toks)))) =
    (if n < min_prefix_tokens c then None else Some (dg, touch now (entry slot), n))"
proof -
  let ?m = "common_prefix_len (e_tokens (entry slot)) toks"
  have "apc_consistent_prefix_len H toks hs (apc_block_size (apc c)) (apc_hash (apc c)) (mm_digest key) ?m = n"
    if "apc_enabled c" "apc_block_hashes (entry slot) = Some hs" for hs
    using apc_check_floors [of "apc_block_size (apc c)" ?m toks "e_tokens (entry slot)" H "apc_hash (apc c)" "mm_digest key"]
      that assms(4,5,7) common_prefix_len_le [of "e_tokens (entry slot)" toks] common_prefix_len_take [of "e_tokens (entry slot)" toks]
    by (simp add: chain_slot_def usable_len_def sessionless_from_key_def apc_enabled_def apc_is_enabled_def)
  moreover have "?m = n" if "\<not> apc_enabled c" using that assms(6,7) by (simp add: usable_len_def Let_def)
  moreover have "apc_block_hashes (entry slot) \<noteq> None" if "apc_enabled c" using that assms(4) by (auto simp: chain_slot_def)
  ultimately show ?thesis
    using assms(2) by (intro lookup_commit_some [OF assms(1,3), unfolded assms(2)]) (auto split: option.splits)
qed

lemma usable_len_common:
  assumes "usable_len c toks slot = Some n"
  shows "n \<le> common_prefix_len (e_tokens (entry slot)) toks" "take n (e_tokens (entry slot)) = take n toks"
proof -
  show le: "n \<le> common_prefix_len (e_tokens (entry slot)) toks"
    using assms by (auto simp: usable_len_def Let_def split: if_splits)
  show "take n (e_tokens (entry slot)) = take n toks"
    using arg_cong [OF common_prefix_len_take [of "e_tokens (entry slot)" toks], of "take n"] le by (simp add: min_absorb1)
qed

lemma usable_len_mono:
  assumes "usable_len c toks slot = Some n" "usable_len c toks slot' = Some n'"
    "common_prefix_len (e_tokens (entry slot')) toks \<le> common_prefix_len (e_tokens (entry slot)) toks"
  shows "n' \<le> n"
  using assms div_le_mono [OF assms(3), of "apc_block_size (apc c)"] by (auto simp: usable_len_def Let_def split: if_splits)

lemma usable_winner:
  fixes toks :: "int list" and now :: nat and st :: "('a, 'd, 's) prompt_store"
  assumes inv: "store_inv st" and en: "is_enabled (config st)" and chains: "all_slots (chain_slot H (config st)) st"
  defines "c \<equiv> config st" and "mlen \<equiv> \<lambda>slot :: 'a entry_slot. common_prefix_len (e_tokens (entry slot)) toks"
  shows "(\<forall>dg slot n. reusable st now key dg slot \<and> usable_len c toks slot = Some n \<longrightarrow> n < min_prefix_tokens c)
      \<and> fst (lookup_longest_prefix H st key toks now now') = None
    \<or> (\<exists>dg slot n. fst (lookup_longest_prefix H st key toks now now') = Some (dg, touch now' (entry slot), n)
        \<and> reusable st now key dg slot \<and> usable_len c toks slot = Some n \<and> min_prefix_tokens c \<le> n
        \<and> (\<forall>dg' slot' n'. reusable st now key dg' slot' \<and> usable_len c toks slot' = Some n' \<longrightarrow> n' \<le> n
            \<and> (mlen slot' = mlen slot \<longrightarrow> (same_session (bucket slot') key \<longrightarrow> same_session (bucket slot) key)
                \<and> (same_session (bucket slot') key = same_session (bucket slot) key \<longrightarrow> e_last_used (entry slot') \<le> e_last_used (entry slot)))))"
  (is "?none \<or> ?some")
proof -
  let ?st1 = "lookup_sweep st now" and ?r = "fst (lookup_longest_prefix H st key toks now now')"
  define good where "good = (\<lambda>slot :: 'a entry_slot. min_prefix_tokens c \<le> mlen slot \<and> (apc_enabled c \<or> mlen slot = length (e_tokens (entry slot))))"
  have k: "store_inv ?st1" "config ?st1 = c" using lookup_sweep_keeps [OF inv, of now] by (auto simp: keeps_def c_def)
  have use: "good slot" if "usable_len c toks slot = Some n" "min_prefix_tokens c \<le> n" for slot n
    using that usable_len_common(1) [OF that(1)] by (auto simp: good_def mlen_def usable_len_def Let_def split: if_splits)
  have win: "(\<forall>dg slot. reusable st now key dg slot \<longrightarrow> \<not> good slot) \<and> ?r = None
    \<or> (\<exists>dg slot. reusable st now key dg slot \<and> good slot
        \<and> ?r = fst (lookup_commit H ?st1 key toks now' (Some (cand_of dg slot (mlen slot))))
        \<and> (\<forall>dg' slot'. reusable st now key dg' slot' \<and> good slot' \<longrightarrow> mlen slot' \<le> mlen slot
            \<and> (same_session (bucket slot') key \<and> \<not> same_session (bucket slot) key \<longrightarrow> mlen slot' < mlen slot)
            \<and> (mlen slot' = mlen slot \<and> same_session (bucket slot') key = same_session (bucket slot) key
                \<longrightarrow> e_last_used (entry slot') \<le> e_last_used (entry slot))))"
    unfolding good_def mlen_def c_def by (rule lookup_winner [OF inv en])
  then show ?thesis
  proof (elim disjE exE conjE)
    assume none: "\<forall>dg slot. reusable st now key dg slot \<longrightarrow> \<not> good slot" "?r = None"
    have "n < min_prefix_tokens c" if "reusable st now key dg slot" "usable_len c toks slot = Some n" for dg slot n
      using none(1) use [OF that(2)] that(1) by (meson not_le)
    then show ?thesis using none(2) by blast
  next
    fix dg slot
    assume r: "reusable st now key dg slot" and g: "good slot"
      and res: "?r = fst (lookup_commit H ?st1 key toks now' (Some (cand_of dg slot (mlen slot))))"
      and best: "\<forall>dg' slot'. reusable st now key dg' slot' \<and> good slot' \<longrightarrow> mlen slot' \<le> mlen slot
            \<and> (same_session (bucket slot') key \<and> \<not> same_session (bucket slot) key \<longrightarrow> mlen slot' < mlen slot)
            \<and> (mlen slot' = mlen slot \<and> same_session (bucket slot') key = same_session (bucket slot) key
                \<longrightarrow> e_last_used (entry slot') \<le> e_last_used (entry slot))"
    have "usable_len c toks slot \<noteq> None" using g by (auto simp: good_def mlen_def usable_len_def Let_def)
    then obtain n where n: "usable_len c toks slot = Some n" by blast
    have "chain_slot H c slot" using chains r by (auto simp: all_slots_def reusable_def c_def)
    moreover have "(dg, slot) \<in> set (store_entries ?st1)" using r lookup_sweep_entries [OF inv, of now] by (simp add: reusable_def)
    ultimately have r': "?r = (if n < min_prefix_tokens c then None else Some (dg, touch now' (entry slot), n))"
      unfolding res mlen_def using g r n
      by (intro lookup_commit_usable [OF k]) (auto simp: reusable_def good_def mlen_def)
    have tie: "n' \<le> n" if "reusable st now key dg' slot'" "usable_len c toks slot' = Some n'" "good slot'" for dg' slot' n'
      using usable_len_mono [OF n that(2)] best that(1,3) by (auto simp: mlen_def)
    show ?thesis
    proof (cases "n < min_prefix_tokens c")
      case True
      have "n' < min_prefix_tokens c" if "reusable st now key dg' slot'" "usable_len c toks slot' = Some n'" for dg' slot' n'
        using tie [OF that] use [OF that(2)] True by fastforce
      then show ?thesis using r' True by (intro disjI1 conjI) auto
    next
      case False
      have "n' \<le> n \<and> (mlen slot' = mlen slot \<longrightarrow> (same_session (bucket slot') key \<longrightarrow> same_session (bucket slot) key)
            \<and> (same_session (bucket slot') key = same_session (bucket slot) key \<longrightarrow> e_last_used (entry slot') \<le> e_last_used (entry slot)))"
        if u: "reusable st now key dg' slot'" "usable_len c toks slot' = Some n'" for dg' slot' n'
      proof (cases "good slot'")
        case True
        then show ?thesis using best u tie [OF u True] by fastforce
      next
        case ng: False
        then have "n' < min_prefix_tokens c" using use [OF u(2)] by (meson not_le)
        moreover have "mlen slot' \<noteq> mlen slot"
          using ng g u(2) by (auto simp: good_def mlen_def usable_len_def Let_def split: if_splits)
        ultimately show ?thesis using False by simp
      qed
      then show ?thesis using r' False r n by (intro disjI2 exI [of _ dg] exI [of _ slot] exI [of _ n]) auto
    qed
  qed
qed

end
