(* ===== verification/Store_Properties.thy ===== *)
theory Store_Properties
  imports Store_Runs Pool_Properties
begin

text \<open>
  Properties of the prompt-cache store: what the invariant says in every reachable state, that no paged set is lost,
  that the caps hold, that lookups return the best reusable entry, and what releasing a session does.
\<close>

section \<open>A demonstration store\<close>

definition demo_blake3 :: "byte list \<Rightarrow> byte" where
  "demo_blake3 bs = rev bs ! 3"

definition demo_config :: prompt_cache_config where
  "demo_config = config_new True 10 8 0 1"

definition demo_cache :: "nat \<Rightarrow> int list \<Rightarrow> nat \<Rightarrow> arr cache_entry" where
  "demo_cache now toks n = \<lparr>e_tokens = toks, e_detached = Some (Paged (demo_detached (demo_table [] []))), e_last_used = now,
     e_size_bytes = n, apc_block_hashes = None\<rparr>"

definition demo_insert :: "string option \<Rightarrow> nat \<Rightarrow> int \<Rightarrow> nat \<Rightarrow> (arr, byte, unit) prompt_store \<Rightarrow> (arr, byte, unit) prompt_store" where
  "demo_insert s now t n st = snd (insert_entry demo_hasher demo_blake3 st (demo_key s [t]) (demo_cache now [t] n))"

lemma demo_digest: "key_digest demo_blake3 (demo_key s [t]) = word_of_int t"
  by (simp add: key_digest_def digest_input_def demo_key_def new_full_def effective_prefix_len_def demo_blake3_def numeral_eq_Suc)

lemma demo_key_fields:
  "effective_prefix_len (demo_key s toks) = length toks" "session_key (demo_key s toks) = s"
  "bucket_from_key (demo_key s toks) = bucket_from_key (demo_key s [])"
  "sessionless_from_key (demo_key s toks) = sessionless_from_key (demo_key None [])"
  by (simp_all add: demo_key_def new_full_def effective_prefix_len_def bucket_from_key_def sessionless_from_key_def)

definition demo_store :: "(arr, byte, unit) prompt_store" where
  "demo_store = demo_insert (Some ''s'') 2 5 4 (store_new demo_config)"

definition demo_slot :: "string option \<Rightarrow> nat \<Rightarrow> int list \<Rightarrow> nat \<Rightarrow> arr entry_slot" where
  "demo_slot s now toks n = \<lparr>entry = demo_cache now toks n, bucket = bucket_from_key (demo_key s []),
     sessionless = sessionless_from_key (demo_key None [])\<rparr>"

lemma demo_enabled: "is_enabled demo_config" "\<not> apc_enabled demo_config" "max_entries demo_config = 8"
  "capacity_bytes demo_config = 10" "min_prefix_tokens demo_config = 1"  "ttl demo_config = 0"
  by (simp_all add: demo_config_def config_new_def is_enabled_def apc_enabled_def apc_is_enabled_def apc_default_def)

lemma demo_insert_absent:
  assumes "config st = demo_config" "hm_get (store_entries st) (word_of_int t) = None" "n \<le> 10"
    "length (store_entries st) < 8" "total_bytes st + n \<le> 10"
  shows "store_entries (demo_insert s now t n st) = store_entries st @ [(word_of_int t, demo_slot s now [t] n)]"
    "total_bytes (demo_insert s now t n st) = total_bytes st + n" "config (demo_insert s now t n st) = demo_config"
    "fst (insert_entry demo_hasher demo_blake3 st (demo_key s [t]) (demo_cache now [t] n)) = Inr ()"
  using assms
  by (simp_all add: demo_insert_def insert_entry_def Let_def demo_digest remove_entry_absent demo_enabled demo_key_fields(1)
      demo_key_fields(3,4) [of _ "[t]"] demo_cache_def demo_slot_def enforce_caps_def evict_while.simps sat_add_def usize_max_def
      hm_insert_absent)

lemma demo_store_state:
  "store_entries demo_store = [(5, demo_slot (Some ''s'') 2 [5] 4)]" "total_bytes demo_store = 4" "config demo_store = demo_config"
  using demo_insert_absent [of "store_new demo_config" 5 4 "Some ''s''" 2] by (simp_all add: demo_store_def store_new_def)

abbreviation demo_run :: "(arr, byte, unit) prompt_store \<Rightarrow> arr detached_paged_cache_set multiset \<Rightarrow> bool" where
  "demo_run st given \<equiv> store_run demo_hasher demo_blake3 demo_config st given {#} {#}"

lemma demo_run_insert: "demo_run st given \<Longrightarrow> total_bytes st + n \<le> 20 \<Longrightarrow>
  demo_run (demo_insert s now t n st) (add_mset (demo_detached (demo_table [] [])) given)"
  using run_insert [of demo_hasher demo_blake3 demo_config st given "{#}" "{#}" "demo_cache now [t] n" "demo_key s [t]"]
  by (simp add: demo_insert_def entry_room_def usize_max_def demo_cache_def)

lemma demo_run_store: "demo_run demo_store {#demo_detached (demo_table [] [])#}"
  unfolding demo_store_def by (rule demo_run_insert [OF run_new]) (simp add: store_new_def)

section \<open>Properties\<close>

text \<open>C18: the prompt-cache store in every reachable state. Whatever sequence of inserts, lookups, sweeps, evictions, releases,
  drains and adoptions produced it, each per-bucket trie stores exactly the (tokens, digest) pairs of the
  entries of its bucket, there is no trie for an empty bucket, the byte counters are the sums of the sizes
  of the entries and of the snapshots, and only paged sets wait for release.\<close>

theorem store_indexes_exactly:
  assumes "store_run H blake3 c st given returned dropped"
  shows "(\<forall>b. hm_get (tries st) b = None \<longrightarrow> bucket_of (store_entries st) b = {})
    \<and> (\<forall>b t. hm_get (tries st) b = Some t \<longrightarrow> contents t = bucket_of (store_entries st) b \<and> contents t \<noteq> {})
    \<and> total_bytes st = hm_sum size_of (store_entries st) \<and> snapshot_bytes st = hm_sum snapshot_size_of (snapshots st)
    \<and> list_all is_paged (pending_paged_releases st)"
  using store_run_inv [OF assms] by (auto simp: store_inv_def index_ok_def list_all_iff)

theorem store_indexes_exactly_witness:
  "total_bytes demo_store = 4 \<and> hm_sum size_of (store_entries demo_store) = 4
   \<and> (\<exists>t. hm_get (tries demo_store) (sessionless_from_key (demo_key None [])) = Some t \<and> contents t = {([5], 5)})"
proof -
  have "bucket_of (store_entries demo_store) (sessionless_from_key (demo_key None [])) = {([5], 5)}"
    by (auto simp: bucket_of_def demo_store_state demo_slot_def demo_cache_def)
  then show ?thesis using store_indexes_exactly [OF demo_run_store] demo_store_state(2)
    by (cases "hm_get (tries demo_store) (sessionless_from_key (demo_key None []))") auto
qed

text \<open>C19: no paged set is lost. The paged sets given to the store are, as a multiset, those in its entries or its release
  queue, those it handed back and those it dropped; and only \<open>clear\<close> drops any.\<close>

theorem store_keeps_paged_sets:
  assumes "store_run H blake3 c st given returned dropped"
  shows "given = paged_parked st + returned + dropped"
  using store_run_inv [OF assms] by simp

theorem store_keeps_paged_sets_witness:
  "{#demo_detached (demo_table [] [])#} = paged_parked demo_store + {#} + {#}"
  by (rule store_keeps_paged_sets [OF demo_run_store])

text \<open>C20: the caps. When no entry of the store has size zero, an accepted insert of an entry of positive size leaves at most
  \<open>max_entries\<close> entries and at most \<open>capacity_bytes\<close> bytes; a refused insert leaves the entries alone.\<close>

theorem insert_within_caps:
  assumes "store_run H blake3 c st given returned dropped" "entry_room st (e_size_bytes e)"
    and "all_slots (\<lambda>slot. 0 < size_of slot) st" "0 < e_size_bytes e"
  shows "case insert_entry H blake3 st key e of
      (Inr _, st') \<Rightarrow> length (store_entries st') \<le> max_entries c \<and> total_bytes st' \<le> capacity_bytes c
    | (Inl err, st') \<Rightarrow> store_entries st' = store_entries st"
proof (cases rule: insert_entry_cases [of H blake3 st key e])
  case (refused err n)
  then show ?thesis by (simp add: case_prod_unfold)
next
  case (accepted st2)
  have inv: "store_inv st2" "config st2 = c" using accepted(4) store_run_inv [OF assms(1)] assms(2) by auto
  have "all_slots (\<lambda>slot. 0 < size_of slot) st2"
    using all_slots_update [OF all_slots_shrinks [OF remove_entry_shrinks assms(3)], of "filed_slot H (config st) key e"] assms(4) accepted(3)
    by (simp add: all_slots_def store_entries_remove)
  from enforce_caps_bounds [OF inv(1) this] show ?thesis using accepted(1,2) inv(2) by (simp add: case_prod_unfold)
qed

theorem insert_within_caps_witness:
  "let (r, st') = insert_entry demo_hasher demo_blake3 demo_store (demo_key None [6]) (demo_cache 2 [6] 7)
   in r = Inr () \<and> length (store_entries st') \<le> 8 \<and> total_bytes st' \<le> 10"
proof -
  have ok: "fst (insert_entry demo_hasher demo_blake3 demo_store (demo_key None [6]) (demo_cache 2 [6] 7)) = Inr ()"
    by (simp add: insert_entry_def Let_def demo_store_state demo_enabled demo_key_fields(1) demo_cache_def)
  show ?thesis using insert_within_caps [OF demo_run_store, of "demo_cache 2 [6] 7" "demo_key None [6]"] ok
    by (simp add: case_prod_unfold entry_room_def usize_max_def all_slots_def demo_store_state demo_slot_def demo_cache_def demo_enabled)
qed

text \<open>C17: a lookup returns the best reusable entry. In every reachable state of an enabled store, a lookup returns an entry of
  the key's bucket that still holds its cache and has not expired, with the number of leading tokens it can
  serve (the whole entry, or with block hashing the common prefix rounded down to a block), that number is
  at least \<open>min_prefix_tokens\<close>, the served tokens are those of the request, no reusable entry of the bucket
  serves more, and among entries with the same common prefix one of the same session is preferred and then
  the most recently used. It returns nothing only if no reusable entry serves \<open>min_prefix_tokens\<close> tokens.\<close>

theorem lookup_returns_best:
  assumes "store_run H blake3 c st given returned dropped" "is_enabled c"
  shows "case fst (lookup_longest_prefix H st key toks now now') of
      None \<Rightarrow> (\<forall>dg slot n. reusable st now key dg slot \<and> usable_len c toks slot = Some n \<longrightarrow> n < min_prefix_tokens c)
    | Some (dg, e, n) \<Rightarrow> (\<exists>slot. reusable st now key dg slot \<and> e = touch now' (entry slot)
        \<and> usable_len c toks slot = Some n \<and> min_prefix_tokens c \<le> n \<and> take n (e_tokens e) = take n toks
        \<and> (\<forall>dg' slot' n'. reusable st now key dg' slot' \<and> usable_len c toks slot' = Some n' \<longrightarrow> n' \<le> n
            \<and> (common_prefix_len (e_tokens (entry slot')) toks = common_prefix_len (e_tokens (entry slot)) toks \<longrightarrow>
                (same_session (bucket slot') key \<longrightarrow> same_session (bucket slot) key)
                \<and> (same_session (bucket slot') key = same_session (bucket slot) key \<longrightarrow>
                    e_last_used (entry slot') \<le> e_last_used (entry slot)))))"
proof -
  have inv: "store_inv st" "config st = c" using store_run_inv [OF assms(1)] by auto
  have en: "is_enabled (config st)" using assms(2) inv(2) by simp
  from usable_winner [OF inv(1) en, unfolded inv(2), OF store_run_chains [OF assms(1)], of now key toks now'] show ?thesis
  proof (elim disjE exE conjE)
    fix dg slot n
    assume r: "fst (lookup_longest_prefix H st key toks now now') = Some (dg, touch now' (entry slot), n)"
      and u: "usable_len c toks slot = Some n" and *: "reusable st now key dg slot" "min_prefix_tokens c \<le> n"
    have "take n (e_tokens (touch now' (entry slot))) = take n toks" using usable_len_common(2) [OF u] by (simp add: touch_def)
    moreover assume "\<forall>dg' slot' n'. reusable st now key dg' slot' \<and> usable_len c toks slot' = Some n' \<longrightarrow> n' \<le> n
      \<and> (common_prefix_len (e_tokens (entry slot')) toks = common_prefix_len (e_tokens (entry slot)) toks \<longrightarrow>
          (same_session (bucket slot') key \<longrightarrow> same_session (bucket slot) key)
          \<and> (same_session (bucket slot') key = same_session (bucket slot) key \<longrightarrow> e_last_used (entry slot') \<le> e_last_used (entry slot)))"
    ultimately show ?thesis unfolding r option.case prod.case using u * by blast
  qed (simp only: option.case)
qed

theorem lookup_returns_best_witness:
  "\<exists>e. fst (lookup_longest_prefix demo_hasher demo_store (demo_key None [5, 6]) [5, 6] 3 3) = Some (5, e, 1)
     \<and> take 1 (e_tokens e) = [5]"
proof -
  let ?r = "fst (lookup_longest_prefix demo_hasher demo_store (demo_key None [5, 6]) [5, 6] 3 3)"
  have only: "reusable demo_store 3 (demo_key None [5, 6]) dg slot \<longleftrightarrow> dg = 5 \<and> slot = demo_slot (Some ''s'') 2 [5] 4" for dg slot
    by (auto simp: reusable_def demo_store_state fresh_def demo_enabled has_detached_def demo_slot_def demo_cache_def demo_key_fields(4) [of None "[5, 6]"])
  have len: "usable_len demo_config [5, 6] (demo_slot (Some ''s'') 2 [5] 4) = Some 1"
    by (simp add: usable_len_def demo_enabled demo_slot_def demo_cache_def)
  show ?thesis
    using lookup_returns_best [OF demo_run_store demo_enabled(1), of 3 "demo_key None [5, 6]" "[5, 6]" 3]
    by (auto simp: only len demo_enabled split: option.splits)
qed

text \<open>C21: what releasing a session does. Releasing a session with a usable key removes exactly the entries and the snapshots
  of that session, reports how many and how many bytes they had, and keeps every paged set that was parked
  for a later release; the empty key and the shared anonymous bucket are refused and nothing changes.\<close>

theorem release_session_exact:
  assumes "store_run H blake3 c st given returned dropped"
  shows "let of_session = (\<lambda>slot. b_session_key (bucket slot) = Some session);
        of_snapshot = (\<lambda>slot. b_session_key (s_bucket slot) = Some session);
        gone = filter (of_session \<circ> snd) (store_entries st); gone' = filter (of_snapshot \<circ> snd) (snapshots st);
        (out, st') = release_session st session
    in if recordable_session_key session = None then st' = st \<and> status out = RefusedSharedBucket
       else store_entries st' = filter (Not \<circ> of_session \<circ> snd) (store_entries st)
        \<and> snapshots st' = filter (Not \<circ> of_snapshot \<circ> snd) (snapshots st)
        \<and> matched_entries out = length gone \<and> matched_snapshots out = length gone'
        \<and> released_bytes out = min (hm_sum size_of gone + hm_sum snapshot_size_of gone') usize_max
        \<and> (status out = ReleasedNow \<longleftrightarrow> gone \<noteq> [] \<or> gone' \<noteq> [])
        \<and> paged_parked st' = paged_parked st"
proof (cases "recordable_session_key session = None")
  case True
  then show ?thesis by (auto simp: recordable_session_key_def release_session_def split: if_splits)
next
  case False
  have inv: "store_inv st" using store_run_inv [OF assms] by blast
  let ?P = "\<lambda>slot. b_session_key (bucket slot) = Some session" and ?Q = "\<lambda>slot. b_session_key (s_bucket slot) = Some session"
  let ?ds = "map fst (filter (\<lambda>(_, slot). ?P slot) (store_entries st))"
  let ?ss = "map fst (filter (\<lambda>(_, slot). ?Q slot) (snapshots st))"
  obtain b1 n1 st1 where r1: "remove_entries st ?ds = (b1, n1, st1)" by (metis prod_cases3)
  obtain b2 n2 st2 where r2: "remove_snapshots st1 ?ss = (b2, n2, st2)" by (metis prod_cases3)
  have k: "store_inv st1 \<and> paged_parked st1 = paged_parked st \<and> snapshots st1 = snapshots st"
    using er.remove_all_good [OF inv, of ?ds] r1 by simp
  have k2: "paged_parked st2 = paged_parked st1 \<and> store_entries st2 = store_entries st1"
    using sr.remove_all_good [of st1 ?ss] k r2 by simp
  have "release_session st session = (\<lparr>status = (if 0 < n1 + n2 then ReleasedNow else NothingMatched),
      matched_entries = n1, matched_snapshots = n2, released_bytes = min (b1 + b2) usize_max\<rparr>, st2)"
    using False r1 r2 by (auto simp: release_session_def recordable_session_key_def Let_def split: if_splits)
  then show ?thesis
    using False er.remove_matching [OF inv, of ?P] sr.remove_matching [of st1 ?Q] r1 r2 k k2
    by (simp add: comp_def)
qed

theorem release_session_exact_witness:
  "matched_entries (fst (release_session demo_store ''s'')) = 1 \<and> store_entries (snd (release_session demo_store ''s'')) = []
   \<and> released_bytes (fst (release_session demo_store ''s'')) = 4 + hm_sum snapshot_size_of (snapshots demo_store)"
proof -
  have "snapshots demo_store = []"
    by (simp add: demo_store_def demo_insert_def insert_entry_def Let_def demo_digest store_new_def remove_entry_absent
        enforce_caps_def evict_while.simps demo_enabled demo_key_fields(1) demo_cache_def sat_add_def usize_max_def)
  then show ?thesis
    using release_session_exact [OF demo_run_store, of "''s''"]
    by (simp add: Let_def case_prod_unfold recordable_session_key_def ANONYMOUS_SESSION_SENTINEL_def demo_store_state
        demo_slot_def demo_cache_def bucket_from_key_def demo_key_def new_full_def usize_max_def)
qed

text \<open>An accepted insert can leave the store over its capacity. The loops that enforce the caps stop when an eviction frees
  no bytes. So when the least recently used entry has size zero, an insert that takes the store over
  \<open>capacity_bytes\<close> evicts that entry only, and the total stays over the cap although larger entries remain.\<close>

lemma zero_size_stops_eviction:
  assumes "store_run H blake3 c st given returned dropped" "entry_room st (e_size_bytes e)"
    and "fst (insert_entry H blake3 st key e) = Inr ()" "hm_get (store_entries st) (key_digest blake3 key) = None"
    and "length (store_entries st) < max_entries c" "capacity_bytes c < total_bytes st + e_size_bytes e"
    and "min_by_key (\<lambda>(_, slot). e_last_used (entry slot)) (store_entries st) = Some (dg, slot)"
    and "size_of slot = 0" "e_last_used (entry slot) \<le> e_last_used e"
  shows "total_bytes (snd (insert_entry H blake3 st key e)) = total_bytes st + e_size_bytes e
    \<and> capacity_bytes c < total_bytes (snd (insert_entry H blake3 st key e))"
proof (cases rule: insert_entry_cases [of H blake3 st key e])
  case (accepted st2)
  let ?new = "(key_digest blake3 key, filed_slot H (config st) key e)" and ?k = "\<lambda>(_, slot). e_last_used (entry slot)"
  have inv: "store_inv st" "store_inv st2" "config st2 = c" using accepted(4) store_run_inv [OF assms(1)] assms(2) by auto
  have ents: "store_entries st2 = store_entries st @ [?new]"
    using accepted(3) hm_insert_absent [OF assms(4)] by (simp add: hm_remove_absent [OF assms(4)])
  then have tot: "total_bytes st2 = total_bytes st + e_size_bytes e"
    using inv(1,2) by (simp add: store_inv_def hm_sum_def)
  have "min_by_key ?k (store_entries st2) = Some (dg, slot)"
    unfolding ents using min_by_key_snoc [OF assms(7), of ?new] assms(9) by (simp add: filed_slot_def with_apc_block_hashes_def)
  moreover have "(dg, slot) \<in> set (store_entries st2)" using min_by_key_in [OF assms(7)] ents by simp
  then have "hm_get (store_entries st2) dg = Some slot" using inv(2) by (simp add: store_inv_def)
  ultimately have "fst (evict_oldest st2) = 0" "total_bytes (snd (evict_oldest st2)) = total_bytes st2"
    using assms(8) remove_entry_result [of st2 dg] remove_entry_present(1) [of st2 dg slot]
    by (simp_all add: evict_oldest_def Let_def case_prod_unfold)
  then have "total_bytes (snd (enforce_caps st2)) = total_bytes st2"
    using inv(3) assms(5,6) ents tot by (simp add: enforce_caps_def evict_while.simps)
  then show ?thesis using accepted(2) tot assms(6) by simp
qed (use assms(3) in simp)

lemma zero_size_stops_eviction_demo:
  "let st = demo_insert None 3 7 6 (demo_insert None 2 6 0 (store_new demo_config))
   in total_bytes (demo_insert None 4 8 6 st) = 12 \<and> capacity_bytes demo_config = 10"
proof -
  define s0 :: "(arr, byte, unit) prompt_store" where "s0 = store_new demo_config"
  define s1 where "s1 = demo_insert None 2 6 0 s0"
  define s2 where "s2 = demo_insert None 3 7 6 s1"
  have s0: "store_entries s0 = []" "total_bytes s0 = 0" "config s0 = demo_config" by (simp_all add: s0_def store_new_def)
  have s1: "store_entries s1 = [(6, demo_slot None 2 [6] 0)]" "total_bytes s1 = 0" "config s1 = demo_config"
    using demo_insert_absent [OF s0(3), of 6 0 None 2] s0 by (simp_all add: s1_def)
  have s2: "store_entries s2 = [(6, demo_slot None 2 [6] 0), (7, demo_slot None 3 [7] 6)]" "total_bytes s2 = 6" "config s2 = demo_config"
    using demo_insert_absent [OF s1(3), of 7 6 None 3] s1 by (simp_all add: s2_def)
  have "demo_run s0 {#}" unfolding s0_def by (rule run_new)
  from demo_run_insert [OF demo_run_insert [OF this, of 0 None 2 6], of 6 None 3 7]
  have run: "demo_run s2 {#demo_detached (demo_table [] []), demo_detached (demo_table [] [])#}"
    using s0 s1 by (simp add: s2_def s1_def)
  have ok: "fst (insert_entry demo_hasher demo_blake3 s2 (demo_key None [8]) (demo_cache 4 [8] 6)) = Inr ()"
    by (simp add: insert_entry_def Let_def s2(3) demo_enabled demo_key_fields(1) demo_cache_def)
  show ?thesis using zero_size_stops_eviction [OF run _ ok, of 6 "demo_slot None 2 [6] 0"]
    by (simp add: s2 entry_room_def usize_max_def demo_digest demo_enabled min_by_key_def demo_slot_def demo_cache_def
        s2_def [symmetric] s1_def [symmetric] s0_def [symmetric] demo_insert_def [of None 4 8 6 s2])
qed

end
