(* ===== verification/Batch_Quant.thy ===== *)
theory Batch_Quant
  imports Kv_Cache
begin

text \<open>
  Which KV-cache mode each layer of a sequence gets, and the bookkeeping of batched quantized caches:
  \<open>src/src/lib/mlxcel-core/src/cache/{batch_quant,turbo/boundary}.rs\<close>, the mode resolution functions of
  \<open>src/src/server/batch/scheduler.rs\<close> and the left-padded causal mask of \<open>mlxcel-core/src/utils.rs\<close>.

  Additive attention masks hold 0 or minus infinity; the model keeps the Boolean "is attended". The counters are
  \<open>i32\<close> in the source and integers here: they count tokens of one batch. The number of boundary layers
  read from the environment is the argument \<open>env\<close>, the value of the two variables.
\<close>

section \<open>Quantization configuration\<close>

datatype kv_quant_scheme = Uniform | TurboQuant

record batch_kv_quant_config =
  scheme :: kv_quant_scheme
  bits :: int
  group_size :: int
  skip_last_layer :: bool

datatype quant_error = NegativeBits int | BadGroupSize int | UniformFourBits | UniformBits int | TurboBits int

definition DEFAULT_KV_GROUP_SIZE :: int where
  "DEFAULT_KV_GROUP_SIZE = 64"

definition quant_default :: batch_kv_quant_config where
  "quant_default = \<lparr>scheme = Uniform, bits = 0, group_size = DEFAULT_KV_GROUP_SIZE, skip_last_layer = True\<rparr>"

definition quant_is_enabled :: "batch_kv_quant_config \<Rightarrow> bool" where
  "quant_is_enabled c \<longleftrightarrow> 0 < bits c"

definition base_mode :: "batch_kv_quant_config \<Rightarrow> kv_cache_mode" where
  "base_mode c =
     (if \<not> quant_is_enabled c then Fp16
      else case scheme c of Uniform \<Rightarrow> if bits c = 8 then Int8 else Fp16 | TurboQuant \<Rightarrow> Turbo4Asym)"

definition quant_validate :: "batch_kv_quant_config \<Rightarrow> quant_error + unit" where
  "quant_validate c =
     (if bits c < 0 then Inl (NegativeBits (bits c))
      else if group_size c \<le> 0 then Inl (BadGroupSize (group_size c))
      else if \<not> quant_is_enabled c then Inr ()
      else case scheme c of
             Uniform \<Rightarrow> if bits c = 8 then Inr () else if bits c = 4 then Inl UniformFourBits else Inl (UniformBits (bits c))
           | TurboQuant \<Rightarrow> if bits c = 4 then Inr () else Inl (TurboBits (bits c)))"

definition quant_new :: "kv_quant_scheme \<Rightarrow> int \<Rightarrow> int \<Rightarrow> bool \<Rightarrow> quant_error + batch_kv_quant_config" where
  "quant_new s b g k =
     (let c = \<lparr>scheme = s, bits = b, group_size = g, skip_last_layer = k\<rparr>
      in case quant_validate c of Inl e \<Rightarrow> Inl e | Inr _ \<Rightarrow> Inr c)"

definition quant_layer_modes :: "batch_kv_quant_config \<Rightarrow> nat \<Rightarrow> kv_cache_mode list" where
  "quant_layer_modes c n =
     (let nominal = base_mode c; modes = replicate n nominal
      in if \<not> skip_last_layer c \<or> n = 0 then modes
         else if nominal \<noteq> Fp16 then modes[n - 1 := Fp16] else modes)"

section \<open>Boundary layers\<close>

definition DEFAULT_BOUNDARY_V_LAYERS :: int where
  "DEFAULT_BOUNDARY_V_LAYERS = 2"

definition is_ascii_space :: "char \<Rightarrow> bool" where
  "is_ascii_space c \<longleftrightarrow> of_char c \<in> {9 :: nat, 10, 11, 12, 13, 32}"

definition trim_str :: "string \<Rightarrow> string" where
  "trim_str s = rev (dropWhile is_ascii_space (rev (dropWhile is_ascii_space s)))"

definition digits_value :: "string \<Rightarrow> int option" where
  "digits_value s =
     (if s \<noteq> [] \<and> list_all (\<lambda>c. (of_char CHR ''0'' :: nat) \<le> of_char c \<and> (of_char c :: nat) \<le> of_char CHR ''9'') s
      then Some (foldl (\<lambda>acc c. 10 * acc + (of_char c - of_char CHR ''0'')) 0 s) else None)"

text \<open>\<open>str::parse::<i32>\<close>: an optional sign, at least one digit, in range.\<close>

definition parse_i32 :: "string \<Rightarrow> int option" where
  "parse_i32 s =
     (let in_range = (\<lambda>v. if - (2 ^ 31) \<le> v \<and> v < 2 ^ 31 then Some v else None) in
      case s of
        [] \<Rightarrow> None
      | c # rest \<Rightarrow>
          if c = CHR ''-'' then Option.bind (digits_value rest) (\<lambda>v. in_range (- v))
          else if c = CHR ''+'' then Option.bind (digits_value rest) in_range
          else Option.bind (digits_value s) in_range)"

definition parse_boundary_v_str :: "string \<Rightarrow> int" where
  "parse_boundary_v_str s =
     (let t = trim_str s in
      if t = [] then DEFAULT_BOUNDARY_V_LAYERS
      else case parse_i32 t of Some v \<Rightarrow> if v < 0 then 0 else v | None \<Rightarrow> DEFAULT_BOUNDARY_V_LAYERS)"

definition boundary_v_layers_from_env :: "string option \<times> string option \<Rightarrow> int" where
  "boundary_v_layers_from_env env =
     (case fst env of
        Some s \<Rightarrow> parse_boundary_v_str s
      | None \<Rightarrow> (case snd env of Some s \<Rightarrow> parse_boundary_v_str s | None \<Rightarrow> DEFAULT_BOUNDARY_V_LAYERS))"

text \<open>\<open>(n_layers / 2) as i32\<close> keeps the low 32 bits.\<close>

definition resolve_boundary_count :: "int \<Rightarrow> nat \<Rightarrow> int" where
  "resolve_boundary_count requested n =
     (if requested \<le> 0 \<or> n = 0 then 0 else min requested (signed_take_bit 31 (int (n div 2))))"

definition is_boundary_layer :: "nat \<Rightarrow> nat \<Rightarrow> int \<Rightarrow> bool" where
  "is_boundary_layer l n boundary \<longleftrightarrow> \<not> (boundary \<le> 0 \<or> n = 0) \<and> (l < nat boundary \<or> n \<le> l + nat boundary)"

fun boundary_mode_for :: "kv_cache_mode \<Rightarrow> kv_cache_mode" where
  "boundary_mode_for Turbo4Asym = Fp16"
| "boundary_mode_for Turbo4 = Fp16"
| "boundary_mode_for Turbo4Delegated = Fp16"
| "boundary_mode_for Turbo3Asym = Fp16"
| "boundary_mode_for Fp16 = Fp16"
| "boundary_mode_for Int8 = Int8"
| "boundary_mode_for KVarN8 = KVarN8"

definition resolve_layer_mode :: "kv_cache_mode \<Rightarrow> nat \<Rightarrow> nat \<Rightarrow> int \<Rightarrow> kv_cache_mode" where
  "resolve_layer_mode nominal l n requested =
     (let boundary = resolve_boundary_count requested n; bmode = boundary_mode_for nominal
      in if bmode \<noteq> nominal \<and> is_boundary_layer l n boundary then bmode else nominal)"

definition resolve_layer_modes :: "kv_cache_mode \<Rightarrow> nat \<Rightarrow> int \<Rightarrow> kv_cache_mode list" where
  "resolve_layer_modes nominal n requested =
     (let boundary = resolve_boundary_count requested n; bmode = boundary_mode_for nominal
      in map (\<lambda>l. if bmode \<noteq> nominal \<and> is_boundary_layer l n boundary then bmode else nominal) [0..<n])"

section \<open>The layer plan of the scheduler\<close>

definition resolve_effective_kv_cache_mode :: "batch_kv_quant_config \<Rightarrow> kv_cache_mode \<Rightarrow> kv_cache_mode" where
  "resolve_effective_kv_cache_mode q legacy = (if quant_is_enabled q then base_mode q else legacy)"

definition resolve_nominal_layer_plan ::
  "batch_kv_quant_config \<Rightarrow> kv_cache_mode \<Rightarrow> nat \<Rightarrow> nat \<Rightarrow> int \<Rightarrow> (kv_cache_mode \<times> nat) list" where
  "resolve_nominal_layer_plan q legacy v_bits n boundary =
     (let modes = (if quant_is_enabled q then quant_layer_modes q n
                   else if legacy = Fp16 then replicate n Fp16
                   else resolve_layer_modes legacy n boundary)
      in map (\<lambda>m. (m, if m = KVarN8 then v_bits else 8)) modes)"

text \<open>The model's own downgrades, \<open>LanguageModel::kv_cache_plan\<close>, are the parameter \<open>downgrade\<close>.\<close>

definition resolve_kv_layer_plan ::
  "((kv_cache_mode \<times> nat) list \<Rightarrow> (kv_cache_mode \<times> nat) list) \<Rightarrow> nat \<Rightarrow> batch_kv_quant_config \<Rightarrow> kv_cache_mode \<Rightarrow> nat \<Rightarrow> int
   \<Rightarrow> (kv_cache_mode \<times> nat) list" where
  "resolve_kv_layer_plan downgrade n q legacy v_bits boundary = downgrade (resolve_nominal_layer_plan q legacy v_bits n boundary)"

text \<open>The two assertions of \<open>set_kvarn_v_bits\<close> make a panic, the value None.\<close>

definition set_kvarn_v_bits :: "nat \<Rightarrow> 'a kv_cache \<Rightarrow> 'a kv_cache option" where
  "set_kvarn_v_bits v c =
     (if v \<noteq> 8 \<and> v \<noteq> 4 then None
      else if kvarn_v_bits c = v then Some c
      else if \<not> kv_is_empty c then None
      else Some (c\<lparr>kvarn_v_bits := v\<rparr>))"

fun apply_kvarn_v_bits :: "'a kv_cache list \<Rightarrow> nat \<Rightarrow> 'a kv_cache list option" where
  "apply_kvarn_v_bits [] v = Some []"
| "apply_kvarn_v_bits (c # cs) v =
     (if v = 8 then Some (c # cs)
      else Option.bind (if mode c = KVarN8 then set_kvarn_v_bits v c else Some c)
             (\<lambda>c'. Option.bind (apply_kvarn_v_bits cs v) (\<lambda>cs'. Some (c' # cs'))))"

text \<open>The caches of a fresh sequence after \<open>apply_kv_cache_mode_to\<close>.\<close>

definition apply_modes ::
  "batch_kv_quant_config \<Rightarrow> kv_cache_mode \<Rightarrow> nat \<Rightarrow> int \<Rightarrow> 'a kv_cache list \<Rightarrow> 'a kv_cache list option" where
  "apply_modes q legacy v_bits boundary caches =
     (if caches = [] then Some caches
      else if \<not> quant_is_enabled q \<and> legacy = Fp16 then Some caches
      else let plan = resolve_nominal_layer_plan q legacy v_bits (length caches) boundary
        in apply_kvarn_v_bits (map (\<lambda>(c, m, _). c\<lparr>mode := m\<rparr>) (zip caches plan)) v_bits)"

section \<open>Lemmas\<close>

lemma boundary_mode_for_turbo: "boundary_mode_for m \<noteq> m \<longleftrightarrow> m \<in> {Turbo4Asym, Turbo4, Turbo4Delegated, Turbo3Asym}"
  by (cases m) auto

lemma length_quant_layer_modes [simp]: "length (quant_layer_modes c n) = n"
  by (simp add: quant_layer_modes_def Let_def)

lemma length_resolve_layer_modes [simp]: "length (resolve_layer_modes m n b) = n"
  by (simp add: resolve_layer_modes_def Let_def)

lemma length_nominal_plan [simp]: "length (resolve_nominal_layer_plan q legacy v n b) = n"
  by (simp add: resolve_nominal_layer_plan_def Let_def)

lemma nominal_plan_bits: "map (\<lambda>(m, _). (m, if m = KVarN8 then v else 8)) (resolve_nominal_layer_plan q legacy v n b) = resolve_nominal_layer_plan q legacy v n b"
  by (simp add: resolve_nominal_layer_plan_def Let_def)

lemma signed_half [simp]: "n < 2 ^ 32 \<Longrightarrow> signed_take_bit 31 (int (n div 2)) = int (n div 2)"
  by (intro signed_take_bit_int_eq_self) auto

text \<open>A fresh cache, as \<open>make_caches\<close> returns it.\<close>

definition fresh_cache :: "'a kv_cache \<Rightarrow> bool" where
  "fresh_cache c \<longleftrightarrow> kv_is_empty c \<and> mode c = Fp16 \<and> kvarn_v_bits c = 8"

lemma apply_kvarn_v_bits_fresh:
  assumes "\<forall>c \<in> set cs. kv_is_empty c \<and> kvarn_v_bits c = 8" "v = 4 \<or> v = 8"
  shows "apply_kvarn_v_bits cs v = Some (map (\<lambda>c. if mode c = KVarN8 then c\<lparr>kvarn_v_bits := v\<rparr> else c) cs)"
  using assms
proof (induction cs)
  case (Cons c cs)
  have "c\<lparr>kvarn_v_bits := 8\<rparr> = c" if "kvarn_v_bits c = 8" for c :: "'a kv_cache" using that by (cases c) simp
  moreover have "map (\<lambda>c. if mode c = KVarN8 then c\<lparr>kvarn_v_bits := 8\<rparr> else c) cs = cs"
    using Cons.prems(1) calculation by (intro map_idI) auto
  ultimately show ?case using Cons by (cases "v = 8") (auto simp: set_kvarn_v_bits_def)
qed simp

section \<open>Properties\<close>



text \<open>C30: the boundary policy. For a Turbo mode and a model of fewer than \<open>2^32\<close> layers, the layers that are kept in Fp16 are exactly
  the first and the last \<open>b\<close>, where \<open>b\<close> is the requested count clamped to half the depth, so \<open>n - 2 b\<close> layers keep
  the Turbo mode. For an even depth and a request of at least half of it that is none: the
  documentation of the clamp says that at least one middle layer keeps the mode.\<close>

theorem boundary_layers_exact:
  assumes "nominal \<in> {Turbo4Asym, Turbo4, Turbo4Delegated, Turbo3Asym}" "0 \<le> requested" "n < 2 ^ 32"
  shows "let b = min (nat requested) (n div 2); modes = resolve_layer_modes nominal n requested
    in length modes = n \<and> (\<forall>l < n. modes ! l = (if l < b \<or> n - b \<le> l then Fp16 else nominal))
      \<and> length (filter (\<lambda>m. m = nominal) modes) = n - 2 * b"
proof -
  define b where "b = min (nat requested) (n div 2)"
  have bm: "boundary_mode_for nominal = Fp16" "nominal \<noteq> Fp16" using assms(1) by auto
  have cnt: "resolve_boundary_count requested n = int b"
    using assms(2,3) by (simp add: resolve_boundary_count_def b_def min_def nat_le_iff)
  have m: "resolve_layer_modes nominal n requested = map (\<lambda>l. if l < b \<or> n - b \<le> l then Fp16 else nominal) [0..<n]"
    using bm by (auto simp: resolve_layer_modes_def cnt is_boundary_layer_def Let_def)
  have "filter (\<lambda>m. m = nominal) (resolve_layer_modes nominal n requested) = map (\<lambda>_. nominal) (filter (\<lambda>l. b \<le> l \<and> l < n - b) [0..<n])"
    unfolding m filter_map comp_def using bm(2) by (intro map_cong filter_cong) auto
  moreover have "length (filter (\<lambda>l. b \<le> l \<and> l < n - b) [0..<n]) = card {l. l < n \<and> b \<le> l \<and> l < n - b}"
    by (simp add: length_filter_conv_card cong: conj_cong)
  moreover have "{l. l < n \<and> b \<le> l \<and> l < n - b} = {b..<n - b}" by auto
  ultimately have "length (filter (\<lambda>m. m = nominal) (resolve_layer_modes nominal n requested)) = n - 2 * b" by simp
  then show ?thesis by (simp add: Let_def m b_def [symmetric])
qed

theorem boundary_layers_exact_witness:
  "resolve_layer_modes Turbo4 5 2 = [Fp16, Fp16, Turbo4, Fp16, Fp16] \<and> length (filter (\<lambda>m. m = Turbo4) (resolve_layer_modes Turbo4 4 2)) = 0"
proof -
  have "length (filter (\<lambda>m. m = Turbo4) (resolve_layer_modes Turbo4 4 2)) = 0"
    using boundary_layers_exact [of Turbo4 2 4] by (simp add: Let_def)
  then show ?thesis by (simp add: Let_def resolve_layer_modes_def resolve_boundary_count_def is_boundary_layer_def upt_rec)
qed

end
