(* ===== verification/Batch_Rows.thy ===== *)
theory Batch_Rows
  imports Batch_Quant
begin

text \<open>
  Batched quantized caches and their attention mask: \<open>BatchQuantizedKVCache\<close> and \<open>BatchTurboQuantKVCache\<close> of
  \<open>src/src/lib/mlxcel-core/src/cache/batch_quant.rs\<close> and \<open>create_causal_mask_with_left_padding\<close> of \<open>mlxcel-core/src/utils.rs\<close>.

  The two structs have the same fields and, up to the text of their error messages, the same methods; the record
  \<open>batch_rows\<close> is their common state. A mask is the function of row, query and key that says "attended";
  \<open>fast\<close> and \<open>policy\<close> are the settings that \<open>KVCache::new_with_mode\<close> reads from the environment.
\<close>

section \<open>The mask\<close>

text \<open>\<open>tril(ones, offset)\<close> is 1 exactly where \<open>k \<le> q + offset\<close>; the product with the padding factor, the rescue of the
  diagonal for padding queries, and the test \<open>> 0\<close> are written as Booleans.\<close>

definition create_causal_mask_with_left_padding :: "int \<Rightarrow> int \<Rightarrow> int list \<Rightarrow> nat \<Rightarrow> int \<Rightarrow> int \<Rightarrow> bool" where
  "create_causal_mask_with_left_padding n off lp r q k \<longleftrightarrow>
     (let causal = (k \<le> q + off) in
      if lp = [] \<or> list_all (\<lambda>p. p = 0) lp then causal
      else let lp_mask = (lp ! r \<le> k); self_cond = (k = q + off); padding_query = (q + off < lp ! r)
        in causal \<and> lp_mask \<or> self_cond \<and> padding_query)"

section \<open>State and operations\<close>

record 'a batch_rows =
  row_caches :: "'a kv_cache list"
  row_config :: batch_kv_quant_config
  left_padding :: "int list"
  row_offset :: "int list"
  idx :: int

datatype rows_error = QuantError quant_error | WrongScheme | QuantDisabled | LengthMismatch nat nat | NoLayers
  | NegativeSteps int | IndexOutOfRange nat nat | DuplicateIndex nat | DifferentConfig | LayerMismatch nat nat

definition rows_make :: "bool \<Rightarrow> sidecar_policy \<Rightarrow> batch_kv_quant_config \<Rightarrow> nat \<Rightarrow> int list \<Rightarrow> 'a batch_rows" where
  "rows_make fast policy c n lp =
     \<lparr>row_caches = map (new_with_mode fast policy) (quant_layer_modes c n), row_config = c, left_padding = lp,
      row_offset = map uminus lp, idx = 0\<rparr>"

definition rows_new :: "bool \<Rightarrow> sidecar_policy \<Rightarrow> batch_kv_quant_config \<Rightarrow> nat \<Rightarrow> int list \<Rightarrow> rows_error + 'a batch_rows" where
  "rows_new fast policy c n lp =
     (case quant_validate c of Inl e \<Rightarrow> Inl (QuantError e) | Inr _ \<Rightarrow> Inr (rows_make fast policy c n lp))"

definition turbo_rows_new :: "bool \<Rightarrow> sidecar_policy \<Rightarrow> batch_kv_quant_config \<Rightarrow> nat \<Rightarrow> int list \<Rightarrow> rows_error + 'a batch_rows" where
  "turbo_rows_new fast policy c n lp =
     (case quant_validate c of
        Inl e \<Rightarrow> Inl (QuantError e)
      | Inr _ \<Rightarrow>
          if scheme c \<noteq> TurboQuant then Inl WrongScheme
          else if \<not> quant_is_enabled c then Inl QuantDisabled
          else Inr (rows_make fast policy c n lp))"

definition assert_consistent :: "'a batch_rows \<Rightarrow> rows_error + unit" where
  "assert_consistent b =
     (if length (left_padding b) \<noteq> length (row_offset b)
      then Inl (LengthMismatch (length (left_padding b)) (length (row_offset b)))
      else if row_caches b = [] then Inl NoLayers else Inr ())"

definition update_after_decode :: "'a batch_rows \<Rightarrow> int \<Rightarrow> (rows_error + unit) \<times> 'a batch_rows" where
  "update_after_decode b steps =
     (if steps < 0 then (Inl (NegativeSteps steps), b)
      else case assert_consistent b of
             Inl e \<Rightarrow> (Inl e, b)
           | Inr _ \<Rightarrow> (Inr (), b\<lparr>row_offset := map (\<lambda>x. x + steps) (row_offset b), idx := idx b + steps\<rparr>))"

definition make_mask :: "'a batch_rows \<Rightarrow> int \<Rightarrow> (nat \<Rightarrow> int \<Rightarrow> int \<Rightarrow> bool) option" where
  "make_mask b n =
     (if n = 1 \<and> list_all (\<lambda>p. p = 0) (left_padding b) then None
      else Some (create_causal_mask_with_left_padding n (idx b) (left_padding b)))"

text \<open>The loop over \<open>batch_indices\<close> with the table \<open>seen\<close>.\<close>

fun check_indices :: "nat \<Rightarrow> bool list \<Rightarrow> nat list \<Rightarrow> rows_error + unit" where
  "check_indices n seen [] = Inr ()"
| "check_indices n seen (i # is) =
     (if n \<le> i then Inl (IndexOutOfRange i n)
      else if seen ! i then Inl (DuplicateIndex i)
      else check_indices n (seen[i := True]) is)"

definition rows_filter :: "'a batch_rows \<Rightarrow> nat list \<Rightarrow> (rows_error + unit) \<times> 'a batch_rows" where
  "rows_filter b indices =
     (case assert_consistent b of
        Inl e \<Rightarrow> (Inl e, b)
      | Inr _ \<Rightarrow>
          let n = length (left_padding b) in
          (case check_indices n (replicate n False) indices of
             Inl e \<Rightarrow> (Inl e, b)
           | Inr _ \<Rightarrow>
               let lp = map (\<lambda>i. left_padding b ! i) indices; off = map (\<lambda>i. row_offset b ! i) indices;
                   b1 = b\<lparr>left_padding := lp, row_offset := off\<rparr>
               in (Inr (),
                   if lp = [] then b1
                   else let min_lp = Min (set lp)
                     in if 0 < min_lp then b1\<lparr>left_padding := map (\<lambda>p. p - min_lp) lp, idx := idx b - min_lp\<rparr> else b1)))"

definition rows_extend :: "'a batch_rows \<Rightarrow> 'a batch_rows \<Rightarrow> (rows_error + unit) \<times> 'a batch_rows" where
  "rows_extend b other =
     (case assert_consistent b of
        Inl e \<Rightarrow> (Inl e, b)
      | Inr _ \<Rightarrow>
          (case assert_consistent other of
             Inl e \<Rightarrow> (Inl e, b)
           | Inr _ \<Rightarrow>
               if row_config b \<noteq> row_config other then (Inl DifferentConfig, b)
               else if length (row_caches b) \<noteq> length (row_caches other)
               then (Inl (LayerMismatch (length (row_caches b)) (length (row_caches other))), b)
               else (Inr (), b\<lparr>left_padding := left_padding b @ left_padding other,
                               row_offset := row_offset b @ row_offset other, idx := max (idx b) (idx other)\<rparr>)))"

section \<open>Alignment\<close>

text \<open>Row \<open>r\<close> starts after \<open>left_padding r\<close> padding slots, so slot \<open>k\<close> holds its token \<open>k - left_padding r\<close> and the
  next token goes to slot \<open>idx\<close>: its logical offset is \<open>idx - left_padding r\<close>.\<close>

definition aligned :: "'a batch_rows \<Rightarrow> bool" where
  "aligned b \<longleftrightarrow> row_offset b = map (\<lambda>p. idx b - p) (left_padding b) \<and> list_all (\<lambda>p. 0 \<le> p) (left_padding b)"

inductive rows_run :: "'a batch_rows \<Rightarrow> bool" where
  run_new_rows: "list_all (\<lambda>p. 0 \<le> p) lp \<Longrightarrow> rows_new fast policy c n lp = Inr b \<Longrightarrow> rows_run b"
| run_new_turbo: "list_all (\<lambda>p. 0 \<le> p) lp \<Longrightarrow> turbo_rows_new fast policy c n lp = Inr b \<Longrightarrow> rows_run b"
| run_update_rows: "rows_run b \<Longrightarrow> update_after_decode b steps = (r, b') \<Longrightarrow> rows_run b'"
| run_filter_rows: "rows_run b \<Longrightarrow> rows_filter b indices = (r, b') \<Longrightarrow> rows_run b'"
| run_extend_rows: "rows_run b \<Longrightarrow> rows_run other \<Longrightarrow> idx b = idx other \<Longrightarrow> rows_extend b other = (r, b') \<Longrightarrow> rows_run b'"

lemma aligned_make: "list_all (\<lambda>p. 0 \<le> p) lp \<Longrightarrow> aligned (rows_make fast policy c n lp)"
  by (simp add: aligned_def rows_make_def)

lemma aligned_update: "aligned b \<Longrightarrow> update_after_decode b steps = (r, b') \<Longrightarrow> aligned b'"
  by (auto simp: aligned_def update_after_decode_def split: if_splits sum.splits)

lemma check_indices_range: "check_indices n seen is = Inr () \<Longrightarrow> i \<in> set is \<Longrightarrow> i < n"
  by (induction seen "is" rule: check_indices.induct) (auto split: if_splits)

lemma aligned_filter:
  assumes al: "aligned b" and run: "rows_filter b indices = (r, b')"
  shows "aligned b'"
proof (cases "b' = b")
  case False
  let ?lp = "map (\<lambda>i. left_padding b ! i) indices" and ?off = "map (\<lambda>i. row_offset b ! i) indices"
  have ok: "check_indices (length (left_padding b)) (replicate (length (left_padding b)) False) indices = Inr ()"
    and b': "b' = (let b1 = b\<lparr>left_padding := ?lp, row_offset := ?off\<rparr>; m = Min (set ?lp)
        in if ?lp \<noteq> [] \<and> 0 < m then b1\<lparr>left_padding := map (\<lambda>p. p - m) ?lp, idx := idx b - m\<rparr> else b1)"
    using run False by (auto simp: rows_filter_def Let_def split: sum.splits if_splits)
  have i: "i < length (left_padding b)" if "i \<in> set indices" for i using check_indices_range [OF ok that] .
  have off: "?off = map (\<lambda>p. idx b - p) ?lp" using al i by (auto simp: aligned_def)
  have pos: "list_all (\<lambda>p. 0 \<le> p) ?lp" using al i by (auto simp: aligned_def list_all_length list_all_iff)
  have "list_all (\<lambda>p. 0 \<le> p - Min (set ?lp)) ?lp" unfolding list_all_iff by (auto intro: Min_le)
  then show ?thesis unfolding b' using off pos by (auto simp: aligned_def Let_def list_all_iff)
qed (use al in simp)

lemma aligned_extend:
  assumes "aligned b" "aligned other" "idx b = idx other" "rows_extend b other = (r, b')"
  shows "aligned b'"
  using assms by (auto simp: aligned_def rows_extend_def split: sum.splits if_splits)

lemma rows_run_aligned: "rows_run b \<Longrightarrow> aligned b"
proof (induction rule: rows_run.induct)
  case (run_new_rows lp fast policy c n b)
  then show ?case using aligned_make by (auto simp: rows_new_def split: sum.splits)
next
  case (run_new_turbo lp fast policy c n b)
  then show ?case using aligned_make by (auto simp: turbo_rows_new_def split: sum.splits if_splits)
next
  case (run_update_rows b steps r b')
  then show ?case using aligned_update by blast
next
  case (run_filter_rows b indices r b')
  then show ?case using aligned_filter by blast
next
  case (run_extend_rows b other r b')
  then show ?case using aligned_extend by blast
qed

section \<open>Properties\<close>

text \<open>What the attention of one step sees: without a mask, every key.\<close>

definition attends :: "'a batch_rows \<Rightarrow> int \<Rightarrow> nat \<Rightarrow> int \<Rightarrow> int \<Rightarrow> bool" where
  "attends b n r q k = (case make_mask b n of None \<Rightarrow> True | Some m \<Rightarrow> m r q k)"

lemma attends_aligned:
  assumes "aligned b" "r < length (left_padding b)" "0 \<le> q" "q < n" "0 \<le> k" "k < idx b + n"
  shows "attends b n r q k \<longleftrightarrow>
    (if 0 \<le> row_offset b ! r + q then 0 \<le> k - left_padding b ! r \<and> k - left_padding b ! r \<le> row_offset b ! r + q
     else k = q + idx b)"
proof -
  have off: "row_offset b ! r = idx b - left_padding b ! r" using assms(1,2) by (simp add: aligned_def)
  have "left_padding b ! r = 0" if "list_all (\<lambda>p. p = 0) (left_padding b)" using that assms(2) by (simp add: list_all_length)
  then show ?thesis
    using assms(2-6) off by (auto simp: attends_def make_mask_def create_causal_mask_with_left_padding_def Let_def)
qed


definition demo_rows :: "int list \<Rightarrow> int \<Rightarrow> nat batch_rows" where
  "demo_rows lp n = snd (update_after_decode (rows_make False Predecode quant_default 1 lp) n)"

lemma demo_rows_state:
  "0 \<le> n \<Longrightarrow> demo_rows lp n = (rows_make False Predecode quant_default 1 lp)\<lparr>row_offset := map (\<lambda>p. n - p) lp, idx := n\<rparr>"
  by (simp add: demo_rows_def update_after_decode_def assert_consistent_def rows_make_def quant_layer_modes_def Let_def)

lemma demo_rows_run: "list_all (\<lambda>p. 0 \<le> p) lp \<Longrightarrow> rows_run (demo_rows lp n)"
proof -
  assume "list_all (\<lambda>p. 0 \<le> p) lp"
  moreover have "rows_new False Predecode quant_default 1 lp = Inr (rows_make False Predecode quant_default 1 lp)"
    by (simp add: rows_new_def quant_validate_def quant_default_def quant_is_enabled_def DEFAULT_KV_GROUP_SIZE_def)
  ultimately have "rows_run (rows_make False Predecode quant_default 1 lp)" by (rule run_new_rows)
  then show ?thesis unfolding demo_rows_def by (rule run_update_rows) (rule surjective_pairing)
qed


text \<open>Merging batches of different length breaks this. When an aligned batch is extended by an aligned batch that holds fewer slots,
  the extension succeeds, but a row that came from the shorter batch keeps its old padding and offset under the
  longer index: in the next step its query attends slots whose position lies beyond the query's own.\<close>

lemma extend_shorter_misaligns:
  assumes "aligned b" "aligned other" "row_caches b \<noteq> []" "length (row_caches b) = length (row_caches other)"
    "row_config b = row_config other" "j < length (left_padding other)" "0 \<le> row_offset other ! j"
    "idx other < k" "k \<le> idx b"
  shows "let (res, b') = rows_extend b other; r = length (left_padding b) + j
    in res = Inr () \<and> r < length (left_padding b') \<and> row_offset b' ! r < k - left_padding b' ! r \<and> attends b' 1 r 0 k"
proof -
  let ?b' = "b\<lparr>left_padding := left_padding b @ left_padding other, row_offset := row_offset b @ row_offset other, idx := idx b\<rparr>"
  have len: "length (left_padding b) = length (row_offset b)" "length (left_padding other) = length (row_offset other)"
    using assms(1,2) by (simp_all add: aligned_def)
  have "row_caches other \<noteq> []" using assms(3,4) by auto
  then have "rows_extend b other = (Inr (), ?b')"
    using assms(3-5,8,9) len by (simp add: rows_extend_def assert_consistent_def max_def)
  moreover have "row_offset other ! j = idx other - left_padding other ! j" using assms(2,6) by (simp add: aligned_def)
  ultimately show ?thesis using assms(6-9) len
    by (simp add: nth_append attends_def make_mask_def create_causal_mask_with_left_padding_def Let_def)
qed

lemma extend_shorter_misaligns_demo:
  "let (res, b') = rows_extend (demo_rows [0] 4) (demo_rows [0] 2) in res = Inr () \<and> row_offset b' ! 1 = 2 \<and> attends b' 1 1 0 3"
proof -
  have al: "aligned (demo_rows [0] 4)" "aligned (demo_rows [0] 2)" by (simp_all add: demo_rows_state aligned_def rows_make_def)
  show ?thesis using extend_shorter_misaligns [OF al, of 0 3]
    by (simp add: demo_rows_state rows_make_def quant_layer_modes_def Let_def rows_extend_def assert_consistent_def)
qed

end
