(* ===== verification/Batch_Queue.thy ===== *)
theory Batch_Queue
  imports Mlxcel_Prelude "HOL-Library.Multiset"
begin

text \<open>
  Requests waiting for prefill and requests being decoded: \<open>src/src/server/batch/{sequence,queue,active}.rs\<close>.

  A \<open>SequenceInfo\<close> is the record \<open>sequence_info\<close>; the context that no operation here looks at (sampling parameters,
  embeddings, channels, clocks) is the field \<open>req_context\<close>, the streaming decoder is \<open>decode_state\<close>, both of a type left
  open. The shared cancellation flag is read as the field \<open>cancelled\<close>, whether a grammar constraint is attached as
  \<open>structured\<close>. The three deques are lists with the front first.
\<close>

section \<open>Sequences\<close>

datatype request_priority = Low | Normal | High

fun rank :: "request_priority \<Rightarrow> nat" where
  "rank Low = 0"
| "rank Normal = 1"
| "rank High = 2"

instantiation request_priority :: linorder
begin

definition less_eq_request_priority :: "request_priority \<Rightarrow> request_priority \<Rightarrow> bool" where
  "less_eq_request_priority p q \<longleftrightarrow> rank p \<le> rank q"

definition less_request_priority :: "request_priority \<Rightarrow> request_priority \<Rightarrow> bool" where
  "less_request_priority p q \<longleftrightarrow> rank p < rank q"

instance
proof
  fix p q r :: request_priority
  show "p \<le> q \<Longrightarrow> q \<le> p \<Longrightarrow> p = q" by (cases p; cases q) (simp_all add: less_eq_request_priority_def)
qed (auto simp: less_eq_request_priority_def less_request_priority_def)

end

lemma priority_order [simp]:
  "Low < Normal" "Low < High" "Normal < High" "p \<le> High" "Low \<le> p"
  by (cases p; simp add: less_request_priority_def less_eq_request_priority_def)+

datatype finish_reason = Stop | Length | Cancelled | Error string

datatype sequence_state = Queued | Prefilling | Decoding | Finished finish_reason

definition is_finished :: "sequence_state \<Rightarrow> bool" where
  "is_finished s = (case s of Finished _ \<Rightarrow> True | _ \<Rightarrow> False)"

fun transition_valid :: "sequence_state \<Rightarrow> sequence_state \<Rightarrow> bool" where
  "transition_valid Queued Prefilling = True"
| "transition_valid Prefilling Decoding = True"
| "transition_valid Prefilling (Finished Stop) = True"
| "transition_valid Prefilling (Finished Length) = True"
| "transition_valid Decoding (Finished _) = True"
| "transition_valid Decoding Queued = True"
| "transition_valid s (Finished Cancelled) = (\<not> is_finished s)"
| "transition_valid s (Finished (Error _)) = (\<not> is_finished s)"
| "transition_valid _ _ = False"

definition transition_to :: "sequence_state \<Rightarrow> sequence_state \<Rightarrow> ((sequence_state \<times> sequence_state) + unit) \<times> sequence_state" where
  "transition_to s next = (if transition_valid s next then (Inr (), next) else (Inl (s, next), s))"

record ('ds, 'c) sequence_info =
  sq_id :: nat
  seq_state :: sequence_state
  prompt_tokens :: "int list"
  max_tokens :: nat
  priority :: request_priority
  generated_tokens :: "int list"
  generated_text :: string
  decode_state :: 'ds
  token_history :: "int list"
  merged_eos :: "int list"
  prefill_offset :: nat
  prefill_start_offset :: nat
  already_cached_tokens :: nat
  structured :: bool
  cancelled :: bool
  orphaned :: bool
  req_context :: 'c

section \<open>The prefill queue\<close>

record ('ds, 'c) prefill_queue =
  high :: "('ds, 'c) sequence_info list"
  normal :: "('ds, 'c) sequence_info list"
  low :: "('ds, 'c) sequence_info list"
  queue_max_size :: nat

definition DEFAULT_MAX_QUEUE_SIZE :: nat where
  "DEFAULT_MAX_QUEUE_SIZE = 1024"

definition queue_with_capacity :: "nat \<Rightarrow> ('ds, 'c) prefill_queue" where
  "queue_with_capacity n = \<lparr>high = [], normal = [], low = [], queue_max_size = n\<rparr>"

definition queue_new :: "('ds, 'c) prefill_queue" where
  "queue_new = queue_with_capacity DEFAULT_MAX_QUEUE_SIZE"

definition queue_len :: "('ds, 'c) prefill_queue \<Rightarrow> nat" where
  "queue_len q = length (high q) + length (normal q) + length (low q)"

definition queue_is_empty :: "('ds, 'c) prefill_queue \<Rightarrow> bool" where
  "queue_is_empty q \<longleftrightarrow> high q = [] \<and> normal q = [] \<and> low q = []"

definition queue_is_full :: "('ds, 'c) prefill_queue \<Rightarrow> bool" where
  "queue_is_full q \<longleftrightarrow> queue_max_size q \<le> queue_len q"

definition enqueue ::
  "('ds, 'c) prefill_queue \<Rightarrow> ('ds, 'c) sequence_info \<Rightarrow> (('ds, 'c) sequence_info + unit) \<times> ('ds, 'c) prefill_queue" where
  "enqueue q s =
     (if queue_max_size q \<le> queue_len q then (Inl s, q)
      else (Inr (), case priority s of
                      High \<Rightarrow> q\<lparr>high := high q @ [s]\<rparr>
                    | Normal \<Rightarrow> q\<lparr>normal := normal q @ [s]\<rparr>
                    | Low \<Rightarrow> q\<lparr>low := low q @ [s]\<rparr>))"

definition dequeue :: "('ds, 'c) prefill_queue \<Rightarrow> ('ds, 'c) sequence_info option \<times> ('ds, 'c) prefill_queue" where
  "dequeue q =
     (case high q of
        s # ss \<Rightarrow> (Some s, q\<lparr>high := ss\<rparr>)
      | [] \<Rightarrow> (case normal q of
          s # ss \<Rightarrow> (Some s, q\<lparr>normal := ss\<rparr>)
        | [] \<Rightarrow> (case low q of s # ss \<Rightarrow> (Some s, q\<lparr>low := ss\<rparr>) | [] \<Rightarrow> (None, q))))"

text \<open>The collecting loop of \<open>drain_matching_window\<close> on one lane; \<open>m\<close> is what is left of \<open>max_extra\<close>.\<close>

fun drain_front :: "nat \<Rightarrow> ('x \<Rightarrow> bool) \<Rightarrow> 'x list \<Rightarrow> 'x list \<times> 'x list" where
  "drain_front 0 P lane = ([], lane)"
| "drain_front (Suc m) P [] = ([], [])"
| "drain_front (Suc m) P (x # lane) =
     (if P x then (case drain_front m P lane of (out, rest) \<Rightarrow> (x # out, rest)) else ([], x # lane))"

definition drain_matching_window ::
  "('ds, 'c) prefill_queue \<Rightarrow> request_priority \<Rightarrow> nat \<Rightarrow> (('ds, 'c) sequence_info \<Rightarrow> bool)
   \<Rightarrow> ('ds, 'c) sequence_info list \<times> ('ds, 'c) prefill_queue" where
  "drain_matching_window q lane max_extra P =
     (case lane of
        High \<Rightarrow> (case drain_front max_extra P (high q) of (out, rest) \<Rightarrow> (out, q\<lparr>high := rest\<rparr>))
      | Normal \<Rightarrow> (case drain_front max_extra P (normal q) of (out, rest) \<Rightarrow> (out, q\<lparr>normal := rest\<rparr>))
      | Low \<Rightarrow> (case drain_front max_extra P (low q) of (out, rest) \<Rightarrow> (out, q\<lparr>low := rest\<rparr>)))"

definition peek_priority :: "('ds, 'c) prefill_queue \<Rightarrow> request_priority option" where
  "peek_priority q =
     (if high q \<noteq> [] then Some High else if normal q \<noteq> [] then Some Normal else if low q \<noteq> [] then Some Low else None)"

text \<open>The index loop of \<open>drain_cancelled_from_lane\<close>.\<close>

function drain_cancelled_from_lane ::
  "nat \<Rightarrow> ('ds, 'c) sequence_info list \<Rightarrow> ('ds, 'c) sequence_info list
   \<Rightarrow> ('ds, 'c) sequence_info list \<times> ('ds, 'c) sequence_info list" where
  "drain_cancelled_from_lane i lane out =
     (if i < length lane
      then if cancelled (lane ! i) then drain_cancelled_from_lane i (take i lane @ drop (Suc i) lane) (out @ [lane ! i])
        else drain_cancelled_from_lane (Suc i) lane out
      else (lane, out))"
  by pat_completeness auto
termination by (relation "measure (\<lambda>(i, lane, _). length lane - i)") auto

declare drain_cancelled_from_lane.simps [simp del]

definition drain_cancelled :: "('ds, 'c) prefill_queue \<Rightarrow> ('ds, 'c) sequence_info list \<times> ('ds, 'c) prefill_queue" where
  "drain_cancelled q =
     (let (h, out1) = drain_cancelled_from_lane 0 (high q) [];
          (n, out2) = drain_cancelled_from_lane 0 (normal q) out1;
          (l, out3) = drain_cancelled_from_lane 0 (low q) out2
      in (out3, q\<lparr>high := h, normal := n, low := l\<rparr>))"

section \<open>The active batch\<close>

record ('ds, 'c) active_batch =
  sequences :: "(nat, ('ds, 'c) sequence_info) hmap"
  batch_max_size :: nat

datatype batch_error = BatchFull nat nat | DuplicateSequence nat

definition batch_new :: "nat \<Rightarrow> ('ds, 'c) active_batch" where
  "batch_new n = \<lparr>sequences = [], batch_max_size = n\<rparr>"

definition batch_add ::
  "('ds, 'c) active_batch \<Rightarrow> ('ds, 'c) sequence_info \<Rightarrow> (batch_error + unit) \<times> ('ds, 'c) active_batch" where
  "batch_add b s =
     (if batch_max_size b \<le> length (sequences b) then (Inl (BatchFull (sq_id s) (batch_max_size b)), b)
      else if hm_get (sequences b) (sq_id s) \<noteq> None then (Inl (DuplicateSequence (sq_id s)), b)
      else (Inr (), b\<lparr>sequences := hm_insert (sq_id s) s (sequences b)\<rparr>))"

definition batch_remove ::
  "('ds, 'c) active_batch \<Rightarrow> nat \<Rightarrow> ('ds, 'c) sequence_info option \<times> ('ds, 'c) active_batch" where
  "batch_remove b i = (hm_get (sequences b) i, b\<lparr>sequences := hm_remove i (sequences b)\<rparr>)"

definition batch_is_full :: "('ds, 'c) active_batch \<Rightarrow> bool" where
  "batch_is_full b \<longleftrightarrow> batch_max_size b \<le> length (sequences b)"

definition batch_is_empty :: "('ds, 'c) active_batch \<Rightarrow> bool" where
  "batch_is_empty b \<longleftrightarrow> sequences b = []"

definition sequence_ids :: "('ds, 'c) active_batch \<Rightarrow> nat list" where
  "sequence_ids b = map fst (sequences b)"

definition iter_min_priority :: "('ds, 'c) active_batch \<Rightarrow> request_priority option" where
  "iter_min_priority b = (case map (priority \<circ> snd) (sequences b) of [] \<Rightarrow> None | p # ps \<Rightarrow> Some (foldl min p ps))"

end
