(* ===== verification/Queue_Order.thy ===== *)
theory Queue_Order
  imports Batch_Queue
begin

text \<open>
  The three lanes of the prefill queue refine one waiting line in arrival order: the interface of such a line as a
  locale, what serving it to the end gives, and its interpretation on the queue.
\<close>

section \<open>Lanes as one waiting line\<close>

text \<open>A waiting line in arrival order, and what the queue promises: the next request served is the oldest one of the highest
  priority that is waiting.\<close>

definition pick_next :: "('x \<Rightarrow> 'p::linorder) \<Rightarrow> 'x list \<Rightarrow> ('x \<times> 'x list) option" where
  "pick_next prio xs =
     (if xs = [] then None
      else let p = Max (prio ` set xs); pre = takeWhile (\<lambda>x. prio x \<noteq> p) xs; rest = dropWhile (\<lambda>x. prio x \<noteq> p) xs
        in Some (hd rest, pre @ tl rest))"

fun serve :: "('q \<Rightarrow> 'x option \<times> 'q) \<Rightarrow> nat \<Rightarrow> 'q \<Rightarrow> 'x list" where
  "serve get 0 q = []"
| "serve get (Suc n) q = (case get q of (None, q') \<Rightarrow> [] | (Some x, q') \<Rightarrow> x # serve get n q')"

lemma pick_next_split:
  assumes "pick_next prio xs = Some (x, ys)"
  obtains pre post where "xs = pre @ x # post" "ys = pre @ post" "\<And>y. y \<in> set pre \<Longrightarrow> prio y < prio x" "\<And>y. y \<in> set post \<Longrightarrow> prio y \<le> prio x"
proof -
  define p where "p = Max (prio ` set xs)"
  have xs: "xs \<noteq> []" using assms by (auto simp: pick_next_def split: if_splits)
  then have "p \<in> prio ` set xs" unfolding p_def by (intro Max_in) auto
  then obtain a rest where r: "dropWhile (\<lambda>x. prio x \<noteq> p) xs = a # rest" by (cases "dropWhile (\<lambda>x. prio x \<noteq> p) xs") (auto simp: dropWhile_eq_Nil_conv)
  then have a: "prio a = p" using hd_dropWhile [of "\<lambda>x. prio x \<noteq> p" xs] by simp
  have split: "xs = takeWhile (\<lambda>x. prio x \<noteq> p) xs @ a # rest" using takeWhile_dropWhile_id [of "\<lambda>x. prio x \<noteq> p" xs] r by simp
  have res: "x = a" "ys = takeWhile (\<lambda>x. prio x \<noteq> p) xs @ rest" using assms xs r by (auto simp: pick_next_def p_def [symmetric] Let_def)
  have le: "prio y \<le> p" if "y \<in> set xs" for y using that by (simp add: p_def)
  show thesis
  proof (rule that [OF split [folded res(1)] res(2)])
    show "prio y < prio x" if "y \<in> set (takeWhile (\<lambda>x. prio x \<noteq> p) xs)" for y
      using that le [of y] set_takeWhileD [OF that] a res(1) by auto
    show "prio y \<le> prio x" if "y \<in> set rest" for y using le [of y] that split a res(1) by (metis UnCI list.set_intros(2) set_append)
  qed
qed

locale waiting_line =
  fixes holds :: "'q \<Rightarrow> 'x list \<Rightarrow> bool" and put :: "'q \<Rightarrow> 'x \<Rightarrow> ('x + unit) \<times> 'q" and get :: "'q \<Rightarrow> 'x option \<times> 'q"
    and cap :: "'q \<Rightarrow> nat" and prio :: "'x \<Rightarrow> 'p::linorder"
  assumes put_room: "holds q xs \<Longrightarrow> length xs < cap q \<Longrightarrow> fst (put q x) = Inr () \<and> holds (snd (put q x)) (xs @ [x])"
    and put_full: "holds q xs \<Longrightarrow> cap q \<le> length xs \<Longrightarrow> put q x = (Inl x, q)"
    and get_empty: "holds q [] \<Longrightarrow> get q = (None, q)"
    and get_next: "holds q xs \<Longrightarrow> pick_next prio xs = Some (x, ys) \<Longrightarrow> fst (get q) = Some x \<and> holds (snd (get q)) ys"
begin

lemma get_nonempty:
  assumes "holds q xs" "xs \<noteq> []"
  obtains x pre post where "xs = pre @ x # post" "get q = (Some x, snd (get q))" "holds (snd (get q)) (pre @ post)"
    "\<And>y. y \<in> set pre \<Longrightarrow> prio y < prio x" "\<And>y. y \<in> set post \<Longrightarrow> prio y \<le> prio x"
proof -
  obtain x ys where p: "pick_next prio xs = Some (x, ys)" using assms(2) by (auto simp: pick_next_def Let_def)
  from p show thesis
  proof (rule pick_next_split)
    fix pre post
    assume "xs = pre @ x # post" "ys = pre @ post" "\<And>y. y \<in> set pre \<Longrightarrow> prio y < prio x" "\<And>y. y \<in> set post \<Longrightarrow> prio y \<le> prio x"
    moreover have "fst (get q) = Some x" "holds (snd (get q)) ys" using get_next [OF assms(1) p] by auto
    ultimately show thesis by (intro that) (auto simp: prod_eq_iff)
  qed
qed

text \<open>Serving until empty is a stable sort by descending priority.\<close>

lemma serve_stable:
  assumes "holds q xs"
  shows "sorted_wrt (\<lambda>a b. prio b \<le> prio a) (serve get (length xs) q)
    \<and> (\<forall>p. filter (\<lambda>x. prio x = p) (serve get (length xs) q) = filter (\<lambda>x. prio x = p) xs)"
  using assms
proof (induction "length xs" arbitrary: q xs)
  case (Suc n)
  then have "xs \<noteq> []" by auto
  with Suc.prems show ?case
  proof (rule get_nonempty)
    fix x pre post
    assume s: "xs = pre @ x # post" "get q = (Some x, snd (get q))" "holds (snd (get q)) (pre @ post)"
      "\<And>y. y \<in> set pre \<Longrightarrow> prio y < prio x" "\<And>y. y \<in> set post \<Longrightarrow> prio y \<le> prio x"
    define ys where "ys = serve get n (snd (get q))"
    have n: "n = length (pre @ post)" using Suc.hyps(2) s(1) by simp
    have out: "serve get (length xs) q = x # ys"
      using s(2) by (subst Suc.hyps(2) [symmetric]) (simp add: ys_def split: prod.split option.split, metis fst_conv option.distinct(1) option.inject snd_conv)
    have ih: "sorted_wrt (\<lambda>a b. prio b \<le> prio a) ys" "\<And>p. filter (\<lambda>x. prio x = p) ys = filter (\<lambda>x. prio x = p) (pre @ post)"
      using Suc.hyps(1) [OF n s(3)] unfolding ys_def n by auto
    have "prio y \<le> prio x" if "y \<in> set ys" for y
    proof -
      have "y \<in> set (filter (\<lambda>x. prio x = prio y) ys)" using that by simp
      then have "y \<in> set pre \<or> y \<in> set post" unfolding ih(2) by simp
      then show ?thesis using s(4,5) by (auto simp: less_imp_le)
    qed
    moreover have "filter (\<lambda>y. prio y = prio x) pre = []"
      using s(4) by (auto simp: filter_empty_conv dest: less_imp_neq)
    ultimately show ?thesis using ih unfolding out by (auto simp: s(1))
  qed
qed simp

end

definition lanes :: "('ds, 'c) prefill_queue \<Rightarrow> ('ds, 'c) sequence_info list \<Rightarrow> bool" where
  "lanes q xs \<longleftrightarrow> high q = filter (\<lambda>s. priority s = High) xs \<and> normal q = filter (\<lambda>s. priority s = Normal) xs
     \<and> low q = filter (\<lambda>s. priority s = Low) xs"

lemma lanes_len: "lanes q xs \<Longrightarrow> queue_len q = length xs"
proof -
  have "length (filter (\<lambda>s. priority s = High) xs) + length (filter (\<lambda>s. priority s = Normal) xs)
      + length (filter (\<lambda>s. priority s = Low) xs) = length xs"
  proof (induction xs)
    case (Cons x xs)
    then show ?case by (cases "priority x") auto
  qed simp
  then show "lanes q xs \<Longrightarrow> queue_len q = length xs" by (simp add: lanes_def queue_len_def)
qed

lemma filter_priority_none:
  "(\<And>y. y \<in> set ys \<Longrightarrow> priority y < p) \<Longrightarrow> filter (\<lambda>s. priority s = p) ys = []"
  "(\<And>y. y \<in> set ys \<Longrightarrow> priority y \<le> p') \<Longrightarrow> p' < p \<Longrightarrow> filter (\<lambda>s. priority s = p) ys = []"
  by (force simp: filter_empty_conv)+

lemma lanes_dequeue:
  assumes "lanes q xs" "pick_next priority xs = Some (x, ys)"
  shows "fst (dequeue q) = Some x \<and> lanes (snd (dequeue q)) ys"
  using assms(2)
proof (rule pick_next_split)
  fix pre post
  assume s: "xs = pre @ x # post" "ys = pre @ post" "\<And>y. y \<in> set pre \<Longrightarrow> priority y < priority x"
    "\<And>y. y \<in> set post \<Longrightarrow> priority y \<le> priority x"
  have pre: "filter (\<lambda>s. priority s = p) pre = []" if "priority x \<le> p" for p
    using s(3) that by (intro filter_priority_none(1)) (rule less_le_trans)
  have post: "filter (\<lambda>s. priority s = p) post = []" if "priority x < p" for p
    using filter_priority_none(2) [OF s(4) that] .
  show ?thesis
    using assms(1) pre post unfolding s(1,2) by (cases "priority x") (auto simp: lanes_def dequeue_def)
qed

interpretation pq: waiting_line lanes enqueue dequeue queue_max_size priority
proof
  fix q :: "('a, 'b) prefill_queue" and xs x ys
  show "lanes q xs \<Longrightarrow> length xs < queue_max_size q \<Longrightarrow> fst (enqueue q x) = Inr () \<and> lanes (snd (enqueue q x)) (xs @ [x])"
    using lanes_len [of q xs] by (auto simp: enqueue_def lanes_def split: request_priority.splits)
  show "lanes q xs \<Longrightarrow> queue_max_size q \<le> length xs \<Longrightarrow> enqueue q x = (Inl x, q)"
    using lanes_len [of q xs] by (simp add: enqueue_def)
  show "lanes q [] \<Longrightarrow> dequeue q = (None, q)" by (simp add: lanes_def dequeue_def)
  show "lanes q xs \<Longrightarrow> pick_next priority xs = Some (x, ys) \<Longrightarrow> fst (dequeue q) = Some x \<and> lanes (snd (dequeue q)) ys"
    by (rule lanes_dequeue)
qed

section \<open>The draining operations\<close>

lemma drain_cancelled_lane:
  "drain_cancelled_from_lane i lane out =
     (take i lane @ filter (\<lambda>s. \<not> cancelled s) (drop i lane), out @ filter cancelled (drop i lane))"
proof (induction i lane out rule: drain_cancelled_from_lane.induct)
  case (1 i lane out)
  show ?case
  proof (cases "i < length lane")
    case True
    have d: "drop i lane = lane ! i # drop (Suc i) lane" using True by (simp add: Cons_nth_drop_Suc)
    show ?thesis
    proof (cases "cancelled (lane ! i)")
      case c: True
      have "drain_cancelled_from_lane i lane out = drain_cancelled_from_lane i (take i lane @ drop (Suc i) lane) (out @ [lane ! i])"
        using True c by (simp add: drain_cancelled_from_lane.simps [of i lane out])
      also have "\<dots> = (take i lane @ filter (\<lambda>s. \<not> cancelled s) (drop (Suc i) lane), out @ lane ! i # filter cancelled (drop (Suc i) lane))"
        using 1(1) [OF True c] True by (simp add: min_absorb1)
      finally show ?thesis using c by (simp add: d)
    next
      case c: False
      have "drain_cancelled_from_lane i lane out = drain_cancelled_from_lane (Suc i) lane out"
        using True c by (simp add: drain_cancelled_from_lane.simps [of i lane out])
      then show ?thesis using 1(2) [OF True c] c True by (simp add: d take_Suc_conv_app_nth)
    qed
  qed (simp add: drain_cancelled_from_lane.simps)
qed

lemma drain_cancelled_eq:
  "drain_cancelled q = (filter cancelled (high q) @ filter cancelled (normal q) @ filter cancelled (low q),
      q\<lparr>high := filter (\<lambda>s. \<not> cancelled s) (high q), normal := filter (\<lambda>s. \<not> cancelled s) (normal q), low := filter (\<lambda>s. \<not> cancelled s) (low q)\<rparr>)"
  by (simp add: drain_cancelled_def drain_cancelled_lane)

lemma drain_cancelled_lanes:
  assumes "lanes q xs"
  shows "lanes (snd (drain_cancelled q)) (filter (\<lambda>s. \<not> cancelled s) xs)"
    and "mset (fst (drain_cancelled q)) = mset (filter cancelled xs)"
proof -
  note q = drain_cancelled_eq [of q]
  show "lanes (snd (drain_cancelled q)) (filter (\<lambda>s. \<not> cancelled s) xs)" using assms by (auto simp: q lanes_def intro: filter_cong)
  have "mset (filter P xs) = mset (filter P (filter (\<lambda>s. priority s = High) xs)) + mset (filter P (filter (\<lambda>s. priority s = Normal) xs))
      + mset (filter P (filter (\<lambda>s. priority s = Low) xs))" for P :: "('a, 'b) sequence_info \<Rightarrow> bool"
  proof (induction xs)
    case (Cons x xs)
    then show ?case by (cases "priority x") auto
  qed simp
  from this [of cancelled] show "mset (fst (drain_cancelled q)) = mset (filter cancelled xs)" using assms by (simp add: q lanes_def)
qed

text \<open>Removing the first \<open>k\<close> waiting requests of one priority.\<close>

fun drop_of :: "('x \<Rightarrow> bool) \<Rightarrow> nat \<Rightarrow> 'x list \<Rightarrow> 'x list" where
  "drop_of P 0 xs = xs"
| "drop_of P (Suc k) [] = []"
| "drop_of P (Suc k) (x # xs) = (if P x then drop_of P k xs else x # drop_of P (Suc k) xs)"

lemma filter_drop_of: "filter P (drop_of P k xs) = drop k (filter P xs)"
  by (induction P k xs rule: drop_of.induct) auto

lemma filter_drop_of_other: "(\<And>x. P x \<Longrightarrow> \<not> Q x) \<Longrightarrow> filter Q (drop_of P k xs) = filter Q xs"
  by (induction P k xs rule: drop_of.induct) auto

lemma drain_front_spec:
  "drain_front m P lane = (out, rest) \<Longrightarrow> lane = out @ rest \<and> length out \<le> m \<and> list_all P out
     \<and> (length out < m \<longrightarrow> (case rest of [] \<Rightarrow> True | x # _ \<Rightarrow> \<not> P x))"
  by (induction m P lane arbitrary: out rule: drain_front.induct) (auto split: if_splits prod.splits list.splits)

lemma drain_window_lanes:
  assumes "lanes q xs" "drain_matching_window q p m P = (out, q')"
  shows "lanes q' (drop_of (\<lambda>s. priority s = p) (length out) xs)"
    and "\<exists>rest. filter (\<lambda>s. priority s = p) xs = out @ rest \<and> length out \<le> m \<and> list_all P out
       \<and> (length out < m \<longrightarrow> (case rest of [] \<Rightarrow> True | x # _ \<Rightarrow> \<not> P x))"
proof -
  let ?l = "filter (\<lambda>s. priority s = p) xs"
  obtain out' rest where d: "drain_front m P ?l = (out', rest)" by fastforce
  have out: "out' = out" using assms d by (cases p) (auto simp: lanes_def drain_matching_window_def)
  note spec = drain_front_spec [OF d [unfolded out]]
  then have rest: "rest = drop (length out) ?l" by simp
  show "\<exists>rest. ?l = out @ rest \<and> length out \<le> m \<and> list_all P out \<and> (length out < m \<longrightarrow> (case rest of [] \<Rightarrow> True | x # _ \<Rightarrow> \<not> P x))"
    using spec by (rule exI)
  have same: "filter (\<lambda>s. priority s = p) (drop_of (\<lambda>s. priority s = p) k xs) = drop k ?l" for k
    by (rule filter_drop_of)
  have other: "filter (\<lambda>s. priority s = p') (drop_of (\<lambda>s. priority s = p) k xs) = filter (\<lambda>s. priority s = p') xs" if "p' \<noteq> p" for p' k
    using that by (intro filter_drop_of_other) auto
  show "lanes q' (drop_of (\<lambda>s. priority s = p) (length out) xs)"
    using assms d same [of "length out"] other rest out by (cases p) (auto simp: lanes_def drain_matching_window_def)
qed

section \<open>Properties\<close>

text \<open>C28: the prefill queue is a waiting line with priorities. The three lanes behave as one list in arrival order: an enqueue appends
  and is refused exactly when the line is at capacity, a dequeue removes the oldest request of the highest
  priority present, cancelled requests are all removed and the others keep their places, and a window drain takes
  a maximal run of matching requests from the front of one priority. Serving until empty yields the waiting
  requests sorted by descending priority with arrival order kept within each priority.\<close>

theorem prefill_queue_refines:
  assumes "lanes q xs"
  shows "(case enqueue q s of
        (Inr _, q') \<Rightarrow> length xs < queue_max_size q \<and> lanes q' (xs @ [s])
      | (Inl s', q') \<Rightarrow> queue_max_size q \<le> length xs \<and> s' = s \<and> q' = q)
    \<and> (case (pick_next priority xs, dequeue q) of
        (None, r, q') \<Rightarrow> r = None \<and> q' = q
      | (Some (x, ys), r, q') \<Rightarrow> r = Some x \<and> lanes q' ys)
    \<and> (case drain_cancelled q of
        (out, q') \<Rightarrow> mset out = mset (filter cancelled xs) \<and> lanes q' (filter (\<lambda>s. \<not> cancelled s) xs))
    \<and> (case drain_matching_window q p m P of
        (out, q') \<Rightarrow> lanes q' (drop_of (\<lambda>s. priority s = p) (length out) xs)
          \<and> (\<exists>rest. filter (\<lambda>s. priority s = p) xs = out @ rest \<and> length out \<le> m \<and> list_all P out
              \<and> (length out < m \<longrightarrow> (case rest of [] \<Rightarrow> True | x # _ \<Rightarrow> \<not> P x))))
    \<and> sorted_wrt (\<lambda>a b. priority b \<le> priority a) (serve dequeue (length xs) q)
    \<and> (\<forall>p. filter (\<lambda>s. priority s = p) (serve dequeue (length xs) q) = filter (\<lambda>s. priority s = p) xs)"
proof (intro conjI)
  show "case enqueue q s of
        (Inr _, q') \<Rightarrow> length xs < queue_max_size q \<and> lanes q' (xs @ [s])
      | (Inl s', q') \<Rightarrow> queue_max_size q \<le> length xs \<and> s' = s \<and> q' = q"
    using pq.put_room [OF assms, of s] pq.put_full [OF assms, of s] by (cases "length xs < queue_max_size q") (auto split: prod.split sum.split)
  show "case (pick_next priority xs, dequeue q) of
        (None, r, q') \<Rightarrow> r = None \<and> q' = q
      | (Some (x, ys), r, q') \<Rightarrow> r = Some x \<and> lanes q' ys"
    using pq.get_empty [of q] pq.get_next [OF assms] assms by (cases "xs = []") (auto simp: pick_next_def Let_def split: prod.split option.split)
  show "case drain_cancelled q of
        (out, q') \<Rightarrow> mset out = mset (filter cancelled xs) \<and> lanes q' (filter (\<lambda>s. \<not> cancelled s) xs)"
    using drain_cancelled_lanes [OF assms] by (auto split: prod.split)
  show "case drain_matching_window q p m P of
        (out, q') \<Rightarrow> lanes q' (drop_of (\<lambda>s. priority s = p) (length out) xs)
          \<and> (\<exists>rest. filter (\<lambda>s. priority s = p) xs = out @ rest \<and> length out \<le> m \<and> list_all P out
              \<and> (length out < m \<longrightarrow> (case rest of [] \<Rightarrow> True | x # _ \<Rightarrow> \<not> P x)))"
    using drain_window_lanes [OF assms] by (auto split: prod.split)
qed (use pq.serve_stable [OF assms] in auto)

definition demo_seq :: "nat \<Rightarrow> request_priority \<Rightarrow> (unit, unit) sequence_info" where
  "demo_seq i p = \<lparr>sq_id = i, seq_state = Queued, prompt_tokens = [1, 2, 3], max_tokens = 8, priority = p, generated_tokens = [],
     generated_text = [], decode_state = (), token_history = [], merged_eos = [], prefill_offset = 0, prefill_start_offset = 0,
     already_cached_tokens = 0, structured = False, cancelled = False, orphaned = False, req_context = ()\<rparr>"

theorem prefill_queue_refines_witness:
  "let q = snd (enqueue (snd (enqueue (queue_with_capacity 4) (demo_seq 1 Low))) (demo_seq 2 High))
   in map sq_id (serve dequeue 2 q) = [2, 1] \<and> sorted_wrt (\<lambda>a b. priority b \<le> priority a) (serve dequeue 2 q)"
proof -
  define q :: "(unit, unit) prefill_queue" where "q = snd (enqueue (snd (enqueue (queue_with_capacity 4) (demo_seq 1 Low))) (demo_seq 2 High))"
  have q: "q = \<lparr>high = [demo_seq 2 High], normal = [], low = [demo_seq 1 Low], queue_max_size = 4\<rparr>"
    by (simp add: q_def enqueue_def queue_with_capacity_def queue_len_def demo_seq_def)
  have "lanes q [demo_seq 1 Low, demo_seq 2 High]" by (simp add: q lanes_def demo_seq_def)
  from prefill_queue_refines [OF this] have "sorted_wrt (\<lambda>a b. priority b \<le> priority a) (serve dequeue 2 q)" by (simp add: numeral_2_eq_2)
  moreover have "map sq_id (serve dequeue 2 q) = [2, 1]" by (simp add: q numeral_2_eq_2 dequeue_def demo_seq_def)
  ultimately show ?thesis by (simp add: Let_def q_def)
qed

end
