(* ===== verification/Batch_Scheduler.thy ===== *)
theory Batch_Scheduler
  imports Batch_Queue Batch_Quant Prompt_Store
begin

text \<open>
  The parts of the batch scheduler that move sequences between the queue, the batch and the pools:
  \<open>src/src/server/batch/scheduler.rs\<close>. A tick decides what to do; when the paged block budget is short, cold
  prompt-cache entries are evicted and running sequences are preempted.

  The record \<open>scheduler\<close> holds the fields of \<open>BatchScheduler\<close> these functions use. The language model is a trait
  object: its hooks are the record \<open>model_ops\<close>, a parameter, over the model's own state \<open>model_state\<close>. A fresh
  streaming decoder for a prompt is the parameter \<open>fresh_decoder\<close>, the clock readings are \<open>now\<close>. Events sent to clients are logged in
  \<open>sent\<close> with the request context that holds the channel; a sequence whose channel is closed is not distinguished.
  The loops of \<open>reclaim_paged_blocks\<close> are partial functions: a loop that did not stop, like a panic, is None.
\<close>

section \<open>State\<close>

datatype preemption_policy = LongestFirst | LowestPriority

datatype decode_storage_backend = DenseStorage | PagedStorage

datatype entry_kind = QwenVlMrope | Gemma4PerLayerInputs | Gemma3nPerLayerInputs

record ('a, 'm, 'e) model_ops =
  ops_model :: "'a language_model"
  ops_num_layers :: nat
  ops_release_by_id :: "'m \<Rightarrow> nat \<Rightarrow> 'm"
  ops_release_caches :: "'m \<Rightarrow> 'a kv_cache list \<Rightarrow> 'm \<times> 'a kv_cache list"
  ops_take_entry :: "entry_kind \<Rightarrow> 'm \<Rightarrow> nat \<Rightarrow> 'e \<times> 'm"
  ops_install_entry :: "entry_kind \<Rightarrow> 'm \<Rightarrow> nat \<Rightarrow> 'e \<Rightarrow> 'm"
  ops_prepare :: "'m \<Rightarrow> nat \<Rightarrow> 'm"

record sched_config =
  enable_preemption :: bool
  policy :: preemption_policy
  storage_backend :: decode_storage_backend
  legacy_mode :: kv_cache_mode
  sched_v_bits :: nat
  batch_kv_quant :: batch_kv_quant_config
  boundary_v_layers :: int
  sched_env :: cache_env

datatype sched_event = EvictionStateError | RequeueFailed cp_error | QueueFull | ClientDisconnected

record ('a, 'd, 's, 'ds, 'c, 'k, 'm) scheduler =
  pool :: "'a cache_pool"
  prefill_queue :: "('ds, 'c) prefill_queue"
  active_batch :: "('ds, 'c) active_batch"
  prompt_cache :: "('a, 'd, 's) prompt_store option"
  prompt_cache_seq_ctx :: "(nat, 'k) hmap"
  model_state :: 'm
  chunked_prefill_seq :: "('ds, 'c) sequence_info option"
  sched_conf :: sched_config
  preemptions :: nat
  completed :: nat
  sent :: "('c \<times> sched_event) list"

section \<open>Allocation\<close>

definition DEFAULT_PAGED_BLOCK_SIZE :: nat where
  "DEFAULT_PAGED_BLOCK_SIZE = 32"

definition sched_is_turbo_mode :: "kv_cache_mode \<Rightarrow> bool" where
  "sched_is_turbo_mode m \<longleftrightarrow> m \<in> {Turbo4Asym, Turbo4, Turbo4Delegated, Turbo3Asym}"

definition effective_kv_cache_mode :: "sched_config \<Rightarrow> kv_cache_mode" where
  "effective_kv_cache_mode c = resolve_effective_kv_cache_mode (batch_kv_quant c) (legacy_mode c)"

definition layout_paged_kv_cache :: "paged_kv_layout \<Rightarrow> sequence_state_layout" where
  "layout_paged_kv_cache l = \<lparr>sl_backend = PagedKvCache, sl_num_layers = num_layers l, sl_paged_layout = Some l\<rparr>"

text \<open>An invalid layout is a panic of \<open>expect\<close>: the value None.\<close>

definition sequence_state_layout_override :: "sched_config \<Rightarrow> nat \<Rightarrow> sequence_state_layout option option" where
  "sequence_state_layout_override c n =
     (if storage_backend c \<noteq> PagedStorage then Some None
      else let m = effective_kv_cache_mode c;
               paged_layout =
                 (if sched_is_turbo_mode m
                  then layout_uniform_with_mode n DEFAULT_PAGED_BLOCK_SIZE DEFAULT_PAGED_BLOCK_SIZE m DEFAULT_PAGED_BLOCK_SIZE
                  else layout_uniform_with_mode n DEFAULT_PAGED_BLOCK_SIZE DEFAULT_PAGED_BLOCK_SIZE m 0)
        in case paged_layout of Inl _ \<Rightarrow> None | Inr l \<Rightarrow> Some (Some (layout_paged_kv_cache l)))"

text \<open>A width that \<open>set_kvarn_v_bits\<close> refuses is a panic: the value None.\<close>

definition apply_kv_cache_mode_to :: "sched_config \<Rightarrow> 'a cache_pool \<Rightarrow> nat \<Rightarrow> 'a cache_pool option" where
  "apply_kv_cache_mode_to c cp i =
     (case hm_get (active cp) i of
        None \<Rightarrow> Some cp
      | Some s \<Rightarrow>
          map_option (\<lambda>cs. cp\<lparr>active := hm_insert i (s\<lparr>caches := cs\<rparr>) (active cp)\<rparr>)
            (apply_modes (batch_kv_quant c) (legacy_mode c) (sched_v_bits c) (boundary_v_layers c) (caches s)))"

definition allocate_sequence_state ::
  "('a, 'm, 'e) model_ops \<Rightarrow> nat \<Rightarrow> ('a, 'd, 's, 'ds, 'c, 'k, 'm) scheduler
   \<Rightarrow> ((cp_error + nat) \<times> ('a, 'd, 's, 'ds, 'c, 'k, 'm) scheduler) option" where
  "allocate_sequence_state ops now sc =
     Option.bind (sequence_state_layout_override (sched_conf sc) (ops_num_layers ops)) (\<lambda>ov.
       case allocate_with_layout (sched_env (sched_conf sc)) (ops_model ops) now (pool sc) ov of
         (Inl e, cp) \<Rightarrow> Some (Inl e, sc\<lparr>pool := cp\<rparr>)
       | (Inr i, cp) \<Rightarrow>
           Option.bind (apply_kv_cache_mode_to (sched_conf sc) cp i) (\<lambda>cp'.
             Some (Inr i, sc\<lparr>pool := cp', model_state := ops_prepare ops (model_state sc) i\<rparr>)))"

definition release_sequence_caches ::
  "('a, 'm, 'e) model_ops \<Rightarrow> ('a, 'd, 's, 'ds, 'c, 'k, 'm) scheduler \<Rightarrow> nat \<Rightarrow> ('a, 'd, 's, 'ds, 'c, 'k, 'm) scheduler" where
  "release_sequence_caches ops sc i =
     (let m = ops_release_by_id ops (model_state sc) i in
      case hm_get (active (pool sc)) i of
        None \<Rightarrow> sc\<lparr>model_state := m, pool := release (pool sc) i\<rparr>
      | Some s \<Rightarrow>
          (case ops_release_caches ops m (caches s) of
             (m', cs) \<Rightarrow> sc\<lparr>model_state := m',
               pool := release ((pool sc)\<lparr>active := hm_insert i (s\<lparr>caches := cs\<rparr>) (active (pool sc))\<rparr>) i\<rparr>))"

section \<open>Releasing detached sets\<close>

definition release_unused_detached ::
  "('a, 'd, 's, 'ds, 'c, 'k, 'm) scheduler \<Rightarrow> 'a detached_kv_set \<Rightarrow> ('a, 'd, 's, 'ds, 'c, 'k, 'm) scheduler" where
  "release_unused_detached sc d =
     (case d of Dense _ \<Rightarrow> sc | Paged p \<Rightarrow> sc\<lparr>pool := snd (release_detached_paged (pool sc) p)\<rparr>)"

text \<open>The loop over the drained sets.\<close>

fun release_each :: "'a cache_pool \<Rightarrow> 'a detached_paged_cache_set list \<Rightarrow> 'a cache_pool" where
  "release_each cp [] = cp"
| "release_each cp (p # ps) = release_each (snd (release_detached_paged cp p)) ps"

definition drain_store_paged_releases :: "('a, 'd, 's, 'ds, 'c, 'k, 'm) scheduler \<Rightarrow> ('a, 'd, 's, 'ds, 'c, 'k, 'm) scheduler" where
  "drain_store_paged_releases sc =
     (case prompt_cache sc of
        None \<Rightarrow> sc
      | Some st \<Rightarrow>
          if has_pending_paged_releases st
          then (case drain_pending_paged_releases st of
                  (ps, st') \<Rightarrow> sc\<lparr>prompt_cache := Some st', pool := release_each (pool sc) ps\<rparr>)
          else sc)"

section \<open>Decisions\<close>

datatype scheduler_action = PrefillStep nat | DecodeStep "nat list" | Idle

definition should_preempt :: "('a, 'd, 's, 'ds, 'c, 'k, 'm) scheduler \<Rightarrow> bool" where
  "should_preempt sc =
     (if \<not> enable_preemption (sched_conf sc) \<or> \<not> batch_is_full (active_batch sc) then False
      else case peek_priority (prefill_queue sc) of
             None \<Rightarrow> False
           | Some p \<Rightarrow> (case iter_min_priority (active_batch sc) of None \<Rightarrow> High | Some m \<Rightarrow> m) < p)"

definition decide_action :: "('a, 'd, 's, 'ds, 'c, 'k, 'm) scheduler \<Rightarrow> scheduler_action" where
  "decide_action sc =
     (if chunked_prefill_seq sc \<noteq> None then
        (if \<not> batch_is_empty (active_batch sc) then DecodeStep (sequence_ids (active_batch sc)) else PrefillStep 0)
      else if batch_is_empty (active_batch sc) \<and> queue_is_empty (prefill_queue sc) then Idle
      else if \<not> batch_is_empty (active_batch sc) then
        (if should_preempt sc then PrefillStep 0
         else if \<not> batch_is_full (active_batch sc) \<and> \<not> queue_is_empty (prefill_queue sc) then PrefillStep 0
         else DecodeStep (sequence_ids (active_batch sc)))
      else PrefillStep 0)"

definition estimate_prefill_blocks :: "('a, 'm, 'e) model_ops \<Rightarrow> 'a cache_pool \<Rightarrow> nat \<Rightarrow> nat" where
  "estimate_prefill_blocks ops cp n =
     (case map_option (\<lambda>p. block_size (layout p)) (paged_pool cp) of
        Some bs \<Rightarrow> if 0 < bs then min (div_ceil n bs * ops_num_layers ops) u64_max else 0
      | None \<Rightarrow> 0)"

text \<open>\<open>max_by_key\<close> keeps the last of equal elements, \<open>min_by\<close> the first.\<close>

definition select_eviction_victim :: "preemption_policy \<Rightarrow> ('ds, 'c) active_batch \<Rightarrow> nat option" where
  "select_eviction_victim pol b =
     (let cands = filter (\<lambda>s. \<not> structured s) (map snd (sequences b));
          count = (\<lambda>s. length (generated_tokens s));
          below = (\<lambda>x y. priority x < priority y \<or> priority x = priority y \<and> count y < count x)
      in case cands of
           [] \<Rightarrow> None
         | x # xs \<Rightarrow>
             (case pol of
                LongestFirst \<Rightarrow> Some (sq_id (foldl (\<lambda>m y. if count m \<le> count y then y else m) x xs))
              | LowestPriority \<Rightarrow> Some (sq_id (foldl (\<lambda>m y. if below y m then y else m) x xs))))"

section \<open>Preemption\<close>

definition reset_for_prefill :: "(int list \<Rightarrow> 'ds) \<Rightarrow> ('ds, 'c) sequence_info \<Rightarrow> ('ds, 'c) sequence_info" where
  "reset_for_prefill fresh_decoder v =
     v\<lparr>generated_tokens := [], generated_text := [], prefill_offset := 0, prefill_start_offset := 0,
       already_cached_tokens := 0, decode_state := fresh_decoder (prompt_tokens v), token_history := [], merged_eos := []\<rparr>"

definition take_entries :: "('a, 'm, 'e) model_ops \<Rightarrow> 'm \<Rightarrow> nat \<Rightarrow> ('e \<times> 'e \<times> 'e) \<times> 'm" where
  "take_entries ops m i =
     (case ops_take_entry ops QwenVlMrope m i of (e1, m1) \<Rightarrow>
      (case ops_take_entry ops Gemma4PerLayerInputs m1 i of (e2, m2) \<Rightarrow>
       (case ops_take_entry ops Gemma3nPerLayerInputs m2 i of (e3, m3) \<Rightarrow> ((e1, e2, e3), m3))))"

definition install_entries :: "('a, 'm, 'e) model_ops \<Rightarrow> 'm \<Rightarrow> nat \<Rightarrow> 'e \<times> 'e \<times> 'e \<Rightarrow> 'm" where
  "install_entries ops m i es =
     (case es of (e1, e2, e3) \<Rightarrow>
        ops_install_entry ops Gemma3nPerLayerInputs
          (ops_install_entry ops Gemma4PerLayerInputs (ops_install_entry ops QwenVlMrope m i e1) i e2) i e3)"

definition requeue ::
  "('a, 'm, 'e) model_ops \<Rightarrow> ('ds, 'c) sequence_info \<Rightarrow> ('a, 'd, 's, 'ds, 'c, 'k, 'm) scheduler \<Rightarrow> ('a, 'd, 's, 'ds, 'c, 'k, 'm) scheduler" where
  "requeue ops v sc =
     (case enqueue (prefill_queue sc) v of
        (Inr _, q) \<Rightarrow> sc\<lparr>prefill_queue := q\<rparr>
      | (Inl r, q) \<Rightarrow>
          let sc1 = release_sequence_caches ops (sc\<lparr>prefill_queue := q\<rparr>) (sq_id r)
          in sc1\<lparr>sent := sent sc1 @ [(req_context r, QueueFull)]\<rparr>)"

text \<open>The part of \<open>try_evict_for_preemption\<close> after the release: a fresh slot for the victim, and its way back to the queue.\<close>

definition replace_victim ::
  "('a, 'm, 'e) model_ops \<Rightarrow> ('ds, 'c) sequence_info \<Rightarrow> 'e \<times> 'e \<times> 'e \<Rightarrow> nat
   \<Rightarrow> ('a, 'd, 's, 'ds, 'c, 'k, 'm) scheduler \<Rightarrow> ('a, 'd, 's, 'ds, 'c, 'k, 'm) scheduler option" where
  "replace_victim ops v es now sc =
     Option.bind (allocate_sequence_state ops now sc) (\<lambda>(r, sc2).
       case r of
         Inl e \<Rightarrow> Some (sc2\<lparr>sent := sent sc2 @ [(req_context v, RequeueFailed e)]\<rparr>)
       | Inr new_id \<Rightarrow>
           let v2 = v\<lparr>sq_id := new_id\<rparr>;
               sc3 = sc2\<lparr>model_state := install_entries ops (model_state sc2) new_id es\<rparr>
           in case transition_to (seq_state v2) Queued of
                (Inl _, _) \<Rightarrow>
                  let sc4 = release_sequence_caches ops sc3 new_id
                  in Some (sc4\<lparr>sent := sent sc4 @ [(req_context v2, EvictionStateError)]\<rparr>)
              | (Inr _, st) \<Rightarrow>
                  let sc4 = requeue ops (v2\<lparr>seq_state := st\<rparr>) sc3
                  in Some (sc4\<lparr>preemptions := (preemptions sc4 + 1) mod 2 ^ 64\<rparr>))"

definition try_evict_for_preemption ::
  "('a, 'm, 'e) model_ops \<Rightarrow> (int list \<Rightarrow> 'ds) \<Rightarrow> nat \<Rightarrow> ('a, 'd, 's, 'ds, 'c, 'k, 'm) scheduler
   \<Rightarrow> (bool \<times> ('a, 'd, 's, 'ds, 'c, 'k, 'm) scheduler) option" where
  "try_evict_for_preemption ops fresh_decoder now sc =
     (case select_eviction_victim (policy (sched_conf sc)) (active_batch sc) of
        None \<Rightarrow> Some (False, sc)
      | Some i \<Rightarrow>
          (case batch_remove (active_batch sc) i of
             (None, b) \<Rightarrow> Some (False, sc\<lparr>active_batch := b\<rparr>)
           | (Some victim, b) \<Rightarrow>
               (case take_entries ops (model_state sc) (sq_id victim) of
                  (es, m) \<Rightarrow>
                    map_option (Pair True)
                      (replace_victim ops (reset_for_prefill fresh_decoder victim) es now
                        (release_sequence_caches ops (sc\<lparr>active_batch := b, model_state := m\<rparr>) (sq_id victim))))))"

section \<open>Cancellation\<close>

fun cancel_each ::
  "('a, 'm, 'e) model_ops \<Rightarrow> ('ds, 'c) sequence_info list \<Rightarrow> ('a, 'd, 's, 'ds, 'c, 'k, 'm) scheduler
   \<Rightarrow> ('a, 'd, 's, 'ds, 'c, 'k, 'm) scheduler" where
  "cancel_each ops [] sc = sc"
| "cancel_each ops (s # ss) sc =
     (let sc1 = sc\<lparr>sent := sent sc @ [(req_context s, ClientDisconnected)],
                    prompt_cache_seq_ctx := hm_remove (sq_id s) (prompt_cache_seq_ctx sc)\<rparr>;
          sc2 = release_sequence_caches ops sc1 (sq_id s)
      in cancel_each ops ss (sc2\<lparr>completed := (completed sc2 + 1) mod 2 ^ 64\<rparr>))"

definition cancel_queued_disconnected ::
  "('a, 'm, 'e) model_ops \<Rightarrow> ('a, 'd, 's, 'ds, 'c, 'k, 'm) scheduler \<Rightarrow> ('a, 'd, 's, 'ds, 'c, 'k, 'm) scheduler" where
  "cancel_queued_disconnected ops sc =
     (case drain_cancelled (prefill_queue sc) of (drained, q) \<Rightarrow> cancel_each ops drained (sc\<lparr>prefill_queue := q\<rparr>))"

section \<open>Reclaiming blocks\<close>

definition has_room :: "nat \<Rightarrow> 'a cache_pool \<Rightarrow> bool" where
  "has_room need cp = (case free_paged_block_budget cp of None \<Rightarrow> True | Some f \<Rightarrow> need \<le> f)"

partial_function (option) reclaim_from_store ::
  "nat \<Rightarrow> ('a, 'd, 's, 'ds, 'c, 'k, 'm) scheduler \<Rightarrow> ('a, 'd, 's, 'ds, 'c, 'k, 'm) scheduler option" where
  "reclaim_from_store need sc =
     (case prompt_cache sc of
        None \<Rightarrow> Some sc
      | Some st \<Rightarrow>
          if has_room need (pool sc) then Some sc
          else let r = evict_one_lru st; sc1 = sc\<lparr>prompt_cache := Some (snd r)\<rparr>
            in if fst r = 0 then Some sc1 else reclaim_from_store need (drain_store_paged_releases sc1))"

text \<open>The \<open>k\<close>-th preemption reads the clock at \<open>clock k\<close>.\<close>

partial_function (option) reclaim_from_batch ::
  "('a, 'm, 'e) model_ops \<Rightarrow> (int list \<Rightarrow> 'ds) \<Rightarrow> (nat \<Rightarrow> nat) \<Rightarrow> nat \<Rightarrow> nat
   \<Rightarrow> ('a, 'd, 's, 'ds, 'c, 'k, 'm) scheduler \<Rightarrow> ('a, 'd, 's, 'ds, 'c, 'k, 'm) scheduler option" where
  "reclaim_from_batch ops fresh_decoder clock k need sc =
     (if has_room need (pool sc) then Some sc
      else Option.bind (try_evict_for_preemption ops fresh_decoder (clock k) sc) (\<lambda>r.
        if fst r then reclaim_from_batch ops fresh_decoder clock (Suc k) need (snd r) else Some (snd r)))"

definition reclaim_paged_blocks ::
  "('a, 'm, 'e) model_ops \<Rightarrow> (int list \<Rightarrow> 'ds) \<Rightarrow> (nat \<Rightarrow> nat) \<Rightarrow> nat
   \<Rightarrow> ('a, 'd, 's, 'ds, 'c, 'k, 'm) scheduler \<Rightarrow> (bool \<times> ('a, 'd, 's, 'ds, 'c, 'k, 'm) scheduler) option" where
  "reclaim_paged_blocks ops fresh_decoder clock need sc =
     Option.bind (reclaim_from_store need sc) (\<lambda>sc1.
       if has_room need (pool sc1) then Some (True, sc1)
       else Option.bind (reclaim_from_batch ops fresh_decoder clock 0 need sc1) (\<lambda>sc2. Some (has_room need (pool sc2), sc2)))"

end
