(* ===== verification/Scheduler_Invariant.thy ===== *)
theory Scheduler_Invariant
  imports Batch_Scheduler Queue_Order Handoff_Ownership Store_Runs
begin

text \<open>
  The invariant of the scheduler. The references to pool blocks are those of the active sequences, of the sets parked in the
  prompt store and of sets in flight (\<open>extra\<close>); each active slot of the pool belongs to one sequence of the batch, of the
  queue, of the chunked prefill, or in flight (\<open>X\<close>). Every operation of \<open>Batch_Scheduler\<close> keeps it.
\<close>

section \<open>Invariant\<close>

definition queued :: "('ds, 'c) prefill_queue \<Rightarrow> ('ds, 'c) sequence_info list" where
  "queued q = high q @ normal q @ low q"

definition held_ids :: "('a, 'd, 's, 'ds, 'c, 'k, 'm) scheduler \<Rightarrow> nat list" where
  "held_ids sc = sequence_ids (active_batch sc) @ map sq_id (queued (prefill_queue sc))
     @ (case chunked_prefill_seq sc of None \<Rightarrow> [] | Some s \<Rightarrow> [sq_id s])"

definition store_parked :: "('a, 'd, 's) prompt_store option \<Rightarrow> 'a detached_paged_cache_set multiset" where
  "store_parked so = (case so of None \<Rightarrow> {#} | Some st \<Rightarrow> paged_parked st)"

definition batch_ok :: "('ds, 'c) active_batch \<Rightarrow> bool" where
  "batch_ok b \<longleftrightarrow> hm_wf (sequences b) \<and> length (sequences b) \<le> batch_max_size b
     \<and> (\<forall>e \<in> set (sequences b). sq_id (snd e) = fst e \<and> seq_state (snd e) = Decoding)"

definition queue_ok :: "('ds, 'c) prefill_queue \<Rightarrow> bool" where
  "queue_ok q \<longleftrightarrow> (\<forall>s \<in> set (queued q). seq_state s = Queued) \<and> queue_len q \<le> queue_max_size q"

definition refs_ok ::
  "'a cache_pool \<Rightarrow> ('a, 'd, 's) prompt_store option \<Rightarrow> 'a detached_paged_cache_set multiset \<Rightarrow> bool" where
  "refs_ok cp so extra \<longleftrightarrow>
     (\<exists>hs. cp_inv cp hs \<and> mset hs = store_parked so + extra) \<and> (\<forall>st. so = Some st \<longrightarrow> store_inv st)"

definition sched_inv ::
  "('a, 'd, 's, 'ds, 'c, 'k, 'm) scheduler \<Rightarrow> nat multiset \<Rightarrow> 'a detached_paged_cache_set multiset \<Rightarrow> bool" where
  "sched_inv sc X extra \<longleftrightarrow>
     refs_ok (pool sc) (prompt_cache sc) extra \<and> batch_ok (active_batch sc) \<and> queue_ok (prefill_queue sc)
     \<and> mset (map fst (active (pool sc))) = mset (held_ids sc) + X"

text \<open>What allocation needs of the model and the configuration: a layer, an accepted width, empty fresh caches, and blocks
  of a positive size in the model's own layout.\<close>

definition model_ok :: "('a, 'm, 'e) model_ops \<Rightarrow> sched_config \<Rightarrow> bool" where
  "model_ok ops c \<longleftrightarrow>
     0 < ops_num_layers ops \<and> sched_v_bits c \<in> {4, 8} \<and> list_all kv_is_empty (lm_make_caches (ops_model ops))
     \<and> (\<forall>pl. sl_paged_layout (lm_layout (ops_model ops)) = Some pl \<longrightarrow> 0 < block_size pl)"

section \<open>Keys\<close>

lemma keys_remove:
  "hm_wf m \<Longrightarrow> hm_get m k = Some v \<Longrightarrow> mset (map fst m) = add_mset k (mset (map fst (hm_remove k m)))"
proof (induction m)
  case (Cons a m)
  show ?case
  proof (cases "fst a = k")
    case True
    then have "hm_remove k m = m" using Cons.prems(1) by (intro hm_remove_absent) (auto simp: map_of_eq_None_iff)
    with True show ?thesis by (cases a) simp
  qed (use Cons in \<open>cases a; auto\<close>)
qed simp

lemma keys_insert_absent:
  "hm_get m k = None \<Longrightarrow> mset (map fst (hm_insert k v m)) = add_mset k (mset (map fst m))"
  by (simp add: update_keys map_of_eq_None_iff)

lemma keys_insert_present: "hm_get m k = Some v0 \<Longrightarrow> map fst (hm_insert k v m) = map fst m"
  by (simp add: update_keys) (metis fst_conv image_eqI map_of_SomeD)

section \<open>The pool\<close>

lemma recache_inv:
  assumes "cp_inv cp hs" "hm_get (active cp) i = Some s"
  shows "cp_inv (cp\<lparr>active := hm_insert i (s\<lparr>caches := cs\<rparr>) (active cp)\<rparr>) hs"
proof -
  have s: "seq_holds (s\<lparr>caches := cs\<rparr>) = seq_holds s" by (simp add: seq_holds_def)
  have "cp_inv (cp\<lparr>paged_pool := paged_pool cp, active := hm_insert i (s\<lparr>caches := cs\<rparr>) (active cp)\<rparr>) hs"
  proof (rule cp_inv_update_seq [OF assms])
    show "pool_holds (paged_pool cp) (rest_refs cp hs i + seq_holds (s\<lparr>caches := cs\<rparr>))"
      using assms all_refs_split [OF assms] by (simp add: s cp_inv_def)
    show "seq_holder_ok (paged_pool cp) (s\<lparr>caches := cs\<rparr>)"
      using assms map_of_SomeD [OF assms(2)] by (auto simp: cp_inv_def seq_holder_ok_def)
  qed simp
  then show ?thesis by simp
qed

lemma release_active [simp]: "active (release cp i) = hm_remove i (active cp)"
  by (cases "hm_get (active cp) i") (auto simp: release_def Let_def hm_remove_absent split: option.split)

lemma release_next_id [simp]: "next_id (release cp i) = next_id cp"
  by (auto simp: release_def Let_def split: option.split)

lemma release_sequence_caches_frame [simp]:
  "prefill_queue (release_sequence_caches ops sc i) = prefill_queue sc"
  "active_batch (release_sequence_caches ops sc i) = active_batch sc"
  "prompt_cache (release_sequence_caches ops sc i) = prompt_cache sc"
  "prompt_cache_seq_ctx (release_sequence_caches ops sc i) = prompt_cache_seq_ctx sc"
  "chunked_prefill_seq (release_sequence_caches ops sc i) = chunked_prefill_seq sc"
  "sched_conf (release_sequence_caches ops sc i) = sched_conf sc"
  "sent (release_sequence_caches ops sc i) = sent sc"
  "preemptions (release_sequence_caches ops sc i) = preemptions sc"
  "completed (release_sequence_caches ops sc i) = completed sc"
  "next_id (pool (release_sequence_caches ops sc i)) = next_id (pool sc)"
  by (simp_all add: release_sequence_caches_def Let_def split: option.split prod.split)

lemma release_sequence_caches_active [simp]:
  "active (pool (release_sequence_caches ops sc i)) = hm_remove i (active (pool sc))"
  by (simp add: release_sequence_caches_def Let_def delete_update_same split: option.split prod.split)

lemma release_sequence_caches_inv:
  "cp_inv (pool sc) hs \<Longrightarrow> cp_inv (pool (release_sequence_caches ops sc i)) hs"
  by (auto simp: release_sequence_caches_def Let_def intro: release_inv recache_inv split: option.split prod.split)

lemma release_sequence_caches_refs:
  "refs_ok (pool sc) so extra \<Longrightarrow> refs_ok (pool (release_sequence_caches ops sc i)) so extra"
  using release_sequence_caches_inv by (fastforce simp: refs_ok_def)

section \<open>Allocation\<close>

lemma new_paged_is_empty [simp]: "kv_is_empty (new_paged f p c l)"
  by (simp add: new_paged_def kv_new_def new_with_mode_and_seed_def kv_is_empty_def)

lemma layout_uniform_32:
  assumes "0 < n" "sidecar \<in> {0, 32}"
  shows "\<exists>l. layout_uniform_with_mode n 32 32 m sidecar = Inr l \<and> block_size l = 32"
proof -
  have f: "List.find P (List.enumerate 0 (replicate n b)) = None" if "\<And>i. \<not> P (i, b)" for P and b :: nat
    using that by (auto simp: find_None_iff in_set_enumerate_eq)
  have "List.find (\<lambda>e. snd e = 0 \<or> snd e mod 32 \<noteq> 0) (List.enumerate 0 (replicate n (32 :: nat))) = None"
    "List.find (\<lambda>e. snd e \<noteq> 0 \<and> snd e mod 32 \<noteq> 0) (List.enumerate 0 (replicate n sidecar)) = None"
    using assms(2) by (auto intro!: f)
  then show ?thesis
    using assms(1) unfolding layout_uniform_with_mode_def layout_new_with_mode_def Let_def by simp
qed

lemma override_ok:
  assumes "model_ok ops c"
  shows "\<exists>ov. sequence_state_layout_override c (ops_num_layers ops) = Some ov
    \<and> (\<forall>pl. sl_paged_layout (effective_layout (ops_model ops) ov) = Some pl \<longrightarrow> 0 < block_size pl)"
proof (cases "storage_backend c = PagedStorage")
  case False
  then show ?thesis using assms by (auto simp: model_ok_def sequence_state_layout_override_def effective_layout_def)
next
  case True
  let ?m = "effective_kv_cache_mode c"
  let ?s = "if sched_is_turbo_mode ?m then 32 else 0 :: nat"
  have "0 < ops_num_layers ops" "?s \<in> {0, 32}" using assms by (simp_all add: model_ok_def)
  then obtain l where l: "layout_uniform_with_mode (ops_num_layers ops) 32 32 ?m ?s = Inr l" "block_size l = 32"
    using layout_uniform_32 by blast
  have "sequence_state_layout_override c (ops_num_layers ops) = Some (Some (layout_paged_kv_cache l))"
    using True l(1) by (cases "sched_is_turbo_mode ?m")
      (simp_all add: sequence_state_layout_override_def DEFAULT_PAGED_BLOCK_SIZE_def Let_def)
  then show ?thesis using l(2) by (simp add: effective_layout_def layout_paged_kv_cache_def)
qed

lemma ex_insert: "Q s \<Longrightarrow> \<exists>s'. hm_insert i s m = hm_insert i s' m \<and> Q s'"
  by blast

text \<open>A refused allocation adds no slot; a granted one adds the next identifier, with empty caches.\<close>

lemma allocate_active:
  assumes "id_room cp" "allocate_with_layout env lm now cp ov = (r, cp')"
    "list_all kv_is_empty (lm_make_caches lm)"
  shows "next_id cp' \<le> Suc (next_id cp)
    \<and> (case r of Inl _ \<Rightarrow> active cp' = active cp
       | Inr i \<Rightarrow> i = next_id cp \<and> (\<exists>s. active cp' = hm_insert i s (active cp) \<and> list_all kv_is_empty (caches s)))"
  using assms
  by (auto simp: allocate_with_layout_def Let_def fetch_id_room fetch_cell_def ensure_paged_pool_def with_backend_def list_all_iff
      intro!: ex_insert split: if_splits sequence_state_backend.splits option.splits prod.splits sum.splits)

lemma apply_modes_ok:
  assumes "list_all kv_is_empty cs" "v \<in> {4, 8}"
  shows "\<exists>cs'. apply_modes q legacy v b cs = Some cs'"
proof -
  have *: "\<exists>cs'. apply_kvarn_v_bits cs v = Some cs'" if "list_all kv_is_empty cs" for cs :: "'a kv_cache list"
    using that assms(2) by (induction cs) (auto simp: set_kvarn_v_bits_def)
  have "list_all kv_is_empty (map (\<lambda>(c, m, _). c\<lparr>mode := m\<rparr>) (zip cs pl))" for pl :: "(kv_cache_mode \<times> nat) list"
    using assms(1) by (auto simp: list_all_iff kv_is_empty_def dest!: set_zip_leftD)
  then show ?thesis using * by (auto simp: apply_modes_def Let_def)
qed

lemma allocate_sequence_state_ok:
  assumes inv: "refs_ok (pool sc) so extra" and ok: "model_ok ops (sched_conf sc)" and room: "id_room (pool sc)"
  shows "\<exists>r sc'. allocate_sequence_state ops now sc = Some (r, sc') \<and> refs_ok (pool sc') so extra
    \<and> sc' = sc\<lparr>pool := pool sc', model_state := model_state sc'\<rparr> \<and> next_id (pool sc') \<le> Suc (next_id (pool sc))
    \<and> mset (map fst (active (pool sc'))) = mset (map fst (active (pool sc))) + (case r of Inl _ \<Rightarrow> {#} | Inr i \<Rightarrow> {#i#})
    \<and> (\<forall>i. r = Inr i \<longrightarrow> hm_get (active (pool sc')) i \<noteq> None)"
proof -
  obtain hs where hs: "cp_inv (pool sc) hs" using inv by (auto simp: refs_ok_def)
  obtain ov where ov: "sequence_state_layout_override (sched_conf sc) (ops_num_layers ops) = Some ov"
    "\<forall>pl. sl_paged_layout (effective_layout (ops_model ops) ov) = Some pl \<longrightarrow> 0 < block_size pl"
    using override_ok [OF ok] by blast
  obtain r cp where run: "allocate_with_layout (sched_env (sched_conf sc)) (ops_model ops) now (pool sc) ov = (r, cp)"
    by fastforce
  have refs: "refs_ok cp so extra" using inv allocate_inv [OF _ room ov(2) run] by (auto simp: refs_ok_def)
  have act: "next_id cp \<le> Suc (next_id (pool sc))" "case r of Inl _ \<Rightarrow> active cp = active (pool sc)
    | Inr i \<Rightarrow> i = next_id (pool sc) \<and> (\<exists>s. active cp = hm_insert i s (active (pool sc)) \<and> list_all kv_is_empty (caches s))"
    using allocate_active [OF room run] ok by (auto simp: model_ok_def)
  show ?thesis
  proof (cases r)
    case (Inl e)
    then show ?thesis using ov run refs act by (simp add: allocate_sequence_state_def)
  next
    case (Inr i)
    with act obtain s where s: "i = next_id (pool sc)" "active cp = hm_insert i s (active (pool sc))" "list_all kv_is_empty (caches s)"
      by auto
    have "sched_v_bits (sched_conf sc) \<in> {4, 8}" using ok by (simp add: model_ok_def)
    then obtain cs where cs: "apply_modes (batch_kv_quant (sched_conf sc)) (legacy_mode (sched_conf sc)) (sched_v_bits (sched_conf sc))
      (boundary_v_layers (sched_conf sc)) (caches s) = Some cs"
      using apply_modes_ok [OF s(3)] by blast
    let ?cp = "cp\<lparr>active := hm_insert i (s\<lparr>caches := cs\<rparr>) (active cp)\<rparr>"
    have get: "hm_get (active cp) i = Some s" using s(2) by (simp add: update_conv')
    have "apply_kv_cache_mode_to (sched_conf sc) cp i = Some ?cp" using cs get by (simp add: apply_kv_cache_mode_to_def)
    moreover have "refs_ok ?cp so extra" using refs recache_inv [OF _ get] by (auto simp: refs_ok_def)
    moreover have "mset (map fst (active ?cp)) = add_mset i (mset (map fst (active (pool sc))))"
      using keys_insert_present [OF get, of "s\<lparr>caches := cs\<rparr>"] keys_insert_absent [of "active (pool sc)" i s] fresh_id [OF hs] s(1,2)
      by simp
    ultimately show ?thesis using ov run act(1) Inr by (simp add: allocate_sequence_state_def update_conv')
  qed
qed

section \<open>Victims\<close>

lemma foldl_pick_in: "foldl (\<lambda>m y. if P m y then y else m) x xs \<in> insert x (set xs)"
  by (induction xs arbitrary: x) auto

lemma select_victim_None: "select_eviction_victim pol b = None \<longleftrightarrow> (\<forall>e \<in> set (sequences b). structured (snd e))"
proof -
  let ?c = "filter (\<lambda>s. \<not> structured s) (map snd (sequences b))"
  have "select_eviction_victim pol b = None \<longleftrightarrow> ?c = []"
    by (cases pol) (auto simp: select_eviction_victim_def Let_def split: list.split)
  also have "\<dots> \<longleftrightarrow> (\<forall>e \<in> set (sequences b). structured (snd e))" by (auto simp: filter_empty_conv)
  finally show ?thesis .
qed

lemma select_victim_Some:
  assumes "select_eviction_victim pol b = Some i"
  shows "\<exists>e \<in> set (sequences b). sq_id (snd e) = i \<and> \<not> structured (snd e)"
proof -
  let ?c = "filter (\<lambda>s. \<not> structured s) (map snd (sequences b))"
  obtain x xs where c: "?c = x # xs" using assms by (cases ?c) (auto simp: select_eviction_victim_def)
  have "\<exists>P. i = sq_id (foldl (\<lambda>m y. if P m y then y else m) x xs)"
    using assms c by (cases pol) (auto simp: select_eviction_victim_def Let_def)
  then obtain P where P: "i = sq_id (foldl (\<lambda>m y. if P m y then y else m) x xs)" by blast
  have "foldl (\<lambda>m y. if P m y then y else m) x xs \<in> set ?c" unfolding c using foldl_pick_in [of P x xs] by simp
  with P show ?thesis by (auto intro!: bexI [rotated])
qed

lemma victim_found:
  assumes "batch_ok b" "select_eviction_victim pol b = Some i"
  shows "\<exists>v. hm_get (sequences b) i = Some v \<and> sq_id v = i \<and> \<not> structured v \<and> seq_state v = Decoding"
proof -
  obtain e where e: "e \<in> set (sequences b)" "sq_id (snd e) = i" "\<not> structured (snd e)"
    using select_victim_Some [OF assms(2)] by blast
  then have "hm_get (sequences b) i = Some (snd e)" using assms(1) by (auto simp: batch_ok_def)
  with e assms(1) show ?thesis by (auto simp: batch_ok_def)
qed

lemma batch_remove_ok: "batch_ok b \<Longrightarrow> batch_ok (b\<lparr>sequences := hm_remove i (sequences b)\<rparr>)"
  using length_delete_le [of i "sequences b"] by (auto simp: batch_ok_def hm_set_remove)

section \<open>Preemption\<close>

lemma reset_for_prefill_fields [simp]:
  "sq_id (reset_for_prefill f v) = sq_id v" "seq_state (reset_for_prefill f v) = seq_state v"
  "req_context (reset_for_prefill f v) = req_context v"
  by (simp_all add: reset_for_prefill_def)

lemma enqueue_queued:
  "\<not> queue_is_full q \<Longrightarrow> \<exists>q'. enqueue q s = (Inr (), q') \<and> mset (queued q') = add_mset s (mset (queued q))
     \<and> queue_len q' = Suc (queue_len q) \<and> queue_max_size q' = queue_max_size q"
  by (cases "priority s") (auto simp: enqueue_def queue_is_full_def queued_def queue_len_def)

lemma held_ids_cong:
  "active_batch sc' = active_batch sc \<Longrightarrow> prefill_queue sc' = prefill_queue sc \<Longrightarrow> chunked_prefill_seq sc' = chunked_prefill_seq sc
   \<Longrightarrow> held_ids sc' = held_ids sc"
  by (simp add: held_ids_def)

text \<open>Releasing the caches of a sequence in flight.\<close>

lemma release_flight_inv:
  assumes inv: "sched_inv sc (add_mset i X) extra"
  shows "sched_inv (release_sequence_caches ops sc i) X extra"
proof -
  have wf: "hm_wf (active (pool sc))" using inv by (auto simp: sched_inv_def refs_ok_def cp_inv_def keys_ok_def)
  have "i \<in># mset (map fst (active (pool sc)))" using inv by (simp add: sched_inv_def)
  then obtain e where "hm_get (active (pool sc)) i = Some e" by (metis map_of_eq_None_iff not_None_eq set_map set_mset_mset)
  from keys_remove [OF wf this] have "mset (map fst (hm_remove i (active (pool sc)))) = mset (held_ids sc) + X"
    using inv by (simp add: sched_inv_def)
  moreover have "held_ids (release_sequence_caches ops sc i) = held_ids sc" by (intro held_ids_cong) simp_all
  ultimately show ?thesis using inv release_sequence_caches_refs [of sc "prompt_cache sc" extra] by (simp add: sched_inv_def)
qed

lemma sched_inv_log [simp]:
  "sched_inv (sc\<lparr>sent := l\<rparr>) X extra = sched_inv sc X extra" "sched_inv (sc\<lparr>preemptions := n\<rparr>) X extra = sched_inv sc X extra"
  "sched_inv (sc\<lparr>completed := n\<rparr>) X extra = sched_inv sc X extra" "sched_inv (sc\<lparr>model_state := m\<rparr>) X extra = sched_inv sc X extra"
  "sched_inv (sc\<lparr>prompt_cache_seq_ctx := c\<rparr>) X extra = sched_inv sc X extra"
  by (simp_all add: sched_inv_def held_ids_def)

text \<open>A sequence in flight under the identifier \<open>i\<close> is queued, or refused with its slot released.\<close>

lemma requeue_inv:
  assumes inv: "sched_inv sc (add_mset (sq_id v) X) extra" and v: "seq_state v = Queued"
  shows "sched_inv (requeue ops v sc) X extra \<and> active_batch (requeue ops v sc) = active_batch sc
    \<and> sched_conf (requeue ops v sc) = sched_conf sc \<and> next_id (pool (requeue ops v sc)) = next_id (pool sc)
    \<and> (if queue_is_full (prefill_queue sc)
       then prefill_queue (requeue ops v sc) = prefill_queue sc \<and> sent (requeue ops v sc) = sent sc @ [(req_context v, QueueFull)]
       else enqueue (prefill_queue sc) v = (Inr (), prefill_queue (requeue ops v sc)) \<and> sent (requeue ops v sc) = sent sc
         \<and> pool (requeue ops v sc) = pool sc)"
proof (cases "queue_is_full (prefill_queue sc)")
  case True
  have "requeue ops v sc = (release_sequence_caches ops sc (sq_id v))\<lparr>sent := sent sc @ [(req_context v, QueueFull)]\<rparr>"
    using True by (simp add: requeue_def enqueue_def queue_is_full_def)
  then show ?thesis using True release_flight_inv [OF inv] by simp
next
  case False
  with enqueue_queued [OF False, of v] obtain q' where q': "enqueue (prefill_queue sc) v = (Inr (), q')"
    "mset (queued q') = add_mset v (mset (queued (prefill_queue sc)))" "queue_len q' = Suc (queue_len (prefill_queue sc))"
    "queue_max_size q' = queue_max_size (prefill_queue sc)" by blast
  have "set (queued q') = insert v (set (queued (prefill_queue sc)))"
    using q'(2) by (metis set_mset_add_mset_insert set_mset_mset)
  then have "queue_ok q'" using inv v q' False
    by (auto simp: sched_inv_def queue_ok_def queue_is_full_def)
  moreover have "mset (map sq_id (queued q')) = add_mset (sq_id v) (mset (map sq_id (queued (prefill_queue sc))))"
    using q'(2) by (metis image_mset_add_mset mset_map)
  ultimately show ?thesis using False q' inv by (simp add: requeue_def sched_inv_def held_ids_def)
qed

text \<open>How a victim ends: back in its lane of the queue with a fresh slot, or refused with an event to its client.\<close>

definition victim_outcome ::
  "(int list \<Rightarrow> 'ds) \<Rightarrow> ('ds, 'c) sequence_info \<Rightarrow> ('a, 'd, 's, 'ds, 'c, 'k, 'm) scheduler
   \<Rightarrow> ('a, 'd, 's, 'ds, 'c, 'k, 'm) scheduler \<Rightarrow> bool" where
  "victim_outcome fresh_decoder v sc sc' \<longleftrightarrow>
     (\<exists>i. hm_get (active (pool sc')) i \<noteq> None \<and> sent sc' = sent sc
        \<and> enqueue (prefill_queue sc) ((reset_for_prefill fresh_decoder v)\<lparr>sq_id := i, seq_state := Queued\<rparr>)
            = (Inr (), prefill_queue sc'))
     \<or> (prefill_queue sc' = prefill_queue sc
        \<and> (\<exists>ev. ev \<noteq> EvictionStateError \<and> sent sc' = sent sc @ [(req_context v, ev)]))"

lemma replace_victim_inv:
  assumes inv: "sched_inv sc X extra" and v: "seq_state v = Decoding"
    and ok: "model_ok ops (sched_conf sc)" and room: "id_room (pool sc)"
  shows "\<exists>sc'. replace_victim ops (reset_for_prefill f v) es now sc = Some sc' \<and> sched_inv sc' X extra
    \<and> active_batch sc' = active_batch sc \<and> sched_conf sc' = sched_conf sc
    \<and> next_id (pool sc') \<le> Suc (next_id (pool sc)) \<and> victim_outcome f v sc sc'"
proof -
  have refs: "refs_ok (pool sc) (prompt_cache sc) extra" using inv by (simp add: sched_inv_def)
  obtain r sc2 where a: "allocate_sequence_state ops now sc = Some (r, sc2)" "refs_ok (pool sc2) (prompt_cache sc) extra"
    "sc2 = sc\<lparr>pool := pool sc2, model_state := model_state sc2\<rparr>" "next_id (pool sc2) \<le> Suc (next_id (pool sc))"
    "mset (map fst (active (pool sc2))) = mset (map fst (active (pool sc))) + (case r of Inl _ \<Rightarrow> {#} | Inr i \<Rightarrow> {#i#})"
    "\<forall>i. r = Inr i \<longrightarrow> hm_get (active (pool sc2)) i \<noteq> None"
    using allocate_sequence_state_ok [OF refs ok room] by blast
  obtain cp m where sc2: "sc2 = sc\<lparr>pool := cp, model_state := m\<rparr>" using a(3) by blast
  show ?thesis
  proof (cases r)
    case (Inl e)
    then show ?thesis using a inv
      by (simp add: replace_victim_def sched_inv_def held_ids_def victim_outcome_def sc2)
  next
    case (Inr i)
    let ?v = "(reset_for_prefill f v)\<lparr>sq_id := i, seq_state := Queued\<rparr>"
    let ?sc3 = "sc2\<lparr>model_state := install_entries ops (model_state sc2) i es\<rparr>"
    let ?sc4 = "requeue ops ?v ?sc3"
    have run: "replace_victim ops (reset_for_prefill f v) es now sc = Some (?sc4\<lparr>preemptions := (preemptions ?sc4 + 1) mod 2 ^ 64\<rparr>)"
      using a(1) Inr v by (simp add: replace_victim_def transition_to_def Let_def)
    have "sched_inv ?sc3 (add_mset (sq_id ?v) X) extra"
      using a(2,5) Inr inv by (simp add: sched_inv_def held_ids_def sc2)
    note rq = requeue_inv [OF this, of ops]
    have "victim_outcome f v sc ?sc4"
    proof (cases "queue_is_full (prefill_queue sc)")
      case True
      then show ?thesis using rq by (simp add: victim_outcome_def sc2)
    next
      case False
      then show ?thesis unfolding victim_outcome_def using rq a(6) Inr by (intro disjI1 exI [of _ i]) (simp add: sc2)
    qed
    then show ?thesis using rq run a(4) by (simp add: sc2 victim_outcome_def)
  qed
qed

end
