(* ===== verification/Scheduler_Reclaim.thy ===== *)
theory Scheduler_Reclaim
  imports Scheduler_Invariant
begin

text \<open>
  Reclaiming pool blocks: each eviction from the prompt store and each preemption keeps the scheduler's invariant, and
  both loops of \<open>reclaim_paged_blocks\<close> stop, the first because the store shrinks, the second because the batch does.
\<close>

section \<open>One preemption\<close>

lemma try_evict_inv:
  assumes inv: "sched_inv sc X extra" and ok: "model_ok ops (sched_conf sc)" and room: "id_room (pool sc)"
  shows "\<exists>r sc'. try_evict_for_preemption ops f now sc = Some (r, sc') \<and> sched_inv sc' X extra
    \<and> sched_conf sc' = sched_conf sc \<and> next_id (pool sc') \<le> Suc (next_id (pool sc))
    \<and> (case select_eviction_victim (policy (sched_conf sc)) (active_batch sc) of
         None \<Rightarrow> \<not> r \<and> sc' = sc
       | Some i \<Rightarrow> r \<and> (\<exists>v. hm_get (sequences (active_batch sc)) i = Some v \<and> sq_id v = i \<and> \<not> structured v
           \<and> active_batch sc' = (active_batch sc)\<lparr>sequences := hm_remove i (sequences (active_batch sc))\<rparr>
           \<and> victim_outcome f v sc sc'))"
proof (cases "select_eviction_victim (policy (sched_conf sc)) (active_batch sc)")
  case None
  then show ?thesis using inv by (intro exI [of _ False] exI [of _ sc]) (simp add: try_evict_for_preemption_def)
next
  case (Some i)
  let ?b = "(active_batch sc)\<lparr>sequences := hm_remove i (sequences (active_batch sc))\<rparr>"
  have b: "batch_ok (active_batch sc)" using inv by (simp add: sched_inv_def)
  obtain v where v: "hm_get (sequences (active_batch sc)) i = Some v" "sq_id v = i" "\<not> structured v" "seq_state v = Decoding"
    using victim_found [OF b Some] by blast
  obtain es m where es: "take_entries ops (model_state sc) i = (es, m)" by fastforce
  let ?sc1 = "release_sequence_caches ops (sc\<lparr>active_batch := ?b, model_state := m\<rparr>) i"
  have "mset (sequence_ids (active_batch sc)) = add_mset i (mset (sequence_ids ?b))"
    using keys_remove [OF _ v(1)] b by (simp add: sequence_ids_def batch_ok_def)
  then have "sched_inv (sc\<lparr>active_batch := ?b, model_state := m\<rparr>) (add_mset i X) extra"
    using inv batch_remove_ok [OF b] by (simp add: sched_inv_def held_ids_def)
  note inv1 = release_flight_inv [OF this, of ops]
  have "\<exists>sc'. replace_victim ops (reset_for_prefill f v) es now ?sc1 = Some sc' \<and> sched_inv sc' X extra
    \<and> active_batch sc' = active_batch ?sc1 \<and> sched_conf sc' = sched_conf ?sc1
    \<and> next_id (pool sc') \<le> Suc (next_id (pool ?sc1)) \<and> victim_outcome f v ?sc1 sc'"
    by (rule replace_victim_inv [OF inv1 v(4)]) (use ok room in simp_all)
  then obtain sc' where "replace_victim ops (reset_for_prefill f v) es now ?sc1 = Some sc'" "sched_inv sc' X extra"
    "active_batch sc' = ?b" "sched_conf sc' = sched_conf sc" "next_id (pool sc') \<le> Suc (next_id (pool sc))" "victim_outcome f v ?sc1 sc'"
    by auto
  moreover have "victim_outcome f v ?sc1 sc' = victim_outcome f v sc sc'" by (simp add: victim_outcome_def)
  ultimately show ?thesis using Some v es
    by (intro exI [of _ True] exI [of _ sc']) (simp add: try_evict_for_preemption_def batch_remove_def)
qed

section \<open>The store\<close>

lemma release_each_fields [simp]:
  "active (release_each cp ps) = active cp" "next_id (release_each cp ps) = next_id cp"
  by (induction cp ps rule: release_each.induct) (auto simp: release_detached_paged_def Let_def split: option.splits sum.splits prod.splits)

lemma release_each_inv: "cp_inv cp hs \<Longrightarrow> mset ps \<subseteq># mset hs \<Longrightarrow> \<exists>hs'. cp_inv (release_each cp ps) hs' \<and> mset hs' = mset hs - mset ps"
proof (induction ps arbitrary: cp hs)
  case (Cons p ps)
  have p: "p \<in> set hs" using Cons.prems(2) by (metis list.set_intros(1) mset_subset_eqD set_mset_mset)
  have "cp_inv (snd (release_detached_paged cp p)) (remove1 p hs)"
    using release_detached_inv [OF Cons.prems(1) p] by (metis prod.collapse)
  moreover have "mset ps \<subseteq># mset (remove1 p hs)" using Cons.prems(2) by (simp add: insert_subset_eq_iff)
  ultimately show ?case using Cons.IH by fastforce
qed auto

lemma drain_store_inv:
  assumes inv: "sched_inv sc X extra"
  shows "sched_inv (drain_store_paged_releases sc) X extra"
proof (cases "prompt_cache sc")
  case (Some st)
  then have st: "store_inv st" using inv by (simp add: sched_inv_def refs_ok_def)
  obtain ps st' where d: "drain_pending_paged_releases st = (ps, st')" by fastforce
  from drain_inv [OF st d] have st': "store_inv st'" "paged_parked st = mset ps + paged_parked st'" by simp_all
  obtain hs where hs: "cp_inv (pool sc) hs" "mset hs = paged_parked st + extra"
    using inv Some by (auto simp: sched_inv_def refs_ok_def store_parked_def)
  then have "\<exists>hs'. cp_inv (release_each (pool sc) ps) hs' \<and> mset hs' = paged_parked st' + extra"
    using release_each_inv [OF hs(1), of ps] st'(2) by (simp add: subset_mset.add_increasing2 ac_simps)
  then show ?thesis using inv Some d st'(1)
    by (auto simp: drain_store_paged_releases_def sched_inv_def refs_ok_def store_parked_def held_ids_def)
qed (use inv in \<open>simp add: drain_store_paged_releases_def\<close>)

lemma drain_store_frame [simp]:
  "active_batch (drain_store_paged_releases sc) = active_batch sc" "prefill_queue (drain_store_paged_releases sc) = prefill_queue sc"
  "sched_conf (drain_store_paged_releases sc) = sched_conf sc" "sent (drain_store_paged_releases sc) = sent sc"
  "next_id (pool (drain_store_paged_releases sc)) = next_id (pool sc)"
  "active (pool (drain_store_paged_releases sc)) = active (pool sc)"
  by (simp_all add: drain_store_paged_releases_def split: option.split prod.split)

lemma drain_store_entries:
  "prompt_cache sc = Some st \<Longrightarrow> \<exists>st'. prompt_cache (drain_store_paged_releases sc) = Some st' \<and> store_entries st' = store_entries st"
  by (auto simp: drain_store_paged_releases_def drain_pending_paged_releases_def)

lemma evict_one_inv:
  "sched_inv sc X extra \<Longrightarrow> prompt_cache sc = Some st \<Longrightarrow> sched_inv (sc\<lparr>prompt_cache := Some (snd (evict_one_lru st))\<rparr>) X extra"
  using evict_oldest_keeps [of st]
  by (auto simp: sched_inv_def refs_ok_def store_parked_def held_ids_def keeps_def evict_one_lru_def)

lemma reclaim_from_store_ok:
  assumes "sched_inv sc X extra"
  shows "\<exists>sc'. reclaim_from_store need sc = Some sc' \<and> sched_inv sc' X extra \<and> active_batch sc' = active_batch sc
    \<and> prefill_queue sc' = prefill_queue sc \<and> sched_conf sc' = sched_conf sc \<and> sent sc' = sent sc
    \<and> next_id (pool sc') = next_id (pool sc)
    \<and> (has_room need (pool sc') \<or> (\<forall>st. prompt_cache sc = Some st \<longrightarrow> (\<exists>st' st''. evict_one_lru st' = (0, st'')
         \<and> prompt_cache sc' = Some st'')))"
  using assms
proof (induction "case prompt_cache sc of None \<Rightarrow> 0 | Some st \<Rightarrow> length (store_entries st)" arbitrary: sc rule: less_induct)
  case less
  show ?case
  proof (cases "prompt_cache sc")
    case None
    then show ?thesis using less.prems by (subst reclaim_from_store.simps) simp
  next
    case (Some st)
    obtain n st1 where e: "evict_one_lru st = (n, st1)" by fastforce
    let ?sc1 = "sc\<lparr>prompt_cache := Some st1\<rparr>"
    have inv1: "sched_inv ?sc1 X extra" using evict_one_inv [OF less.prems Some] e by simp
    show ?thesis
    proof (cases "has_room need (pool sc) \<or> n = 0")
      case True
      then show ?thesis using Some e inv1 less.prems by (subst reclaim_from_store.simps) (auto simp: Let_def)
    next
      case False
      obtain st2 where st2: "prompt_cache (drain_store_paged_releases ?sc1) = Some st2" "store_entries st2 = store_entries st1"
        using drain_store_entries [of ?sc1 st1] by auto
      have "length (store_entries st1) < length (store_entries st)" using evict_oldest_length [of st] e False by (simp add: evict_one_lru_def)
      then have "(case prompt_cache (drain_store_paged_releases ?sc1) of None \<Rightarrow> 0 | Some st \<Rightarrow> length (store_entries st))
        < (case prompt_cache sc of None \<Rightarrow> 0 | Some st \<Rightarrow> length (store_entries st))" using st2 Some by simp
      from less.hyps [OF this drain_store_inv [OF inv1]] show ?thesis
        using Some e False st2(1) by (subst reclaim_from_store.simps) (simp add: Let_def)
    qed
  qed
qed

section \<open>The batch\<close>

lemma filter_structured_remove:
  assumes "hm_wf m" "hm_get m i = Some v" "\<not> structured v"
  shows "filter (structured \<circ> snd) (hm_remove i m) = filter (structured \<circ> snd) m"
proof -
  have "\<not> structured (snd e)" if "e \<in> set m" "fst e = i" for e
    using that assms by (metis map_of_eq_Some_iff option.inject prod.collapse)
  then show ?thesis by (auto simp: AList.delete_eq intro!: filter_cong)
qed

definition batch_shrinks :: "('ds, 'c) active_batch \<Rightarrow> ('ds, 'c) active_batch \<Rightarrow> bool" where
  "batch_shrinks b b' \<longleftrightarrow> set (sequences b') \<subseteq> set (sequences b)
     \<and> filter (structured \<circ> snd) (sequences b') = filter (structured \<circ> snd) (sequences b)"

lemma batch_shrinks_refl [simp]: "batch_shrinks b b"
  by (simp add: batch_shrinks_def)

lemma batch_shrinks_trans: "batch_shrinks b b' \<Longrightarrow> batch_shrinks b' b'' \<Longrightarrow> batch_shrinks b b''"
  by (auto simp: batch_shrinks_def)

lemma reclaim_from_batch_ok:
  assumes "sched_inv sc X extra" "model_ok ops (sched_conf sc)" "next_id (pool sc) + length (sequences (active_batch sc)) < u64_max"
  shows "\<exists>sc'. reclaim_from_batch ops f clock k need sc = Some sc' \<and> sched_inv sc' X extra
    \<and> batch_shrinks (active_batch sc) (active_batch sc') \<and> sched_conf sc' = sched_conf sc
    \<and> (has_room need (pool sc') \<or> (\<forall>e \<in> set (sequences (active_batch sc')). structured (snd e)))"
  using assms
proof (induction "length (sequences (active_batch sc))" arbitrary: sc k rule: less_induct)
  case less
  have room: "id_room (pool sc)" using less.prems(3) by simp
  obtain r sc1 where t: "try_evict_for_preemption ops f (clock k) sc = Some (r, sc1)" "sched_inv sc1 X extra"
    "sched_conf sc1 = sched_conf sc" "next_id (pool sc1) \<le> Suc (next_id (pool sc))"
    "case select_eviction_victim (policy (sched_conf sc)) (active_batch sc) of None \<Rightarrow> \<not> r \<and> sc1 = sc
     | Some i \<Rightarrow> r \<and> (\<exists>v. hm_get (sequences (active_batch sc)) i = Some v \<and> sq_id v = i \<and> \<not> structured v
         \<and> active_batch sc1 = (active_batch sc)\<lparr>sequences := hm_remove i (sequences (active_batch sc))\<rparr> \<and> victim_outcome f v sc sc1)"
    using try_evict_inv [OF less.prems(1,2) room, of f "clock k"] by blast
  show ?case
  proof (cases "has_room need (pool sc)")
    case True
    then show ?thesis using less.prems(1) by (subst reclaim_from_batch.simps) simp
  next
    case no_room: False
    show ?thesis
    proof (cases "select_eviction_victim (policy (sched_conf sc)) (active_batch sc)")
      case None
      then have "\<forall>e \<in> set (sequences (active_batch sc)). structured (snd e)" by (simp only: select_victim_None)
      with None show ?thesis using t no_room by (subst reclaim_from_batch.simps) simp
    next
      case (Some i)
      then obtain v where v: r "hm_get (sequences (active_batch sc)) i = Some v" "\<not> structured v"
        "active_batch sc1 = (active_batch sc)\<lparr>sequences := hm_remove i (sequences (active_batch sc))\<rparr>" using t(5) by auto
      have wf: "hm_wf (sequences (active_batch sc))" using less.prems(1) by (simp add: sched_inv_def batch_ok_def)
      have len: "length (sequences (active_batch sc)) = Suc (length (sequences (active_batch sc1)))"
        using hm_length_remove [OF wf v(2)] v(4) by simp
      have sub: "batch_shrinks (active_batch sc) (active_batch sc1)"
        using filter_structured_remove [OF wf v(2,3)] v(4) by (auto simp: batch_shrinks_def hm_set_remove)
      have "\<exists>sc'. reclaim_from_batch ops f clock (Suc k) need sc1 = Some sc' \<and> sched_inv sc' X extra
        \<and> batch_shrinks (active_batch sc1) (active_batch sc') \<and> sched_conf sc' = sched_conf sc1
        \<and> (has_room need (pool sc') \<or> (\<forall>e \<in> set (sequences (active_batch sc')). structured (snd e)))"
        using len t(2-4) less.prems(2,3) by (intro less.hyps) simp_all
      then show ?thesis using no_room t(1,3) v(1) batch_shrinks_trans [OF sub] by (subst reclaim_from_batch.simps) auto
    qed
  qed
qed

lemma reclaim_ok:
  assumes "sched_inv sc X extra" "model_ok ops (sched_conf sc)" "next_id (pool sc) + length (sequences (active_batch sc)) < u64_max"
  shows "\<exists>ok sc'. reclaim_paged_blocks ops f clock need sc = Some (ok, sc') \<and> sched_inv sc' X extra
    \<and> sched_conf sc' = sched_conf sc \<and> ok = has_room need (pool sc') \<and> batch_shrinks (active_batch sc) (active_batch sc')
    \<and> (ok \<or> (\<forall>e \<in> set (sequences (active_batch sc')). structured (snd e)))"
proof -
  obtain sc1 where sc1: "reclaim_from_store need sc = Some sc1" "sched_inv sc1 X extra" "active_batch sc1 = active_batch sc"
    "sched_conf sc1 = sched_conf sc" "next_id (pool sc1) = next_id (pool sc)" using reclaim_from_store_ok [OF assms(1)] by blast
  obtain sc2 where "reclaim_from_batch ops f clock 0 need sc1 = Some sc2" "sched_inv sc2 X extra"
    "batch_shrinks (active_batch sc1) (active_batch sc2)" "sched_conf sc2 = sched_conf sc1"
    "has_room need (pool sc2) \<or> (\<forall>e \<in> set (sequences (active_batch sc2)). structured (snd e))"
    using reclaim_from_batch_ok [OF sc1(2)] assms(2,3) sc1(3-5) by metis
  then show ?thesis using sc1 by (cases "has_room need (pool sc1)") (auto simp: reclaim_paged_blocks_def)
qed

section \<open>Cancellation\<close>

lemma cancel_each_inv:
  "sched_inv sc (mset (map sq_id ss) + X) extra \<Longrightarrow> sched_inv (cancel_each ops ss sc) X extra"
proof (induction ops ss sc rule: cancel_each.induct)
  case (2 ops s ss sc)
  let ?sc1 = "sc\<lparr>sent := sent sc @ [(req_context s, ClientDisconnected)],
    prompt_cache_seq_ctx := hm_remove (sq_id s) (prompt_cache_seq_ctx sc)\<rparr>"
  have "sched_inv ?sc1 (add_mset (sq_id s) (mset (map sq_id ss) + X)) extra" using 2(2) by simp
  note release_flight_inv [OF this, of ops]
  then show ?case using 2(1) [OF refl refl] by (simp add: Let_def)
qed simp

lemma cancel_each_conf [simp]: "sched_conf (cancel_each ops ss sc) = sched_conf sc"
  by (induction ops ss sc rule: cancel_each.induct) (simp_all add: Let_def)

lemma cancel_queued_disconnected_inv:
  assumes inv: "sched_inv sc X extra"
  shows "sched_inv (cancel_queued_disconnected ops sc) X extra \<and> sched_conf (cancel_queued_disconnected ops sc) = sched_conf sc"
proof -
  obtain out q' where d: "drain_cancelled (prefill_queue sc) = (out, q')" by fastforce
  let ?q = "prefill_queue sc"
  have split: "mset (filter cancelled xs) + mset (filter (\<lambda>s. \<not> cancelled s) xs) = mset xs" for xs :: "('d, 'e) sequence_info list"
    by (induction xs) simp_all
  have out: "mset out + mset (queued q') = mset (queued ?q)"
    using d split [of "queued ?q"] by (auto simp: drain_cancelled_eq queued_def)
  have "queue_len q' \<le> queue_len ?q" "queue_max_size q' = queue_max_size ?q"
    using d by (auto simp: drain_cancelled_eq queue_len_def add_mono)
  moreover have "set (queued q') \<subseteq> set (queued ?q)" using out by (metis mset_subset_eq_add_right set_mset_mono set_mset_mset)
  ultimately have "queue_ok q'" using inv by (auto simp: sched_inv_def queue_ok_def)
  moreover have "mset (map sq_id (queued ?q)) = mset (map sq_id out) + mset (map sq_id (queued q'))"
    using arg_cong [OF out, of "image_mset sq_id"] by simp
  ultimately have "sched_inv (sc\<lparr>prefill_queue := q'\<rparr>) (mset (map sq_id out) + X) extra"
    using inv by (simp add: sched_inv_def held_ids_def ac_simps)
  then show ?thesis using d by (simp add: cancel_queued_disconnected_def cancel_each_inv)
qed

end
