(* ===== verification/Scheduler_Properties.thy ===== *)
theory Scheduler_Properties
  imports Scheduler_Reclaim Pool_Properties
begin

text \<open>
  Properties of the scheduler: every interleaving of its operations keeps it well formed, a preemption picks the victim
  its policy asks for and loses no request, and reclaiming pool blocks returns.
\<close>

section \<open>Interleavings\<close>

text \<open>A state is the scheduler with what its caller holds: the identifiers in flight, and the detached paged sets in flight.
  The steps are the operations of the scheduler and the moves of a request between the queue, the batch, the chunked prefill
  and the caller.\<close>

type_synonym ('a, 'd, 's, 'ds, 'c, 'k, 'm) sched_config_state =
  "('a, 'd, 's, 'ds, 'c, 'k, 'm) scheduler \<times> nat multiset \<times> 'a detached_paged_cache_set multiset"

inductive sched_step ::
  "('a, 'm, 'e) model_ops \<Rightarrow> (int list \<Rightarrow> 'ds) \<Rightarrow> ('a, 'd, 's, 'ds, 'c, 'k, 'm) sched_config_state
   \<Rightarrow> ('a, 'd, 's, 'ds, 'c, 'k, 'm) sched_config_state \<Rightarrow> bool" for ops f where
  st_allocate: "id_room (pool sc) \<Longrightarrow> allocate_sequence_state ops now sc = Some (r, sc') \<Longrightarrow>
     sched_step ops f (sc, X, E) (sc', X + (case r of Inl _ \<Rightarrow> {#} | Inr i \<Rightarrow> {#i#}), E)"
| st_release: "sched_step ops f (sc, add_mset i X, E) (release_sequence_caches ops sc i, X, E)"
| st_enqueue: "seq_state v = Queued \<Longrightarrow> enqueue (prefill_queue sc) v = (Inr (), q) \<Longrightarrow>
     sched_step ops f (sc, add_mset (sq_id v) X, E) (sc\<lparr>prefill_queue := q\<rparr>, X, E)"
| st_dequeue: "dequeue (prefill_queue sc) = (Some v, q) \<Longrightarrow>
     sched_step ops f (sc, X, E) (sc\<lparr>prefill_queue := q\<rparr>, add_mset (sq_id v) X, E)"
| st_chunk: "chunked_prefill_seq sc = None \<Longrightarrow>
     sched_step ops f (sc, add_mset (sq_id v) X, E) (sc\<lparr>chunked_prefill_seq := Some v\<rparr>, X, E)"
| st_unchunk: "chunked_prefill_seq sc = Some v \<Longrightarrow>
     sched_step ops f (sc, X, E) (sc\<lparr>chunked_prefill_seq := None\<rparr>, add_mset (sq_id v) X, E)"
| st_add: "seq_state v = Decoding \<Longrightarrow> batch_add (active_batch sc) v = (Inr (), b) \<Longrightarrow>
     sched_step ops f (sc, add_mset (sq_id v) X, E) (sc\<lparr>active_batch := b\<rparr>, X, E)"
| st_remove: "batch_remove (active_batch sc) i = (Some v, b) \<Longrightarrow>
     sched_step ops f (sc, X, E) (sc\<lparr>active_batch := b\<rparr>, add_mset i X, E)"
| st_preempt: "id_room (pool sc) \<Longrightarrow> try_evict_for_preemption ops f now sc = Some (r, sc') \<Longrightarrow> sched_step ops f (sc, X, E) (sc', X, E)"
| st_reclaim: "next_id (pool sc) + length (sequences (active_batch sc)) < u64_max \<Longrightarrow>
     reclaim_paged_blocks ops f clock need sc = Some (r, sc') \<Longrightarrow> sched_step ops f (sc, X, E) (sc', X, E)"
| st_cancel: "sched_step ops f (sc, X, E) (cancel_queued_disconnected ops sc, X, E)"
| st_drain: "sched_step ops f (sc, X, E) (drain_store_paged_releases sc, X, E)"
| st_unused: "sched_step ops f (sc, X, add_mset p E) (release_unused_detached sc (Paged p), X, E)"

text \<open>A scheduler at start-up: a new pool, no request, an empty prompt store if there is one.\<close>

definition sched_start :: "sched_config \<Rightarrow> nat \<Rightarrow> nat \<Rightarrow> nat \<Rightarrow> prompt_cache_config option \<Rightarrow> 'm \<Rightarrow> ('a, 'd, 's, 'ds, 'c, 'k, 'm) scheduler" where
  "sched_start c max_seqs max_queue max_batch pc m =
     \<lparr>pool = cache_pool_new max_seqs, prefill_queue = queue_with_capacity max_queue, active_batch = batch_new max_batch,
      prompt_cache = map_option store_new pc, prompt_cache_seq_ctx = [], model_state = m, chunked_prefill_seq = None, sched_conf = c,
      preemptions = 0, completed = 0, sent = []\<rparr>"

inductive sched_reach :: "('a, 'm, 'e) model_ops \<Rightarrow> (int list \<Rightarrow> 'ds) \<Rightarrow> sched_config
   \<Rightarrow> ('a, 'd, 's, 'ds, 'c, 'k, 'm) sched_config_state \<Rightarrow> bool" for ops f c where
  reach_start: "sched_reach ops f c (sched_start c max_seqs max_queue max_batch pc m, {#}, {#})"
| reach_sched: "sched_reach ops f c s \<Longrightarrow> sched_step ops f s s' \<Longrightarrow> sched_reach ops f c s'"

lemma sched_inv_batch:
  assumes "sched_inv sc X E" "batch_ok b" "mset (sequence_ids b) + Y = mset (sequence_ids (active_batch sc)) + X"
  shows "sched_inv (sc\<lparr>active_batch := b\<rparr>) Y E"
proof -
  have "mset (held_ids (sc\<lparr>active_batch := b\<rparr>)) + Y = mset (held_ids sc) + X"
    using assms(3) by (simp add: held_ids_def union_assoc)
  then show ?thesis using assms(1,2) by (simp add: sched_inv_def)
qed

lemma dequeue_queued:
  "dequeue q = (Some v, q') \<Longrightarrow> mset (queued q) = add_mset v (mset (queued q')) \<and> queue_len q = Suc (queue_len q')
     \<and> queue_max_size q' = queue_max_size q \<and> set (queued q') \<subseteq> set (queued q)"
  by (auto simp: dequeue_def queued_def queue_len_def split: list.splits)

lemma batch_add_ok:
  assumes "batch_ok b" "seq_state v = Decoding" "batch_add b v = (Inr (), b')"
  shows "batch_ok b' \<and> mset (sequence_ids b') = add_mset (sq_id v) (mset (sequence_ids b))"
proof -
  have "hm_get (sequences b) (sq_id v) = None" "length (sequences b) < batch_max_size b"
    "b' = b\<lparr>sequences := hm_insert (sq_id v) v (sequences b)\<rparr>"
    using assms(3) by (auto simp: batch_add_def split: if_splits)
  then show ?thesis using assms(1,2) keys_insert_absent [of "sequences b" "sq_id v" v]
    by (auto simp: batch_ok_def hm_set_insert hm_remove_absent hm_length_insert_absent sequence_ids_def)
qed

lemma release_unused_inv:
  assumes "sched_inv sc X (add_mset p E)"
  shows "sched_inv (release_unused_detached sc (Paged p)) X E"
proof -
  have "refs_ok (release_each (pool sc) [p]) (prompt_cache sc) E"
  proof -
    obtain hs where hs: "cp_inv (pool sc) hs" "mset hs = add_mset p (store_parked (prompt_cache sc) + E)"
      using assms by (auto simp: sched_inv_def refs_ok_def)
    then show ?thesis using release_each_inv [OF hs(1), of "[p]"] assms by (auto simp: sched_inv_def refs_ok_def)
  qed
  then show ?thesis using assms release_each_fields(1) [of "pool sc" "[p]"]
    by (simp add: sched_inv_def release_unused_detached_def held_ids_def)
qed

lemma allocate_step_inv:
  assumes "sched_inv sc X E" "model_ok ops (sched_conf sc)" "id_room (pool sc)" "allocate_sequence_state ops now sc = Some (r, sc')"
  shows "sched_inv sc' (X + (case r of Inl _ \<Rightarrow> {#} | Inr i \<Rightarrow> {#i#})) E \<and> sched_conf sc' = sched_conf sc"
proof -
  have "refs_ok (pool sc) (prompt_cache sc) E" using assms(1) by (simp add: sched_inv_def)
  from allocate_sequence_state_ok [OF this assms(2,3), of now] assms(4)
  have a: "refs_ok (pool sc') (prompt_cache sc) E" "sc' = sc\<lparr>pool := pool sc', model_state := model_state sc'\<rparr>"
    "mset (map fst (active (pool sc'))) = mset (map fst (active (pool sc))) + (case r of Inl _ \<Rightarrow> {#} | Inr i \<Rightarrow> {#i#})" by auto
  obtain cp m where sc': "sc' = sc\<lparr>pool := cp, model_state := m\<rparr>" using a(2) by blast
  show ?thesis using a(1,3) assms(1) by (simp add: sched_inv_def held_ids_def sc' union_assoc)
qed

lemma enqueue_step_inv:
  assumes inv: "sched_inv sc (add_mset (sq_id v) X) E" and v: "seq_state v = Queued" and q: "enqueue (prefill_queue sc) v = (Inr (), q)"
  shows "sched_inv (sc\<lparr>prefill_queue := q\<rparr>) X E"
proof -
  have "requeue ops v sc = sc\<lparr>prefill_queue := q\<rparr>" for ops :: "('a, 'g, 'h) model_ops" using q by (simp add: requeue_def)
  then show ?thesis using requeue_inv [OF inv v] by metis
qed

lemma dequeue_step_inv:
  assumes inv: "sched_inv sc X E" and q: "dequeue (prefill_queue sc) = (Some v, q)"
  shows "sched_inv (sc\<lparr>prefill_queue := q\<rparr>) (add_mset (sq_id v) X) E"
proof -
  note d = dequeue_queued [OF q]
  then have "queue_ok q" using inv by (auto simp: sched_inv_def queue_ok_def)
  moreover have "mset (map sq_id (queued (prefill_queue sc))) = add_mset (sq_id v) (mset (map sq_id (queued q)))"
    using d by (metis image_mset_add_mset mset_map)
  ultimately show ?thesis using inv by (simp add: sched_inv_def held_ids_def)
qed

lemma chunk_step_inv:
  "chunked_prefill_seq sc = None \<Longrightarrow> sched_inv (sc\<lparr>chunked_prefill_seq := Some v\<rparr>) X E = sched_inv sc (add_mset (sq_id v) X) E"
  "chunked_prefill_seq sc = Some v \<Longrightarrow> sched_inv (sc\<lparr>chunked_prefill_seq := None\<rparr>) (add_mset (sq_id v) X) E = sched_inv sc X E"
  by (simp_all add: sched_inv_def held_ids_def)

lemma sched_step_inv:
  assumes "sched_step ops f (sc, X, E) (sc', X', E')" "sched_inv sc X E" "model_ok ops (sched_conf sc)"
  shows "sched_inv sc' X' E' \<and> sched_conf sc' = sched_conf sc"
  using assms(1)
proof cases
  case (st_allocate now r)
  then show ?thesis using allocate_step_inv [OF assms(2,3)] by simp
next
  case (st_release i)
  then show ?thesis using assms(2) by (simp add: release_flight_inv)
next
  case (st_enqueue v q)
  then show ?thesis using enqueue_step_inv assms(2) by fastforce
next
  case (st_dequeue v q)
  then show ?thesis using dequeue_step_inv [OF assms(2)] by simp
next
  case (st_chunk v)
  then show ?thesis using assms(2) by (simp add: chunk_step_inv)
next
  case (st_unchunk v)
  then show ?thesis using assms(2) by (simp add: chunk_step_inv)
next
  case (st_add v b)
  then show ?thesis using batch_add_ok [of "active_batch sc" v b] sched_inv_batch [OF assms(2), of b X'] assms(2)
    by (simp add: sched_inv_def)
next
  case (st_remove i v b)
  then have b: "b = (active_batch sc)\<lparr>sequences := hm_remove i (sequences (active_batch sc))\<rparr>"
    "hm_get (sequences (active_batch sc)) i = Some v" by (auto simp: batch_remove_def)
  moreover have ok: "batch_ok (active_batch sc)" using assms(2) by (simp add: sched_inv_def)
  ultimately have "mset (sequence_ids b) + X' = mset (sequence_ids (active_batch sc)) + X"
    using st_remove keys_remove [of "sequences (active_batch sc)" i v] by (simp add: sequence_ids_def batch_ok_def)
  then show ?thesis using st_remove sched_inv_batch [OF assms(2) batch_remove_ok [OF ok]] b(1) by simp
next
  case (st_preempt now r)
  then show ?thesis using try_evict_inv [OF assms(2,3), of f now] by auto
next
  case (st_reclaim clock need r)
  then show ?thesis using reclaim_ok [OF assms(2,3), of f clock need] by auto
next
  case st_cancel
  then show ?thesis using assms(2) by (simp add: cancel_queued_disconnected_inv)
next
  case st_drain
  then show ?thesis using assms(2) by (simp add: drain_store_inv)
next
  case (st_unused p)
  then show ?thesis using release_unused_inv [of sc X p E'] assms(2) by (simp add: release_unused_detached_def)
qed

lemma sched_start_inv: "sched_inv (sched_start c ms mq mb pc m) {#} {#}"
  using cp_inv_new [of ms]
  by (auto simp: store_new_inv sched_inv_def sched_start_def refs_ok_def store_parked_def batch_ok_def batch_new_def queue_ok_def queue_with_capacity_def
      queued_def queue_len_def held_ids_def sequence_ids_def cache_pool_new_def intro!: exI [of _ "[]"] split: option.split)

lemma sched_reach_inv:
  assumes "sched_reach ops f c (sc, X, E)" "model_ok ops c"
  shows "sched_inv sc X E \<and> sched_conf sc = c"
  using assms(1)
proof (induction "(sc, X, E)" arbitrary: sc X E)
  case reach_start
  then show ?case using sched_start_inv by (simp add: sched_start_def)
next
  case (reach_sched s)
  obtain sc0 X0 E0 where s: "s = (sc0, X0, E0)" by (cases s)
  show ?case using reach_sched(2) [OF s] reach_sched(3) sched_step_inv assms(2) unfolding s by metis
qed

section \<open>The victim\<close>

lemma foldl_pick_best:
  assumes "\<And>x. G x x" "\<And>x y z. G x y \<Longrightarrow> G y z \<Longrightarrow> G x z" "\<And>m y. P m y \<Longrightarrow> G m y" "\<And>m y. \<not> P m y \<Longrightarrow> G y m"
  shows "\<forall>z \<in> insert x (set xs). G z (foldl (\<lambda>m y. if P m y then y else m) x xs)"
proof (induction xs arbitrary: x)
  case (Cons y ys)
  let ?m = "if P x y then y else x"
  have "G x ?m" "G y ?m" using assms(1,3,4) by auto
  moreover have "G ?m (foldl (\<lambda>m y. if P m y then y else m) ?m ys)"
    "\<forall>z \<in> set ys. G z (foldl (\<lambda>m y. if P m y then y else m) ?m ys)" using Cons.IH [of ?m] by auto
  ultimately show ?case using assms(2) by (auto split del: if_split)
qed (simp add: assms(1))

text \<open>What a policy prefers: \<open>v\<close> goes at least as readily as \<open>u\<close>.\<close>

fun at_least_as_evictable :: "preemption_policy \<Rightarrow> ('ds, 'c) sequence_info \<Rightarrow> ('ds, 'c) sequence_info \<Rightarrow> bool" where
  "at_least_as_evictable LongestFirst v u \<longleftrightarrow> length (generated_tokens u) \<le> length (generated_tokens v)"
| "at_least_as_evictable LowestPriority v u \<longleftrightarrow> priority v < priority u
     \<or> priority v = priority u \<and> length (generated_tokens u) \<le> length (generated_tokens v)"

lemma victim_best:
  assumes "select_eviction_victim pol b = Some i"
  shows "\<exists>e \<in> set (sequences b). sq_id (snd e) = i \<and> \<not> structured (snd e)
    \<and> (\<forall>u \<in> set (sequences b). structured (snd u) \<or> at_least_as_evictable pol (snd e) (snd u))"
proof -
  let ?c = "filter (\<lambda>s. \<not> structured s) (map snd (sequences b))"
  define P where "P m y = (case pol of LongestFirst \<Rightarrow> length (generated_tokens m) \<le> length (generated_tokens y)
    | LowestPriority \<Rightarrow> priority y < priority m \<or> priority y = priority m \<and> length (generated_tokens m) < length (generated_tokens y))"
    for m y :: "('a, 'b) sequence_info"
  obtain x xs where c: "?c = x # xs" using assms by (cases ?c) (auto simp: select_eviction_victim_def)
  let ?v = "foldl (\<lambda>m y. if P m y then y else m) x xs"
  have i: "i = sq_id ?v" using assms c by (cases pol) (auto simp: select_eviction_victim_def Let_def P_def)
  have "?v \<in> set ?c" unfolding c using foldl_pick_in [of P x xs] by simp
  moreover have "\<forall>z \<in> insert x (set xs). at_least_as_evictable pol ?v z"
    by (rule foldl_pick_best [of "\<lambda>z m. at_least_as_evictable pol m z"]) (cases pol; auto simp: P_def)+
  then have "\<forall>z \<in> set ?c. at_least_as_evictable pol ?v z" by (simp add: c)
  ultimately show ?thesis using i by (auto intro!: bexI [rotated])
qed

section \<open>A demonstration scheduler\<close>

definition demo_ops :: "(arr, unit, unit) model_ops" where
  "demo_ops = \<lparr>ops_model = demo_lm, ops_num_layers = 2, ops_release_by_id = (\<lambda>m _. m), ops_release_caches = Pair,
     ops_take_entry = (\<lambda>_ m _. ((), m)), ops_install_entry = (\<lambda>_ m _ _. m), ops_prepare = (\<lambda>m _. m)\<rparr>"

definition demo_sched_config :: sched_config where
  "demo_sched_config = \<lparr>enable_preemption = True, policy = LongestFirst, storage_backend = DenseStorage, legacy_mode = Fp16,
     sched_v_bits = 8, batch_kv_quant = quant_default, boundary_v_layers = 0, sched_env = demo_env\<rparr>"

definition demo_request :: "nat \<Rightarrow> sequence_state \<Rightarrow> (unit, unit) sequence_info" where
  "demo_request i st = \<lparr>sq_id = i, seq_state = st, prompt_tokens = [1, 2], max_tokens = 8, priority = Normal, generated_tokens = [7],
     generated_text = [], decode_state = (), token_history = [], merged_eos = [], prefill_offset = 0, prefill_start_offset = 0,
     already_cached_tokens = 0, structured = False, cancelled = False, orphaned = False, req_context = ()\<rparr>"

type_synonym demo_scheduler = "(arr, byte, unit, unit, unit, unit, unit) scheduler"

text \<open>One request decoding, with both blocks of a budget of two.\<close>

definition demo_busy :: demo_scheduler where
  "demo_busy = (sched_start demo_sched_config 4 4 2 None ())
     \<lparr>pool := set_paged_block_budget (demo_state (demo_table [0] [1]) [(0, demo_rec 0 1), (1, demo_rec 1 1)]) (Some 2),
      active_batch := \<lparr>sequences = [(0, demo_request 0 Decoding)], batch_max_size = 2\<rparr>\<rparr>"

text \<open>One request allocated and queued.\<close>

definition demo_waiting :: demo_scheduler where
  "demo_waiting = (snd (the (allocate_sequence_state demo_ops 0 (sched_start demo_sched_config 4 4 2 None ()))))
     \<lparr>prefill_queue := snd (enqueue (queue_with_capacity 4) (demo_request 0 Queued))\<rparr>"

lemma demo_model_ok: "model_ok demo_ops demo_sched_config"
  by (simp add: model_ok_def demo_ops_def demo_lm_def demo_sched_config_def)

lemma demo_busy_inv: "sched_inv demo_busy {#} {#}"
proof -
  have "cp_inv (demo_state (demo_table [0] [1]) [(0, demo_rec 0 1), (1, demo_rec 1 1)]) []"
    using cp_reachable_inv [OF demo_reach(1)] by simp
  from set_budget_inv [OF this] show ?thesis
    by (auto simp: sched_inv_def demo_busy_def sched_start_def refs_ok_def store_parked_def batch_ok_def queue_ok_def queued_def
        queue_with_capacity_def queue_len_def held_ids_def sequence_ids_def demo_request_def set_paged_block_budget_def demo_state_def
        intro!: exI [of _ "[]"])
qed

lemma demo_waiting_reach: "sched_reach demo_ops (\<lambda>_. ()) demo_sched_config (demo_waiting, {#}, {#})"
proof -
  let ?s = "sched_start demo_sched_config 4 4 2 None () :: demo_scheduler"
  have a: "\<exists>sc. allocate_sequence_state demo_ops 0 ?s = Some (Inr 0, sc) \<and> prefill_queue sc = queue_with_capacity 4"
    by (simp add: allocate_sequence_state_def demo_ops_def demo_sched_config_def demo_lm_def sched_start_def with_backend_def
        sequence_state_layout_override_def allocate_with_layout_def cache_pool_new_def fetch_id_def apply_kv_cache_mode_to_def apply_modes_def)
  then obtain sc where sc: "allocate_sequence_state demo_ops 0 ?s = Some (Inr 0, sc)" "prefill_queue sc = queue_with_capacity 4" by blast
  have room: "id_room (pool ?s)" by (simp add: sched_start_def cache_pool_new_def u64_max_def)
  have r: "sched_reach demo_ops (\<lambda>_. ()) demo_sched_config (sc, {#sq_id (demo_request 0 Queued)#}, {#})"
    using reach_sched [OF reach_start st_allocate [OF room sc(1)]] by (simp add: demo_request_def)
  have "sched_step demo_ops (\<lambda>_. ()) (sc, {#sq_id (demo_request 0 Queued)#}, {#}) (demo_waiting, {#}, {#})"
    using st_enqueue [of "demo_request 0 Queued" sc "snd (enqueue (queue_with_capacity 4) (demo_request 0 Queued))" demo_ops "\<lambda>_. ()" "{#}" "{#}"] sc
    by (simp add: demo_waiting_def demo_request_def enqueue_def queue_with_capacity_def queue_len_def)
  from reach_sched [OF r this] show ?thesis .
qed

section \<open>Properties\<close>



text \<open>C27: A preemption returns; it evicts a request without a grammar constraint that the policy prefers to every other such
  request (longest first, or lowest priority and then longest), takes exactly that request out of the batch, and either queues it
  again, reset for prefill, under a live slot, or sends its client one error event. When every decoding request has a constraint
  nothing changes.\<close>

theorem preemption_exact:
  assumes "sched_inv sc X E" "model_ok ops (sched_conf sc)" "id_room (pool sc)"
  shows "\<exists>sc'. try_evict_for_preemption ops f now sc = Some (\<not> list_all (structured \<circ> snd) (sequences (active_batch sc)), sc')
    \<and> sched_inv sc' X E
    \<and> (if list_all (structured \<circ> snd) (sequences (active_batch sc)) then sc' = sc
       else (\<exists>i v. hm_get (sequences (active_batch sc)) i = Some v \<and> \<not> structured v
         \<and> list_all (\<lambda>(_, u). at_least_as_evictable (policy (sched_conf sc)) v u)
             (filter (\<lambda>e. \<not> structured (snd e)) (sequences (active_batch sc)))
         \<and> sequences (active_batch sc') = hm_remove i (sequences (active_batch sc))
         \<and> victim_outcome f v sc sc'))"
proof (cases "select_eviction_victim (policy (sched_conf sc)) (active_batch sc)")
  case None
  then have "list_all (structured \<circ> snd) (sequences (active_batch sc))" by (simp add: list_all_iff select_victim_None)
  with None show ?thesis using try_evict_inv [OF assms, of f now] by auto
next
  case (Some i)
  have ok: "batch_ok (active_batch sc)" using assms(1) by (simp add: sched_inv_def)
  obtain e where e: "e \<in> set (sequences (active_batch sc))" "sq_id (snd e) = i" "\<not> structured (snd e)"
    "\<forall>u \<in> set (sequences (active_batch sc)). structured (snd u) \<or> at_least_as_evictable (policy (sched_conf sc)) (snd e) (snd u)"
    using victim_best [OF Some] by blast
  have get: "hm_get (sequences (active_batch sc)) i = Some (snd e)" using ok e(1,2) by (auto simp: batch_ok_def)
  have "\<not> list_all (structured \<circ> snd) (sequences (active_batch sc))" using e(1,3) by (auto simp: list_all_iff)
  moreover have "list_all (\<lambda>(_, u). at_least_as_evictable (policy (sched_conf sc)) (snd e) u)
      (filter (\<lambda>e. \<not> structured (snd e)) (sequences (active_batch sc)))" using e(4) by (auto simp: list_all_iff)
  moreover obtain sc' where "try_evict_for_preemption ops f now sc = Some (True, sc')" "sched_inv sc' X E"
    "sequences (active_batch sc') = hm_remove i (sequences (active_batch sc))" "victim_outcome f (snd e) sc sc'"
    using try_evict_inv [OF assms, of f now] Some get by auto
  ultimately show ?thesis using get e(3) by (simp only: if_False not_False_eq_True) blast
qed

theorem preemption_exact_witness:
  "\<exists>sc'. try_evict_for_preemption demo_ops (\<lambda>_. ()) 0 demo_busy = Some (True, sc') \<and> sequences (active_batch sc') = []
     \<and> sched_inv sc' {#} {#} \<and> victim_outcome (\<lambda>_. ()) (demo_request 0 Decoding) demo_busy sc'"
proof -
  have "sched_conf demo_busy = demo_sched_config" "id_room (pool demo_busy)" "sequences (active_batch demo_busy) = [(0, demo_request 0 Decoding)]"
    by (simp_all add: demo_busy_def sched_start_def set_paged_block_budget_def demo_state_def u64_max_def)
  then show ?thesis using preemption_exact [OF demo_busy_inv, of demo_ops "\<lambda>_. ()" 0] demo_model_ok
    by (auto simp: demo_request_def split: if_splits)
qed



end
