(* ===== verification/Stream_Filter.thy ===== *)
theory Stream_Filter
  imports Mlxcel_Prelude "HOL-Library.Sublist"
begin

text \<open>
  The streaming content filter: \<open>src/src/server/tool_calls/stream_filter.rs\<close>. Decoded fragments are fed one by one; the
  filter strips the markers of the table \<open>CHAT_DELIMITERS\<close>, holds back a tail that may be the start of a marker, and routes the
  rest to content or reasoning.

  A \<open>String\<close> is the list of its bytes, so that positions and lengths are byte positions and lengths as in the code; the loop over
  \<open>char_indices\<close> visits the bytes that are not UTF-8 continuation bytes. The two searches are written over an arbitrary table, and
  the filter uses them on \<open>CHAT_DELIMITERS\<close>.
\<close>

section \<open>Searching\<close>

text \<open>\<open>str::find\<close>.\<close>

fun str_find :: "string \<Rightarrow> string \<Rightarrow> nat option" where
  "str_find p [] = (if p = [] then Some 0 else None)"
| "str_find p (x # xs) = (if prefix p (x # xs) then Some 0 else map_option Suc (str_find p xs))"

definition char_indices :: "string \<Rightarrow> nat list" where
  "char_indices s = filter (\<lambda>i. \<not> (128 \<le> (of_char (s ! i) :: nat) \<and> (of_char (s ! i) :: nat) < 192)) [0..<length s]"

fun find_earliest :: "(string \<times> 'x) list \<Rightarrow> string \<Rightarrow> (nat \<times> nat \<times> 'x) option \<Rightarrow> (nat \<times> nat \<times> 'x) option" where
  "find_earliest [] buf best = best"
| "find_earliest ((delim, act) # ds) buf best =
     find_earliest ds buf
       (case str_find delim buf of
          None \<Rightarrow> best
        | Some pos \<Rightarrow>
            (case best of
               Some (best_pos, best_len, _) \<Rightarrow>
                 if pos < best_pos \<or> pos = best_pos \<and> best_len < length delim then Some (pos, length delim, act) else best
             | None \<Rightarrow> Some (pos, length delim, act)))"

definition safe_length :: "(string \<times> 'x) list \<Rightarrow> nat \<Rightarrow> string \<Rightarrow> nat" where
  "safe_length ds max_len buf =
     (if buf = [] then 0
      else let check_from = length buf - (max_len - 1) in
        case List.find (\<lambda>i. check_from \<le> i \<and> list_ex (\<lambda>(d, _). length (drop i buf) < length d \<and> prefix (drop i buf) d) ds)
               (char_indices buf) of
          Some i \<Rightarrow> i
        | None \<Rightarrow> length buf)"

section \<open>The filter\<close>

datatype delimiter_action = EnterThinking | ExitThinking | EnterToolCall | ExitToolCall | Strip

definition CHAT_DELIMITERS :: "(string \<times> delimiter_action) list" where
  "CHAT_DELIMITERS =
    [(''</think>'', ExitThinking), (''<think>'', EnterThinking), (''</mm:think>'', ExitThinking), (''<mm:think>'', EnterThinking),
     ('']<]minimax[>['', Strip), (''<|tool_call>'', EnterToolCall), (''<tool_call|>'', ExitToolCall),
     (''<|channel>'', EnterThinking), (''<channel|>'', ExitThinking), (''<|think|>'', Strip), (''<|turn>'', Strip), (''<turn|>'', Strip),
     (''</tool_call>'', ExitToolCall), (''<tool_call>'', EnterToolCall), (''[TOOL_CALLS]'', EnterToolCall)]"

datatype filter_state = Content | Thinking | ToolCall

record filter_output =
  content :: "string option"
  reasoning :: "string option"
  suppressed_positions :: nat
  consumed_positions :: nat

record stream_filter =
  f_state :: filter_state
  buffer :: string
  fragment_lengths :: "nat list"
  max_delim_len :: nat

definition filter_output_default :: filter_output where
  "filter_output_default = \<lparr>content = None, reasoning = None, suppressed_positions = 0, consumed_positions = 0\<rparr>"

definition stream_filter_new :: stream_filter where
  "stream_filter_new = \<lparr>f_state = Content, buffer = [], fragment_lengths = [],
     max_delim_len = fold (\<lambda>(s, _) m. max (length s) m) CHAT_DELIMITERS 0\<rparr>"

definition new_primed_open_thinking :: stream_filter where
  "new_primed_open_thinking = stream_filter_new\<lparr>f_state := Thinking\<rparr>"

fun drain_fragment_lengths :: "nat list \<Rightarrow> nat \<Rightarrow> nat \<times> nat list" where
  "drain_fragment_lengths fs 0 = (0, fs)"
| "drain_fragment_lengths [] (Suc n) = (0, [])"
| "drain_fragment_lengths (l # fs) (Suc n) =
     (if l \<le> Suc n then (case drain_fragment_lengths fs (Suc n - l) of (c, r) \<Rightarrow> (Suc c, r)) else (1, (l - Suc n) # fs))"

definition find_earliest_delimiter :: "stream_filter \<Rightarrow> (nat \<times> nat \<times> delimiter_action) option" where
  "find_earliest_delimiter f = find_earliest CHAT_DELIMITERS (buffer f) None"

definition safe_emit_length :: "stream_filter \<Rightarrow> nat" where
  "safe_emit_length f = safe_length CHAT_DELIMITERS (max_delim_len f) (buffer f)"

fun apply_action :: "filter_state \<Rightarrow> delimiter_action \<Rightarrow> filter_state" where
  "apply_action s EnterThinking = Thinking"
| "apply_action s ExitThinking = Content"
| "apply_action s EnterToolCall = ToolCall"
| "apply_action s ExitToolCall = Content"
| "apply_action s Strip = s"

text \<open>Text attributed to the current state.\<close>

fun route :: "filter_state \<Rightarrow> string \<Rightarrow> string \<times> string" where
  "route Content t = (t, [])"
| "route Thinking t = ([], t)"
| "route ToolCall t = ([], [])"

text \<open>Taking \<open>n\<close> bytes off the buffer and off the queue of fragment lengths; the number of fragments touched is returned.\<close>

definition take_bytes :: "stream_filter \<Rightarrow> nat \<Rightarrow> nat \<times> stream_filter" where
  "take_bytes f n = (case drain_fragment_lengths (fragment_lengths f) n of
     (c, ls) \<Rightarrow> (c, f\<lparr>buffer := drop n (buffer f), fragment_lengths := ls\<rparr>))"

lemma take_bytes_buffer [simp]:
  "buffer (snd (take_bytes f n)) = drop n (buffer f)" "f_state (snd (take_bytes f n)) = f_state f"
  "max_delim_len (snd (take_bytes f n)) = max_delim_len f"
  by (simp_all add: take_bytes_def split: prod.split)

lemma str_find_Some: "str_find p s = Some i \<Longrightarrow> i + length p \<le> length s \<and> prefix p (drop i s) \<and> (\<forall>j < i. \<not> prefix p (drop j s))"
proof (induction s arbitrary: i)
  case (Cons x xs)
  show ?case
  proof (cases "prefix p (x # xs)")
    case True
    then show ?thesis using Cons.prems prefix_length_le [OF True] by simp
  next
    case False
    then obtain k where k: "str_find p xs = Some k" "i = Suc k" using Cons.prems by auto
    have "\<not> prefix p (drop j (x # xs))" if "j < i" for j
      using False Cons.IH [OF k(1)] k(2) that by (cases j) auto
    then show ?thesis using Cons.IH [OF k(1)] k(2) by simp
  qed
qed (auto split: if_splits)

lemma str_find_None: "str_find p s = None \<Longrightarrow> j \<le> length s \<Longrightarrow> \<not> prefix p (drop j s)"
proof (induction s arbitrary: j)
  case (Cons x xs)
  then show ?case by (cases j) (auto split: if_splits)
qed (auto split: if_splits)

text \<open>The chosen marker occurs, and no marker occurs earlier.\<close>

lemma find_earliest_spec:
  assumes "find_earliest ds buf best = r"
  shows "(case r of
      None \<Rightarrow> best = None \<and> (\<forall>e \<in> set ds. str_find (fst e) buf = None)
    | Some (p, l, a) \<Rightarrow>
        (Some (p, l, a) = best \<or> (\<exists>d. (d, a) \<in> set ds \<and> length d = l \<and> str_find d buf = Some p))
        \<and> (\<forall>q m b. best = Some (q, m, b) \<longrightarrow> p \<le> q) \<and> (\<forall>e \<in> set ds. \<forall>q. str_find (fst e) buf = Some q \<longrightarrow> p \<le> q))"
  using assms
proof (induction ds buf best rule: find_earliest.induct)
  case (2 delim act ds buf best)
  from 2(1) [OF 2(2) [unfolded find_earliest.simps]] show ?case
    by (fastforce split: option.splits prod.splits if_splits)
qed (auto split: option.split)

section \<open>Tables of markers\<close>

text \<open>What the filter needs of a table: markers are non-empty, start with an ASCII byte and are no longer than \<open>max_len\<close>, no two entries
  have the same marker, and no marker lies inside a longer one before its end.\<close>

locale marker_table =
  fixes ds :: "(string \<times> 'x) list" and max_len :: nat
  assumes nonempty: "(d, a) \<in> set ds \<Longrightarrow> d \<noteq> []"
    and ascii: "(d, a) \<in> set ds \<Longrightarrow> (of_char (hd d) :: nat) < 128"
    and bounded: "(d, a) \<in> set ds \<Longrightarrow> length d \<le> max_len"
    and distinct: "distinct (map fst ds)"
    and not_inside: "(d, a) \<in> set ds \<Longrightarrow> (e, b) \<in> set ds \<Longrightarrow> k + length d < length e \<Longrightarrow> \<not> prefix d (drop k e)"
begin

definition marker_at :: "string \<Rightarrow> (string \<times> 'x) option" where
  "marker_at s = List.find (\<lambda>(d, _). prefix d s) ds"

lemma marker_at_None: "marker_at s = None \<longleftrightarrow> (\<forall>(d, a) \<in> set ds. \<not> prefix d s)"
  by (auto simp: marker_at_def find_None_iff)

lemma same_marker:
  assumes "(d, a) \<in> set ds" "(e, b) \<in> set ds" "prefix d s" "prefix e s"
  shows "d = e \<and> a = b"
proof -
  have c: "prefix d e \<or> prefix e d" using assms(3,4) prefix_same_cases by blast
  have "length d = length e"
    using c not_inside [OF assms(1,2), of 0] not_inside [OF assms(2,1), of 0] prefix_length_le by (metis add_0 drop0 nat_neq_iff not_le)
  then have "d = e" using c by (auto simp: prefix_def)
  then show ?thesis using assms(1,2) distinct by (metis eq_key_imp_eq_value)
qed

lemma marker_at_Some: "(d, a) \<in> set ds \<Longrightarrow> prefix d s \<Longrightarrow> marker_at s = Some (d, a)"
proof -
  assume d: "(d, a) \<in> set ds" "prefix d s"
  then obtain e b where e: "marker_at s = Some (e, b)" using marker_at_None by (cases "marker_at s") auto
  then have "(e, b) \<in> set ds" "prefix e s" by (auto simp: marker_at_def find_Some_iff in_set_conv_nth)
  then show ?thesis using same_marker [OF d(1) _ d(2)] e by blast
qed

lemma find_earliest_Some:
  assumes "find_earliest ds buf None = Some (p, l, a)"
  shows "\<exists>d. (d, a) \<in> set ds \<and> length d = l \<and> 0 < l \<and> p + l \<le> length buf \<and> prefix d (drop p buf)"
proof -
  obtain d where d: "(d, a) \<in> set ds" "length d = l" "str_find d buf = Some p" using find_earliest_spec [OF assms] by auto
  then show ?thesis using str_find_Some [OF d(3)] nonempty [OF d(1)] by auto
qed

text \<open>Before the marker found, and before a safe length when there is none, no marker starts, whatever text follows.\<close>

lemma prefix_append_cases:
  assumes "prefix e (drop j (buf @ t))" "j \<le> length buf"
  obtains "prefix e (drop j buf)" | "prefix (drop j buf) e" "length (drop j buf) < length e"
proof -
  have pre: "prefix e (drop j buf @ t)" "prefix (drop j buf) (drop j buf @ t)" using assms by simp_all
  show thesis
  proof (cases "length e \<le> length (drop j buf)")
    case True
    then show thesis using prefix_length_prefix [OF pre] that(1) by blast
  next
    case False
    then show thesis using prefix_length_prefix [OF pre(2,1)] that(2) by simp
  qed
qed

lemma before_earliest:
  assumes f: "find_earliest ds buf None = Some (p, l, a)" and j: "j < p" and e: "(e, b) \<in> set ds"
  shows "\<not> prefix e (drop j (buf @ t))"
proof
  assume pre: "prefix e (drop j (buf @ t))"
  obtain d where d: "(d, a) \<in> set ds" "length d = l" "p + l \<le> length buf" "prefix d (drop p buf)" using find_earliest_Some [OF f] by blast
  have "j \<le> length buf" using j d(3) by simp
  with pre show False
  proof (cases rule: prefix_append_cases)
    case 1
    then obtain q where q: "str_find e buf = Some q" using str_find_None [of e buf j] \<open>j \<le> length buf\<close> by auto
    then have "p \<le> q" using find_earliest_spec [OF f] e by force
    then show False using str_find_Some [OF q] 1 j by auto
  next
    case 2
    then obtain u where u: "e = drop j buf @ u" by (auto simp: prefix_def)
    have "prefix d (drop (p - j) e)" using d(3,4) j \<open>j \<le> length buf\<close> by (simp add: u)
    moreover have "p - j + length d < length e" using d(2,3) 2(2) j by simp
    ultimately show False using not_inside [OF d(1) e] by blast
  qed
qed

lemma before_safe:
  assumes f: "find_earliest ds buf None = None" and j: "j < safe_length ds max_len buf" and e: "(e, b) \<in> set ds"
  shows "\<not> prefix e (drop j (buf @ t))"
proof
  assume pre: "prefix e (drop j (buf @ t))"
  let ?P = "\<lambda>i. length buf - (max_len - 1) \<le> i \<and> list_ex (\<lambda>(d, _). length (drop i buf) < length d \<and> prefix (drop i buf) d) ds"
  have none: "str_find e buf = None" using find_earliest_spec [OF f] e by force
  have jl: "j < length buf" using j by (auto simp: safe_length_def Let_def char_indices_def find_Some_iff nth_mem split: if_splits option.splits
        dest: nth_mem [of _ "filter _ _"])
  from pre less_imp_le [OF jl] show False
  proof (cases rule: prefix_append_cases)
    case 1
    then show False using str_find_None [OF none] jl by simp
  next
    case 2
    have "hd e = buf ! j" using 2(1) jl by (metis hd_append2 hd_drop_conv_nth drop_eq_Nil not_le prefix_def)
    then have "j \<in> set (char_indices buf)" using ascii [OF e] jl by (simp add: char_indices_def)
    moreover have "?P j" using 2 e bounded [OF e] jl by (auto simp: list_ex_iff)
    moreover have "safe_length ds max_len buf = (case List.find ?P (char_indices buf) of Some i \<Rightarrow> i | None \<Rightarrow> length buf)"
      using jl by (auto simp: safe_length_def Let_def)
    ultimately obtain i where i: "List.find ?P (char_indices buf) = Some i" "j < i"
      using j by (cases "List.find ?P (char_indices buf)") (auto simp: find_None_iff)
    obtain m where m: "m < length (char_indices buf)" "char_indices buf ! m = i" "\<forall>n < m. \<not> ?P (char_indices buf ! n)"
      using i(1) by (auto simp: find_Some_iff)
    obtain n where n: "n < length (char_indices buf)" "char_indices buf ! n = j" using \<open>j \<in> set (char_indices buf)\<close> by (auto simp: in_set_conv_nth)
    have "sorted (char_indices buf)" by (simp add: char_indices_def sorted_filter [where f = id, simplified])
    then have "n < m" using i(2) m(1,2) n by (metis not_le sorted_nth_mono)
    then show False using m(3) n(2) \<open>?P j\<close> by auto
  qed
qed

end

definition table_ok :: "(string \<times> 'x) list \<Rightarrow> nat \<Rightarrow> bool" where
  "table_ok ds n \<longleftrightarrow>
     list_all (\<lambda>(d, _). d \<noteq> [] \<and> (of_char (hd d) :: nat) < 128 \<and> length d \<le> n) ds \<and> distinct (map fst ds)
     \<and> list_all (\<lambda>(d, _). list_all (\<lambda>(e, _). list_all (\<lambda>k. \<not> prefix d (drop k e)) [0..<length e - length d]) ds) ds"

lemma table_ok_markers: "table_ok ds n \<Longrightarrow> marker_table ds n"
  by unfold_locales (fastforce simp: table_ok_def list_all_iff)+

lemma chat_table_ok: "table_ok CHAT_DELIMITERS (max_delim_len stream_filter_new)"
  by code_simp

interpretation chat: marker_table CHAT_DELIMITERS "max_delim_len stream_filter_new"
  by (rule table_ok_markers [OF chat_table_ok])

end
