(* ===== verification/Filter_Chunking.thy ===== *)
theory Filter_Chunking
  imports Stream_Filter
begin

text \<open>
  The loop of the streaming filter, \<open>feed\<close> and \<open>flush\<close> of \<open>src/src/server/tool_calls/stream_filter.rs\<close>, and their correctness: however the
  text is cut into fragments, the filter emits what one scan of the whole text emits.
\<close>

section \<open>The loop\<close>

lemma find_earliest_delimiter_Some:
  "find_earliest_delimiter f = Some (p, l, a) \<Longrightarrow> 0 < l \<and> p + l \<le> length (buffer f)"
  using chat.find_earliest_Some by (fastforce simp: find_earliest_delimiter_def)

function drain_loop ::
  "stream_filter \<Rightarrow> string \<Rightarrow> string \<Rightarrow> nat \<Rightarrow> nat \<Rightarrow> (string \<times> string \<times> nat \<times> nat) \<times> stream_filter" where
  "drain_loop f c r suppressed consumed =
     (if buffer f = [] then ((c, r, suppressed, consumed), f)
      else case find_earliest_delimiter f of
        Some (pos, delim_len, act) \<Rightarrow>
          let e = (if 0 < pos then route (f_state f) (take pos (buffer f)) else ([], []));
              t1 = (if 0 < pos then take_bytes f pos else (0, f));
              t2 = take_bytes (snd t1) delim_len
          in drain_loop ((snd t2)\<lparr>f_state := apply_action (f_state (snd t2)) act\<rparr>) (c @ fst e) (r @ snd e)
               (suppressed + fst t2) (consumed + fst t1 + fst t2)
      | None \<Rightarrow>
          let safe_len = safe_emit_length f in
          if 0 < safe_len
          then let e = route (f_state f) (take safe_len (buffer f)); t1 = take_bytes f safe_len
            in ((c @ fst e, r @ snd e, suppressed, consumed + fst t1), snd t1)
          else ((c, r, suppressed, consumed), f))"
  by pat_completeness auto
termination
  by (relation "measure (\<lambda>(f, _). length (buffer f))") (auto dest!: find_earliest_delimiter_Some)

declare drain_loop.simps [simp del]

definition drain_buffer :: "stream_filter \<Rightarrow> filter_output \<times> stream_filter" where
  "drain_buffer f =
     (case drain_loop f [] [] 0 0 of
        ((c, r, s, k), f') \<Rightarrow>
          (\<lparr>content = (if c = [] then None else Some c), reasoning = (if r = [] then None else Some r),
            suppressed_positions = s, consumed_positions = k\<rparr>, f'))"

definition feed :: "stream_filter \<Rightarrow> string \<Rightarrow> filter_output \<times> stream_filter" where
  "feed f fragment =
     (if fragment = [] then (filter_output_default\<lparr>consumed_positions := 1\<rparr>, f)
      else drain_buffer (f\<lparr>fragment_lengths := fragment_lengths f @ [length fragment], buffer := buffer f @ fragment\<rparr>))"

definition flush :: "stream_filter \<Rightarrow> filter_output \<times> stream_filter" where
  "flush f =
     (let f1 = f\<lparr>buffer := [], fragment_lengths := []\<rparr> in
      if buffer f = [] then (filter_output_default, f1)
      else case f_state f of
             Content \<Rightarrow> (filter_output_default\<lparr>content := Some (buffer f)\<rparr>, f1)
           | Thinking \<Rightarrow> (filter_output_default\<lparr>reasoning := Some (buffer f)\<rparr>, f1)
           | ToolCall \<Rightarrow> (filter_output_default, f1))"

section \<open>Reference scan\<close>

text \<open>One pass over the whole text: a marker at the current position is dropped and acted on, any other byte goes where the state
  says.\<close>

definition marker_prefix :: "string \<Rightarrow> (string \<times> delimiter_action) option" where
  "marker_prefix s = List.find (\<lambda>(d, _). prefix d s) CHAT_DELIMITERS"

lemma marker_prefix_at: "marker_prefix = chat.marker_at"
  by (simp add: fun_eq_iff marker_prefix_def chat.marker_at_def)

fun join :: "string \<times> string \<Rightarrow> string \<times> string \<Rightarrow> string \<times> string" where
  "join (a, b) (c, d) = (a @ c, b @ d)"

function scan :: "filter_state \<Rightarrow> string \<Rightarrow> string \<times> string" where
  "scan st [] = ([], [])"
| "scan st (x # xs) =
     (case marker_prefix (x # xs) of
        Some (d, a) \<Rightarrow> scan (apply_action st a) (drop (length d - 1) xs)
      | None \<Rightarrow> join (route st [x]) (scan st xs))"
  by pat_completeness auto
termination by (relation "measure (\<lambda>(_, s). length s)") auto

lemma join_assoc: "join (join p q) r = join p (join q r)"
  by (cases p; cases q; cases r) simp

lemma join_Nil [simp]: "join ([], []) p = p" "join p ([], []) = p"
  by (cases p; simp)+

lemma join_route: "join (route st a) (route st b) = route st (a @ b)"
  by (cases st) auto

lemma route_Nil [simp]: "route st [] = ([], [])"
  by (cases st) auto

lemma scan_plain:
  "(\<And>j. j < n \<Longrightarrow> marker_prefix (drop j s) = None) \<Longrightarrow> n \<le> length s \<Longrightarrow> scan st s = join (route st (take n s)) (scan st (drop n s))"
proof (induction n arbitrary: s)
  case (Suc n)
  obtain x xs where s: "s = x # xs" using Suc.prems(2) by (cases s) auto
  have "marker_prefix (drop j xs) = None" if "j < n" for j using Suc.prems(1) [of "Suc j"] that by (simp add: s)
  then have "scan st xs = join (route st (take n xs)) (scan st (drop n xs))" using Suc.IH [of xs] Suc.prems(2) by (simp add: s)
  then show ?case using Suc.prems(1) [of 0] by (simp add: s join_assoc [symmetric] join_route)
qed simp

lemma scan_marker:
  assumes "(d, a) \<in> set CHAT_DELIMITERS" "prefix d s"
  shows "scan st s = scan (apply_action st a) (drop (length d) s)"
proof -
  have "d \<noteq> []" using chat.nonempty [OF assms(1)] .
  then obtain x xs n where s: "s = x # xs" "length d = Suc n" using assms(2) by (cases s; cases d) auto
  show ?thesis using chat.marker_at_Some [OF assms] s by (simp add: marker_prefix_at)
qed

section \<open>Chunking\<close>

definition chat_sized :: "stream_filter \<Rightarrow> bool" where
  "chat_sized f \<longleftrightarrow> max_delim_len f = max_delim_len stream_filter_new"

definition no_marker :: "string \<Rightarrow> bool" where
  "no_marker s \<longleftrightarrow> (\<forall>j \<le> length s. marker_prefix (drop j s) = None)"

lemma no_marker_drop: "no_marker s \<Longrightarrow> no_marker (drop n s)"
  by (cases "n \<le> length s") (auto simp: no_marker_def dest: spec [of _ "_ + n"] spec [of _ "length s"])

lemma find_None_no_marker: "find_earliest_delimiter f = None \<Longrightarrow> no_marker (buffer f)"
  using find_earliest_spec [of CHAT_DELIMITERS "buffer f" None None] str_find_None
  by (fastforce simp: find_earliest_delimiter_def no_marker_def marker_prefix_at chat.marker_at_None)

text \<open>Emitting \<open>e\<close> takes the filter from \<open>f\<close> to \<open>f'\<close> in step with the scan.\<close>

definition emits :: "stream_filter \<Rightarrow> string \<times> string \<Rightarrow> stream_filter \<Rightarrow> bool" where
  "emits f e f' \<longleftrightarrow> (\<forall>t. scan (f_state f) (buffer f @ t) = join e (scan (f_state f') (buffer f' @ t)))"

lemma emits_trans: "emits f e f' \<Longrightarrow> emits f' e' f'' \<Longrightarrow> emits f (join e e') f''"
  by (simp add: emits_def join_assoc)

lemma emits_marker:
  assumes "find_earliest_delimiter f = Some (p, l, a)"
  shows "emits f (route (f_state f) (take p (buffer f))) (f\<lparr>buffer := drop (p + l) (buffer f), f_state := apply_action (f_state f) a\<rparr>)"
proof -
  have f: "find_earliest CHAT_DELIMITERS (buffer f) None = Some (p, l, a)" using assms by (simp add: find_earliest_delimiter_def)
  obtain d where d: "(d, a) \<in> set CHAT_DELIMITERS" "length d = l" "p + l \<le> length (buffer f)" "prefix d (drop p (buffer f))"
    using chat.find_earliest_Some [OF f] by blast
  have "scan st (buffer f @ t) = join (route st (take p (buffer f))) (scan (apply_action st a) (drop (p + l) (buffer f) @ t))" for st t
  proof -
    have "scan st (buffer f @ t) = join (route st (take p (buffer f @ t))) (scan st (drop p (buffer f @ t)))"
      using chat.before_earliest [OF f] d(3) by (intro scan_plain) (auto simp: marker_prefix_at chat.marker_at_None)
    moreover have "scan st (drop p (buffer f @ t)) = scan (apply_action st a) (drop (length d) (drop p (buffer f @ t)))"
      using d by (intro scan_marker) auto
    ultimately show ?thesis using d(2,3) by (simp add: add.commute)
  qed
  then show ?thesis by (simp add: emits_def)
qed

lemma emits_safe:
  assumes "find_earliest_delimiter f = None" "chat_sized f"
  shows "safe_emit_length f \<le> length (buffer f) \<and>
    emits f (route (f_state f) (take (safe_emit_length f) (buffer f))) (f\<lparr>buffer := drop (safe_emit_length f) (buffer f)\<rparr>)"
proof -
  have le: "safe_emit_length f \<le> length (buffer f)"
    by (auto simp: safe_emit_length_def safe_length_def Let_def char_indices_def find_Some_iff split: option.split
        dest!: nth_mem intro: less_imp_le)
  moreover have "scan st (buffer f @ t) = join (route st (take (safe_emit_length f) (buffer f))) (scan st (drop (safe_emit_length f) (buffer f) @ t))" for st t
    using scan_plain [of "safe_emit_length f" "buffer f @ t" st] chat.before_safe [of "buffer f"] assms le
    by (simp add: find_earliest_delimiter_def safe_emit_length_def chat_sized_def marker_prefix_at chat.marker_at_None) blast
  ultimately show ?thesis by (simp add: emits_def)
qed

lemma drain_lengths_sum:
  "n \<le> sum_list fs \<Longrightarrow> sum_list (snd (drain_fragment_lengths fs n)) = sum_list fs - n"
  by (induction fs n rule: drain_fragment_lengths.induct) (auto split: prod.splits)

text \<open>The invariant of the filter between calls.\<close>

definition filter_inv :: "stream_filter \<Rightarrow> bool" where
  "filter_inv f \<longleftrightarrow> chat_sized f \<and> sum_list (fragment_lengths f) = length (buffer f)"

lemma take_bytes_inv: "filter_inv f \<Longrightarrow> n \<le> length (buffer f) \<Longrightarrow> filter_inv (snd (take_bytes f n))"
  using drain_lengths_sum [of n "fragment_lengths f"]
  by (auto simp: filter_inv_def chat_sized_def take_bytes_def split: prod.splits)

lemma filter_inv_state [simp]: "filter_inv (f\<lparr>f_state := st\<rparr>) = filter_inv f"
  by (simp add: filter_inv_def chat_sized_def)

lemma emits_cong:
  "emits f e f' \<Longrightarrow> buffer g = buffer f' \<Longrightarrow> f_state g = f_state f' \<Longrightarrow> emits f e g"
  by (simp add: emits_def)

lemma drain_loop_spec:
  assumes "filter_inv f" "drain_loop f c r s k = ((c', r', s', k'), f')"
  shows "filter_inv f' \<and> no_marker (buffer f') \<and> (\<exists>e. c' = c @ fst e \<and> r' = r @ snd e \<and> emits f e f') \<and> s \<le> s' \<and> s' + k \<le> k' + s"
  using assms
proof (induction f c r s k arbitrary: c' r' s' k' f' rule: drain_loop.induct)
  case (1 f c r s k)
  show ?case
  proof (cases "buffer f = []")
    case True
    then show ?thesis using 1(2,3) find_None_no_marker [of f]
      by (auto simp: drain_loop.simps [of f] emits_def no_marker_def intro!: exI [of _ "([], [])"])
        (simp add: marker_prefix_at chat.marker_at_None, use chat.nonempty in fastforce)
  next
    case ne: False
    show ?thesis
    proof (cases "find_earliest_delimiter f")
      case None
      have sized: "chat_sized f" using 1(2) by (simp add: filter_inv_def)
      let ?n = "safe_emit_length f"
      note safe = emits_safe [OF None sized]
      have "s' = s \<and> f' = (if 0 < ?n then snd (take_bytes f ?n) else f) \<and> k \<le> k'
        \<and> c' = c @ fst (route (f_state f) (take ?n (buffer f))) \<and> r' = r @ snd (route (f_state f) (take ?n (buffer f)))"
        using 1(3) ne None by (auto simp: drain_loop.simps [of f] Let_def split: if_splits)
      moreover have "buffer f' = drop ?n (buffer f)" "f_state f' = f_state f" "filter_inv f'"
        using calculation take_bytes_inv [OF 1(2)] 1(2) safe by auto
      ultimately show ?thesis using emits_cong [OF conjunct2 [OF safe], of f'] no_marker_drop [OF find_None_no_marker [OF None], of ?n]
        by auto
    next
      case (Some x)
      obtain p l a where x: "x = (p, l, a)" by (cases x)
      let ?e = "if 0 < p then route (f_state f) (take p (buffer f)) else ([], [])"
      let ?t1 = "if 0 < p then take_bytes f p else (0, f)"
      let ?t2 = "take_bytes (snd ?t1) l"
      let ?g = "(snd ?t2)\<lparr>f_state := apply_action (f_state (snd ?t2)) a\<rparr>"
      have len: "p + l \<le> length (buffer f)" using find_earliest_delimiter_Some Some x by blast
      have inv: "filter_inv ?g"
      proof -
        have "filter_inv (snd ?t1)" "length (buffer (snd ?t1)) = length (buffer f) - p" using take_bytes_inv [OF 1(2)] 1(2) len by auto
        then show ?thesis using take_bytes_inv [of "snd ?t1" l] len by (simp del: split_paired_All)
      qed
      have run: "drain_loop ?g (c @ fst ?e) (r @ snd ?e) (s + fst ?t2) (k + fst ?t1 + fst ?t2) = ((c', r', s', k'), f')"
        using 1(3) ne Some x by (simp add: drain_loop.simps [of f] Let_def)
      note IH = 1(1) [OF ne Some x [symmetric] refl refl refl refl inv run]
      have "emits f (route (f_state f) (take p (buffer f))) ?g"
        by (rule emits_cong [OF emits_marker [OF Some [unfolded x]]]) (auto simp: add.commute)
      then have "emits f ?e ?g" by (cases "p = 0") auto
      moreover obtain e where "c' = (c @ fst ?e) @ fst e" "r' = (r @ snd ?e) @ snd e" "emits ?g e f'" using IH by blast
      ultimately have "c' = c @ fst (join ?e e) \<and> r' = r @ snd (join ?e e) \<and> emits f (join ?e e) f'"
        using emits_trans by (cases ?e; cases e) auto
      then show ?thesis using IH by fastforce
    qed
  qed
qed

section \<open>Feeding a stream\<close>

definition text_of :: "filter_output \<Rightarrow> string \<times> string" where
  "text_of out = (case content out of None \<Rightarrow> [] | Some c \<Rightarrow> c, case reasoning out of None \<Rightarrow> [] | Some r \<Rightarrow> r)"

fun feed_all :: "stream_filter \<Rightarrow> string list \<Rightarrow> filter_output list \<times> stream_filter" where
  "feed_all f [] = ([], f)"
| "feed_all f (x # xs) = (case feed f x of (out, f1) \<Rightarrow> (case feed_all f1 xs of (outs, f2) \<Rightarrow> (out # outs, f2)))"

text \<open>Everything a client is sent: the outputs of the calls of \<open>feed\<close> and of the final \<open>flush\<close>.\<close>

definition stream_outputs :: "stream_filter \<Rightarrow> string list \<Rightarrow> filter_output list" where
  "stream_outputs f xs = (case feed_all f xs of (outs, f') \<Rightarrow> outs @ [fst (flush f')])"

definition stream_text :: "filter_output list \<Rightarrow> string \<times> string" where
  "stream_text outs = foldr (\<lambda>out. join (text_of out)) outs ([], [])"

lemma feed_spec:
  assumes "filter_inv f" "no_marker (buffer f)" "feed f x = (out, f')"
  shows "filter_inv f' \<and> no_marker (buffer f') \<and> suppressed_positions out \<le> consumed_positions out
    \<and> (\<forall>t. scan (f_state f) (buffer f @ x @ t) = join (text_of out) (scan (f_state f') (buffer f' @ t)))"
proof (cases "x = []")
  case True
  then show ?thesis using assms by (auto simp: feed_def filter_output_default_def text_of_def)
next
  case False
  let ?f = "f\<lparr>fragment_lengths := fragment_lengths f @ [length x], buffer := buffer f @ x\<rparr>"
  obtain c r s k g where run: "drain_loop ?f [] [] 0 0 = ((c, r, s, k), g)" by (metis prod.exhaust)
  have "filter_inv ?f" using assms(1) by (simp add: filter_inv_def chat_sized_def)
  from drain_loop_spec [OF this run] show ?thesis
    using False run assms(3) by (auto simp: feed_def drain_buffer_def text_of_def emits_def)
qed

lemma flush_spec: "no_marker (buffer f) \<Longrightarrow> text_of (fst (flush f)) = scan (f_state f) (buffer f)"
  using scan_plain [of "length (buffer f)" "buffer f" "f_state f"]
  by (cases "f_state f") (auto simp: flush_def Let_def text_of_def filter_output_default_def no_marker_def)

lemma stream_outputs_spec:
  assumes "filter_inv f" "no_marker (buffer f)"
  shows "stream_text (stream_outputs f xs) = scan (f_state f) (buffer f @ concat xs)
    \<and> list_all (\<lambda>out. suppressed_positions out \<le> consumed_positions out) (stream_outputs f xs)
    \<and> filter_inv (snd (feed_all f xs))"
  using assms
proof (induction xs arbitrary: f)
  case Nil
  then show ?case using flush_spec [of f]
    by (auto simp: stream_outputs_def stream_text_def flush_def Let_def filter_output_default_def split: filter_state.split)
next
  case (Cons x xs)
  obtain out f1 where x: "feed f x = (out, f1)" by fastforce
  note fx = feed_spec [OF Cons.prems x]
  then have IH: "stream_text (stream_outputs f1 xs) = scan (f_state f1) (buffer f1 @ concat xs)"
    "list_all (\<lambda>out. suppressed_positions out \<le> consumed_positions out) (stream_outputs f1 xs)" "filter_inv (snd (feed_all f1 xs))"
    using Cons.IH by auto
  have "stream_outputs f (x # xs) = out # stream_outputs f1 xs" "snd (feed_all f (x # xs)) = snd (feed_all f1 xs)"
    using x by (simp_all add: stream_outputs_def split: prod.split)
  then show ?case using IH fx by (simp add: stream_text_def)
qed

text \<open>C32: However the decoded text is cut into fragments, the streaming filter sends exactly the content and the reasoning text that
  one left-to-right scan of the whole text finds: no marker leaks and no text is lost, also when a marker straddles fragments and when the
  prompt opened a thinking block. Between calls the queue of fragment lengths adds up to the buffered bytes, and no call reports more
  suppressed than consumed positions.\<close>

theorem stream_filter_refines_scan:
  "let f = (if primed then new_primed_open_thinking else stream_filter_new)
   in stream_text (stream_outputs f fragments) = scan (if primed then Thinking else Content) (concat fragments)
      \<and> sum_list (fragment_lengths (snd (feed_all f fragments))) = length (buffer (snd (feed_all f fragments)))
      \<and> list_all (\<lambda>out. suppressed_positions out \<le> consumed_positions out) (stream_outputs f fragments)"
proof -
  let ?f = "if primed then new_primed_open_thinking else stream_filter_new"
  have "no_marker []" using chat.nonempty by (fastforce simp: no_marker_def marker_prefix_at chat.marker_at_None)
  then have "filter_inv ?f" "no_marker (buffer ?f)" "buffer ?f = []" "f_state ?f = (if primed then Thinking else Content)"
    by (simp_all add: filter_inv_def chat_sized_def new_primed_open_thinking_def stream_filter_new_def)
  from stream_outputs_spec [OF this(1,2), of fragments] this(3,4) show ?thesis by (simp add: Let_def filter_inv_def)
qed

text \<open>A fragment that holds text and a marker is counted twice: once for the text and once for the marker.\<close>

lemma straddling_fragment_counts_twice:
  "consumed_positions (fst (feed stream_filter_new ''a<think>'')) = 2"
  by code_simp

end
