(* ===== verification/Mtp_Decode.thy ===== *)
theory Mtp_Decode
  imports Mlxcel_Prelude Complex_Main
begin

text \<open>
  Speculative decoding: the walk, the adaptive block size and the round loop of
  \<open>src/src/lib/mlxcel-core/src/speculative/mtp/{walk,adaptive,generator}.rs\<close>.

  The target model and the drafter are trait objects: their methods are the record \<open>mtp_ops\<close>, over states left open; the captured
  tensors, hidden states and shared slabs pass through the loop as values of an open type. The sampling and log-probability
  configurations are fixed inside those methods. The cancellation flag read at the top of round \<open>k\<close> is \<open>cancel k\<close>. Acceptance counts of a
  single row are exact as \<open>f64\<close>, and so is the comparison of a quotient of two numbers up to 32 with 0.65, so both are written over the
  rationals. The wall-clock fields of the diagnostics are left out. An index out of range is a panic, the value None.
\<close>

section \<open>The walk\<close>

record mtp_walk_result =
  accepted :: nat
  new_tokens :: "int list"

text \<open>The index of the first draft token that differs from the target.\<close>

fun first_mismatch :: "int list \<Rightarrow> int list \<Rightarrow> nat option" where
  "first_mismatch [] ts = Some 0"
| "first_mismatch (d # ds) [] = None"
| "first_mismatch (d # ds) (t # ts) = (if d \<noteq> t then Some 0 else map_option Suc (first_mismatch ds ts))"

definition speculative_walk :: "int list \<Rightarrow> int list \<Rightarrow> nat \<Rightarrow> mtp_walk_result option" where
  "speculative_walk draft target budget =
     Option.bind (first_mismatch draft target) (\<lambda>acc.
       let emit_len = min (acc + 1) budget;
           toks = take (min acc emit_len) draft
       in if length toks < emit_len
          then (if acc < length target then Some \<lparr>accepted = acc, new_tokens = toks @ [target ! acc]\<rparr> else None)
          else Some \<lparr>accepted = acc, new_tokens = toks\<rparr>)"

fun speculative_walk_batched :: "int list list \<Rightarrow> int list list \<Rightarrow> nat list \<Rightarrow> (nat list \<times> int list list) option" where
  "speculative_walk_batched [] ts bs = Some ([], [])"
| "speculative_walk_batched (d # ds) (t # ts) (b # bs) =
     Option.bind (first_mismatch d t) (\<lambda>acc.
       let emit_len = min (acc + 1) b;
           toks = take (min acc emit_len) d
       in if length toks < emit_len \<and> \<not> acc < length t then None
          else map_option (\<lambda>(accs, rows).
                 (acc # accs, (if length toks < emit_len then toks @ [t ! acc] else toks) # rows)) (speculative_walk_batched ds ts bs))"
| "speculative_walk_batched _ _ _ = None"

section \<open>The block size\<close>

definition MIN_HISTORY_FOR_EXPANSION :: nat where "MIN_HISTORY_FOR_EXPANSION = 8"
definition RECENT_HISTORY :: nat where "RECENT_HISTORY = 32"
definition CONFIGURED_PREFIX_HIT_RATE :: rat where "CONFIGURED_PREFIX_HIT_RATE = 65 / 100"

definition effective_mtp_block_size :: "nat \<Rightarrow> nat \<Rightarrow> nat list \<Rightarrow> nat \<Rightarrow> nat" where
  "effective_mtp_block_size requested configured accept_lens remaining =
     (let block_total = min requested remaining;
          conf = min configured block_total
      in if block_total \<le> conf \<or> conf \<le> 1 then block_total
      else if length accept_lens < MIN_HISTORY_FOR_EXPANSION then conf
      else let recent = drop (length accept_lens - RECENT_HISTORY) accept_lens;
               hits = length (filter (\<lambda>a. conf - 1 \<le> a) recent)
           in if of_nat hits / of_nat (length recent) < CONFIGURED_PREFIX_HIT_RATE then conf else block_total)"

section \<open>The round loop\<close>

fun merged_eos_token_ids :: "int list \<Rightarrow> int list \<Rightarrow> int list" where
  "merged_eos_token_ids eos [] = eos"
| "merged_eos_token_ids eos (i # ids) = merged_eos_token_ids (if i \<in> set eos then eos else eos @ [i]) ids"

record ('t, 'dr, 'v, 'cap, 'lp) mtp_ops =
  prefill_and_seed :: "'t \<Rightarrow> int list \<Rightarrow> (int \<times> 'v \<times> 'lp option) \<times> 't"
  verify_forward :: "'t \<Rightarrow> int list \<Rightarrow> (int list \<times> 'lp list option \<times> 'cap) \<times> 't"
  verify_finalize :: "'t \<Rightarrow> nat \<Rightarrow> nat \<Rightarrow> 'cap \<Rightarrow> 'v \<times> 't"
  target_eos :: "int list"
  draft_block :: "'dr \<Rightarrow> int \<Rightarrow> 'v \<Rightarrow> nat \<Rightarrow> int list option \<times> 'dr"
  set_shared_kv :: "'dr \<Rightarrow> 'v \<Rightarrow> 'dr"

record mtp_generator =
  gen_block_size :: nat
  configured_block_size :: nat
  prefer_requested_block_size :: bool

record round_diagnostics =
  rounds :: nat
  proposed_tokens :: nat
  accepted_draft_tokens :: nat
  emitted_from_verify_tokens :: nat
  zero_accept_rounds :: nat
  partial_accept_rounds :: nat
  full_accept_rounds :: nat

definition diagnostics_new :: round_diagnostics where
  "diagnostics_new = \<lparr>rounds = 0, proposed_tokens = 0, accepted_draft_tokens = 0, emitted_from_verify_tokens = 0,
     zero_accept_rounds = 0, partial_accept_rounds = 0, full_accept_rounds = 0\<rparr>"

definition record_round :: "round_diagnostics \<Rightarrow> nat \<Rightarrow> nat \<Rightarrow> nat \<Rightarrow> round_diagnostics" where
  "record_round g proposed acc emitted_now =
     (let g1 = g\<lparr>rounds := rounds g + 1, proposed_tokens := proposed_tokens g + proposed,
                  accepted_draft_tokens := accepted_draft_tokens g + min acc proposed,
                  emitted_from_verify_tokens := emitted_from_verify_tokens g + emitted_now\<rparr>
      in if acc = 0 then g1\<lparr>zero_accept_rounds := zero_accept_rounds g1 + 1\<rparr>
         else if proposed \<le> acc then g1\<lparr>full_accept_rounds := full_accept_rounds g1 + 1\<rparr>
         else g1\<lparr>partial_accept_rounds := partial_accept_rounds g1 + 1\<rparr>)"

record ('t, 'dr, 'v, 'lp) mtp_run =
  emitted :: "int list"
  run_logprobs :: "'lp option list"
  bonus :: int
  accept_lens :: "nat list"
  verify_out :: 'v
  target_state :: 't
  drafter_state :: 'dr
  diagnostics :: round_diagnostics

text \<open>What stays fixed during a call of \<open>generate\<close>.\<close>

record mtp_call =
  max_emit :: nat
  eos_tokens :: "int list"
  logprobs_enabled :: bool

text \<open>Emitting the tokens of a round; the flag says that the call returns. \<open>i\<close> is the index into the round's log-probabilities.\<close>

fun emit_tokens ::
  "mtp_call \<Rightarrow> 'lp list option \<Rightarrow> nat \<Rightarrow> int list \<Rightarrow> int list \<Rightarrow> 'lp option list \<Rightarrow> bool \<times> int list \<times> 'lp option list" where
  "emit_tokens c lps i [] em ls = (False, em, ls)"
| "emit_tokens c lps i (tok # toks) em ls =
     (let em1 = em @ [tok];
          ls1 = (if logprobs_enabled c
                 then ls @ [Option.bind lps (\<lambda>v. if i < length v then Some (v ! i) else None)] else ls)
      in if tok \<in> set (eos_tokens c) then (True, em1, ls1)
         else if max_emit c \<le> length em1 then (True, em1, ls1)
         else emit_tokens c lps (Suc i) toks em1 ls1)"

datatype 'r round_result = Return 'r | Again 'r

definition round_block_size :: "mtp_generator \<Rightarrow> mtp_call \<Rightarrow> nat list \<Rightarrow> nat \<Rightarrow> nat" where
  "round_block_size g c lens emitted_now =
     (let remaining = max_emit c - emitted_now + 1
      in if prefer_requested_block_size g then min (gen_block_size g) remaining
         else effective_mtp_block_size (gen_block_size g) (configured_block_size g) lens remaining)"

text \<open>One iteration of the loop.\<close>

definition mtp_round ::
  "('t, 'dr, 'v, 'cap, 'lp) mtp_ops \<Rightarrow> mtp_generator \<Rightarrow> mtp_call \<Rightarrow> bool \<Rightarrow> ('t, 'dr, 'v, 'lp) mtp_run
   \<Rightarrow> ('t, 'dr, 'v, 'lp) mtp_run round_result option" where
  "mtp_round ops g c cancelled_now r =
     (if max_emit c \<le> length (emitted r) then Some (Return r)
      else if cancelled_now then Some (Return r)
      else let bs = round_block_size g c (accept_lens r) (length (emitted r)) in
      if bs \<le> 1 then Some (Return r)
      else case draft_block ops (drafter_state r) (bonus r) (verify_out r) bs of
        (None, dr) \<Rightarrow> Some (Return (r\<lparr>drafter_state := dr\<rparr>))
      | (Some draft, dr) \<Rightarrow>
          (case verify_forward ops (target_state r) (bonus r # draft) of
             ((target, lps, cap), t1) \<Rightarrow>
               Option.bind (speculative_walk draft target (max_emit c - length (emitted r))) (\<lambda>w.
                 case verify_finalize ops t1 (accepted w) (length draft + 1) cap of
                   (v, t2) \<Rightarrow>
                     (case emit_tokens c lps 0 (new_tokens w) (emitted r) (run_logprobs r) of
                        (returned, em, ls) \<Rightarrow>
                          let r1 = r\<lparr>emitted := em, run_logprobs := ls, accept_lens := accept_lens r @ [accepted w], verify_out := v,
                                     target_state := t2, drafter_state := dr,
                                     diagnostics := record_round (diagnostics r) (length draft) (accepted w) (length (new_tokens w))\<rparr>
                          in if returned then Some (Return r1)
                             else Some (Again (r1\<lparr>bonus := last em, drafter_state := set_shared_kv ops dr v\<rparr>))))))"

lemma emit_tokens_not_returned:
  "emit_tokens c lps i toks em ls = (b, em', ls') \<Longrightarrow> \<not> b \<Longrightarrow> em' = em @ toks"
  by (induction c lps i toks em ls rule: emit_tokens.induct) (auto simp: Let_def split: if_splits)

lemma walk_emits:
  assumes "speculative_walk draft target b = Some w" "0 < b"
  shows "new_tokens w \<noteq> []"
  using assms by (cases "first_mismatch draft target") (auto simp: speculative_walk_def Let_def split: if_splits)

text \<open>Every round that goes on emits a token.\<close>

lemma mtp_round_again:
  assumes "mtp_round ops g c b r = Some (Again r')"
  shows "length (emitted r) < max_emit c \<and> length (emitted r) < length (emitted r')"
proof -
  from assms have lt: "length (emitted r) < max_emit c" by (auto simp: mtp_round_def split: if_splits)
  obtain draft dr where d: "draft_block ops (drafter_state r) (bonus r) (verify_out r) (round_block_size g c (accept_lens r) (length (emitted r))) = (Some draft, dr)"
    using assms by (auto simp: mtp_round_def Let_def split: if_splits prod.splits option.splits)
  obtain target lps cap t1 where f: "verify_forward ops (target_state r) (bonus r # draft) = ((target, lps, cap), t1)" by (metis prod.exhaust)
  obtain w where w: "speculative_walk draft target (max_emit c - length (emitted r)) = Some w"
    using assms d f by (auto simp: mtp_round_def Let_def split: if_splits option.splits elim!: bind_eq_Some_conv [THEN iffD1, elim_format])
  obtain bb em ls where e: "emit_tokens c lps 0 (new_tokens w) (emitted r) (run_logprobs r) = (bb, em, ls)" by (metis prod.exhaust)
  have "\<not> bb \<and> emitted r' = em" using assms d f w e by (auto simp: mtp_round_def Let_def split: if_splits prod.splits)
  then show ?thesis using emit_tokens_not_returned [OF e] walk_emits [OF w] lt by auto
qed

function mtp_loop ::
  "('t, 'dr, 'v, 'cap, 'lp) mtp_ops \<Rightarrow> mtp_generator \<Rightarrow> mtp_call \<Rightarrow> (nat \<Rightarrow> bool) \<Rightarrow> nat \<Rightarrow> ('t, 'dr, 'v, 'lp) mtp_run
   \<Rightarrow> ('t, 'dr, 'v, 'lp) mtp_run option" where
  "mtp_loop ops g c cancel k r =
     (case mtp_round ops g c (cancel k) r of
        None \<Rightarrow> None
      | Some (Return r') \<Rightarrow> Some r'
      | Some (Again r') \<Rightarrow> mtp_loop ops g c cancel (Suc k) r')"
  by pat_completeness auto
termination
  by (relation "measure (\<lambda>(_, _, c, _, _, r). max_emit c - length (emitted r))") (auto dest: mtp_round_again)

declare mtp_loop.simps [simp del]

definition mtp_generate ::
  "('t, 'dr, 'v, 'cap, 'lp) mtp_ops \<Rightarrow> mtp_generator \<Rightarrow> int list \<Rightarrow> nat \<Rightarrow> int list \<Rightarrow> (nat \<Rightarrow> bool) \<Rightarrow> bool \<Rightarrow> 't \<Rightarrow> 'dr
   \<Rightarrow> (int list \<times> 'lp option list) option" where
  "mtp_generate ops g prompt max_tokens stop_ids cancel lp_enabled t dr =
     (if prompt = [] then None
      else let eos = merged_eos_token_ids (target_eos ops) stop_ids in
      if max_tokens = 0 then Some ([], [])
      else case prefill_and_seed ops t prompt of
        ((first, v, lp), t1) \<Rightarrow>
          let em = [first]; ls = (if lp_enabled then [lp] else []) in
          if first \<in> set eos \<or> max_tokens = 1 then Some (em, ls)
          else map_option (\<lambda>r. (emitted r, run_logprobs r))
                 (mtp_loop ops g \<lparr>max_emit = max_tokens, eos_tokens = eos, logprobs_enabled = lp_enabled\<rparr> cancel 0
                    \<lparr>emitted = em, run_logprobs = ls, bonus = first, accept_lens = [], verify_out = v, target_state = t1,
                     drafter_state = set_shared_kv ops dr v, diagnostics = diagnostics_new\<rparr>))"

end
