(* ===== verification/Mtp_Lossless.thy ===== *)
theory Mtp_Lossless
  imports Mtp_Decode "HOL-Library.Sublist"
begin

text \<open>
  Speculative decoding is lossless: whatever the drafter proposes, the round loop of \<open>generator.rs\<close> emits the tokens of plain greedy
  decoding of the target. The contract of the target is the documented behaviour of the trait \<open>MtpTarget\<close>.
\<close>

section \<open>The contract of the target\<close>

text \<open>\<open>ctx\<close> reads the tokens in the target's cache, \<open>g\<close> is its greedy choice after a context. The prefill caches the prompt and returns the
  choice after it; a verify pass caches its input and returns one choice per position; the finalize call drops the rejected tail.\<close>

definition greedy_target :: "('t, 'dr, 'v, 'cap, 'lp) mtp_ops \<Rightarrow> ('t \<Rightarrow> int list) \<Rightarrow> (int list \<Rightarrow> int) \<Rightarrow> bool" where
  "greedy_target ops ctx g \<longleftrightarrow>
     (\<forall>t p. fst (fst (prefill_and_seed ops t p)) = g p \<and> ctx (snd (prefill_and_seed ops t p)) = p)
     \<and> (\<forall>t inp. fst (fst (verify_forward ops t inp)) = map (\<lambda>i. g (ctx t @ take (Suc i) inp)) [0..<length inp]
          \<and> ctx (snd (verify_forward ops t inp)) = ctx t @ inp)
     \<and> (\<forall>t acc bs cap. acc < bs \<longrightarrow> bs \<le> length (ctx t) \<longrightarrow>
          ctx (snd (verify_finalize ops t acc bs cap)) = take (length (ctx t) - (bs - Suc acc)) (ctx t))"

text \<open>Plain greedy decoding of at most \<open>n\<close> tokens.\<close>

fun greedy_decode :: "(int list \<Rightarrow> int) \<Rightarrow> int list \<Rightarrow> nat \<Rightarrow> int list \<Rightarrow> int list" where
  "greedy_decode g eos 0 ctx = []"
| "greedy_decode g eos (Suc n) ctx = g ctx # (if g ctx \<in> set eos then [] else greedy_decode g eos n (ctx @ [g ctx]))"

section \<open>The walk\<close>

fun rollout :: "(int list \<Rightarrow> int) \<Rightarrow> int list \<Rightarrow> nat \<Rightarrow> int list" where
  "rollout g ctx 0 = []"
| "rollout g ctx (Suc n) = g ctx # rollout g (ctx @ [g ctx]) n"

lemma length_rollout [simp]: "length (rollout g ctx n) = n"
  by (induction n arbitrary: ctx) auto

lemma take_rollout: "take m (rollout g ctx n) = rollout g ctx (min m n)"
proof (induction n arbitrary: ctx m)
  case (Suc n)
  then show ?case by (cases m) simp_all
qed simp

text \<open>The target's choices along a draft.\<close>

fun choices :: "(int list \<Rightarrow> int) \<Rightarrow> int list \<Rightarrow> int list \<Rightarrow> int list" where
  "choices g ctx [] = [g ctx]"
| "choices g ctx (d # ds) = g ctx # choices g (ctx @ [d]) ds"

lemma choices_map: "choices g ctx ds = map (\<lambda>i. g (ctx @ take i ds)) [0..<Suc (length ds)]"
proof (induction ds arbitrary: ctx)
  case (Cons d ds)
  have "[0..<Suc (length (d # ds))] = 0 # map Suc [0..<Suc (length ds)]" unfolding map_Suc_upt using upt_conv_Cons [of 0 "Suc (Suc (length ds))"] by simp
  then show ?case by (simp add: Cons del: upt_Suc)
qed simp

lemma first_mismatch_choices:
  "\<exists>acc. first_mismatch ds (choices g ctx ds) = Some acc \<and> acc \<le> length ds \<and> acc < length (choices g ctx ds)
     \<and> take acc ds @ [choices g ctx ds ! acc] = rollout g ctx (Suc acc)"
proof (induction ds arbitrary: ctx)
  case (Cons d ds)
  show ?case
  proof (cases "d = g ctx")
    case True
    obtain acc where "first_mismatch ds (choices g (ctx @ [d]) ds) = Some acc" "acc \<le> length ds" "acc < length (choices g (ctx @ [d]) ds)"
      "take acc ds @ [choices g (ctx @ [d]) ds ! acc] = rollout g (ctx @ [d]) (Suc acc)" using Cons by blast
    then show ?thesis using True by (intro exI [of _ "Suc acc"]) simp
  qed simp
qed simp

lemma walk_choices:
  assumes "0 < b"
  shows "\<exists>w. speculative_walk ds (choices g ctx ds) b = Some w \<and> accepted w \<le> length ds
    \<and> new_tokens w = rollout g ctx (min (Suc (accepted w)) b)
    \<and> rollout g ctx (Suc (accepted w)) = take (accepted w) ds @ [choices g ctx ds ! accepted w]"
proof -
  obtain acc where acc: "first_mismatch ds (choices g ctx ds) = Some acc" "acc \<le> length ds" "acc < length (choices g ctx ds)"
    "take acc ds @ [choices g ctx ds ! acc] = rollout g ctx (Suc acc)" using first_mismatch_choices by blast
  let ?n = "take (min acc (min (Suc acc) b)) ds"
  have "(if length ?n < min (Suc acc) b then ?n @ [choices g ctx ds ! acc] else ?n) = take b (take acc ds @ [choices g ctx ds ! acc])"
    using acc(2) assms by (cases "acc < b") (auto simp: min_def not_less not_le take_Cons' dest: order_antisym)
  then have "(if length ?n < min (Suc acc) b then ?n @ [choices g ctx ds ! acc] else ?n) = rollout g ctx (min (Suc acc) b)"
    unfolding acc(4) take_rollout by (simp add: min.commute)
  then show ?thesis using acc by (intro exI [of _ "\<lparr>accepted = acc, new_tokens = rollout g ctx (min (Suc acc) b)\<rparr>"])
      (auto simp: speculative_walk_def Let_def split: if_splits)
qed

lemma walk_batched_rows:
  "length ts = length ds \<Longrightarrow> length bs = length ds \<Longrightarrow> speculative_walk_batched ds ts bs =
     map_option (\<lambda>ws. (map accepted ws, map new_tokens ws)) (those (map (\<lambda>(d, t, b). speculative_walk d t b) (zip ds (zip ts bs))))"
proof (induction ds ts bs rule: speculative_walk_batched.induct)
  case (2 d ds t ts b bs)
  show ?case
  proof (cases "first_mismatch d t")
    case (Some acc)
    then show ?thesis using 2 by (auto simp: speculative_walk_def Let_def option.map_comp comp_def case_prod_unfold)
  qed (use 2 in \<open>simp add: speculative_walk_def\<close>)
qed auto

section \<open>Emission\<close>

text \<open>What is still to come after \<open>em\<close>.\<close>

abbreviation rest :: "(int list \<Rightarrow> int) \<Rightarrow> mtp_call \<Rightarrow> int list \<Rightarrow> int list \<Rightarrow> int list" where
  "rest g c p em \<equiv> greedy_decode g (eos_tokens c) (max_emit c - length em) (p @ em)"

lemma emit_tokens_greedy:
  assumes "emit_tokens c lps i toks em ls = (b, em', ls')" "toks = rollout g (p @ em) n" "length em < max_emit c"
  shows "em' @ (if b then [] else rest g c p em') = em @ rest g c p em"
    and "logprobs_enabled c \<Longrightarrow> length ls' + length em = length ls + length em'"
    and "\<not> b \<Longrightarrow> em' = em @ toks \<and> length em' < max_emit c"
proof -
  have "em' @ (if b then [] else rest g c p em') = em @ rest g c p em
    \<and> (logprobs_enabled c \<longrightarrow> length ls' + length em = length ls + length em') \<and> (\<not> b \<longrightarrow> em' = em @ toks \<and> length em' < max_emit c)"
    using assms
  proof (induction c lps i toks em ls arbitrary: n rule: emit_tokens.induct)
    case (2 c lps i tok toks em ls)
    obtain k where k: "n = Suc k" "tok = g (p @ em)" "toks = rollout g (p @ (em @ [tok])) k" using 2(3) by (cases n) auto
    obtain m where m: "max_emit c - length em = Suc m" "max_emit c - length (em @ [tok]) = m" using 2(4)
      by (metis Suc_diff_Suc diff_Suc_eq_diff_pred diff_Suc_1 length_append_singleton)
    have r: "rest g c p em = tok # (if tok \<in> set (eos_tokens c) then [] else rest g c p (em @ [tok]))" using m k(2) by simp
    show ?case
    proof (cases "tok \<in> set (eos_tokens c) \<or> max_emit c \<le> length (em @ [tok])")
      case True
      then show ?thesis using 2(2) r by (auto simp: Let_def split: if_splits)
    next
      case False
      let ?ls = "if logprobs_enabled c then ls @ [Option.bind lps (\<lambda>v. if i < length v then Some (v ! i) else None)] else ls"
      have run: "emit_tokens c lps (Suc i) toks (em @ [tok]) ?ls = (b, em', ls')" using 2(2) False by (simp add: Let_def)
      from False have lt: "length (em @ [tok]) < max_emit c" by simp
      have "tok \<notin> set (eos_tokens c)" "\<not> max_emit c \<le> length (em @ [tok])" using False by auto
      from 2(1) [OF refl refl this run k(3) lt] show ?thesis using r False by auto
    qed
  qed auto
  then show "em' @ (if b then [] else rest g c p em') = em @ rest g c p em"
    "logprobs_enabled c \<Longrightarrow> length ls' + length em = length ls + length em'" "\<not> b \<Longrightarrow> em' = em @ toks \<and> length em' < max_emit c" by auto
qed

section \<open>Rounds\<close>

lemma round_block_size_ge2:
  assumes "2 \<le> gen_block_size gen" "2 \<le> configured_block_size gen" "n < max_emit c"
  shows "2 \<le> round_block_size gen c lens n"
  using assms by (auto simp: round_block_size_def effective_mtp_block_size_def Let_def min_def)

text \<open>The cache holds the prompt and all emitted tokens but the last, and the log-probabilities are aligned with the tokens.\<close>

definition run_ok :: "('t \<Rightarrow> int list) \<Rightarrow> mtp_call \<Rightarrow> int list \<Rightarrow> ('t, 'dr, 'v, 'lp) mtp_run \<Rightarrow> bool" where
  "run_ok ctx c p r \<longleftrightarrow> ctx (target_state r) @ [bonus r] = p @ emitted r \<and> length (emitted r) < max_emit c
     \<and> (logprobs_enabled c \<longrightarrow> length (run_logprobs r) = length (emitted r))"

text \<open>Nothing stops the loop early: no cancellation, a drafter that answers, and block sizes of two or more, as \<open>new\<close> asserts.\<close>

definition undisturbed :: "('t, 'dr, 'v, 'cap, 'lp) mtp_ops \<Rightarrow> mtp_generator \<Rightarrow> bool" where
  "undisturbed ops gen \<longleftrightarrow> (\<forall>dr b v n. fst (draft_block ops dr b v n) \<noteq> None) \<and> 2 \<le> gen_block_size gen \<and> 2 \<le> configured_block_size gen"

lemma mtp_round_greedy:
  assumes tgt: "greedy_target ops ctx g" and r: "run_ok ctx c p r"
  shows "\<exists>res. mtp_round ops gen c now r = Some res \<and>
    (case res of
       Again r' \<Rightarrow> run_ok ctx c p r' \<and> emitted r' @ rest g c p (emitted r') = emitted r @ rest g c p (emitted r)
     | Return r' \<Rightarrow> prefix (emitted r') (emitted r @ rest g c p (emitted r))
         \<and> (logprobs_enabled c \<longrightarrow> length (run_logprobs r') = length (emitted r'))
         \<and> (\<not> now \<longrightarrow> undisturbed ops gen \<longrightarrow> emitted r' = emitted r @ rest g c p (emitted r)))"
proof -
  let ?bs = "round_block_size gen c (accept_lens r) (length (emitted r))"
  have lt: "length (emitted r) < max_emit c" and cb: "ctx (target_state r) @ [bonus r] = p @ emitted r" using r by (simp_all add: run_ok_def)
  show ?thesis
  proof (cases "now \<or> ?bs \<le> 1 \<or> fst (draft_block ops (drafter_state r) (bonus r) (verify_out r) ?bs) = None")
    case True
    have "\<not> (\<not> now \<and> undisturbed ops gen)" using True round_block_size_ge2 [of gen _ c "accept_lens r", OF _ _ lt] by (auto simp: undisturbed_def)
    then show ?thesis using True lt r by (auto simp: mtp_round_def run_ok_def Let_def split: prod.split option.split)
  next
    case False
    obtain draft dr where d: "draft_block ops (drafter_state r) (bonus r) (verify_out r) ?bs = (Some draft, dr)"
      using False by (metis not_None_eq prod.collapse)
    obtain ts lps cap t1 where f: "verify_forward ops (target_state r) (bonus r # draft) = ((ts, lps, cap), t1)" by (metis prod.exhaust)
    have ts: "ts = choices g (p @ emitted r) draft" and t1: "ctx t1 = (p @ emitted r) @ draft"
      using tgt [unfolded greedy_target_def, THEN conjunct2, THEN conjunct1, rule_format, of "target_state r" "bonus r # draft"] f cb [symmetric]
      by (simp_all add: choices_map del: upt_Suc)
    obtain w where w: "speculative_walk draft ts (max_emit c - length (emitted r)) = Some w" "accepted w \<le> length draft"
      "new_tokens w = rollout g (p @ emitted r) (min (Suc (accepted w)) (max_emit c - length (emitted r)))"
      "rollout g (p @ emitted r) (Suc (accepted w)) = take (accepted w) draft @ [ts ! accepted w]"
      using walk_choices [of "max_emit c - length (emitted r)" draft g "p @ emitted r"] lt unfolding ts by auto
    obtain v t2 where fin: "verify_finalize ops t1 (accepted w) (Suc (length draft)) cap = (v, t2)" by fastforce
    have "Suc (length draft) \<le> length (ctx t1)" using t1 arg_cong [OF cb, of length] by simp
    then have t2: "ctx t2 = (p @ emitted r) @ take (accepted w) draft"
      using tgt [unfolded greedy_target_def, THEN conjunct2, THEN conjunct2, rule_format, of "accepted w" "Suc (length draft)" t1 cap] fin w(2) t1
      by simp
    obtain b em ls where e: "emit_tokens c lps 0 (new_tokens w) (emitted r) (run_logprobs r) = (b, em, ls)" by (metis prod.exhaust)
    note em = emit_tokens_greedy [OF e w(3) lt]
    have run: "\<exists>r1. emitted r1 = em \<and> run_logprobs r1 = ls \<and> target_state r1 = t2 \<and> (\<not> b \<longrightarrow> bonus r1 = last em) \<and>
      mtp_round ops gen c now r = Some (if b then Return r1 else Again r1)"
      using False lt d f w(1) fin e by (auto simp: mtp_round_def Let_def)
    have "min (Suc (accepted w)) (max_emit c - length (emitted r)) = Suc (accepted w)" if "\<not> b"
      using em(3) [OF that] arg_cong [OF w(3), of length] by (auto simp: min_def split: if_splits)
    then have "\<not> b \<Longrightarrow> ctx t2 @ [last em] = p @ em" using em(3) t2 w(3,4) by simp
    then show ?thesis using run em r by (cases b) (auto simp: run_ok_def prefix_def)
  qed
qed

lemma mtp_loop_greedy:
  assumes tgt: "greedy_target ops ctx g" and r: "run_ok ctx c p r"
  shows "\<exists>r'. mtp_loop ops gen c cancel k r = Some r' \<and> prefix (emitted r') (emitted r @ rest g c p (emitted r))
    \<and> (logprobs_enabled c \<longrightarrow> length (run_logprobs r') = length (emitted r'))
    \<and> ((\<forall>k. \<not> cancel k) \<longrightarrow> undisturbed ops gen \<longrightarrow> emitted r' = emitted r @ rest g c p (emitted r))"
  using tgt r
proof (induction ops gen c cancel k r rule: mtp_loop.induct)
  case (1 ops gen c cancel k r)
  obtain res where res: "mtp_round ops gen c (cancel k) r = Some res" "case res of
       Again r' \<Rightarrow> run_ok ctx c p r' \<and> emitted r' @ rest g c p (emitted r') = emitted r @ rest g c p (emitted r)
     | Return r' \<Rightarrow> prefix (emitted r') (emitted r @ rest g c p (emitted r))
         \<and> (logprobs_enabled c \<longrightarrow> length (run_logprobs r') = length (emitted r'))
         \<and> (\<not> cancel k \<longrightarrow> undisturbed ops gen \<longrightarrow> emitted r' = emitted r @ rest g c p (emitted r))"
    using mtp_round_greedy [OF 1(2,3)] by blast
  show ?case
  proof (cases res)
    case (Return r')
    then show ?thesis using res by (auto simp: mtp_loop.simps [of ops gen c cancel k r])
  next
    case (Again r')
    then show ?thesis using res 1(1) [OF res(1) Again 1(2)] by (auto simp: mtp_loop.simps [of ops gen c cancel k r])
  qed
qed

section \<open>Properties\<close>

text \<open>C33: For every target that meets the contract of \<open>MtpTarget\<close> and every drafter, \<open>generate\<close> returns, and what it emits is a prefix of
  what plain greedy decoding of the target emits, with one log-probability entry per token when they are enabled. When the call is not
  cancelled and the drafter never fails, it is exactly the greedy decoding: the same tokens, cut at the same stop token or budget.\<close>

theorem mtp_lossless:
  assumes "greedy_target ops ctx g" "prompt \<noteq> []"
  shows "\<exists>em ls. mtp_generate ops gen prompt n stop_ids cancel lp t dr = Some (em, ls)
    \<and> prefix em (greedy_decode g (merged_eos_token_ids (target_eos ops) stop_ids) n prompt)
    \<and> (lp \<longrightarrow> length ls = length em)
    \<and> ((\<forall>k. \<not> cancel k) \<and> undisturbed ops gen
       \<longrightarrow> em = greedy_decode g (merged_eos_token_ids (target_eos ops) stop_ids) n prompt)"
proof (cases n)
  case 0
  then show ?thesis using assms(2) by (simp add: mtp_generate_def)
next
  case (Suc m)
  let ?eos = "merged_eos_token_ids (target_eos ops) stop_ids"
  obtain v l t1 where s: "prefill_and_seed ops t prompt = ((g prompt, v, l), t1)" "ctx t1 = prompt"
    using assms(1) unfolding greedy_target_def by (metis prod.collapse)
  show ?thesis
  proof (cases "g prompt \<in> set ?eos \<or> n = 1")
    case True
    then show ?thesis using assms(2) Suc s by (auto simp: mtp_generate_def Let_def)
  next
    case False
    let ?c = "\<lparr>max_emit = n, eos_tokens = ?eos, logprobs_enabled = lp\<rparr>"
    let ?r = "\<lparr>emitted = [g prompt], run_logprobs = (if lp then [l] else []), bonus = g prompt, accept_lens = [], verify_out = v,
      target_state = t1, drafter_state = set_shared_kv ops dr v, diagnostics = diagnostics_new\<rparr>"
    have "run_ok ctx ?c prompt ?r" using s(2) False Suc by (simp add: run_ok_def)
    from mtp_loop_greedy [OF assms(1) this, of gen cancel 0] obtain r' where r': "mtp_loop ops gen ?c cancel 0 ?r = Some r'"
      "prefix (emitted r') ([g prompt] @ rest g ?c prompt [g prompt])" "lp \<longrightarrow> length (run_logprobs r') = length (emitted r')"
      "(\<forall>k. \<not> cancel k) \<longrightarrow> undisturbed ops gen \<longrightarrow> emitted r' = [g prompt] @ rest g ?c prompt [g prompt]" by auto
    have "[g prompt] @ rest g ?c prompt [g prompt] = greedy_decode g ?eos n prompt" using False Suc by simp
    then show ?thesis using r' assms(2) Suc False s(1) by (auto simp: mtp_generate_def Let_def)
  qed
qed

definition demo_choice :: "int list \<Rightarrow> int" where
  "demo_choice ctx = int (length ctx) mod 5"

definition demo_mtp :: "(int list, nat, unit, unit, unit) mtp_ops" where
  "demo_mtp = \<lparr>prefill_and_seed = (\<lambda>t p. ((demo_choice p, (), None), p)),
     verify_forward = (\<lambda>t inp. ((map (\<lambda>i. demo_choice (t @ take (Suc i) inp)) [0..<length inp], None, ()), t @ inp)),
     verify_finalize = (\<lambda>t acc bs cap. ((), take (length t - (bs - Suc acc)) t)), target_eos = [0],
     draft_block = (\<lambda>dr b v n. (Some (replicate (n - 1) 3), dr)), set_shared_kv = (\<lambda>dr v. dr)\<rparr>"

theorem mtp_lossless_witness:
  "greedy_target demo_mtp (\<lambda>t. t) demo_choice \<and>
   (\<exists>ls. mtp_generate demo_mtp \<lparr>gen_block_size = 4, configured_block_size = 4, prefer_requested_block_size = True\<rparr> [7, 8] 6 [] (\<lambda>_. False)
      False [] 0 = Some ([2, 3, 4, 0], ls))"
proof -
  have t: "greedy_target demo_mtp (\<lambda>t. t) demo_choice" by (simp add: greedy_target_def demo_mtp_def)
  have "greedy_decode demo_choice [0] 6 [7, 8] = [2, 3, 4, 0]" by (simp add: numeral_eq_Suc demo_choice_def)
  then show ?thesis
    using mtp_lossless [OF t, of "[7, 8]" "\<lparr>gen_block_size = 4, configured_block_size = 4, prefer_requested_block_size = True\<rparr>" 6 "[]" "\<lambda>_. False" False "[]" 0] t
    by (auto simp: undisturbed_def demo_mtp_def)
qed

end
