(* ===== verification/Pipeline_Partition.thy ===== *)
theory Pipeline_Partition
  imports Batch_Quant
begin

text \<open>
  Splitting the layers of a model over pipeline stages:
  \<open>src/src/distributed/pipeline/{partition,partition_balance,partition_assembly,partition_quality}.rs\<close>.

  A half-open range is the pair of its ends, sizes are natural numbers with the saturating operations of \<open>u64\<close> written out. The sorted
  boundary set is a list without repetitions, and its binary search is membership. A warning is the record of what its message reports.
  An index out of bounds, where the source panics, is the error \<open>IndexPanic\<close>. The specification string of a manual partition is
  ASCII text. Rendering the quality report for the log is not modelled.
\<close>

section \<open>Profiles and plans\<close>

type_synonym range = "nat \<times> nat"

record adjacency_group =
  group_layers :: range
  reason :: string

record model_profile =
  profile_layers :: nat
  layer_param_bytes :: nat
  embedding_param_bytes :: nat
  lm_head_param_bytes :: nat
  layer_bytes :: "nat list option"
  adjacency :: "adjacency_group list"

record device_spec =
  device_id :: string
  available_memory_bytes :: nat
  compute_units :: nat

record stage_assignment =
  stage_index :: nat
  stage_device :: string
  layer_range :: range
  has_embedding :: bool
  has_lm_head :: bool
  estimated_memory_bytes :: nat

definition u64_add :: "nat \<Rightarrow> nat \<Rightarrow> nat" where
  "u64_add a b = min (a + b) u64_max"

definition u64_sum :: "nat list \<Rightarrow> nat" where
  "u64_sum bs = foldl u64_add 0 bs"

definition layer_bytes_at :: "model_profile \<Rightarrow> nat \<Rightarrow> nat" where
  "layer_bytes_at m i =
     (case layer_bytes m of Some v \<Rightarrow> (if i < length v then v ! i else layer_param_bytes m) | None \<Rightarrow> layer_param_bytes m)"

definition effective_layer_bytes :: "model_profile \<Rightarrow> nat list" where
  "effective_layer_bytes m = map (layer_bytes_at m) [0..<profile_layers m]"

definition forbidden_boundaries :: "model_profile \<Rightarrow> nat list" where
  "forbidden_boundaries m =
     filter (\<lambda>b. list_ex (\<lambda>g. fst (group_layers g) < snd (group_layers g) \<and> Suc (fst (group_layers g)) \<le> b \<and> b < snd (group_layers g))
       (adjacency m)) [1..<profile_layers m]"

datatype partition_error =
    NoStages | NotTiling nat | EmptyStage nat | NotCovered nat | StageIndex nat | EmbeddingPlacement nat | LmHeadPlacement nat
  | CountMismatch nat nat | DeviceTooSmall nat | AdjacencySplit adjacency_group | NoDevices | NoLayersInModel | MoreDevicesThanLayers
  | EmbeddingTooBig | LmHeadTooBig | CombinedTooSmall | BalanceInfeasible nat | BalancerEmptyRange nat | StageOverflow nat | IndexPanic

definition uniform_profile :: "nat \<Rightarrow> nat \<Rightarrow> nat \<Rightarrow> nat \<Rightarrow> model_profile" where
  "uniform_profile n l e h = \<lparr>profile_layers = n, layer_param_bytes = l, embedding_param_bytes = e, lm_head_param_bytes = h,
     layer_bytes = None, adjacency = []\<rparr>"

definition total_param_bytes :: "model_profile \<Rightarrow> nat" where
  "total_param_bytes m = u64_add (u64_add (embedding_param_bytes m) (u64_sum (effective_layer_bytes m))) (lm_head_param_bytes m)"

section \<open>The manual specification\<close>

text \<open>\<open>str::parse::<usize>\<close>: an optional plus sign, at least one digit, in range.\<close>

definition parse_usize :: "string \<Rightarrow> nat option" where
  "parse_usize s =
     Option.bind (digits_value (case s of c # rest \<Rightarrow> if c = CHR ''+'' then rest else s | [] \<Rightarrow> []))
       (\<lambda>v. if v < 2 ^ 64 then Some (nat v) else None)"

fun split_on :: "'x \<Rightarrow> 'x list \<Rightarrow> 'x list list" where
  "split_on c [] = [[]]"
| "split_on c (x # xs) = (if x = c then [] # split_on c xs else (x # hd (split_on c xs)) # tl (split_on c xs))"

datatype spec_error = EmptySpec | NoDash nat | BadStart string | BadEnd string | StartAfterEnd nat nat | LayerOutOfRange nat

definition parse_part :: "nat \<Rightarrow> nat \<Rightarrow> string \<Rightarrow> spec_error + range" where
  "parse_part n i raw =
     (let part = trim_str raw in
      if CHR ''-'' \<notin> set part then Inl (NoDash i)
      else let start_str = takeWhile (\<lambda>c. c \<noteq> CHR ''-'') part; end_str = tl (dropWhile (\<lambda>c. c \<noteq> CHR ''-'') part) in
      case parse_usize (trim_str start_str) of
        None \<Rightarrow> Inl (BadStart part)
      | Some start \<Rightarrow>
          (case parse_usize (trim_str end_str) of
             None \<Rightarrow> Inl (BadEnd part)
           | Some end_inclusive \<Rightarrow>
               if \<not> start \<le> end_inclusive then Inl (StartAfterEnd start end_inclusive)
               else if \<not> end_inclusive < n then Inl (LayerOutOfRange end_inclusive)
               else Inr (start, end_inclusive + 1)))"

fun parse_parts :: "nat \<Rightarrow> nat \<Rightarrow> string list \<Rightarrow> spec_error + range list" where
  "parse_parts n i [] = Inr []"
| "parse_parts n i (part # parts) =
     (case parse_part n i part of
        Inl e \<Rightarrow> Inl e
      | Inr r \<Rightarrow> (case parse_parts n (Suc i) parts of Inl e \<Rightarrow> Inl e | Inr rs \<Rightarrow> Inr (r # rs)))"

definition parse_manual_partition :: "string \<Rightarrow> nat \<Rightarrow> spec_error + range list" where
  "parse_manual_partition spec n =
     (let t = trim_str spec in if t = [] then Inl EmptySpec else parse_parts n 0 (split_on CHR '','' t))"

section \<open>Balancing\<close>

definition prefix_sums :: "nat list \<Rightarrow> nat list" where
  "prefix_sums bs = foldl (\<lambda>p b. p @ [u64_add (last p) b]) [0] bs"

definition is_forbidden :: "nat \<Rightarrow> nat list \<Rightarrow> bool" where
  "is_forbidden b forbidden \<longleftrightarrow> b \<in> set forbidden"

text \<open>The two inner loops of \<open>feasible\<close> and \<open>build_splits\<close>: grow the stage while it fits, then step back from a forbidden boundary.\<close>

function grow_end :: "nat list \<Rightarrow> nat \<Rightarrow> nat \<Rightarrow> nat \<Rightarrow> nat \<Rightarrow> nat" where
  "grow_end p cursor cap max_end e =
     (if e < max_end \<and> p ! (e + 1) - p ! cursor \<le> cap then grow_end p cursor cap max_end (e + 1) else e)"
  by pat_completeness auto
termination by (relation "measure (\<lambda>(_, _, _, m, e). m - e)") auto

declare grow_end.simps [simp del]

fun snap_end :: "nat list \<Rightarrow> nat \<Rightarrow> nat \<Rightarrow> nat" where
  "snap_end forbidden cursor 0 = 0"
| "snap_end forbidden cursor (Suc e) =
     (if cursor + 1 < Suc e \<and> is_forbidden (Suc e) forbidden then snap_end forbidden cursor e else Suc e)"

definition stage_end :: "nat \<Rightarrow> nat list \<Rightarrow> nat \<Rightarrow> nat list \<Rightarrow> nat \<Rightarrow> nat \<Rightarrow> nat option" where
  "stage_end t p budget forbidden cursor max_end =
     (let cap = min t budget;
          e = grow_end p cursor cap max_end (cursor + 1)
      in if cap < p ! e - p ! cursor \<and> cursor + 1 = e then None
      else let e2 = snap_end forbidden cursor e in if e2 \<le> cursor then None else Some e2)"

text \<open>The loop over the stages that are left, with their budgets.\<close>

fun feasible_from :: "nat \<Rightarrow> nat list \<Rightarrow> nat list \<Rightarrow> nat \<Rightarrow> nat list \<Rightarrow> nat \<Rightarrow> bool" where
  "feasible_from t p forbidden n [] cursor = (cursor = n)"
| "feasible_from t p forbidden n (b # bs) cursor =
     (let max_end = n - length bs in
      if max_end \<le> cursor then False
      else if bs = [] then \<not> (t < p ! n - p ! cursor \<or> b < p ! n - p ! cursor)
      else case stage_end t p b forbidden cursor max_end of None \<Rightarrow> False | Some e \<Rightarrow> feasible_from t p forbidden n bs e)"

definition feasible :: "nat \<Rightarrow> nat list \<Rightarrow> nat list \<Rightarrow> nat list \<Rightarrow> nat \<Rightarrow> bool" where
  "feasible t p budgets forbidden n = feasible_from t p forbidden n budgets 0"

fun build_splits_from :: "nat \<Rightarrow> nat list \<Rightarrow> nat list \<Rightarrow> nat \<Rightarrow> nat list \<Rightarrow> nat \<Rightarrow> nat list option" where
  "build_splits_from t p forbidden n [] cursor = (if cursor \<noteq> n then None else Some [])"
| "build_splits_from t p forbidden n (b # bs) cursor =
     (let max_end = n - length bs in
      if max_end \<le> cursor then None
      else if bs = [] then (if t < p ! n - p ! cursor \<or> b < p ! n - p ! cursor then None else Some [])
      else case stage_end t p b forbidden cursor max_end of
             None \<Rightarrow> None
           | Some e \<Rightarrow> map_option (Cons e) (build_splits_from t p forbidden n bs e))"

definition build_splits :: "nat \<Rightarrow> nat list \<Rightarrow> nat list \<Rightarrow> nat list \<Rightarrow> nat \<Rightarrow> nat list option" where
  "build_splits t p budgets forbidden n = build_splits_from t p forbidden n budgets 0"

text \<open>The sliding loop of \<open>uniform_split\<close>, with the tries that are left.\<close>

fun slide :: "nat list \<Rightarrow> nat \<Rightarrow> nat \<Rightarrow> nat \<Rightarrow> nat" where
  "slide forbidden cursor 0 b = b"
| "slide forbidden cursor (Suc tries) b =
     (if is_forbidden b forbidden then slide forbidden cursor tries (if cursor + 1 < b then b - 1 else b + 1) else b)"

fun uniform_from :: "nat list \<Rightarrow> nat \<Rightarrow> nat \<Rightarrow> nat \<Rightarrow> nat list \<Rightarrow> nat \<Rightarrow> nat list" where
  "uniform_from forbidden n per rem [] cursor = []"
| "uniform_from forbidden n per rem (stage # stages) cursor =
     (let b0 = cursor + (per + (if stage < rem then 1 else 0));
          b1 = (if b0 \<le> cursor then cursor + 1 else b0);
          b = slide forbidden cursor n b1
      in b # uniform_from forbidden n per rem stages b)"

definition uniform_split :: "nat \<Rightarrow> nat \<Rightarrow> nat list \<Rightarrow> nat list" where
  "uniform_split n k forbidden = uniform_from forbidden n (n div k) (n mod k) [0..<k - 1] 0"

fun splits_from :: "nat list \<Rightarrow> nat \<Rightarrow> nat \<Rightarrow> range list" where
  "splits_from [] start n = [(start, n)]"
| "splits_from (b # bs) start n = (start, b) # splits_from bs b n"

definition splits_to_ranges :: "nat list \<Rightarrow> nat \<Rightarrow> range list" where
  "splits_to_ranges splits n = splits_from splits 0 n"

record imbalance_warning =
  warn_min :: nat
  warn_max :: nat
  warn_ratio :: nat
  warn_group :: "(nat \<times> adjacency_group) option"
  warn_forbidden :: bool

definition IMBALANCE_WARN_RATIO_PCT :: nat where "IMBALANCE_WARN_RATIO_PCT = 150"

definition group_weight :: "nat list \<Rightarrow> adjacency_group \<Rightarrow> nat" where
  "group_weight p g = (let e = min (snd (group_layers g)) (length p - 1); s = min (fst (group_layers g)) e in p ! e - p ! s)"

text \<open>\<open>Iterator::max_by_key\<close>, which keeps the last of equal elements.\<close>

fun max_by_key :: "('x \<Rightarrow> nat) \<Rightarrow> 'x list \<Rightarrow> 'x option" where
  "max_by_key f [] = None"
| "max_by_key f (x # xs) = Some (foldl (\<lambda>m y. if f m \<le> f y then y else m) x xs)"

definition check_imbalance :: "range list \<Rightarrow> nat list \<Rightarrow> adjacency_group list \<Rightarrow> nat list \<Rightarrow> partition_error + imbalance_warning list" where
  "check_imbalance ranges p adj forbidden =
     (if length ranges < 2 then Inr []
      else if list_ex (\<lambda>(s, e). length p \<le> e \<or> length p \<le> s) ranges then Inl IndexPanic
      else let per_stage = map (\<lambda>(s, e). p ! e - p ! s) ranges;
               max_val = fold max per_stage 0;
               min_val = foldl min (hd per_stage) (tl per_stage)
      in if min_val = 0 \<or> max_val = 0 then Inr []
      else let ratio = min (max_val * 100) u64_max div min_val
      in if ratio \<le> IMBALANCE_WARN_RATIO_PCT then Inr []
      else let named = (if adj = [] then None
                else case max_by_key (\<lambda>i. per_stage ! i) [0..<length per_stage] of
                       None \<Rightarrow> None
                     | Some h \<Rightarrow> map_option (Pair h) (max_by_key (group_weight p)
                         (filter (\<lambda>g. fst (ranges ! h) \<le> fst (group_layers g) \<and> snd (group_layers g) \<le> snd (ranges ! h)) adj)))
      in Inr [\<lparr>warn_min = min_val, warn_max = max_val, warn_ratio = ratio, warn_group = named, warn_forbidden = (forbidden \<noteq> [])\<rparr>])"

text \<open>The binary search for the smallest feasible load.\<close>

function search_load :: "(nat \<Rightarrow> bool) \<Rightarrow> nat \<Rightarrow> nat \<Rightarrow> nat" where
  "search_load ok lo hi =
     (if lo < hi then let mid = lo + (hi - lo) div 2 in if ok mid then search_load ok lo mid else search_load ok (mid + 1) hi else lo)"
  by pat_completeness auto
termination by (relation "measure (\<lambda>(_, lo, hi). hi - lo)") auto

declare search_load.simps [simp del]

definition load_lower_bound :: "nat list \<Rightarrow> nat \<Rightarrow> adjacency_group list \<Rightarrow> nat" where
  "load_lower_bound bytes k adj =
     (let p = prefix_sums bytes;
          adjacency_lb = fold max (map (group_weight p) (filter (\<lambda>g. fst (group_layers g) < snd (group_layers g)) adj)) 0
      in max (max (fold max bytes 0) (div_ceil (last p) k)) adjacency_lb)"

definition balance_layers ::
  "nat list \<Rightarrow> nat list \<Rightarrow> nat list \<Rightarrow> adjacency_group list \<Rightarrow> partition_error + range list \<times> imbalance_warning list" where
  "balance_layers bytes budgets forbidden adj =
     (let n = length bytes; k = length budgets in
      if k = 0 then Inl NoStages
      else if n < k then Inl (CountMismatch n k)
      else if k = 1 then Inr ([(0, n)], [])
      else let p = prefix_sums bytes;
               max_budget = fold max budgets 0;
               lo = load_lower_bound bytes k adj;
               hi = max (last p) lo
      in if max_budget < lo then Inl (BalanceInfeasible lo)
      else let ok = (\<lambda>t. feasible t p budgets forbidden n);
               t = search_load ok lo hi;
               target = (if ok t then t else max_budget);
               splits = (case build_splits target p budgets forbidden n of Some v \<Rightarrow> v | None \<Rightarrow> uniform_split n k forbidden);
               ranges = splits_to_ranges splits n
      in case check_imbalance ranges p adj forbidden of Inl e \<Rightarrow> Inl e | Inr ws \<Rightarrow> Inr (ranges, ws))"

section \<open>Assembly\<close>

fun tiling_error :: "stage_assignment list \<Rightarrow> nat \<Rightarrow> nat \<Rightarrow> partition_error option" where
  "tiling_error [] start n = (if start = n then None else Some (NotCovered start))"
| "tiling_error (a # as) start n =
     (if fst (layer_range a) \<noteq> start then Some (NotTiling start)
      else if snd (layer_range a) \<le> fst (layer_range a) then Some (EmptyStage (stage_index a))
      else tiling_error as (snd (layer_range a)) n)"

definition validate_partition :: "stage_assignment list \<Rightarrow> nat \<Rightarrow> partition_error + unit" where
  "validate_partition as n =
     (if as = [] then Inl NoStages
      else case List.find (\<lambda>i. stage_index (as ! i) \<noteq> i) [0..<length as] of
        Some i \<Rightarrow> Inl (StageIndex i)
      | None \<Rightarrow>
          (case tiling_error as 0 n of
             Some e \<Rightarrow> Inl e
           | None \<Rightarrow>
               if \<not> has_embedding (hd as) then Inl (EmbeddingPlacement 0)
               else case List.find has_embedding (tl as) of
                 Some a \<Rightarrow> Inl (EmbeddingPlacement (stage_index a))
               | None \<Rightarrow>
                   if \<not> has_lm_head (last as) then Inl (LmHeadPlacement (length as - 1))
                   else case List.find has_lm_head (butlast as) of
                     Some a \<Rightarrow> Inl (LmHeadPlacement (stage_index a))
                   | None \<Rightarrow> Inr ()))"

definition validate_memory_fit :: "stage_assignment list \<Rightarrow> device_spec list \<Rightarrow> partition_error + unit" where
  "validate_memory_fit as ds =
     (if length as \<noteq> length ds then Inl (CountMismatch (length as) (length ds))
      else case List.find (\<lambda>(a, d). available_memory_bytes d < estimated_memory_bytes a) (zip as ds) of
        Some (a, _) \<Rightarrow> Inl (DeviceTooSmall (stage_index a))
      | None \<Rightarrow> Inr ())"

definition validate_adjacency :: "range list \<Rightarrow> adjacency_group list \<Rightarrow> partition_error + unit" where
  "validate_adjacency ranges adj =
     (case List.find (\<lambda>g. fst (group_layers g) < snd (group_layers g)
              \<and> list_ex (\<lambda>(s, _). fst (group_layers g) < s \<and> s < snd (group_layers g)) ranges) adj of
        Some g \<Rightarrow> Inl (AdjacencySplit g)
      | None \<Rightarrow> Inr ())"

text \<open>\<open>per_layer.get(range)\<close> is None for a range out of bounds.\<close>

definition build_assignments :: "range list \<Rightarrow> model_profile \<Rightarrow> device_spec list \<Rightarrow> nat list \<Rightarrow> stage_assignment list" where
  "build_assignments ranges m devices bytes =
     map (\<lambda>(i, (s, e)).
       let mem = (if s \<le> e \<and> e \<le> length bytes then u64_sum (take (e - s) (drop s bytes)) else 0);
           mem1 = (if i = 0 then u64_add mem (embedding_param_bytes m) else mem);
           mem2 = (if i + 1 = length ranges then u64_add mem1 (lm_head_param_bytes m) else mem1)
       in \<lparr>stage_index = i, stage_device = device_id (devices ! i), layer_range = (s, e), has_embedding = (i = 0),
           has_lm_head = (i + 1 = length ranges), estimated_memory_bytes = mem2\<rparr>) (List.enumerate 0 ranges)"

fun range_error :: "nat list \<Rightarrow> nat list \<Rightarrow> nat \<Rightarrow> range list \<Rightarrow> partition_error option" where
  "range_error bytes budgets i [] = None"
| "range_error bytes budgets i ((s, e) # rs) =
     (if e \<le> s then Some (BalancerEmptyRange i)
      else if length bytes < e then Some IndexPanic
      else if budgets ! i < u64_sum (take (e - s) (drop s bytes)) then Some (StageOverflow i)
      else range_error bytes budgets (Suc i) rs)"

text \<open>The budgets of the stages once the embedding and the output head are reserved on the edge stages.\<close>

definition reserve_memory :: "model_profile \<Rightarrow> device_spec list \<Rightarrow> partition_error + nat list" where
  "reserve_memory m devices =
     (let k = length devices; mem0 = map available_memory_bytes devices in
      if mem0 ! 0 < embedding_param_bytes m then Inl EmbeddingTooBig
      else let mem1 = mem0[0 := mem0 ! 0 - embedding_param_bytes m] in
      if mem1 ! (k - 1) < lm_head_param_bytes m then Inl LmHeadTooBig
      else Inr (mem1[k - 1 := mem1 ! (k - 1) - lm_head_param_bytes m]))"

record stage_quality =
  q_stage_index :: nat
  q_device :: string
  layer_count :: nat
  estimated_bytes :: nat
  actual_bytes :: "nat option"

record quality_report =
  per_stage_quality :: "stage_quality list"
  max_stage_estimated_bytes :: nat
  min_stage_estimated_bytes :: nat
  imbalance_pct :: nat
  report_warnings :: "imbalance_warning list"

definition drift_percent :: "stage_quality \<Rightarrow> nat option" where
  "drift_percent q =
     (case actual_bytes q of
        None \<Rightarrow> None
      | Some actual \<Rightarrow> if estimated_bytes q = 0 \<or> actual = 0 then None else Some (min (actual * 100) u64_max div estimated_bytes q))"

definition build_quality_report_with_actuals ::
  "stage_assignment list \<Rightarrow> nat list option \<Rightarrow> imbalance_warning list \<Rightarrow> quality_report" where
  "build_quality_report_with_actuals as actuals ws =
     (let qs = map (\<lambda>(i, a). \<lparr>q_stage_index = stage_index a, q_device = stage_device a,
                 layer_count = snd (layer_range a) - fst (layer_range a), estimated_bytes = estimated_memory_bytes a,
                 actual_bytes = (case actuals of None \<Rightarrow> None | Some v \<Rightarrow> if i < length v then Some (v ! i) else None)\<rparr>)
               (List.enumerate 0 as);
          es = map estimated_bytes qs;
          max_val = fold max es 0;
          min_val = (case es of [] \<Rightarrow> 0 | e # rest \<Rightarrow> foldl min e rest)
      in \<lparr>per_stage_quality = qs, max_stage_estimated_bytes = max_val, min_stage_estimated_bytes = min_val,
          imbalance_pct = (if min_val = 0 then 0 else min (max_val * 100) u64_max div min_val), report_warnings = ws\<rparr>)"

definition populate_actual_memory :: "quality_report \<Rightarrow> nat list \<Rightarrow> quality_report" where
  "populate_actual_memory r v =
     r\<lparr>per_stage_quality := map (\<lambda>(i, q). q\<lparr>actual_bytes := if i < length v then Some (v ! i) else None\<rparr>)
         (List.enumerate 0 (per_stage_quality r))\<rparr>"

definition assemble_auto_partition :: "model_profile \<Rightarrow> device_spec list \<Rightarrow> partition_error + stage_assignment list \<times> quality_report" where
  "assemble_auto_partition m devices =
     (let k = length devices; n = profile_layers m in
      if k = 0 then Inl NoDevices
      else if n = 0 then Inl NoLayersInModel
      else if n < k then Inl MoreDevicesThanLayers
      else case reserve_memory m devices of
        Inl e \<Rightarrow> Inl e
      | Inr budgets \<Rightarrow>
          let bytes = effective_layer_bytes m in
          if u64_sum budgets < u64_sum bytes then Inl CombinedTooSmall
          else case balance_layers bytes budgets (forbidden_boundaries m) (adjacency m) of
            Inl e \<Rightarrow> Inl e
          | Inr (ranges, ws) \<Rightarrow>
              if length ranges \<noteq> k then Inl (CountMismatch (length ranges) k)
              else case range_error bytes budgets 0 ranges of
                Some e \<Rightarrow> Inl e
              | None \<Rightarrow>
                  let as = build_assignments ranges m devices bytes in
                  (case validate_partition as n of
                     Inl e \<Rightarrow> Inl e
                   | Inr _ \<Rightarrow>
                       (case validate_memory_fit as devices of
                          Inl e \<Rightarrow> Inl e
                        | Inr _ \<Rightarrow> Inr (as, build_quality_report_with_actuals as None ws))))"

definition auto_partition :: "model_profile \<Rightarrow> device_spec list \<Rightarrow> partition_error + stage_assignment list" where
  "auto_partition m devices = map_sum id fst (assemble_auto_partition m devices)"

definition assemble_manual_partition :: "range list \<Rightarrow> model_profile \<Rightarrow> device_spec list \<Rightarrow> partition_error + stage_assignment list" where
  "assemble_manual_partition ranges m devices =
     (if length ranges \<noteq> length devices then Inl (CountMismatch (length ranges) (length devices))
      else case validate_adjacency ranges (adjacency m) of
        Inl e \<Rightarrow> Inl e
      | Inr _ \<Rightarrow>
          let as = build_assignments ranges m devices (effective_layer_bytes m) in
          (case validate_partition as (profile_layers m) of
             Inl e \<Rightarrow> Inl e
           | Inr _ \<Rightarrow> (case validate_memory_fit as devices of Inl e \<Rightarrow> Inl e | Inr _ \<Rightarrow> Inr as)))"

end
