(* ===== verification/Partition_Optimal.thy ===== *)
theory Partition_Optimal
  imports Pipeline_Partition
begin

text \<open>
  The layer balancer against its specification. A split is a list of non-empty chunks that make up the layers, one for each stage. The
  greedy sweep never falls behind a split that respects the same loads, so the binary search finds the smallest maximal load.
\<close>

section \<open>Prefix sums\<close>

definition load_to :: "nat list \<Rightarrow> nat \<Rightarrow> nat" where
  "load_to bs i = sum_list (take i bs)"

definition chunk :: "'x list \<Rightarrow> nat \<Rightarrow> nat \<Rightarrow> 'x list" where
  "chunk bs s e = take (e - s) (drop s bs)"

lemma load_to_mono: "i \<le> j \<Longrightarrow> load_to bs i \<le> load_to bs j"
  by (metis le_add1 le_iff_add load_to_def sum_list_append take_add)

lemma sum_chunk: "s \<le> e \<Longrightarrow> sum_list (chunk bs s e) = load_to bs e - load_to bs s"
proof -
  assume "s \<le> e"
  then have "take e bs = take s bs @ chunk bs s e" unfolding chunk_def by (metis le_add_diff_inverse take_add)
  then show ?thesis by (simp add: load_to_def)
qed

lemma load_to_all: "length bs \<le> i \<Longrightarrow> load_to bs i = sum_list bs"
  by (simp add: load_to_def)

lemma foldl_u64_add: "acc + sum_list bs \<le> u64_max \<Longrightarrow> foldl u64_add acc bs = acc + sum_list bs"
  by (induction bs arbitrary: acc) (auto simp: u64_add_def min_def)

lemma u64_sum_exact: "sum_list bs \<le> u64_max \<Longrightarrow> u64_sum bs = sum_list bs"
  by (simp add: u64_sum_def foldl_u64_add)

lemma foldl_u64_add_min: "acc \<le> u64_max \<Longrightarrow> foldl u64_add acc bs = min (acc + sum_list bs) u64_max"
  by (induction bs arbitrary: acc) (auto simp: u64_add_def min_def)

lemma u64_sum_min: "u64_sum bs = min (sum_list bs) u64_max"
  by (simp add: u64_sum_def foldl_u64_add_min)

lemma prefix_sums_snoc: "prefix_sums (bs @ [b]) = prefix_sums bs @ [u64_add (last (prefix_sums bs)) b]"
  by (simp add: prefix_sums_def)

lemma prefix_sums_exact: "sum_list bs \<le> u64_max \<Longrightarrow> prefix_sums bs = map (load_to bs) [0..<Suc (length bs)]"
proof (induction bs rule: rev_induct)
  case Nil
  then show ?case by (simp add: prefix_sums_def load_to_def)
next
  case (snoc b bs)
  then have p: "prefix_sums bs = map (load_to bs) [0..<Suc (length bs)]" by simp
  have "last (prefix_sums bs) = sum_list bs" by (simp add: p load_to_def)
  moreover have "map (load_to (bs @ [b])) [0..<Suc (length bs)] = map (load_to bs) [0..<Suc (length bs)]"
    by (rule map_cong) (auto simp: load_to_def)
  ultimately show ?case using snoc.prems by (simp add: prefix_sums_snoc p u64_add_def load_to_def del: upt_Suc) (simp add: load_to_def)
qed

lemma prefix_sums_nth: "sum_list bs \<le> u64_max \<Longrightarrow> i \<le> length bs \<Longrightarrow> prefix_sums bs ! i = load_to bs i"
  by (simp add: prefix_sums_exact del: upt_Suc)

lemma length_prefix_sums: "length (prefix_sums bs) = Suc (length bs)"
  by (induction bs rule: rev_induct) (simp_all add: prefix_sums_snoc, simp add: prefix_sums_def)

lemma nonempty_concat_length: "[] \<notin> set cs \<Longrightarrow> length cs \<le> length (concat cs)"
proof (induction cs)
  case Nil
  then show ?case by simp
next
  case (Cons c cs)
  then show ?case by (cases c) auto
qed

lemma sum_list_chunks: "sum_list (concat cs) = sum_list (map sum_list cs :: nat list)"
  by (induction cs) simp_all

lemma fold_max_le_iff: "fold max xs a \<le> (m :: nat) \<longleftrightarrow> a \<le> m \<and> (\<forall>x \<in> set xs. x \<le> m)"
  by (induction xs arbitrary: a) auto

lemma fold_max_ge: "x \<in> set xs \<Longrightarrow> x \<le> (fold max xs a :: nat)"
  using fold_max_le_iff [of xs a "fold max xs a"] by simp

section \<open>One stage\<close>

lemma grow_end_bounds:
  "e \<le> m \<Longrightarrow> e \<le> grow_end p c cap m e \<and> grow_end p c cap m e \<le> m"
  by (induction p c cap m e rule: grow_end.induct) (subst (1 2) grow_end.simps, auto)

lemma grow_end_fits:
  "p ! e - p ! c \<le> cap \<Longrightarrow> p ! grow_end p c cap m e - p ! c \<le> cap"
  by (induction p c cap m e rule: grow_end.induct) (subst grow_end.simps, auto)

lemma grow_end_maximal:
  "e \<le> m \<Longrightarrow> grow_end p c cap m e < m \<Longrightarrow> cap < p ! Suc (grow_end p c cap m e) - p ! c"
proof (induction p c cap m e rule: grow_end.induct)
  case (1 p c cap m e)
  then show ?case using grow_end.simps [of p c cap m e] by (cases "e < m \<and> p ! (e + 1) - p ! c \<le> cap") auto
qed

lemma snap_end_free: "snap_end [] c e = e"
  by (cases e) (simp_all add: is_forbidden_def)

lemma load_step: "c < length bs \<Longrightarrow> load_to bs (Suc c) = load_to bs c + bs ! c"
  by (simp add: load_to_def take_Suc_conv_app_nth)

lemma stage_end_ahead:
  assumes no_overflow: "sum_list bs \<le> u64_max" and fit: "c < m" "m \<le> length bs" "\<And>x. x \<in> set bs \<Longrightarrow> x \<le> min t b"
  shows "\<exists>e. stage_end t (prefix_sums bs) b [] c m = Some e \<and> c < e \<and> e \<le> m \<and> load_to bs e - load_to bs c \<le> min t b
    \<and> (\<forall>d. d \<le> m \<longrightarrow> load_to bs d - load_to bs c \<le> min t b \<longrightarrow> d \<le> e)"
proof -
  let ?p = "prefix_sums bs" and ?cap = "min t b"
  let ?e = "grow_end ?p c ?cap m (c + 1)"
  have nth: "i \<le> m \<Longrightarrow> ?p ! i = load_to bs i" for i using prefix_sums_nth [OF no_overflow] fit by simp
  have c: "c < length bs" using fit by simp
  have first: "?p ! (c + 1) - ?p ! c \<le> ?cap" using fit(1) nth load_step [OF c] fit(3) [of "bs ! c"] c by simp
  have bounds: "c + 1 \<le> ?e" "?e \<le> m" using grow_end_bounds [of "c + 1" m ?p c ?cap] fit(1) by simp_all
  have fits: "?p ! ?e - ?p ! c \<le> ?cap" by (rule grow_end_fits) (rule first)
  have max: "d \<le> ?e" if "d \<le> m" "load_to bs d - load_to bs c \<le> ?cap" for d
  proof (rule ccontr)
    assume "\<not> d \<le> ?e"
    then have d: "Suc ?e \<le> d" "?e < m" using that by simp_all
    have "?cap < ?p ! Suc ?e - ?p ! c" using grow_end_maximal [of "c + 1" m ?p c ?cap] d fit(1) by simp
    moreover have "?p ! Suc ?e = load_to bs (Suc ?e)" "?p ! c = load_to bs c" using nth d fit(1) by simp_all
    ultimately show False using load_to_mono [OF d(1), of bs] that(2) by linarith
  qed
  have "stage_end t ?p b [] c m = Some ?e" using fits bounds by (auto simp: stage_end_def snap_end_free Let_def not_less)
  then show ?thesis using bounds fits max nth fit(1) by auto
qed

text \<open>The greedy sweep started at or after a split of the remaining layers succeeds too.\<close>

lemma greedy_stays_ahead:
  assumes no_overflow: "sum_list bs \<le> u64_max" and split_of_rest: "concat cs = drop d bs" "[] \<notin> set cs" "list_all2 (\<lambda>c b. sum_list c \<le> min t b) cs budgets"
    "d \<le> g" "g + length budgets \<le> length bs" "budgets \<noteq> []" "\<And>x b. x \<in> set bs \<Longrightarrow> b \<in> set budgets \<Longrightarrow> x \<le> min t b"
  shows "feasible_from t (prefix_sums bs) [] (length bs) budgets g"
  using assms(2-)
proof (induction budgets arbitrary: cs d g)
  case Nil
  then show ?case by simp
next
  case (Cons b budgets)
  obtain c cs' where cs: "cs = c # cs'" "sum_list c \<le> min t b" "list_all2 (\<lambda>c b. sum_list c \<le> min t b) cs' budgets"
    using Cons.prems(3) by (auto simp: list_all2_Cons2)
  have split: "drop d bs = c @ concat cs'" using Cons.prems(1) cs by simp
  let ?d = "d + length c" and ?m = "length bs - length budgets"
  have rest: "concat cs' = drop ?d bs" using arg_cong [OF split, of "drop (length c)"] by (simp add: add.commute)
  have c: "c = chunk bs d ?d" using arg_cong [OF split, of "take (length c)"] by (simp add: chunk_def)
  have load: "load_to bs ?d - load_to bs d \<le> min t b" using cs(2) c sum_chunk [of d ?d bs] by simp
  have dg: "load_to bs d \<le> load_to bs g" by (rule load_to_mono) (rule Cons.prems(4))
  show ?case
  proof (cases "budgets = []")
    case True
    then have "cs' = []" using cs(3) by simp
    then have "load_to bs ?d = load_to bs (length bs)" using rest by (simp add: load_to_def)
    then have "load_to bs (length bs) - load_to bs g \<le> min t b" using load dg by linarith
    then show ?thesis using True Cons.prems(5) prefix_sums_nth [OF no_overflow] by simp
  next
    case False
    have gm: "g < ?m" using Cons.prems(5) by simp
    obtain e where e: "stage_end t (prefix_sums bs) b [] g ?m = Some e" "g < e" "e \<le> ?m"
      "\<And>d. d \<le> ?m \<Longrightarrow> load_to bs d - load_to bs g \<le> min t b \<Longrightarrow> d \<le> e"
      using stage_end_ahead [OF no_overflow gm, of t b] Cons.prems(7) by (metis diff_le_self list.set_intros(1))
    have "length cs' \<le> length (concat cs')" by (rule nonempty_concat_length) (use Cons.prems(2) cs(1) in simp)
    then have "length budgets \<le> length bs - ?d" using rest cs(3) by (simp add: list_all2_lengthD)
    then have dm: "?d \<le> ?m" using Cons.prems(5) False by (cases budgets) auto
    have "?d \<le> e" using e(4) [OF dm] load dg by linarith
    moreover have "e + length budgets \<le> length bs" using e(3) Cons.prems(5) by simp
    moreover have "[] \<notin> set cs'" using Cons.prems(2) cs(1) by simp
    ultimately have "feasible_from t (prefix_sums bs) [] (length bs) budgets e"
      using Cons.IH [OF rest _ cs(3) _ _ False] Cons.prems(7) by (meson list.set_intros(2))
    then show ?thesis using e(1) gm False by (simp add: Let_def)
  qed
qed

section \<open>The sweep\<close>

lemma feasible_iff_build: "feasible t p budgets forbidden n \<longleftrightarrow> build_splits t p budgets forbidden n \<noteq> None"
proof -
  have "feasible_from t p forbidden n budgets c \<longleftrightarrow> build_splits_from t p forbidden n budgets c \<noteq> None" for c
    by (induction budgets arbitrary: c) (auto simp: Let_def split: option.splits)
  then show ?thesis by (simp add: feasible_def build_splits_def)
qed

lemma snap_end_bounds: "c < e \<Longrightarrow> c < snap_end forbidden c e \<and> snap_end forbidden c e \<le> e"
  by (induction e) (auto simp: less_Suc_eq)

lemma stage_end_sound:
  assumes no_overflow: "sum_list bs \<le> u64_max" and "c < m" "m \<le> length bs"
    and some: "stage_end t (prefix_sums bs) b forbidden c m = Some e"
  shows "c < e \<and> e \<le> m \<and> load_to bs e - load_to bs c \<le> min t b"
proof -
  let ?p = "prefix_sums bs"
  let ?g = "grow_end ?p c (min t b) m (c + 1)"
  have nth: "i \<le> m \<Longrightarrow> ?p ! i = load_to bs i" for i using prefix_sums_nth [OF no_overflow] assms(3) by simp
  have g: "c + 1 \<le> ?g" "?g \<le> m" using grow_end_bounds [of "c + 1" m ?p c "min t b"] assms(2) by simp_all
  have fits: "load_to bs ?g - load_to bs c \<le> min t b"
  proof (cases "?p ! (c + 1) - ?p ! c \<le> min t b")
    case True
    then have "?p ! ?g - ?p ! c \<le> min t b" by (rule grow_end_fits)
    then show ?thesis using nth g assms(2) by simp
  next
    case False
    have "\<not> (c + 1 < m \<and> ?p ! (c + 1 + 1) - ?p ! c \<le> min t b)"
      using False nth load_to_mono [of "c + 1" "c + 1 + 1" bs] assms(2) by (auto simp: not_le)
    then have "?g = c + 1" by (subst grow_end.simps) auto
    then show ?thesis using some False by (simp add: stage_end_def Let_def not_le split: if_splits) linarith
  qed
  have "e = snap_end forbidden c ?g" using some by (auto simp: stage_end_def Let_def split: if_splits)
  moreover have "c < ?g" using g by simp
  ultimately have "c < e" "e \<le> ?g" using snap_end_bounds by blast+
  then show ?thesis using g fits load_to_mono [of e ?g bs] by linarith
qed

definition stage_range_ok :: "nat list \<Rightarrow> nat \<Rightarrow> range \<Rightarrow> nat \<Rightarrow> bool" where
  "stage_range_ok bs t r b \<longleftrightarrow> fst r < snd r \<and> snd r \<le> length bs \<and> sum_list (chunk bs (fst r) (snd r)) \<le> min t b"

lemma stage_ranges_each:
  "list_all2 (stage_range_ok bs t) rs budgets \<Longrightarrow>
   \<forall>r \<in> set rs. fst r < snd r \<and> snd r \<le> length bs \<and> sum_list (chunk bs (fst r) (snd r)) \<le> t"
  by (induction rule: list_all2_induct) (auto simp: stage_range_ok_def)

lemma build_splits_from_sound:
  assumes "sum_list bs \<le> u64_max" "build_splits_from t (prefix_sums bs) forbidden (length bs) budgets c = Some es" "budgets \<noteq> []"
  shows "list_all2 (stage_range_ok bs t) (splits_from es c (length bs)) budgets"
  using assms(2-)
proof (induction budgets arbitrary: c es)
  case Nil
  then show ?case by simp
next
  case (Cons b budgets)
  let ?m = "length bs - length budgets"
  have cm: "c < ?m" using Cons.prems(1) by (auto simp: Let_def split: if_splits)
  show ?case
  proof (cases "budgets = []")
    case True
    then show ?thesis using Cons.prems(1) cm prefix_sums_nth [OF assms(1)]
      by (auto simp: stage_range_ok_def sum_chunk not_less Let_def split: if_splits)
  next
    case False
    then obtain e es' where e: "stage_end t (prefix_sums bs) b forbidden c ?m = Some e"
      "build_splits_from t (prefix_sums bs) forbidden (length bs) budgets e = Some es'" "es = e # es'"
      using Cons.prems(1) cm by (auto simp: Let_def split: option.splits)
    have "stage_range_ok bs t (c, e) b"
      using stage_end_sound [OF assms(1) cm _ e(1)] by (auto simp: stage_range_ok_def sum_chunk)
    then show ?thesis using Cons.IH [OF e(2) False] e(3) by simp
  qed
qed

text \<open>Ranges in order are chunks that make up the layers.\<close>

lemma concat_chunks:
  "\<forall>r \<in> set (splits_from es c n). fst r \<le> snd r \<Longrightarrow> n = length bs \<Longrightarrow>
   concat (map (\<lambda>r. chunk bs (fst r) (snd r)) (splits_from es c n)) = drop c bs"
proof (induction es arbitrary: c)
  case Nil
  then show ?case by (simp add: chunk_def)
next
  case (Cons e es)
  have "c \<le> e" using Cons.prems(1) by simp
  then have "chunk bs c e @ drop e bs = drop c bs" using append_take_drop_id [of "e - c" "drop c bs"] by (simp add: chunk_def)
  moreover have "concat (map (\<lambda>r. chunk bs (fst r) (snd r)) (splits_from es e n)) = drop e bs" using Cons by simp
  ultimately show ?case by simp
qed

lemma search_load_least:
  assumes "lo \<le> hi" "ok hi" "\<And>x y. lo \<le> x \<Longrightarrow> x \<le> y \<Longrightarrow> ok x \<Longrightarrow> ok y"
  shows "ok (search_load ok lo hi) \<and> (\<forall>t \<ge> lo. ok t \<longrightarrow> search_load ok lo hi \<le> t)"
  using assms
proof (induction ok lo hi rule: search_load.induct)
  case (1 ok lo hi)
  let ?mid = "lo + (hi - lo) div 2"
  have mono: "\<And>x y. lo \<le> x \<Longrightarrow> x \<le> y \<Longrightarrow> ok x \<Longrightarrow> ok y" by (rule "1.prems"(3))
  consider "hi = lo" | "lo < hi" "ok ?mid" | "lo < hi" "\<not> ok ?mid" using "1.prems"(1) by linarith
  then show ?case
  proof cases
    case 1
    then have "search_load ok lo hi = lo" by (subst search_load.simps) simp
    then show ?thesis using 1 \<open>ok hi\<close> by simp
  next
    case 2
    then have s: "search_load ok lo hi = search_load ok lo ?mid" by (subst search_load.simps) (simp add: Let_def)
    show ?thesis unfolding s by (rule "1.IH"(1) [OF 2(1) refl 2(2) _ 2(2)]) (simp, rule mono)
  next
    case 3
    then have s: "search_load ok lo hi = search_load ok (?mid + 1) hi" by (subst search_load.simps) (simp add: Let_def)
    have above: "?mid + 1 \<le> t" if "lo \<le> t" "ok t" for t
    proof (rule ccontr)
      assume "\<not> ?mid + 1 \<le> t"
      then show False using mono [OF that(1) _ that(2), of ?mid] 3(2) by simp
    qed
    have "ok (search_load ok (?mid + 1) hi) \<and> (\<forall>t \<ge> ?mid + 1. ok t \<longrightarrow> search_load ok (?mid + 1) hi \<le> t)"
    proof (rule "1.IH"(2) [OF 3(1) refl 3(2) _ \<open>ok hi\<close>])
      show "?mid + 1 \<le> hi" using 3(1) by simp
      show "ok y" if "?mid + 1 \<le> x" "x \<le> y" "ok x" for x y using mono [OF _ that(2,3)] that(1) by simp
    qed
    then show ?thesis unfolding s using above by blast
  qed
qed

section \<open>The balancer\<close>

definition is_split :: "nat list \<Rightarrow> nat list \<Rightarrow> nat list list \<Rightarrow> bool" where
  "is_split bs budgets cs \<longleftrightarrow> concat cs = bs \<and> [] \<notin> set cs \<and> list_all2 (\<lambda>c b. sum_list c \<le> b) cs budgets"

definition max_load :: "nat list list \<Rightarrow> nat" where
  "max_load cs = fold max (map sum_list cs) 0"

lemma max_load_le_iff: "max_load cs \<le> t \<longleftrightarrow> (\<forall>c \<in> set cs. sum_list c \<le> t)"
  by (simp add: max_load_def fold_max_le_iff)

lemma list_all2_bound: "list_all2 P xs ys \<Longrightarrow> (\<forall>x \<in> set xs. Q x) \<Longrightarrow> list_all2 (\<lambda>x y. P x y \<and> Q x) xs ys"
  by (induction rule: list_all2_induct) auto

lemma feasible_iff_split:
  assumes "sum_list bs \<le> u64_max" "budgets \<noteq> []" "\<And>x b. x \<in> set bs \<Longrightarrow> b \<in> set budgets \<Longrightarrow> x \<le> b" "\<And>x. x \<in> set bs \<Longrightarrow> x \<le> t"
  shows "feasible t (prefix_sums bs) budgets [] (length bs) \<longleftrightarrow> (\<exists>cs. is_split bs budgets cs \<and> max_load cs \<le> t)"
proof
  assume "feasible t (prefix_sums bs) budgets [] (length bs)"
  then obtain es where es: "build_splits_from t (prefix_sums bs) [] (length bs) budgets 0 = Some es"
    by (auto simp: feasible_iff_build build_splits_def)
  let ?rs = "splits_from es 0 (length bs)"
  let ?cs = "map (\<lambda>r. chunk bs (fst r) (snd r)) ?rs"
  have ok: "list_all2 (stage_range_ok bs t) ?rs budgets" by (rule build_splits_from_sound [OF assms(1) es assms(2)])
  then have each: "\<forall>r \<in> set ?rs. fst r < snd r \<and> snd r \<le> length bs \<and> sum_list (chunk bs (fst r) (snd r)) \<le> t"
    by (rule stage_ranges_each)
  then have "concat ?cs = bs" using concat_chunks [of es 0 "length bs" bs] by fastforce
  moreover have "[] \<notin> set ?cs" using each by (fastforce simp: chunk_def)
  moreover have "list_all2 (\<lambda>c b. sum_list c \<le> b) ?cs budgets"
    using ok unfolding list_all2_map1 by (rule list_all2_mono) (simp add: stage_range_ok_def)
  moreover have "max_load ?cs \<le> t" using each by (simp add: max_load_le_iff)
  ultimately show "\<exists>cs. is_split bs budgets cs \<and> max_load cs \<le> t" unfolding is_split_def by blast
next
  assume "\<exists>cs. is_split bs budgets cs \<and> max_load cs \<le> t"
  then obtain cs where cs: "concat cs = drop 0 bs" "[] \<notin> set cs" "list_all2 (\<lambda>c b. sum_list c \<le> b) cs budgets" "\<forall>c \<in> set cs. sum_list c \<le> t"
    by (auto simp: is_split_def max_load_le_iff)
  have "length budgets \<le> length bs" using nonempty_concat_length [OF cs(2)] cs(1,3) by (simp add: list_all2_lengthD)
  moreover have "list_all2 (\<lambda>c b. sum_list c \<le> min t b) cs budgets"
    using list_all2_bound [OF cs(3,4)] by (rule list_all2_mono) simp
  ultimately show "feasible t (prefix_sums bs) budgets [] (length bs)"
    unfolding feasible_def using assms(2-) by (intro greedy_stays_ahead [OF assms(1) cs(1,2)]) auto
qed

lemma load_lower_bound_le:
  assumes "sum_list bs \<le> u64_max" "is_split bs budgets cs" "budgets \<noteq> []"
  shows "load_lower_bound bs (length budgets) [] \<le> max_load cs"
proof -
  have cs: "concat cs = bs" "length cs = length budgets" using assms(2) by (auto simp: is_split_def list_all2_lengthD)
  have each: "sum_list c \<le> max_load cs" if "c \<in> set cs" for c using max_load_le_iff [of cs "max_load cs"] that by simp
  have "x \<le> max_load cs" if "x \<in> set bs" for x
  proof -
    obtain c where c: "c \<in> set cs" "x \<in> set c" using \<open>x \<in> set bs\<close> cs(1) by auto
    show ?thesis using member_le_sum_list [OF c(2)] each [OF c(1)] by simp
  qed
  then have "fold max bs 0 \<le> max_load cs" by (simp add: fold_max_le_iff)
  moreover have "sum_list (concat cs) \<le> max_load cs * length cs"
    using sum_list_mono [of cs sum_list "\<lambda>_. max_load cs"] each by (simp add: sum_list_chunks sum_list_triv mult.commute)
  then have "div_ceil (sum_list bs) (length budgets) \<le> max_load cs" using cs assms(3) by (simp add: div_ceil_le_iff)
  moreover have "last (prefix_sums bs) = sum_list bs" by (simp add: prefix_sums_exact [OF assms(1)] load_to_def)
  ultimately show ?thesis by (simp add: load_lower_bound_def Let_def)
qed

lemma check_imbalance_returns:
  "\<forall>r \<in> set rs. fst r < snd r \<and> snd r \<le> length bs \<Longrightarrow> \<exists>ws. check_imbalance rs (prefix_sums bs) adj forbidden = Inr ws"
  by (fastforce simp: check_imbalance_def length_prefix_sums list_ex_iff Let_def)

lemma balance_layers_optimal:
  assumes exact: "sum_list bs \<le> u64_max" and split: "is_split bs budgets cs" and "budgets \<noteq> []"
    and fit: "\<And>x b. x \<in> set bs \<Longrightarrow> b \<in> set budgets \<Longrightarrow> x \<le> b"
  shows "\<exists>es ws. balance_layers bs budgets [] [] = Inr (splits_from es 0 (length bs), ws)
    \<and> list_all2 (stage_range_ok bs (max_load cs)) (splits_from es 0 (length bs)) budgets"
proof (cases "length budgets = 1")
  case True
  then obtain b where b: "budgets = [b]" by (cases budgets) auto
  then have "cs = [bs]" "bs \<noteq> []" "sum_list bs \<le> b" using split by (auto simp: is_split_def list_all2_Cons2)
  then have "balance_layers bs budgets [] [] = Inr (splits_from [] 0 (length bs), [])"
    "list_all2 (stage_range_ok bs (max_load cs)) (splits_from [] 0 (length bs)) budgets"
    using b by (auto simp: balance_layers_def Let_def stage_range_ok_def chunk_def max_load_def Suc_le_eq)
  then show ?thesis by blast
next
  case False
  let ?p = "prefix_sums bs" and ?n = "length bs" and ?k = "length budgets" and ?M = "max_load cs"
  let ?lo = "load_lower_bound bs ?k []"
  let ?hi = "max (last ?p) ?lo" and ?ok = "\<lambda>t. feasible t ?p budgets [] ?n"
  let ?t = "search_load ?ok ?lo ?hi"
  have kn: "?k \<le> ?n" using split nonempty_concat_length [of cs] by (auto simp: is_split_def list_all2_lengthD)
  have lo: "?lo \<le> ?M" by (rule load_lower_bound_le [OF exact split assms(3)])
  have layers: "x \<le> ?lo" if "x \<in> set bs" for x using fold_max_ge [OF that, of 0] by (simp add: load_lower_bound_def Let_def)
  have ok: "?ok t \<longleftrightarrow> (\<exists>cs. is_split bs budgets cs \<and> max_load cs \<le> t)" if "?lo \<le> t" for t
    using layers that by (intro feasible_iff_split [OF exact assms(3) fit]) (auto intro: le_trans)
  have "sum_list c \<le> sum_list bs" if "c \<in> set cs" for c
    using that split member_le_sum_list [of "sum_list c" "map sum_list cs"] by (auto simp: is_split_def sum_list_chunks)
  then have "?M \<le> last ?p" by (simp add: max_load_le_iff prefix_sums_exact [OF exact] load_to_def)
  then have hi: "?ok ?hi" using ok [of ?hi] split by (auto intro!: exI [of _ cs])
  have best: "?ok ?t \<and> (\<forall>t \<ge> ?lo. ?ok t \<longrightarrow> ?t \<le> t)"
  proof (rule search_load_least)
    show "?ok y" if "?lo \<le> x" "x \<le> y" "?ok x" for x y using ok [of x] ok [of y] that by (meson le_trans)
  qed (use hi in simp_all)
  moreover have "?ok ?M" using ok [OF lo] split by blast
  ultimately have tM: "?t \<le> ?M" using lo by blast
  obtain es where es: "build_splits ?t ?p budgets [] ?n = Some es" using best by (auto simp: feasible_iff_build)
  let ?rs = "splits_from es 0 ?n"
  have rs: "list_all2 (stage_range_ok bs ?t) ?rs budgets"
    using build_splits_from_sound [OF exact _ assms(3)] es by (simp add: build_splits_def)
  then have "list_all2 (stage_range_ok bs ?M) ?rs budgets" by (rule list_all2_mono) (use tM in \<open>auto simp: stage_range_ok_def\<close>)
  moreover obtain ws where ws: "check_imbalance ?rs ?p [] [] = Inr ws"
    using check_imbalance_returns [of ?rs bs] stage_ranges_each [OF rs] by blast
  have budget: "?M \<le> fold max budgets 0"
  proof -
    have "list_all2 (\<lambda>c b. sum_list c \<le> b) cs budgets" using split by (simp add: is_split_def)
    then have "\<exists>b \<in> set budgets. sum_list c \<le> b" if "c \<in> set cs" for c using that by (induction rule: list_all2_induct) auto
    then show ?thesis using fold_max_ge [of _ budgets 0] by (auto simp: max_load_le_iff intro: le_trans)
  qed
  have "balance_layers bs budgets [] [] = Inr (?rs, ws)"
    using False kn assms(3) lo budget best es ws by (simp add: balance_layers_def Let_def splits_to_ranges_def)
  ultimately show ?thesis by blast
qed

end
