(* ===== verification/Partition_Properties.thy ===== *)
theory Partition_Properties
  imports Partition_Optimal "HOL-Library.Code_Target_Numeral"
begin

text \<open>
  What a pipeline plan promises: a plan that is returned is a partition of the layers that fits the devices, the automatic plan has the
  smallest maximal load, and a manual plan keeps the adjacency groups whole, which the automatic one does not.
\<close>

section \<open>Plans\<close>

definition stage_bytes :: "model_profile \<Rightarrow> stage_assignment \<Rightarrow> nat list" where
  "stage_bytes m a = chunk (effective_layer_bytes m) (fst (layer_range a)) (snd (layer_range a))"

definition stage_memory :: "model_profile \<Rightarrow> stage_assignment \<Rightarrow> nat" where
  "stage_memory m a = sum_list (stage_bytes m a) + (if has_embedding a then embedding_param_bytes m else 0)
     + (if has_lm_head a then lm_head_param_bytes m else 0)"

definition layers_of :: "stage_assignment \<Rightarrow> nat list" where
  "layers_of a = [fst (layer_range a)..<snd (layer_range a)]"

text \<open>Every layer is on exactly one stage, in order; each stage has a layer; the edge stages hold the embedding and the head.\<close>

definition plan_tiles :: "nat \<Rightarrow> stage_assignment list \<Rightarrow> bool" where
  "plan_tiles n plan \<longleftrightarrow> plan \<noteq> [] \<and> concat (map layers_of plan) = [0..<n] \<and> list_all (\<lambda>a. layers_of a \<noteq> []) plan
     \<and> map stage_index plan = [0..<length plan]
     \<and> map has_embedding plan = map (\<lambda>i. i = 0) [0..<length plan]
     \<and> map has_lm_head plan = map (\<lambda>i. Suc i = length plan) [0..<length plan]"

definition plan_fits :: "model_profile \<Rightarrow> device_spec list \<Rightarrow> stage_assignment list \<Rightarrow> bool" where
  "plan_fits m devices plan \<longleftrightarrow>
     list_all2 (\<lambda>a d. stage_device a = device_id d \<and> stage_memory m a \<le> available_memory_bytes d) plan devices"

lemma length_effective [simp]: "length (effective_layer_bytes m) = profile_layers m"
  by (simp add: effective_layer_bytes_def)

lemma length_build_assignments [simp]: "length (build_assignments rs m ds bs) = length rs"
  by (simp add: build_assignments_def)

lemma nth_build_assignments:
  "i < length rs \<Longrightarrow> build_assignments rs m ds bs ! i =
     (let s = fst (rs ! i); e = snd (rs ! i);
          mem = (if s \<le> e \<and> e \<le> length bs then u64_sum (chunk bs s e) else 0);
          mem1 = (if i = 0 then u64_add mem (embedding_param_bytes m) else mem);
          mem2 = (if i + 1 = length rs then u64_add mem1 (lm_head_param_bytes m) else mem1)
      in \<lparr>stage_index = i, stage_device = device_id (ds ! i), layer_range = rs ! i, has_embedding = (i = 0),
          has_lm_head = (i + 1 = length rs), estimated_memory_bytes = mem2\<rparr>)"
  by (simp add: build_assignments_def nth_enumerate_eq chunk_def Let_def split_beta)

lemma build_assignments_fields:
  "map stage_index (build_assignments rs m ds bs) = [0..<length rs]"
  "map layer_range (build_assignments rs m ds bs) = rs"
  "map has_embedding (build_assignments rs m ds bs) = map (\<lambda>i. i = 0) [0..<length rs]"
  "map has_lm_head (build_assignments rs m ds bs) = map (\<lambda>i. Suc i = length rs) [0..<length rs]"
  by (rule nth_equalityI; simp add: nth_build_assignments Let_def)+

lemma tiling_error_sound:
  "tiling_error as s n = None \<Longrightarrow> s \<le> n \<and> concat (map layers_of as) = [s..<n] \<and> list_all (\<lambda>a. layers_of a \<noteq> []) as"
proof (induction as arbitrary: s)
  case Nil
  then show ?case by (simp split: if_splits)
next
  case (Cons a as)
  let ?e = "snd (layer_range a)"
  have a: "fst (layer_range a) = s" "s < ?e" "tiling_error as ?e n = None" using Cons.prems by (auto split: if_splits)
  then have "[s..<?e] @ [?e..<n] = [s..<n]" using Cons.IH [OF a(3)] upt_add_eq_append [of s ?e "n - ?e"] by simp
  then show ?case using Cons.IH [OF a(3)] a by (simp add: layers_of_def)
qed

lemma tiling_error_complete:
  "map layer_range as = splits_from es c n \<Longrightarrow> \<forall>r \<in> set (splits_from es c n). fst r < snd r \<Longrightarrow> tiling_error as c n = None"
  by (induction es arbitrary: as c) (auto simp: map_eq_Cons_conv)

lemma validate_built:
  "validate_partition (build_assignments rs m ds bs) n = Inr () \<longleftrightarrow> rs \<noteq> [] \<and> tiling_error (build_assignments rs m ds bs) 0 n = None"
proof (cases "rs = []")
  case True
  then show ?thesis by (simp add: validate_partition_def build_assignments_def)
next
  case False
  let ?as = "build_assignments rs m ds bs"
  have ne: "?as \<noteq> []" "0 < length rs" using False length_build_assignments [of rs m ds bs] by (metis length_0_conv, simp)
  have "List.find (\<lambda>i. stage_index (?as ! i) \<noteq> i) [0..<length ?as] = None"
    by (simp add: find_None_iff nth_build_assignments Let_def)
  moreover have "has_embedding (hd ?as)" "has_lm_head (last ?as)"
    using ne by (simp_all add: hd_conv_nth last_conv_nth nth_build_assignments Let_def)
  moreover have "List.find has_embedding (tl ?as) = None" "List.find has_lm_head (butlast ?as) = None"
    by (auto simp: find_None_iff in_set_conv_nth nth_tl nth_butlast nth_build_assignments Let_def)
  ultimately show ?thesis using ne False by (simp add: validate_partition_def split: option.splits)
qed

lemma memory_fit_iff:
  "validate_memory_fit as ds = Inr () \<longleftrightarrow> list_all2 (\<lambda>a d. estimated_memory_bytes a \<le> available_memory_bytes d) as ds"
proof -
  have "validate_memory_fit as ds = Inr () \<longleftrightarrow>
      length as = length ds \<and> List.find (\<lambda>(a, d). available_memory_bytes d < estimated_memory_bytes a) (zip as ds) = None"
    by (simp add: validate_memory_fit_def split: option.splits prod.splits)
  also have "\<dots> \<longleftrightarrow> list_all2 (\<lambda>a d. estimated_memory_bytes a \<le> available_memory_bytes d) as ds"
    unfolding find_None_iff list_all2_iff by fastforce
  finally show ?thesis .
qed

lemma layers_within:
  assumes "concat (map layers_of as) = [0..<n]" "a \<in> set as" "layers_of a \<noteq> []"
  shows "fst (layer_range a) < snd (layer_range a) \<and> snd (layer_range a) \<le> n"
proof -
  have lt: "fst (layer_range a) < snd (layer_range a)" using assms(3) by (simp add: layers_of_def)
  then have "snd (layer_range a) - 1 \<in> set (layers_of a)" by (auto simp: layers_of_def)
  then have "snd (layer_range a) - 1 \<in> set (concat (map layers_of as))" using assms(2) by auto
  then show ?thesis using lt assms(1) by auto
qed

text \<open>The estimate of a stage is its memory, up to saturation.\<close>

lemma estimate_exact:
  assumes "i < length rs" "fst (rs ! i) < snd (rs ! i)" "snd (rs ! i) \<le> profile_layers m"
  shows "estimated_memory_bytes (build_assignments rs m ds (effective_layer_bytes m) ! i)
    = min (stage_memory m (build_assignments rs m ds (effective_layer_bytes m) ! i)) u64_max"
proof -
  have add: "u64_add (min x u64_max) y = min (x + y) u64_max" for x y by (auto simp: u64_add_def min_def)
  have "fst (rs ! i) \<le> snd (rs ! i) \<and> snd (rs ! i) \<le> length (effective_layer_bytes m)" using assms by simp
  then show ?thesis using assms(1) by (auto simp: nth_build_assignments Let_def u64_sum_min add stage_memory_def stage_bytes_def)
qed

section \<open>A returned plan\<close>

text \<open>What both assembly functions have checked when they return.\<close>

lemma built_plan_valid:
  assumes "validate_partition plan (profile_layers m) = Inr ()" "validate_memory_fit plan ds = Inr ()"
    and plan: "plan = build_assignments rs m ds (effective_layer_bytes m)"
    and small: "\<forall>d \<in> set ds. available_memory_bytes d < u64_max"
  shows "plan_tiles (profile_layers m) plan \<and> plan_fits m ds plan"
proof
  have tiles: "rs \<noteq> []" "concat (map layers_of plan) = [0..<profile_layers m]" "list_all (\<lambda>a. layers_of a \<noteq> []) plan"
    using assms(1) validate_built tiling_error_sound unfolding plan by blast+
  then have "plan \<noteq> []" using plan length_build_assignments by (metis length_0_conv)
  then show "plan_tiles (profile_layers m) plan" using tiles plan by (simp add: plan_tiles_def build_assignments_fields)
  have fit: "list_all2 (\<lambda>a d. estimated_memory_bytes a \<le> available_memory_bytes d) plan ds" using assms(2) memory_fit_iff by blast
  show "plan_fits m ds plan" unfolding plan_fits_def
  proof (rule list_all2_all_nthI)
    show "length plan = length ds" using fit by (rule list_all2_lengthD)
    fix i assume i: "i < length plan"
    then have r: "fst (layer_range (plan ! i)) < snd (layer_range (plan ! i)) \<and> snd (layer_range (plan ! i)) \<le> profile_layers m"
      using layers_within [OF tiles(2), of "plan ! i"] tiles(3) by (simp add: list_all_length)
    have li: "layer_range (plan ! i) = rs ! i" "stage_device (plan ! i) = device_id (ds ! i)" "i < length rs"
      using i plan by (simp_all add: nth_build_assignments Let_def)
    have "min (stage_memory m (plan ! i)) u64_max \<le> available_memory_bytes (ds ! i)"
      using list_all2_nthD [OF fit i] estimate_exact [of i rs m ds] r li plan by simp
    moreover have "available_memory_bytes (ds ! i) < u64_max" using small i list_all2_lengthD [OF fit] by simp
    ultimately show "stage_device (plan ! i) = device_id (ds ! i) \<and> stage_memory m (plan ! i) \<le> available_memory_bytes (ds ! i)"
      using li(2) by linarith
  qed
qed

text \<open>C35: a pipeline plan that is returned, automatic or from a manual specification, is a partition of the layers: in order, every
  layer on exactly one stage and no stage empty, the embedding on the first stage only and the output head on the last only, and what
  each stage holds fits the memory of its device (on devices whose memory is not the largest 64-bit number, where sums saturate).\<close>

theorem pipeline_plan_sound:
  assumes "auto_partition m ds = Inr plan \<or> assemble_manual_partition rs m ds = Inr plan"
    and "\<forall>d \<in> set ds. available_memory_bytes d < u64_max"
  shows "plan_tiles (profile_layers m) plan \<and> plan_fits m ds plan"
proof -
  obtain qs where "validate_partition plan (profile_layers m) = Inr ()" "validate_memory_fit plan ds = Inr ()"
    "plan = build_assignments qs m ds (effective_layer_bytes m)"
    using assms(1)
    by (auto simp: auto_partition_def assemble_auto_partition_def assemble_manual_partition_def Let_def
        split: sum.splits if_splits option.splits prod.splits)
  then show ?thesis using assms(2) by (rule built_plan_valid)
qed

definition demo_device :: "nat \<Rightarrow> device_spec" where
  "demo_device b = \<lparr>device_id = ''gpu'', available_memory_bytes = b, compute_units = 0\<rparr>"

definition demo_profile :: "nat list \<Rightarrow> adjacency_group list \<Rightarrow> model_profile" where
  "demo_profile bs adj = \<lparr>profile_layers = length bs, layer_param_bytes = 0, embedding_param_bytes = 2, lm_head_param_bytes = 3,
     layer_bytes = Some bs, adjacency = adj\<rparr>"

definition demo_plan :: "stage_assignment list" where
  "demo_plan = [\<lparr>stage_index = 0, stage_device = ''gpu'', layer_range = (0, 2), has_embedding = True, has_lm_head = False,
       estimated_memory_bytes = 8\<rparr>,
     \<lparr>stage_index = 1, stage_device = ''gpu'', layer_range = (2, 3), has_embedding = False, has_lm_head = True,
       estimated_memory_bytes = 10\<rparr>]"

lemma demo_auto: "auto_partition (demo_profile [5, 1, 7] []) [demo_device 10, demo_device 20] = Inr demo_plan"
  by code_simp

theorem pipeline_plan_sound_witness:
  "plan_tiles 3 demo_plan \<and> plan_fits (demo_profile [5, 1, 7] []) [demo_device 10, demo_device 20] demo_plan"
  using pipeline_plan_sound [of "demo_profile [5, 1, 7] []" "[demo_device 10, demo_device 20]" demo_plan "[]", OF disjI1 [OF demo_auto]]
  by (simp add: demo_profile_def demo_device_def u64_max_def numeral_3_eq_3)

section \<open>Adjacency groups\<close>

lemma tiling_next: "tiling_error as s n = None \<Longrightarrow> a \<in> set as \<Longrightarrow> snd (layer_range a) = n \<or> (\<exists>b \<in> set as. fst (layer_range b) = snd (layer_range a))"
proof (induction as arbitrary: s)
  case Nil
  then show ?case by simp
next
  case (Cons c as)
  then have rest: "tiling_error as (snd (layer_range c)) n = None" by (auto split: if_splits)
  show ?case
  proof (cases "a \<in> set as")
    case True
    then show ?thesis using Cons.IH [OF rest] by auto
  next
    case False
    then have "a = c" using Cons.prems by simp
    then show ?thesis using rest by (cases as) (auto split: if_splits)
  qed
qed

text \<open>A manual plan that is accepted puts each adjacency group of the model on one stage.\<close>

lemma manual_plan_keeps_groups:
  assumes "assemble_manual_partition rs m ds = Inr plan" "g \<in> set (adjacency m)"
    "fst (group_layers g) < snd (group_layers g)" "snd (group_layers g) \<le> profile_layers m"
  shows "\<exists>a \<in> set plan. set [fst (group_layers g)..<snd (group_layers g)] \<subseteq> set (layers_of a)"
proof -
  let ?s = "fst (group_layers g)" and ?e = "snd (group_layers g)"
  have adj: "validate_adjacency rs (adjacency m) = Inr ()" and plan: "plan = build_assignments rs m ds (effective_layer_bytes m)"
    and "validate_partition plan (profile_layers m) = Inr ()"
    using assms(1) by (auto simp: assemble_manual_partition_def Let_def split: sum.splits if_splits)
  then have tile: "tiling_error plan 0 (profile_layers m) = None"
    using validate_built [of rs m ds "effective_layer_bytes m" "profile_layers m"] by simp
  have "?s \<in> set (concat (map layers_of plan))" using tiling_error_sound [OF tile] assms(3,4) by simp
  then obtain a where a: "a \<in> set plan" "?s \<in> set (layers_of a)" by auto
  have "List.find (\<lambda>g. fst (group_layers g) < snd (group_layers g)
      \<and> list_ex (\<lambda>(s, _). fst (group_layers g) < s \<and> s < snd (group_layers g)) rs) (adjacency m) = None"
    using adj by (simp add: validate_adjacency_def split: option.splits)
  then have "\<not> list_ex (\<lambda>(s, _). ?s < s \<and> s < ?e) rs" using assms(2,3) unfolding find_None_iff by blast
  then have "\<not> (?s < fst r \<and> fst r < ?e)" if "r \<in> set rs" for r using that by (auto simp: list_ex_iff)
  then have "\<not> (?s < fst (layer_range b) \<and> fst (layer_range b) < ?e)" if "b \<in> set plan" for b
    using that build_assignments_fields(2) [of rs m ds "effective_layer_bytes m"] plan by (metis image_eqI set_map)
  then have "?e \<le> snd (layer_range a)" using tiling_next [OF tile a(1)] a(2) assms(4) by (fastforce simp: layers_of_def)
  then have "set [?s..<?e] \<subseteq> set (layers_of a)" using a(2) by (auto simp: layers_of_def)
  then show ?thesis using a(1) by blast
qed

lemma demo_manual:
  "assemble_manual_partition [(0, 2), (2, 3)] (demo_profile [5, 1, 7] [\<lparr>group_layers = (0, 2), reason = ''kv''\<rparr>])
     [demo_device 10, demo_device 20] = Inr demo_plan"
  by code_simp

lemma manual_plan_keeps_groups_demo: "\<exists>a \<in> set demo_plan. {0, 1} \<subseteq> set (layers_of a)"
  using manual_plan_keeps_groups [OF demo_manual, of "\<lparr>group_layers = (0, 2), reason = ''kv''\<rparr>"]
  by (simp add: demo_profile_def numeral_2_eq_2 upt_rec)

text \<open>The automatic plan has no such check: two layers that must stay together are put on two devices.\<close>

lemma auto_plan_cuts_group:
  "map_sum id (map layer_range) (auto_partition (demo_profile [1, 1] [\<lparr>group_layers = (0, 2), reason = ''kv''\<rparr>])
     [demo_device 10, demo_device 10]) = Inr [(0, 1), (1, 2)]"
  by code_simp

text \<open>When no load is feasible, the uniform split may run past the last layer, and reading its prefix sum panics.\<close>

lemma auto_plan_panics:
  "auto_partition (demo_profile [1, 1, 1, 1, 1] [\<lparr>group_layers = (0, 5), reason = ''kv''\<rparr>])
     (map demo_device [2, 100, 100, 100, 100]) = Inl IndexPanic"
  by code_simp

text \<open>With budgets that not every layer fits, the sweep may miss a split that exists.\<close>

lemma auto_plan_misses_split:
  "is_split [5, 1, 100, 1] [6, 1, 101] [[5], [1], [100, 1]]
   \<and> auto_partition (demo_profile [5, 1, 100, 1] []) (map demo_device [8, 1, 104]) = Inl (StageOverflow 1)"
  by code_simp

section \<open>The automatic plan\<close>

lemma reserve_memory_exact:
  assumes "reserve_memory m ds = Inr budgets" "ds \<noteq> []"
  shows "length budgets = length ds \<and> (\<forall>i < length ds. budgets ! i + (if i = 0 then embedding_param_bytes m else 0)
    + (if Suc i = length ds then lm_head_param_bytes m else 0) = available_memory_bytes (ds ! i))"
proof -
  have "length ds = 1 \<or> 1 < length ds" using assms(2) by (cases ds) auto
  then show ?thesis using assms by (auto simp: reserve_memory_def Let_def nth_list_update not_less split: if_splits)
qed

lemma range_error_none:
  "list_all2 (stage_range_ok bs t) rs (drop i budgets) \<Longrightarrow> range_error bs budgets i rs = None"
proof (induction rs arbitrary: i)
  case Nil
  then show ?case by simp
next
  case (Cons r rs)
  then obtain b bs' where b: "drop i budgets = b # bs'" "stage_range_ok bs t r b" "list_all2 (stage_range_ok bs t) rs bs'"
    by (auto simp: list_all2_Cons1)
  have i: "budgets ! i = b" "drop (Suc i) budgets = bs'" using b(1) by (metis nth_via_drop, metis drop_Suc list.sel(3) tl_drop)
  have "range_error bs budgets (Suc i) rs = None" by (rule Cons.IH) (use b(3) i(2) in simp)
  then show ?case using b(2) i(1) by (cases r) (auto simp: stage_range_ok_def u64_sum_min chunk_def)
qed

text \<open>The checks after the balancer accept ranges that tile the layers within the budgets.\<close>

lemma assemble_accepts:
  assumes bal: "balance_layers (effective_layer_bytes m) budgets (forbidden_boundaries m) (adjacency m) = Inr (rs, ws)"
    and rs: "rs = splits_from es 0 (profile_layers m)" and ok: "list_all2 (stage_range_ok (effective_layer_bytes m) t) rs budgets"
    and res: "reserve_memory m ds = Inr budgets" and ds: "ds \<noteq> []" "length ds \<le> profile_layers m"
    and enough: "u64_sum (effective_layer_bytes m) \<le> u64_sum budgets"
  shows "auto_partition m ds = Inr (build_assignments rs m ds (effective_layer_bytes m))"
proof -
  let ?plan = "build_assignments rs m ds (effective_layer_bytes m)"
  have k: "length budgets = length ds" "length rs = length ds"
    using reserve_memory_exact [OF res ds(1)] list_all2_lengthD [OF ok] by simp_all
  have each: "\<forall>r \<in> set rs. fst r < snd r \<and> snd r \<le> profile_layers m" using stage_ranges_each [OF ok] by simp
  have "rs \<noteq> []" using k(2) ds(1) by auto
  moreover have "tiling_error ?plan 0 (profile_layers m) = None"
    using tiling_error_complete [of ?plan es 0 "profile_layers m"] each by (simp add: build_assignments_fields rs)
  ultimately have valid: "validate_partition ?plan (profile_layers m) = Inr ()" by (simp add: validate_built)
  have "list_all2 (\<lambda>a d. estimated_memory_bytes a \<le> available_memory_bytes d) ?plan ds"
  proof (rule list_all2_all_nthI)
    show "length ?plan = length ds" using k by simp
    fix i assume "i < length ?plan"
    then have i: "i < length rs" "i < length ds" using k by simp_all
    have r: "fst (rs ! i) < snd (rs ! i)" "snd (rs ! i) \<le> profile_layers m" using each nth_mem [OF i(1)] by blast+
    have "sum_list (stage_bytes m (?plan ! i)) \<le> budgets ! i"
      using list_all2_nthD [OF ok i(1)] i(1) by (simp add: stage_range_ok_def stage_bytes_def nth_build_assignments Let_def)
    then have "stage_memory m (?plan ! i) \<le> available_memory_bytes (ds ! i)"
      using reserve_memory_exact [OF res ds(1)] i k by (fastforce simp: stage_memory_def nth_build_assignments Let_def)
    then show "estimated_memory_bytes (?plan ! i) \<le> available_memory_bytes (ds ! i)"
      using estimate_exact [OF i(1) r] by simp
  qed
  then have "validate_memory_fit ?plan ds = Inr ()" by (simp add: memory_fit_iff)
  moreover have "range_error (effective_layer_bytes m) budgets 0 rs = None" by (rule range_error_none) (use ok in simp)
  moreover have "0 < profile_layers m" using ds by (cases ds) auto
  ultimately show ?thesis using valid bal res ds enough k
    by (auto simp: auto_partition_def assemble_auto_partition_def Let_def)
qed

text \<open>C34: the automatic partitioner finds the best plan. For a model without adjacency groups whose layers fit the budget of every
  stage, whenever some split of the layers into one non-empty chunk per device respects the budgets, a plan is returned, and no stage of
  it holds more layer bytes than the heaviest chunk of that split. With this the greedy sweep and the binary search are exact.\<close>

theorem auto_partition_optimal:
  assumes "adjacency m = []" "ds \<noteq> []" "reserve_memory m ds = Inr budgets" "sum_list (effective_layer_bytes m) \<le> u64_max"
    "\<forall>x \<in> set (effective_layer_bytes m). \<forall>b \<in> set budgets. x \<le> b" "is_split (effective_layer_bytes m) budgets cs"
  shows "\<exists>plan. auto_partition m ds = Inr plan \<and> max_load (map (stage_bytes m) plan) \<le> max_load cs"
proof -
  let ?bs = "effective_layer_bytes m"
  have k: "length budgets = length ds" using reserve_memory_exact [OF assms(3,2)] by simp
  then have ne: "budgets \<noteq> []" using assms(2) by auto
  have free: "forbidden_boundaries m = []" using assms(1) by (simp add: forbidden_boundaries_def)
  obtain es ws where bal: "balance_layers ?bs budgets [] [] = Inr (splits_from es 0 (profile_layers m), ws)"
    and ok: "list_all2 (stage_range_ok ?bs (max_load cs)) (splits_from es 0 (profile_layers m)) budgets"
    using balance_layers_optimal [OF assms(4,6) ne] assms(5) by auto
  have cs: "concat cs = ?bs" "[] \<notin> set cs" "list_all2 (\<lambda>c b. sum_list c \<le> b) cs budgets" using assms(6) by (auto simp: is_split_def)
  have "length ds \<le> profile_layers m"
    using nonempty_concat_length [OF cs(2)] list_all2_lengthD [OF cs(3)] k cs(1) by simp
  moreover have "sum_list (map sum_list cs) \<le> sum_list budgets" using cs(3) by (induction rule: list_all2_induct) auto
  then have "u64_sum ?bs \<le> u64_sum budgets" using sum_list_chunks [of cs] cs(1) by (simp add: u64_sum_min)
  ultimately have plan: "auto_partition m ds = Inr (build_assignments (splits_from es 0 (profile_layers m)) m ds ?bs)"
    using assemble_accepts [OF _ refl ok assms(3,2)] bal free assms(1) by simp
  let ?plan = "build_assignments (splits_from es 0 (profile_layers m)) m ds ?bs"
  have "layer_range a \<in> set (splits_from es 0 (profile_layers m))" if "a \<in> set ?plan" for a
    using that build_assignments_fields(2) by (metis image_eqI set_map)
  then have "max_load (map (stage_bytes m) ?plan) \<le> max_load cs"
    using stage_ranges_each [OF ok] by (simp add: max_load_le_iff stage_bytes_def)
  then show ?thesis using plan by blast
qed

theorem auto_partition_optimal_witness:
  "\<exists>plan. auto_partition (demo_profile [5, 1, 7] []) [demo_device 10, demo_device 20] = Inr plan
     \<and> max_load (map (stage_bytes (demo_profile [5, 1, 7] [])) plan) \<le> 8"
proof -
  have "reserve_memory (demo_profile [5, 1, 7] []) [demo_device 10, demo_device 20] = Inr [8, 17]" by code_simp
  moreover have "effective_layer_bytes (demo_profile [5, 1, 7] []) = [5, 1, 7]" by code_simp
  moreover have "is_split [5, 1, 7] [8, 17] [[5], [1, 7]]" by code_simp
  moreover have "max_load [[5], [1, 7]] = 8" by code_simp
  ultimately show ?thesis
    using auto_partition_optimal [of "demo_profile [5, 1, 7] []" "[demo_device 10, demo_device 20]" "[8, 17]" "[[5], [1, 7]]"]
    by (simp add: demo_profile_def u64_max_def)
qed

end
