(* ===== verification/Partition_Parse.thy ===== *)
theory Partition_Parse
  imports Pipeline_Partition
begin

text \<open>
  The \<open>--pp-layers\<close> specification is read back as written: decimal numbers, inclusive ranges and their separators.
\<close>

section \<open>Decimal numbers\<close>

definition digit :: "nat \<Rightarrow> char" where
  "digit d = char_of (48 + d)"

fun decimal :: "nat \<Rightarrow> string" where
  "decimal n = (if n < 10 then [digit n] else decimal (n div 10) @ [digit (n mod 10)])"

declare decimal.simps [simp del]

definition is_digit :: "char \<Rightarrow> bool" where
  "is_digit c \<longleftrightarrow> 48 \<le> (of_char c :: nat) \<and> (of_char c :: nat) \<le> 57"

lemma of_char_digit: "d < 10 \<Longrightarrow> (of_char (digit d) :: nat) = 48 + d"
  by (simp add: digit_def take_bit_nat_eq_self)

lemma of_char_digit_int: "d < 10 \<Longrightarrow> (of_char (digit d) :: int) = 48 + int d"
proof -
  assume "d < 10"
  then have "int (of_char (digit d)) = 48 + int d" by (simp add: of_char_digit)
  then show ?thesis by (simp add: of_nat_of_char)
qed

lemma decimal_digits: "c \<in> set (decimal n) \<Longrightarrow> is_digit c"
proof (induction n rule: decimal.induct)
  case (1 n)
  show ?case
  proof (cases "n < 10")
    case True
    then show ?thesis using "1.prems" by (simp add: decimal.simps [of n] is_digit_def of_char_digit)
  next
    case False
    then show ?thesis using "1.prems" "1.IH" [OF False] by (auto simp: decimal.simps [of n] is_digit_def of_char_digit)
  qed
qed

lemma decimal_not_empty: "decimal n \<noteq> []"
  by (simp add: decimal.simps [of n])

lemma decimal_value: "foldl (\<lambda>acc c. 10 * acc + ((of_char c :: int) - 48)) 0 (decimal n) = int n"
proof (induction n rule: decimal.induct)
  case (1 n)
  show ?case
  proof (cases "n < 10")
    case True
    then show ?thesis by (simp add: decimal.simps [of n] of_char_digit_int)
  next
    case False
    then have "10 * int (n div 10) + int (n mod 10) = int n" by presburger
    then show ?thesis using False "1.IH" [OF False] by (simp add: decimal.simps [of n] of_char_digit_int)
  qed
qed

lemma digits_value_decimal: "digits_value (decimal n) = Some (int n)"
  using decimal_value [of n] decimal_digits [of _ n] decimal_not_empty [of n]
  by (auto simp: digits_value_def list_all_iff is_digit_def)

lemma parse_usize_decimal: "n < 2 ^ 64 \<Longrightarrow> parse_usize (decimal n) = Some n"
proof -
  assume n: "n < 2 ^ 64"
  have "CHR ''+'' \<notin> set (decimal n)" using decimal_digits [of "CHR ''+''" n] by (auto simp: is_digit_def)
  then have "(case decimal n of c # rest \<Rightarrow> if c = CHR ''+'' then rest else decimal n | [] \<Rightarrow> []) = decimal n"
    using decimal_not_empty [of n] by (cases "decimal n") auto
  moreover have "int n < 2 ^ 64" using n by (metis of_nat_less_iff of_nat_numeral of_nat_power)
  ultimately show ?thesis by (simp add: parse_usize_def digits_value_decimal)
qed

section \<open>Texts\<close>

lemma trim_str_id: "\<forall>c \<in> set s. \<not> is_ascii_space c \<Longrightarrow> trim_str s = s"
  by (simp add: trim_str_def dropWhile_eq_self_iff) (metis dropWhile_eq_self_iff hd_in_set list.set_sel(1) rev_rev_ident set_rev)

fun join_with :: "'x \<Rightarrow> 'x list list \<Rightarrow> 'x list" where
  "join_with c [] = []"
| "join_with c [x] = x"
| "join_with c (x # y # ys) = x @ c # join_with c (y # ys)"

lemma split_on_none: "c \<notin> set x \<Longrightarrow> split_on c x = [x]"
  by (induction x) auto

lemma split_on_append: "c \<notin> set x \<Longrightarrow> split_on c (x @ c # ys) = x # split_on c ys"
  by (induction x) auto

lemma split_join: "xs \<noteq> [] \<Longrightarrow> \<forall>x \<in> set xs. c \<notin> set x \<Longrightarrow> split_on c (join_with c xs) = xs"
  by (induction c xs rule: join_with.induct) (auto simp: split_on_none split_on_append)

lemma set_join: "set (join_with c xs) \<subseteq> insert c (\<Union> (set ` set xs))"
  by (induction c xs rule: join_with.induct) auto

section \<open>The specification\<close>

definition print_range :: "range \<Rightarrow> string" where
  "print_range r = decimal (fst r) @ CHR ''-'' # decimal (snd r - 1)"

definition print_partition :: "range list \<Rightarrow> string" where
  "print_partition rs = join_with CHR '','' (map print_range rs)"

lemma print_range_chars: "c \<in> set (print_range r) \<Longrightarrow> is_digit c \<or> c = CHR ''-''"
  using decimal_digits by (auto simp: print_range_def)

lemma range_char_plain: "is_digit c \<or> c = CHR ''-'' \<or> c = CHR '','' \<Longrightarrow> \<not> is_ascii_space c"
  by (auto simp: is_digit_def is_ascii_space_def)

lemma parse_print_range:
  assumes "fst r < snd r" "snd r \<le> n" "n \<le> u64_max"
  shows "parse_part n i (print_range r) = Inr r"
proof -
  have plain: "trim_str s = s" if "\<forall>c \<in> set s. is_digit c \<or> c = CHR ''-''" for s
    using that by (intro trim_str_id ballI range_char_plain) blast
  have dash: "\<forall>c \<in> set (decimal k). c \<noteq> CHR ''-''" for k using decimal_digits [of "CHR ''-''" k] by (auto simp: is_digit_def)
  have "takeWhile (\<lambda>c. c \<noteq> CHR ''-'') (print_range r) = decimal (fst r)"
    "dropWhile (\<lambda>c. c \<noteq> CHR ''-'') (print_range r) = CHR ''-'' # decimal (snd r - 1)"
    using dash [of "fst r"] by (auto simp: print_range_def takeWhile_append dropWhile_append)
  moreover have "CHR ''-'' \<in> set (print_range r)" by (simp add: print_range_def)
  moreover have "trim_str (print_range r) = print_range r" using print_range_chars by (intro plain) blast
  moreover have "trim_str (decimal k) = decimal k" for k using decimal_digits by (intro plain) blast
  moreover have "parse_usize (decimal (fst r)) = Some (fst r)" "parse_usize (decimal (snd r - 1)) = Some (snd r - 1)"
    using assms by (auto intro!: parse_usize_decimal simp: u64_max_def)
  ultimately show ?thesis using assms by (cases r) (auto simp: parse_part_def Let_def)
qed

lemma parse_print_ranges:
  "\<forall>r \<in> set rs. fst r < snd r \<and> snd r \<le> n \<Longrightarrow> n \<le> u64_max \<Longrightarrow> parse_parts n i (map print_range rs) = Inr rs"
  by (induction rs arbitrary: i) (simp_all add: parse_print_range)

text \<open>C36: the manual specification of non-empty layer ranges within the model, written as inclusive decimal ranges separated by
  commas, is parsed back to exactly these ranges.\<close>

theorem manual_spec_round_trip:
  assumes "rs \<noteq> []" "\<forall>r \<in> set rs. fst r < snd r \<and> snd r \<le> n" "n \<le> u64_max"
  shows "parse_manual_partition (print_partition rs) n = Inr rs"
proof -
  have comma: "CHR '','' \<notin> set (print_range r)" for r using print_range_chars [of "CHR '',''" r] by (auto simp: is_digit_def)
  then have split: "split_on CHR '','' (print_partition rs) = map print_range rs"
    unfolding print_partition_def using assms(1) by (intro split_join) auto
  have "\<forall>c \<in> set (print_partition rs). \<not> is_ascii_space c"
    using set_join [of "CHR '',''" "map print_range rs"] print_range_chars unfolding print_partition_def
    by (intro ballI range_char_plain) fastforce
  then have "trim_str (print_partition rs) = print_partition rs" by (rule trim_str_id)
  moreover have "print_partition rs \<noteq> []" using assms(1) split by (cases rs) (auto simp: print_range_def)
  ultimately show ?thesis using split parse_print_ranges [OF assms(2,3)] by (simp add: parse_manual_partition_def Let_def)
qed

theorem manual_spec_round_trip_witness: "parse_manual_partition (print_partition [(0, 16), (16, 32)]) 32 = Inr [(0, 16), (16, 32)]"
  by (rule manual_spec_round_trip) (simp_all add: u64_max_def)

end
