(* ===== verification/Pipeline_Schedule.thy ===== *)
theory Pipeline_Schedule
  imports Mlxcel_Prelude
begin

text \<open>
  Micro-batches and the GPipe schedule: \<open>src/src/distributed/pipeline/{micro_batch,schedule}.rs\<close>.

  Stage indices and micro-batch ids are \<open>u32\<close>; a cast to \<open>u32\<close> is the remainder by \<open>2 ^ 32\<close>. A \<open>HashSet\<close> of ids is a list without
  repetitions, of which the code only uses membership and the number of elements.
\<close>

definition as_u32 :: "nat \<Rightarrow> nat" where
  "as_u32 n = n mod 2 ^ 32"

lemma as_u32_id [simp]: "n < 2 ^ 32 \<Longrightarrow> as_u32 n = n"
  by (simp add: as_u32_def)

section \<open>Micro-batches\<close>

datatype micro_batch_error = ZeroBatch | ZeroMicroBatch | TooFewStages | NoMicroBatch

record micro_batch_spec =
  spec_id :: nat
  start_index :: nat
  end_index :: nat
  spec_size :: nat

record micro_batch =
  mb_spec :: micro_batch_spec
  request_ids :: "string list"
  current_stage :: nat
  completed :: bool

definition micro_batch_new :: "micro_batch_spec \<Rightarrow> string list \<Rightarrow> micro_batch" where
  "micro_batch_new s rs = \<lparr>mb_spec = s, request_ids = rs, current_stage = 0, completed = False\<rparr>"

definition advance_stage :: "micro_batch \<Rightarrow> micro_batch" where
  "advance_stage m = m\<lparr>current_stage := as_u32 (current_stage m + 1)\<rparr>"

definition mark_completed :: "micro_batch \<Rightarrow> micro_batch" where
  "mark_completed m = m\<lparr>completed := True\<rparr>"

fun micro_batches_from :: "nat \<Rightarrow> nat \<Rightarrow> nat list \<Rightarrow> nat \<Rightarrow> micro_batch_spec list" where
  "micro_batches_from batch_size micro_size [] start = []"
| "micro_batches_from batch_size micro_size (i # is) start =
     (let e = min (start + micro_size) batch_size
      in \<lparr>spec_id = as_u32 i, start_index = start, end_index = e, spec_size = e - start\<rparr>
         # micro_batches_from batch_size micro_size is e)"

definition split_into_micro_batches :: "nat \<Rightarrow> nat \<Rightarrow> micro_batch_error + micro_batch_spec list" where
  "split_into_micro_batches batch_size micro_size =
     (if batch_size = 0 then Inl ZeroBatch
      else if micro_size = 0 then Inl ZeroMicroBatch
      else Inr (micro_batches_from batch_size micro_size [0..<div_ceil batch_size micro_size] 0))"

definition suggested_micro_batch_size :: "nat \<Rightarrow> nat \<Rightarrow> nat" where
  "suggested_micro_batch_size batch_size num =
     (if batch_size = 0 \<or> num = 0 then 1
      else min (max (div_ceil batch_size (max (min (num * 2) u64_max) 1)) 1) batch_size)"

text \<open>The micro-batches tile the batch in order, and none is empty or larger than asked for.\<close>

definition mb_indices :: "micro_batch_spec \<Rightarrow> nat list" where
  "mb_indices s = [start_index s..<end_index s]"

lemma micro_batches_from_tile:
  assumes "0 < micro" "start + length is * micro < sz + micro" "sz \<le> start + length is * micro" "start \<le> sz"
  shows "concat (map mb_indices (micro_batches_from sz micro is start)) = [start..<sz]
    \<and> list_all (\<lambda>s. mb_indices s \<noteq> [] \<and> spec_size s = length (mb_indices s) \<and> spec_size s \<le> micro) (micro_batches_from sz micro is start)"
  using assms(2-)
proof (induction "is" arbitrary: start)
  case Nil
  then show ?case by simp
next
  case (Cons i "is")
  let ?e = "min (start + micro) sz"
  have lt: "start < sz" using Cons.prems(1) assms(1) by (simp add: algebra_simps)
  have "concat (map mb_indices (micro_batches_from sz micro is ?e)) = [?e..<sz]
    \<and> list_all (\<lambda>s. mb_indices s \<noteq> [] \<and> spec_size s = length (mb_indices s) \<and> spec_size s \<le> micro) (micro_batches_from sz micro is ?e)"
  proof (cases "is = []")
    case True
    then show ?thesis using Cons.prems by simp
  next
    case False
    then have m: "micro \<le> length is * micro" by (cases "is") auto
    have "start + length is * micro < sz" using Cons.prems(1) by simp
    then have "?e = start + micro" using m by linarith
    then show ?thesis using Cons.IH [of ?e] Cons.prems by (simp add: algebra_simps)
  qed
  moreover have "[start..<?e] @ [?e..<sz] = [start..<sz]"
    using upt_add_eq_append [of start ?e "sz - ?e"] lt by simp
  moreover have "mb_indices \<lparr>spec_id = as_u32 i, start_index = start, end_index = ?e, spec_size = ?e - start\<rparr> = [start..<?e]"
    by (simp add: mb_indices_def)
  moreover have "[start..<?e] \<noteq> []" "?e - start \<le> micro" using lt assms(1) by auto
  ultimately show ?case by (simp add: Let_def)
qed

lemma micro_batches_tile:
  assumes "split_into_micro_batches sz micro = Inr specs"
  shows "concat (map mb_indices specs) = [0..<sz] \<and> length specs = div_ceil sz micro
    \<and> list_all (\<lambda>s. mb_indices s \<noteq> [] \<and> spec_size s = length (mb_indices s) \<and> spec_size s \<le> micro) specs"
proof -
  have len: "length (micro_batches_from a b is c) = length is" for a b "is" c by (induction "is" arbitrary: c) (auto simp: Let_def)
  have pos: "0 < sz" "0 < micro" and specs: "specs = micro_batches_from sz micro [0..<div_ceil sz micro] 0"
    using assms by (auto simp: split_into_micro_batches_def split: if_splits)
  have "sz \<le> div_ceil sz micro * micro" using div_ceil_le_iff [OF pos(2), of sz "div_ceil sz micro"] by simp
  moreover have "\<not> sz \<le> (div_ceil sz micro - 1) * micro"
    using div_ceil_le_iff [OF pos(2), of sz "div_ceil sz micro - 1"] div_ceil_le_iff [OF pos(2), of sz 0] pos(1) by linarith
  then have "div_ceil sz micro * micro < sz + micro" by (cases "div_ceil sz micro") auto
  ultimately show ?thesis using micro_batches_from_tile [OF pos(2), of 0 "[0..<div_ceil sz micro]" sz] len specs by simp
qed

section \<open>The schedule\<close>

record pipeline_config =
  cfg_stages :: nat
  micro_batch_size :: nat
  max_in_flight :: nat

definition pipeline_config_new :: "nat \<Rightarrow> nat \<Rightarrow> micro_batch_error + pipeline_config" where
  "pipeline_config_new n m =
     (if \<not> 2 \<le> n then Inl TooFewStages else if \<not> 0 < m then Inl ZeroMicroBatch
      else Inr \<lparr>cfg_stages = n, micro_batch_size = m, max_in_flight = 0\<rparr>)"

definition with_max_in_flight :: "pipeline_config \<Rightarrow> nat \<Rightarrow> pipeline_config" where
  "with_max_in_flight c n = c\<lparr>max_in_flight := n\<rparr>"

datatype schedule_action = Forward nat nat | Receive nat nat | Flush nat | Idle | Done

record gpipe_schedule =
  gp_config :: pipeline_config
  num_micro_batches :: nat
  mb_completed_stage :: "nat option list"
  ready_to_flush :: "nat list"
  flushed :: "nat list"
  done_sequences :: "nat list"
  action_queue :: "schedule_action list"
  initial_actions_generated :: bool

definition gpipe_new :: "pipeline_config \<Rightarrow> nat \<Rightarrow> micro_batch_error + gpipe_schedule" where
  "gpipe_new c n =
     (if n = 0 then Inl NoMicroBatch
      else Inr \<lparr>gp_config = c, num_micro_batches = n, mb_completed_stage = replicate n None, ready_to_flush = [], flushed = [],
                done_sequences = [], action_queue = [], initial_actions_generated = False\<rparr>)"

definition generate_initial_actions :: "gpipe_schedule \<Rightarrow> gpipe_schedule" where
  "generate_initial_actions g =
     g\<lparr>action_queue := action_queue g @ map (Forward 0) [0..<num_micro_batches g], initial_actions_generated := True\<rparr>"

definition schedule_next_forward :: "gpipe_schedule \<Rightarrow> nat \<Rightarrow> nat \<Rightarrow> gpipe_schedule" where
  "schedule_next_forward g s mb =
     (let next_stage = s + 1
      in if next_stage < cfg_stages (gp_config g)
         then g\<lparr>action_queue := action_queue g @ [Receive next_stage mb, Forward next_stage mb]\<rparr>
         else g\<lparr>ready_to_flush := ready_to_flush g @ [mb], action_queue := action_queue g @ [Flush mb]\<rparr>)"

definition in_flight :: "gpipe_schedule \<Rightarrow> nat" where
  "in_flight g = length (filter (\<lambda>s. s \<noteq> None) (mb_completed_stage g)) - length (flushed g)"

definition is_complete :: "gpipe_schedule \<Rightarrow> bool" where
  "is_complete g \<longleftrightarrow> length (flushed g) = num_micro_batches g"

definition next_action :: "gpipe_schedule \<Rightarrow> schedule_action \<times> gpipe_schedule" where
  "next_action g =
     (let g1 = (if \<not> initial_actions_generated g then generate_initial_actions g else g)
      in case action_queue g1 of
           a # q \<Rightarrow> (a, g1\<lparr>action_queue := q\<rparr>)
         | [] \<Rightarrow> (if is_complete g1 then Done else Idle, g1))"

definition notify_forward_complete :: "gpipe_schedule \<Rightarrow> nat \<Rightarrow> nat \<Rightarrow> gpipe_schedule" where
  "notify_forward_complete g s mb =
     (if cfg_stages (gp_config g) \<le> s \<or> num_micro_batches g \<le> mb then g
      else schedule_next_forward (g\<lparr>mb_completed_stage := (mb_completed_stage g)[mb := Some s]\<rparr>) s mb)"

definition notify_flush_complete :: "gpipe_schedule \<Rightarrow> nat \<Rightarrow> gpipe_schedule" where
  "notify_flush_complete g mb =
     (if num_micro_batches g \<le> mb then g
      else g\<lparr>ready_to_flush := filter (\<lambda>i. i \<noteq> mb) (ready_to_flush g), flushed := List.insert mb (flushed g)\<rparr>)"

definition mark_sequence_done :: "gpipe_schedule \<Rightarrow> nat \<Rightarrow> gpipe_schedule" where
  "mark_sequence_done g mb = g\<lparr>done_sequences := List.insert mb (done_sequences g)\<rparr>"

definition create_gpipe_schedule :: "pipeline_config \<Rightarrow> nat \<Rightarrow> micro_batch_error + gpipe_schedule" where
  "create_gpipe_schedule c batch_size =
     (if batch_size = 0 then Inl ZeroBatch else gpipe_new c (as_u32 (div_ceil batch_size (micro_batch_size c))))"

text \<open>The notification that the executor sends after an action.\<close>

fun notify :: "schedule_action \<Rightarrow> gpipe_schedule \<Rightarrow> gpipe_schedule" where
  "notify (Forward s mb) g = notify_forward_complete g s mb"
| "notify (Flush mb) g = notify_flush_complete g mb"
| "notify _ g = g"

text \<open>The guard against a flush of a micro-batch that is not ready is missing: a fresh schedule is complete after it.\<close>

lemma premature_flush_completes:
  "\<exists>g. gpipe_new \<lparr>cfg_stages = 2, micro_batch_size = 1, max_in_flight = 0\<rparr> 1 = Inr g \<and> ready_to_flush g = []
     \<and> is_complete (notify_flush_complete g 0)"
  by (simp add: gpipe_new_def notify_flush_complete_def is_complete_def)

section \<open>The order of the actions\<close>

text \<open>What a completed action adds to the queue, and the wave of actions of one stage.\<close>

fun successors :: "nat \<Rightarrow> schedule_action \<Rightarrow> schedule_action list" where
  "successors n (Forward s mb) = (if s + 1 < n then [Receive (s + 1) mb, Forward (s + 1) mb] else [Flush mb])"
| "successors n _ = []"

definition wave :: "nat \<Rightarrow> nat list \<Rightarrow> schedule_action list" where
  "wave s mbs = (if s = 0 then map (Forward 0) mbs else concat (map (\<lambda>mb. [Receive s mb, Forward s mb]) mbs))"

definition waves :: "nat \<Rightarrow> nat list \<Rightarrow> nat list \<Rightarrow> schedule_action list" where
  "waves n ss mbs = concat (map (\<lambda>s. wave s mbs) ss) @ map Flush mbs"

lemma successors_wave:
  "concat (map (successors n) (wave s mbs)) = (if s + 1 < n then wave (s + 1) mbs else map Flush mbs)"
  by (induction mbs) (auto simp: wave_def)

definition pending :: "nat \<Rightarrow> nat \<Rightarrow> schedule_action list \<Rightarrow> nat list \<Rightarrow> gpipe_schedule \<Rightarrow> bool" where
  "pending n k q fl g \<longleftrightarrow> cfg_stages (gp_config g) = n \<and> num_micro_batches g = k \<and> initial_actions_generated g
     \<and> action_queue g = q \<and> set (flushed g) = set fl \<and> distinct (flushed g)"

fun in_bounds :: "nat \<Rightarrow> nat \<Rightarrow> schedule_action \<Rightarrow> bool" where
  "in_bounds n k (Forward s mb) = (s < n \<and> mb < k)"
| "in_bounds n k (Receive s mb) = (s < n \<and> mb < k)"
| "in_bounds n k (Flush mb) = (mb < k)"
| "in_bounds n k _ = False"

fun flushes :: "schedule_action \<Rightarrow> nat list" where
  "flushes (Flush mb) = [mb]"
| "flushes _ = []"

lemma pending_step:
  assumes "pending n k (a # q) fl g" "in_bounds n k a"
  shows "\<exists>g'. next_action g = (a, g') \<and> pending n k (q @ successors n a) (flushes a @ fl) (notify a g')"
  using assms by (cases a) (auto simp: pending_def next_action_def notify_forward_complete_def notify_flush_complete_def
      schedule_next_forward_def Let_def distinct_insert)

lemma pending_done:
  assumes "pending n k [] fl g" "set fl = {0..<k}"
  shows "\<exists>g'. next_action g = (Done, g')"
proof -
  have "length (flushed g) = k" using assms distinct_card [of "flushed g"] by (simp add: pending_def)
  then show ?thesis using assms by (simp add: pending_def next_action_def is_complete_def)
qed

lemma waves_in_bounds: "a \<in> set (waves n ss [0..<k]) \<Longrightarrow> \<forall>s \<in> set ss. s < n \<Longrightarrow> in_bounds n k a"
  by (auto simp: waves_def wave_def split: if_splits)

end
