(* ===== verification/Stage_Worker.thy ===== *)
theory Stage_Worker
  imports Pipeline_Schedule
begin

text \<open>
  The in-process pipeline: activation messages and channels (\<open>src/src/distributed/pipeline/activation_transfer.rs\<close>), the stage workers
  and the loop that runs a schedule over them (\<open>stage_worker.rs\<close>).

  Tensors, their wire bytes and the KV caches of a stage are open types. The stage executor is a trait object: its methods are a record,
  with the caches it mutates returned beside its result. The tensor codec of \<open>wire_tensor.rs\<close> is the record \<open>wire_ops\<close>. The two ends
  of a channel share its queue, so a worker holds the index of the channel in the lists of forward and reverse links. The timestamp of a
  message, used for latency figures only, is left out. What an operation has changed before it fails stays changed.
\<close>

section \<open>Messages and channels\<close>

datatype run_error =
    NoForwardLink nat | NoPendingForward nat nat | ReverseOnForward nat | ForwardMismatch nat nat nat | MissingInput nat
  | NoReceivedActivation nat nat | ExecuteFailed | NoDownstreamLink nat | ChannelFull | NoCompletedOutput nat nat | NoUpstreamLink nat
  | NoReverseLink nat | NoPendingReverse nat nat | ForwardOnReverse nat | ReverseMismatch nat nat nat | NoFlushedOutput nat
  | WireFailed | NoInputs | OutputCount nat nat | StageCount nat nat | WorkerIndexPanic

record 'b activation_message =
  msg_request :: string
  msg_micro_batch :: nat
  msg_stage :: nat
  msg_num_stages :: nat
  tensor_data :: 'b
  msg_mask :: "'b option"
  msg_position_ids :: "'b option"
  is_reverse_path :: bool
  msg_seq_len :: nat

definition message_forward :: "string \<Rightarrow> nat \<Rightarrow> nat \<Rightarrow> nat \<Rightarrow> 'b \<Rightarrow> 'b option \<Rightarrow> 'b option \<Rightarrow> nat \<Rightarrow> 'b activation_message" where
  "message_forward req mb s n d msk pos sl = \<lparr>msg_request = req, msg_micro_batch = mb, msg_stage = s, msg_num_stages = n,
     tensor_data = d, msg_mask = msk, msg_position_ids = pos, is_reverse_path = False, msg_seq_len = sl\<rparr>"

definition message_reverse :: "string \<Rightarrow> nat \<Rightarrow> nat \<Rightarrow> nat \<Rightarrow> 'b \<Rightarrow> nat \<Rightarrow> 'b activation_message" where
  "message_reverse req mb s n d sl = \<lparr>msg_request = req, msg_micro_batch = mb, msg_stage = s, msg_num_stages = n,
     tensor_data = d, msg_mask = None, msg_position_ids = None, is_reverse_path = True, msg_seq_len = sl\<rparr>"

record 'm channel =
  ch_capacity :: nat
  ch_queue :: "'m list"

definition activation_channel :: "nat \<Rightarrow> 'm channel" where
  "activation_channel cap = \<lparr>ch_capacity = max cap 1, ch_queue = []\<rparr>"

definition try_send :: "'m channel \<Rightarrow> 'm \<Rightarrow> run_error + 'm channel" where
  "try_send ch msg = (if length (ch_queue ch) < ch_capacity ch then Inr (ch\<lparr>ch_queue := ch_queue ch @ [msg]\<rparr>) else Inl ChannelFull)"

definition try_recv :: "'m channel \<Rightarrow> 'm option \<times> 'm channel" where
  "try_recv ch = (case ch_queue ch of [] \<Rightarrow> (None, ch) | m # q \<Rightarrow> (Some m, ch\<lparr>ch_queue := q\<rparr>))"

section \<open>Workers\<close>

datatype 'a stage_input = TokenIds 'a | HiddenInput 'a

datatype 'a stage_output = HiddenStates 'a | Logits 'a

record ('a, 'c) stage_executor =
  make_caches :: 'c
  execute :: "'a stage_input \<Rightarrow> 'c \<Rightarrow> 'a option \<Rightarrow> (run_error + 'a stage_output) \<times> 'c"

record ('a, 'b) wire_ops =
  serialize_mlx_array :: "'a \<Rightarrow> run_error + 'b"
  deserialize_wire_tensor :: "'b \<Rightarrow> run_error + 'a"
  sequence_length :: "'a \<Rightarrow> run_error + nat"

record 'a worker_input =
  in_request :: string
  in_ids :: 'a
  in_mask :: "'a option"

record 'a inbox_entry =
  ib_request :: string
  ib_hidden :: 'a
  ib_mask :: "'a option"

record ('a, 'b, 'c) stage_worker =
  w_stage :: nat
  w_num_stages :: nat
  w_executor :: "('a, 'c) stage_executor"
  caches_by_request :: "(string, 'c) hmap"
  forward_inbox :: "(nat, 'a inbox_entry) hmap"
  completed_last_stage :: "(nat, 'b activation_message) hmap"
  completed_entry_stage :: "(nat, string \<times> 'a) hmap"
  incoming_forward :: "nat option"
  outgoing_forward :: "nat option"
  incoming_reverse :: "nat option"
  outgoing_reverse :: "nat option"

record ('a, 'b, 'c) worker_loop =
  loop_config :: pipeline_config
  workers :: "('a, 'b, 'c) stage_worker list"
  fwd_links :: "'b activation_message channel list"
  rev_links :: "'b activation_message channel list"

type_synonym ('a, 'b, 'c) loop_result = "(run_error + unit) \<times> ('a, 'b, 'c) worker_loop"

definition worker_new :: "nat \<Rightarrow> nat \<Rightarrow> ('a, 'c) stage_executor \<Rightarrow> ('a, 'b, 'c) stage_worker" where
  "worker_new n s ex = \<lparr>w_stage = s, w_num_stages = n, w_executor = ex, caches_by_request = [], forward_inbox = [],
     completed_last_stage = [], completed_entry_stage = [],
     incoming_forward = (if s = 0 then None else Some (s - 1)), outgoing_forward = (if s + 1 = n then None else Some s),
     incoming_reverse = (if s + 1 = n then None else Some s), outgoing_reverse = (if s = 0 then None else Some (s - 1))\<rparr>"

definition loop_new :: "pipeline_config \<Rightarrow> ('a, 'c) stage_executor list \<Rightarrow> nat \<Rightarrow> run_error + ('a, 'b, 'c) worker_loop" where
  "loop_new c exs cap =
     (if cfg_stages c \<noteq> length exs then Inl (StageCount (cfg_stages c) (length exs))
      else Inr \<lparr>loop_config = c, workers = map (\<lambda>(s, ex). worker_new (cfg_stages c) s ex) (List.enumerate 0 exs),
                fwd_links = replicate (length exs - 1) (activation_channel cap),
                rev_links = replicate (length exs - 1) (activation_channel cap)\<rparr>)"

definition set_worker :: "('a, 'b, 'c) worker_loop \<Rightarrow> nat \<Rightarrow> ('a, 'b, 'c) stage_worker \<Rightarrow> ('a, 'b, 'c) worker_loop" where
  "set_worker L s w = L\<lparr>workers := (workers L)[s := w]\<rparr>"

definition worker_release_request :: "('a, 'b, 'c) stage_worker \<Rightarrow> string \<Rightarrow> ('a, 'b, 'c) stage_worker" where
  "worker_release_request w req = w\<lparr>caches_by_request := hm_remove req (caches_by_request w)\<rparr>"

definition release_request :: "('a, 'b, 'c) worker_loop \<Rightarrow> string \<Rightarrow> ('a, 'b, 'c) worker_loop" where
  "release_request L req = L\<lparr>workers := map (\<lambda>w. worker_release_request w req) (workers L)\<rparr>"

fun transpose_option :: "('x \<Rightarrow> run_error + 'y) \<Rightarrow> 'x option \<Rightarrow> run_error + 'y option" where
  "transpose_option f None = Inr None"
| "transpose_option f (Some x) = (case f x of Inl e \<Rightarrow> Inl e | Inr y \<Rightarrow> Inr (Some y))"

definition receive_forward :: "('a, 'b) wire_ops \<Rightarrow> ('a, 'b, 'c) worker_loop \<Rightarrow> nat \<Rightarrow> nat \<Rightarrow> ('a, 'b, 'c) loop_result" where
  "receive_forward ops L s mb =
     (let w = workers L ! s in
      case incoming_forward w of
        None \<Rightarrow> (Inl (NoForwardLink (w_stage w)), L)
      | Some l \<Rightarrow>
          (case try_recv (fwd_links L ! l) of
             (None, _) \<Rightarrow> (Inl (NoPendingForward (w_stage w) mb), L)
           | (Some msg, ch) \<Rightarrow>
               let L1 = L\<lparr>fwd_links := (fwd_links L)[l := ch]\<rparr> in
               if is_reverse_path msg then (Inl (ReverseOnForward (w_stage w)), L1)
               else if msg_micro_batch msg \<noteq> mb then (Inl (ForwardMismatch (w_stage w) (msg_micro_batch msg) mb), L1)
               else (case deserialize_wire_tensor ops (tensor_data msg) of
                  Inl e \<Rightarrow> (Inl e, L1)
                | Inr hidden \<Rightarrow>
                    (case transpose_option (deserialize_wire_tensor ops) (msg_mask msg) of
                       Inl e \<Rightarrow> (Inl e, L1)
                     | Inr msk \<Rightarrow>
                         (Inr (), set_worker L1 s (w\<lparr>forward_inbox :=
                            hm_insert mb \<lparr>ib_request = msg_request msg, ib_hidden = hidden, ib_mask = msk\<rparr> (forward_inbox w)\<rparr>))))))"

text \<open>The end of \<open>forward\<close>: what the stage has computed leaves for the next stage or waits for the flush.\<close>

definition forward_output ::
  "('a, 'b) wire_ops \<Rightarrow> ('a, 'b, 'c) worker_loop \<Rightarrow> nat \<Rightarrow> nat \<Rightarrow> string \<Rightarrow> 'a option \<Rightarrow> 'a stage_output \<Rightarrow> ('a, 'b, 'c) loop_result" where
  "forward_output ops L s mb req msk out =
     (let w = workers L ! s in
      case out of
        HiddenStates hidden \<Rightarrow>
          (case outgoing_forward w of
             None \<Rightarrow> (Inl (NoDownstreamLink (w_stage w)), L)
           | Some l \<Rightarrow>
               (case sequence_length ops hidden of
                  Inl e \<Rightarrow> (Inl e, L)
                | Inr sl \<Rightarrow>
                    (case serialize_mlx_array ops hidden of
                       Inl e \<Rightarrow> (Inl e, L)
                     | Inr d \<Rightarrow>
                         (case transpose_option (serialize_mlx_array ops) msk of
                            Inl e \<Rightarrow> (Inl e, L)
                          | Inr mk \<Rightarrow>
                              (case try_send (fwd_links L ! l) (message_forward req mb (w_stage w) (w_num_stages w) d mk None sl) of
                                 Inl e \<Rightarrow> (Inl e, L)
                               | Inr ch \<Rightarrow> (Inr (), L\<lparr>fwd_links := (fwd_links L)[l := ch]\<rparr>))))))
      | Logits logits \<Rightarrow>
          (case sequence_length ops logits of
             Inl e \<Rightarrow> (Inl e, L)
           | Inr sl \<Rightarrow>
               (case serialize_mlx_array ops logits of
                  Inl e \<Rightarrow> (Inl e, L)
                | Inr d \<Rightarrow>
                    (Inr (), set_worker L s (w\<lparr>completed_last_stage :=
                       hm_insert mb (message_reverse req mb (w_stage w) (w_num_stages w) d sl) (completed_last_stage w)\<rparr>)))))"

text \<open>The caches of a request are made at its first use; the executor mutates them.\<close>

definition run_executor ::
  "('a, 'b) wire_ops \<Rightarrow> ('a, 'b, 'c) worker_loop \<Rightarrow> nat \<Rightarrow> nat \<Rightarrow> string \<Rightarrow> 'a stage_input \<Rightarrow> 'a option \<Rightarrow> ('a, 'b, 'c) loop_result" where
  "run_executor ops L s mb req inp msk =
     (let w = workers L ! s;
          c = (case hm_get (caches_by_request w) req of Some c \<Rightarrow> c | None \<Rightarrow> make_caches (w_executor w))
      in case execute (w_executor w) inp c msk of
           (res, c1) \<Rightarrow>
             let L1 = set_worker L s (w\<lparr>caches_by_request := hm_insert req c1 (caches_by_request w)\<rparr>)
             in (case res of Inl e \<Rightarrow> (Inl e, L1) | Inr out \<Rightarrow> forward_output ops L1 s mb req msk out))"

definition worker_forward ::
  "('a, 'b) wire_ops \<Rightarrow> ('a, 'b, 'c) worker_loop \<Rightarrow> nat \<Rightarrow> nat \<Rightarrow> 'a worker_input option \<Rightarrow> ('a, 'b, 'c) loop_result" where
  "worker_forward ops L s mb request =
     (let w = workers L ! s in
      if w_stage w = 0
      then (case request of
              None \<Rightarrow> (Inl (MissingInput mb), L)
            | Some r \<Rightarrow> run_executor ops L s mb (in_request r) (TokenIds (in_ids r)) (in_mask r))
      else (case hm_get (forward_inbox w) mb of
              None \<Rightarrow> (Inl (NoReceivedActivation (w_stage w) mb), L)
            | Some i \<Rightarrow>
                run_executor ops (set_worker L s (w\<lparr>forward_inbox := hm_remove mb (forward_inbox w)\<rparr>)) s mb (ib_request i)
                  (HiddenInput (ib_hidden i))
                  (case Option.bind request in_mask of Some m \<Rightarrow> Some m | None \<Rightarrow> ib_mask i)))"

definition begin_reverse_flush :: "('a, 'b, 'c) worker_loop \<Rightarrow> nat \<Rightarrow> nat \<Rightarrow> ('a, 'b, 'c) loop_result" where
  "begin_reverse_flush L s mb =
     (let w = workers L ! s in
      case hm_get (completed_last_stage w) mb of
        None \<Rightarrow> (Inl (NoCompletedOutput (w_stage w) mb), L)
      | Some msg \<Rightarrow>
          let L1 = set_worker L s (w\<lparr>completed_last_stage := hm_remove mb (completed_last_stage w)\<rparr>) in
          (case outgoing_reverse w of
             None \<Rightarrow> (Inl (NoUpstreamLink (w_stage w)), L1)
           | Some l \<Rightarrow>
               (case try_send (rev_links L1 ! l) msg of
                  Inl e \<Rightarrow> (Inl e, L1)
                | Inr ch \<Rightarrow> (Inr (), L1\<lparr>rev_links := (rev_links L1)[l := ch]\<rparr>))))"

definition relay_reverse :: "('a, 'b) wire_ops \<Rightarrow> ('a, 'b, 'c) worker_loop \<Rightarrow> nat \<Rightarrow> nat \<Rightarrow> ('a, 'b, 'c) loop_result" where
  "relay_reverse ops L s mb =
     (let w = workers L ! s in
      case incoming_reverse w of
        None \<Rightarrow> (Inl (NoReverseLink (w_stage w)), L)
      | Some l \<Rightarrow>
          (case try_recv (rev_links L ! l) of
             (None, _) \<Rightarrow> (Inl (NoPendingReverse (w_stage w) mb), L)
           | (Some msg, ch) \<Rightarrow>
               let L1 = L\<lparr>rev_links := (rev_links L)[l := ch]\<rparr> in
               if \<not> is_reverse_path msg then (Inl (ForwardOnReverse (w_stage w)), L1)
               else if msg_micro_batch msg \<noteq> mb then (Inl (ReverseMismatch (w_stage w) (msg_micro_batch msg) mb), L1)
               else (case outgoing_reverse w of
                  Some l2 \<Rightarrow>
                    (case try_send (rev_links L1 ! l2) msg of
                       Inl e \<Rightarrow> (Inl e, L1)
                     | Inr ch2 \<Rightarrow> (Inr (), L1\<lparr>rev_links := (rev_links L1)[l2 := ch2]\<rparr>))
                | None \<Rightarrow>
                    (case deserialize_wire_tensor ops (tensor_data msg) of
                       Inl e \<Rightarrow> (Inl e, L1)
                     | Inr logits \<Rightarrow>
                         (Inr (), set_worker L1 s (w\<lparr>completed_entry_stage :=
                            hm_insert mb (msg_request msg, logits) (completed_entry_stage w)\<rparr>))))))"

fun relay_all :: "('a, 'b) wire_ops \<Rightarrow> nat \<Rightarrow> nat list \<Rightarrow> ('a, 'b, 'c) worker_loop \<Rightarrow> ('a, 'b, 'c) loop_result" where
  "relay_all ops mb [] L = (Inr (), L)"
| "relay_all ops mb (s # ss) L = (case relay_reverse ops L s mb of (Inl e, L1) \<Rightarrow> (Inl e, L1) | (Inr _, L1) \<Rightarrow> relay_all ops mb ss L1)"

definition take_completed_entry_output ::
  "('a, 'b, 'c) worker_loop \<Rightarrow> nat \<Rightarrow> (run_error + string \<times> 'a) \<times> ('a, 'b, 'c) worker_loop" where
  "take_completed_entry_output L mb =
     (let w = workers L ! 0 in
      case hm_get (completed_entry_stage w) mb of
        None \<Rightarrow> (Inl (NoFlushedOutput mb), L)
      | Some out \<Rightarrow> (Inr out, set_worker L 0 (w\<lparr>completed_entry_stage := hm_remove mb (completed_entry_stage w)\<rparr>)))"

section \<open>The loop\<close>

definition flush_micro_batch ::
  "('a, 'b) wire_ops \<Rightarrow> ('a, 'b, 'c) worker_loop \<Rightarrow> nat \<Rightarrow> (run_error + string \<times> 'a) \<times> ('a, 'b, 'c) worker_loop" where
  "flush_micro_batch ops L mb =
     (let last_stage = length (workers L) - 1 in
      if workers L = [] then (Inl WorkerIndexPanic, L)
      else case begin_reverse_flush L last_stage mb of
        (Inl e, L1) \<Rightarrow> (Inl e, L1)
      | (Inr _, L1) \<Rightarrow>
          (case relay_all ops mb (rev [0..<last_stage]) L1 of
             (Inl e, L2) \<Rightarrow> (Inl e, L2)
           | (Inr _, L2) \<Rightarrow> take_completed_entry_output L2 mb))"

fun run_action ::
  "('a, 'b) wire_ops \<Rightarrow> (nat, 'a worker_input) hmap \<Rightarrow> schedule_action \<Rightarrow> ('a, 'b, 'c) worker_loop \<Rightarrow> (string \<times> 'a) list
   \<Rightarrow> (run_error + (string \<times> 'a) list) \<times> ('a, 'b, 'c) worker_loop" where
  "run_action ops inputs (Forward s mb) L outs =
     (if s = 0 \<and> hm_get inputs mb = None then (Inl (MissingInput mb), L)
      else if length (workers L) \<le> s then (Inl WorkerIndexPanic, L)
      else case worker_forward ops L s mb (if s = 0 then hm_get inputs mb else None) of
             (Inl e, L1) \<Rightarrow> (Inl e, L1)
           | (Inr _, L1) \<Rightarrow> (Inr outs, L1))"
| "run_action ops inputs (Receive s mb) L outs =
     (if length (workers L) \<le> s then (Inl WorkerIndexPanic, L)
      else case receive_forward ops L s mb of (Inl e, L1) \<Rightarrow> (Inl e, L1) | (Inr _, L1) \<Rightarrow> (Inr outs, L1))"
| "run_action ops inputs (Flush mb) L outs =
     (case flush_micro_batch ops L mb of (Inl e, L1) \<Rightarrow> (Inl e, L1) | (Inr out, L1) \<Rightarrow> (Inr (outs @ [out]), L1))"
| "run_action ops inputs _ L outs = (Inr outs, L)"

partial_function (option) run_loop ::
  "('a, 'b) wire_ops \<Rightarrow> (nat, 'a worker_input) hmap \<Rightarrow> gpipe_schedule \<Rightarrow> ('a, 'b, 'c) worker_loop \<Rightarrow> (string \<times> 'a) list
   \<Rightarrow> ((run_error + (string \<times> 'a) list) \<times> ('a, 'b, 'c) worker_loop) option" where
  "run_loop ops inputs g L outs =
     (let (a, g1) = next_action g in
      if a = Done then Some (Inr outs, L)
      else case run_action ops inputs a L outs of
             (Inl e, L1) \<Rightarrow> Some (Inl e, L1)
           | (Inr outs1, L1) \<Rightarrow> run_loop ops inputs (notify a g1) L1 outs1)"

definition input_by_mb :: "'a worker_input list \<Rightarrow> (nat, 'a worker_input) hmap" where
  "input_by_mb inputs = foldl (\<lambda>h (i, x). hm_insert (as_u32 i) x h) [] (List.enumerate 0 inputs)"

definition run_to_completion ::
  "('a, 'b) wire_ops \<Rightarrow> ('a, 'b, 'c) worker_loop \<Rightarrow> 'a worker_input list
   \<Rightarrow> ((run_error + (string \<times> 'a) list) \<times> ('a, 'b, 'c) worker_loop) option" where
  "run_to_completion ops L inputs =
     (if inputs = [] then Some (Inl NoInputs, L)
      else case gpipe_new (loop_config L) (as_u32 (length inputs)) of
        Inl _ \<Rightarrow> Some (Inl NoInputs, L)
      | Inr g \<Rightarrow>
          (case run_loop ops (input_by_mb inputs) g L [] of
             None \<Rightarrow> None
           | Some (Inl e, L1) \<Rightarrow> Some (Inl e, L1)
           | Some (Inr outs, L1) \<Rightarrow>
               Some (if length outs \<noteq> length (input_by_mb inputs)
                     then Inl (OutputCount (length outs) (length (input_by_mb inputs))) else Inr outs, L1)))"

end
