(* ===== verification/Pipeline_Run.thy ===== *)
theory Pipeline_Run
  imports Stage_Worker
begin

text \<open>
  What a run of the in-process pipeline computes. The schedule emits the actions in waves, one stage after the other, so a run is the
  list of these waves executed in order, and a wave passes all micro-batches through one stage.
\<close>

section \<open>A run executes the waves\<close>

fun run_actions ::
  "('a, 'b) wire_ops \<Rightarrow> (nat, 'a worker_input) hmap \<Rightarrow> schedule_action list \<Rightarrow> ('a, 'b, 'c) worker_loop \<Rightarrow> (string \<times> 'a) list
   \<Rightarrow> (run_error + (string \<times> 'a) list) \<times> ('a, 'b, 'c) worker_loop" where
  "run_actions ops inputs [] L outs = (Inr outs, L)"
| "run_actions ops inputs (a # as) L outs =
     (case run_action ops inputs a L outs of (Inl e, L1) \<Rightarrow> (Inl e, L1) | (Inr outs1, L1) \<Rightarrow> run_actions ops inputs as L1 outs1)"

lemma run_actions_append:
  "run_actions ops inputs (as @ bs) L outs =
     (case run_actions ops inputs as L outs of (Inl e, L1) \<Rightarrow> (Inl e, L1) | (Inr outs1, L1) \<Rightarrow> run_actions ops inputs bs L1 outs1)"
  by (induction "as" arbitrary: L outs) (auto split: prod.split sum.split)

definition run_result ::
  "(run_error + (string \<times> 'a) list) \<times> ('a, 'b, 'c) worker_loop
   \<Rightarrow> ((string \<times> 'a) list \<Rightarrow> ('a, 'b, 'c) worker_loop \<Rightarrow> ((run_error + (string \<times> 'a) list) \<times> ('a, 'b, 'c) worker_loop) option)
   \<Rightarrow> ((run_error + (string \<times> 'a) list) \<times> ('a, 'b, 'c) worker_loop) option" where
  "run_result r k = (case r of (Inl e, L1) \<Rightarrow> Some (Inl e, L1) | (Inr outs1, L1) \<Rightarrow> k outs1 L1)"

lemma run_loop_actions:
  assumes "pending n k (as @ q) fl g" "\<forall>a \<in> set as. in_bounds n k a"
  shows "\<exists>g' fl'. pending n k (q @ concat (map (successors n) as)) fl' g' \<and> set fl' = set fl \<union> set (concat (map flushes as))
    \<and> run_loop ops inputs g L outs = run_result (run_actions ops inputs as L outs) (\<lambda>outs1 L1. run_loop ops inputs g' L1 outs1)"
  using assms
proof (induction "as" arbitrary: q fl g L outs)
  case Nil
  then show ?case by (intro exI [of _ g] exI [of _ fl]) (simp add: run_result_def)
next
  case (Cons a "as")
  obtain g1 where g1: "next_action g = (a, g1)" "pending n k ((as @ q) @ successors n a) (flushes a @ fl) (notify a g1)"
    using pending_step [of n k a "as @ q" fl g] Cons.prems by auto
  have "a \<noteq> Done" using Cons.prems(2) by auto
  then have step: "run_loop ops inputs g L outs =
      run_result (run_action ops inputs a L outs) (\<lambda>outs1 L1. run_loop ops inputs (notify a g1) L1 outs1)"
    by (subst run_loop.simps) (simp add: g1(1) run_result_def)
  have p: "pending n k (as @ (q @ successors n a)) (flushes a @ fl) (notify a g1)" using g1(2) by simp
  have bounds: "\<forall>a \<in> set as. in_bounds n k a" using Cons.prems(2) by simp
  obtain g' fl' where g': "pending n k (q @ concat (map (successors n) (a # as))) fl' g'"
    "set fl' = set fl \<union> set (concat (map flushes (a # as)))"
    using Cons.IH [OF p bounds, of L outs] by (auto simp: Un_ac)
  show ?case
  proof (cases "run_action ops inputs a L outs")
    case (Pair r L1)
    show ?thesis
    proof (cases r)
      case (Inl e)
      then show ?thesis using step g' Pair by (intro exI [of _ g'] exI [of _ fl']) (simp add: run_result_def)
    next
      case (Inr outs1)
      obtain g2 fl2 where "pending n k ((q @ successors n a) @ concat (map (successors n) as)) fl2 g2"
        "set fl2 = set (flushes a @ fl) \<union> set (concat (map flushes as))"
        "run_loop ops inputs (notify a g1) L1 outs1 =
          run_result (run_actions ops inputs as L1 outs1) (\<lambda>outs1 L1. run_loop ops inputs g2 L1 outs1)"
        using Cons.IH [OF p bounds, of L1 outs1] by blast
      then show ?thesis using step Pair Inr by (intro exI [of _ g2] exI [of _ fl2]) (auto simp: run_result_def)
    qed
  qed
qed

lemma run_loop_waves:
  fixes L :: "('a, 'b, 'c) worker_loop"
  assumes "pending n k (wave s [0..<k]) [] g" "s < n"
  shows "run_loop ops inputs g L outs = Some (run_actions ops inputs (waves n [s..<n] [0..<k]) L outs)"
  using assms
proof (induction "n - s" arbitrary: s g L outs)
  case 0
  then show ?case by simp
next
  case (Suc d)
  have "set (wave s [0..<k]) \<subseteq> set (waves n [s] [0..<k])" by (simp add: waves_def)
  then have "\<forall>a \<in> set (wave s [0..<k]). in_bounds n k a" using waves_in_bounds [of _ n "[s]" k] Suc.prems(2) by auto
  moreover have "pending n k (wave s [0..<k] @ []) [] g" using Suc.prems(1) by simp
  ultimately obtain g' fl' where g': "pending n k (concat (map (successors n) (wave s [0..<k]))) fl' g'"
    "set fl' = set (concat (map flushes (wave s [0..<k])))"
    "run_loop ops inputs g L outs = run_result (run_actions ops inputs (wave s [0..<k]) L outs) (\<lambda>outs1 L1. run_loop ops inputs g' L1 outs1)"
    using run_loop_actions [of n k "wave s [0..<k]" "[]" "[]" g ops inputs L outs] by auto
  have none: "fl' = []" using g'(2) by (auto simp: wave_def split: if_splits)
  have upt: "[s..<n] = s # [s + 1..<n]" using Suc.prems(2) by (simp add: upt_conv_Cons)
  show ?case
  proof (cases "s + 1 < n")
    case True
    then have p: "pending n k (wave (s + 1) [0..<k]) [] g'" using g'(1) none by (simp add: successors_wave)
    have "run_loop ops inputs g' L1 outs1 = Some (run_actions ops inputs (waves n [s + 1..<n] [0..<k]) L1 outs1)"
      for L1 :: "('a, 'b, 'c) worker_loop" and outs1
      using Suc.hyps(1) [OF _ p True] Suc.hyps(2) by simp
    then show ?thesis using g'(3) upt by (auto simp: waves_def run_actions_append run_result_def split: prod.split sum.split)
  next
    case False
    then have p: "pending n k (map Flush [0..<k] @ []) [] g'" using g'(1) none by (simp add: successors_wave)
    have fin: "run_loop ops inputs g' L1 outs1 = Some (run_actions ops inputs (map Flush [0..<k]) L1 outs1)"
      for L1 :: "('a, 'b, 'c) worker_loop" and outs1
    proof -
      have succ: "concat (map (successors n \<circ> Flush) [0..<k]) = []" "concat (map (flushes \<circ> Flush) [0..<k]) = [0..<k]"
        by (simp_all add: comp_def)
      obtain g2 fl2 where g2: "pending n k [] fl2 g2" "set fl2 = {0..<k}" "run_loop ops inputs g' L1 outs1 =
          run_result (run_actions ops inputs (map Flush [0..<k]) L1 outs1) (\<lambda>outs1 L1. run_loop ops inputs g2 L1 outs1)"
        using run_loop_actions [OF p, of ops inputs L1 outs1] succ by auto
      obtain g3 where "next_action g2 = (Done, g3)" using pending_done [OF g2(1,2)] by blast
      then have "run_loop ops inputs g2 L2 outs2 = Some (Inr outs2, L2)" for L2 :: "('a, 'b, 'c) worker_loop" and outs2 by (subst run_loop.simps) simp
      then show ?thesis using g2(3) by (auto simp: run_result_def split: prod.split sum.split)
    qed
    have "[s + 1..<n] = []" using False by simp
    then show ?thesis using g'(3) fin upt by (auto simp: waves_def run_actions_append run_result_def split: prod.split sum.split)
  qed
qed

lemma run_loop_new:
  assumes "gpipe_new c k = Inr g" "0 < cfg_stages c"
  shows "run_loop ops inputs g L outs = Some (run_actions ops inputs (waves (cfg_stages c) [0..<cfg_stages c] [0..<k]) L outs)"
proof -
  have g: "g = \<lparr>gp_config = c, num_micro_batches = k, mb_completed_stage = replicate k None, ready_to_flush = [], flushed = [],
      done_sequences = [], action_queue = [], initial_actions_generated = False\<rparr>" using assms(1) by (simp add: gpipe_new_def split: if_splits)
  have "next_action g = next_action (generate_initial_actions g)" by (simp add: g next_action_def generate_initial_actions_def)
  then have "run_loop ops inputs g L outs = run_loop ops inputs (generate_initial_actions g) L outs" by (subst (1 2) run_loop.simps) simp
  also have "pending (cfg_stages c) k (wave 0 [0..<k]) [] (generate_initial_actions g)"
    by (simp add: g pending_def generate_initial_actions_def wave_def)
  note run_loop_waves [OF this assms(2)]
  finally show ?thesis .
qed

section \<open>The state of the loop between two actions\<close>

text \<open>A loop that was built by \<open>loop_new\<close> differs from its initial state only in what the caches, inboxes, result maps and channels hold.\<close>

record ('a, 'b, 'c) contents =
  p_caches :: "nat \<Rightarrow> (string, 'c) hmap"
  p_inbox :: "nat \<Rightarrow> (nat, 'a inbox_entry) hmap"
  p_last :: "nat \<Rightarrow> (nat, 'b activation_message) hmap"
  p_entry :: "nat \<Rightarrow> (nat, string \<times> 'a) hmap"
  p_fwd :: "nat \<Rightarrow> 'b activation_message list"
  p_rev :: "nat \<Rightarrow> 'b activation_message list"

definition link_capacity :: "nat \<Rightarrow> nat" where
  "link_capacity cap = max cap 1"

lemma link_capacity_pos [simp]: "0 < link_capacity cap"
  by (simp add: link_capacity_def)

definition worker_at :: "('a, 'c) stage_executor list \<Rightarrow> ('a, 'b, 'c) contents \<Rightarrow> nat \<Rightarrow> ('a, 'b, 'c) stage_worker" where
  "worker_at exs p s = (worker_new (length exs) s (exs ! s))\<lparr>caches_by_request := p_caches p s, forward_inbox := p_inbox p s,
     completed_last_stage := p_last p s, completed_entry_stage := p_entry p s\<rparr>"

definition pipe :: "pipeline_config \<Rightarrow> ('a, 'c) stage_executor list \<Rightarrow> nat \<Rightarrow> ('a, 'b, 'c) contents \<Rightarrow> ('a, 'b, 'c) worker_loop" where
  "pipe c exs cap p = \<lparr>loop_config = c, workers = map (worker_at exs p) [0..<length exs],
     fwd_links = map (\<lambda>l. \<lparr>ch_capacity = link_capacity cap, ch_queue = p_fwd p l\<rparr>) [0..<length exs - 1],
     rev_links = map (\<lambda>l. \<lparr>ch_capacity = link_capacity cap, ch_queue = p_rev p l\<rparr>) [0..<length exs - 1]\<rparr>"

definition idle_contents :: "(nat \<Rightarrow> (string, 'c) hmap) \<Rightarrow> ('a, 'b, 'c) contents" where
  "idle_contents cs = \<lparr>p_caches = cs, p_inbox = (\<lambda>_. []), p_last = (\<lambda>_. []), p_entry = (\<lambda>_. []), p_fwd = (\<lambda>_. []), p_rev = (\<lambda>_. [])\<rparr>"

lemma loop_new_idle:
  assumes "loop_new c exs cap = Inr L"
  shows "L = pipe c exs cap (idle_contents (\<lambda>_. []))"
proof -
  have "map (\<lambda>(s, ex). worker_new (length exs) s ex) (List.enumerate 0 exs) = map (worker_at exs (idle_contents (\<lambda>_. []))) [0..<length exs]"
    by (rule nth_equalityI) (simp_all add: nth_enumerate_eq worker_at_def worker_new_def idle_contents_def)
  then show ?thesis using assms
    by (auto simp: loop_new_def pipe_def idle_contents_def activation_channel_def link_capacity_def map_replicate_const split: if_splits)
qed

lemma contents_commute: "p\<lparr>p_fwd := f, p_caches := g\<rparr> = p\<lparr>p_caches := g, p_fwd := f\<rparr>"
  by (cases p) simp

lemma map_upt_update: "(map f [0..<n])[i := x] = map (f(i := x)) [0..<n]"
  by (rule nth_equalityI) (auto simp: nth_list_update)

lemma pipe_select [simp]:
  "s < length exs \<Longrightarrow> workers (pipe c exs cap p) ! s = worker_at exs p s"
  "length (workers (pipe c exs cap p)) = length exs"
  "workers (pipe c exs cap p) = [] \<longleftrightarrow> exs = []"
  "loop_config (pipe c exs cap p) = c"
  "l < length exs - 1 \<Longrightarrow> fwd_links (pipe c exs cap p) ! l = \<lparr>ch_capacity = link_capacity cap, ch_queue = p_fwd p l\<rparr>"
  "l < length exs - 1 \<Longrightarrow> rev_links (pipe c exs cap p) ! l = \<lparr>ch_capacity = link_capacity cap, ch_queue = p_rev p l\<rparr>"
  by (simp_all add: pipe_def)

lemma worker_at_select [simp]:
  "w_stage (worker_at exs p s) = s" "w_num_stages (worker_at exs p s) = length exs" "w_executor (worker_at exs p s) = exs ! s"
  "caches_by_request (worker_at exs p s) = p_caches p s" "forward_inbox (worker_at exs p s) = p_inbox p s"
  "completed_last_stage (worker_at exs p s) = p_last p s" "completed_entry_stage (worker_at exs p s) = p_entry p s"
  "incoming_forward (worker_at exs p s) = (if s = 0 then None else Some (s - 1))"
  "outgoing_forward (worker_at exs p s) = (if s + 1 = length exs then None else Some s)"
  "incoming_reverse (worker_at exs p s) = (if s + 1 = length exs then None else Some s)"
  "outgoing_reverse (worker_at exs p s) = (if s = 0 then None else Some (s - 1))"
  by (simp_all add: worker_at_def worker_new_def)

lemma pipe_update [simp]:
  "set_worker (pipe c exs cap p) s ((worker_at exs p s)\<lparr>caches_by_request := x\<rparr>) = pipe c exs cap (p\<lparr>p_caches := (p_caches p)(s := x)\<rparr>)"
  "set_worker (pipe c exs cap p) s ((worker_at exs p s)\<lparr>forward_inbox := y\<rparr>) = pipe c exs cap (p\<lparr>p_inbox := (p_inbox p)(s := y)\<rparr>)"
  "set_worker (pipe c exs cap p) s ((worker_at exs p s)\<lparr>completed_last_stage := z\<rparr>) = pipe c exs cap (p\<lparr>p_last := (p_last p)(s := z)\<rparr>)"
  "set_worker (pipe c exs cap p) s ((worker_at exs p s)\<lparr>completed_entry_stage := v\<rparr>) = pipe c exs cap (p\<lparr>p_entry := (p_entry p)(s := v)\<rparr>)"
  by (simp_all add: set_worker_def pipe_def map_upt_update worker_at_def worker_new_def)

lemma pipe_update_after_link [simp]:
  "set_worker (pipe c exs cap (p\<lparr>p_fwd := f\<rparr>)) s ((worker_at exs p s)\<lparr>forward_inbox := y\<rparr>)
     = pipe c exs cap (p\<lparr>p_fwd := f, p_inbox := (p_inbox p)(s := y)\<rparr>)"
  "set_worker (pipe c exs cap (p\<lparr>p_rev := f\<rparr>)) s ((worker_at exs p s)\<lparr>completed_entry_stage := v\<rparr>)
     = pipe c exs cap (p\<lparr>p_rev := f, p_entry := (p_entry p)(s := v)\<rparr>)"
  by (simp_all add: set_worker_def pipe_def map_upt_update worker_at_def worker_new_def)

lemma pipe_update_links [simp]:
  "(pipe c exs cap p)\<lparr>fwd_links := (fwd_links (pipe c exs cap p))[l := \<lparr>ch_capacity = link_capacity cap, ch_queue = q\<rparr>]\<rparr>
     = pipe c exs cap (p\<lparr>p_fwd := (p_fwd p)(l := q)\<rparr>)"
  "(pipe c exs cap p)\<lparr>rev_links := (rev_links (pipe c exs cap p))[l := \<lparr>ch_capacity = link_capacity cap, ch_queue = q\<rparr>]\<rparr>
     = pipe c exs cap (p\<lparr>p_rev := (p_rev p)(l := q)\<rparr>)"
  by (simp_all add: pipe_def map_upt_update worker_at_def)

lemma pipe_update_two_links [simp]:
  "(pipe c exs cap p)\<lparr>rev_links := (rev_links (pipe c exs cap p))[l := \<lparr>ch_capacity = link_capacity cap, ch_queue = q\<rparr>,
       l2 := \<lparr>ch_capacity = link_capacity cap, ch_queue = q2\<rparr>]\<rparr>
     = pipe c exs cap (p\<lparr>p_rev := (p_rev p)(l := q, l2 := q2)\<rparr>)"
  by (simp add: pipe_def map_upt_update worker_at_def)

end
