(* ===== verification/Pipeline_Correct.thy ===== *)
theory Pipeline_Correct
  imports Pipeline_Run
begin

text \<open>
  A run of the in-process pipeline computes what its stages compute one after the other, if the channels hold all micro-batches; if they do
  not, it fails and every later run fails.
\<close>

section \<open>What the stages compute\<close>

text \<open>An item on its way: the request, the tensor and the attention mask.\<close>

type_synonym 'a item = "string \<times> 'a \<times> 'a option"

fun tensor_of :: "'a stage_output \<Rightarrow> 'a" where
  "tensor_of (HiddenStates x) = x"
| "tensor_of (Logits x) = x"

fun stage_pass ::
  "('a \<Rightarrow> 'a stage_input) \<Rightarrow> ('a, 'c) stage_executor \<Rightarrow> (string, 'c) hmap \<Rightarrow> 'a item list \<Rightarrow> 'a item list \<times> (string, 'c) hmap" where
  "stage_pass inp ex cs [] = ([], cs)"
| "stage_pass inp ex cs ((req, x, m) # its) =
     (let r = execute ex (inp x) (case hm_get cs req of Some c \<Rightarrow> c | None \<Rightarrow> make_caches ex) m;
          ps = stage_pass inp ex (hm_insert req (snd r) cs) its
      in ((req, tensor_of (projr (fst r)), m) # fst ps, snd ps))"

fun passes ::
  "('a, 'c) stage_executor list \<Rightarrow> nat list \<Rightarrow> (nat \<Rightarrow> (string, 'c) hmap) \<Rightarrow> 'a item list \<Rightarrow> 'a item list \<times> (nat \<Rightarrow> (string, 'c) hmap)" where
  "passes exs [] cs its = (its, cs)"
| "passes exs (s # ss) cs its =
     (let ps = stage_pass (if s = 0 then TokenIds else HiddenInput) (exs ! s) (cs s) its in passes exs ss (cs(s := snd ps)) (fst ps))"

lemma length_stage_pass [simp]: "length (fst (stage_pass inp ex cs its)) = length its"
  by (induction inp ex cs its rule: stage_pass.induct) (simp_all add: Let_def)

lemma length_passes [simp]: "length (fst (passes exs ss cs its)) = length its"
  by (induction ss arbitrary: cs its) (simp_all add: Let_def del: fun_upd_apply)

text \<open>The contracts of the codec and of the executors: tensors survive the wire, and every stage but the last yields hidden states.\<close>

definition wire_ok :: "('a, 'b) wire_ops \<Rightarrow> bool" where
  "wire_ok ops \<longleftrightarrow> (\<forall>x. \<exists>d sl. serialize_mlx_array ops x = Inr d \<and> deserialize_wire_tensor ops d = Inr x \<and> sequence_length ops x = Inr sl)"

definition executors_ok :: "('a, 'c) stage_executor list \<Rightarrow> bool" where
  "executors_ok exs \<longleftrightarrow> (\<forall>s < length exs. \<forall>inp c m. \<exists>y c1.
     execute (exs ! s) inp c m = (Inr (if Suc s = length exs then Logits y else HiddenStates y), c1))"

definition fmsg :: "('a, 'b) wire_ops \<Rightarrow> nat \<Rightarrow> nat \<Rightarrow> nat \<Rightarrow> 'a item \<Rightarrow> 'b activation_message" where
  "fmsg ops n s mb it = (case it of (req, x, m) \<Rightarrow> message_forward req mb s n (projr (serialize_mlx_array ops x))
     (map_option (\<lambda>x. projr (serialize_mlx_array ops x)) m) None (projr (sequence_length ops x)))"

definition rmsg :: "('a, 'b) wire_ops \<Rightarrow> nat \<Rightarrow> nat \<Rightarrow> nat \<Rightarrow> 'a item \<Rightarrow> 'b activation_message" where
  "rmsg ops n s mb it = (case it of (req, x, m) \<Rightarrow> message_reverse req mb s n (projr (serialize_mlx_array ops x)) (projr (sequence_length ops x)))"

lemma wire_okD:
  assumes "wire_ok ops"
  shows "serialize_mlx_array ops x = Inr (projr (serialize_mlx_array ops x))"
    "deserialize_wire_tensor ops (projr (serialize_mlx_array ops x)) = Inr x"
    "sequence_length ops x = Inr (projr (sequence_length ops x))"
    "transpose_option (serialize_mlx_array ops) m = Inr (map_option (\<lambda>x. projr (serialize_mlx_array ops x)) m)"
    "transpose_option (deserialize_wire_tensor ops) (map_option (\<lambda>x. projr (serialize_mlx_array ops x)) m) = Inr m"
proof -
  show one: "serialize_mlx_array ops x = Inr (projr (serialize_mlx_array ops x))"
    "deserialize_wire_tensor ops (projr (serialize_mlx_array ops x)) = Inr x"
    "sequence_length ops x = Inr (projr (sequence_length ops x))" for x
    using assms unfolding wire_ok_def by (metis sum.sel(2))+
  show "transpose_option (serialize_mlx_array ops) m = Inr (map_option (\<lambda>x. projr (serialize_mlx_array ops x)) m)"
  proof (cases m)
    case (Some x)
    obtain d where "serialize_mlx_array ops x = Inr d" using one(1) [of x] by blast
    then show ?thesis using Some by simp
  qed simp
  show "transpose_option (deserialize_wire_tensor ops) (map_option (\<lambda>x. projr (serialize_mlx_array ops x)) m) = Inr m"
    by (cases m) (simp_all add: one(2))
qed

section \<open>One action\<close>

lemma run_executor_pipe:
  assumes "s < length exs"
    and "execute (exs ! s) inp (case hm_get (p_caches p s) req of Some c \<Rightarrow> c | None \<Rightarrow> make_caches (exs ! s)) m = (Inr out, c1)"
  shows "run_executor ops (pipe c exs cap p) s mb req inp m =
    forward_output ops (pipe c exs cap (p\<lparr>p_caches := (p_caches p)(s := hm_insert req c1 (p_caches p s))\<rparr>)) s mb req m out"
  using assms by (simp add: run_executor_def Let_def cong: option.case_cong)

lemma run_executor_hidden:
  assumes wire: "wire_ok ops" and s: "Suc s < length exs" and room: "length (p_fwd p s) < link_capacity cap"
    and ex: "execute (exs ! s) inp (case hm_get (p_caches p s) req of Some c \<Rightarrow> c | None \<Rightarrow> make_caches (exs ! s)) m = (Inr (HiddenStates y), c1)"
  shows "run_executor ops (pipe c exs cap p) s mb req inp m = (Inr (), pipe c exs cap (p\<lparr>p_caches := (p_caches p)(s := hm_insert req c1 (p_caches p s)),
    p_fwd := (p_fwd p)(s := p_fwd p s @ [fmsg ops (length exs) s mb (req, y, m)])\<rparr>))"
proof -
  obtain d where d: "serialize_mlx_array ops y = Inr d" using wire_okD(1) [OF wire] by blast
  obtain sl where sl: "sequence_length ops y = Inr sl" using wire_okD(3) [OF wire] by blast
  have t: "transpose_option (serialize_mlx_array ops) m = Inr (map_option (\<lambda>x. projr (serialize_mlx_array ops x)) m)" by (rule wire_okD(4) [OF wire])
  show ?thesis using s room ex d sl t
    by (simp add: run_executor_pipe forward_output_def try_send_def Let_def fmsg_def)
qed

lemma run_executor_full:
  assumes wire: "wire_ok ops" and s: "Suc s < length exs" and full: "\<not> length (p_fwd p s) < link_capacity cap"
    and ex: "execute (exs ! s) inp (case hm_get (p_caches p s) req of Some c \<Rightarrow> c | None \<Rightarrow> make_caches (exs ! s)) m = (Inr (HiddenStates y), c1)"
  shows "run_executor ops (pipe c exs cap p) s mb req inp m =
    (Inl ChannelFull, pipe c exs cap (p\<lparr>p_caches := (p_caches p)(s := hm_insert req c1 (p_caches p s))\<rparr>))"
proof -
  obtain d where d: "serialize_mlx_array ops y = Inr d" using wire_okD(1) [OF wire] by blast
  obtain sl where sl: "sequence_length ops y = Inr sl" using wire_okD(3) [OF wire] by blast
  have t: "transpose_option (serialize_mlx_array ops) m = Inr (map_option (\<lambda>x. projr (serialize_mlx_array ops x)) m)" by (rule wire_okD(4) [OF wire])
  show ?thesis using s full ex d sl t
    by (simp add: run_executor_pipe forward_output_def try_send_def Let_def)
qed

lemma run_executor_logits:
  assumes wire: "wire_ok ops" and s: "Suc s = length exs"
    and ex: "execute (exs ! s) inp (case hm_get (p_caches p s) req of Some c \<Rightarrow> c | None \<Rightarrow> make_caches (exs ! s)) m = (Inr (Logits y), c1)"
  shows "run_executor ops (pipe c exs cap p) s mb req inp m = (Inr (), pipe c exs cap (p\<lparr>p_caches := (p_caches p)(s := hm_insert req c1 (p_caches p s)),
    p_last := (p_last p)(s := hm_insert mb (rmsg ops (length exs) s mb (req, y, m)) (p_last p s))\<rparr>))"
proof -
  obtain d where d: "serialize_mlx_array ops y = Inr d" using wire_okD(1) [OF wire] by blast
  obtain sl where sl: "sequence_length ops y = Inr sl" using wire_okD(3) [OF wire] by blast
  have "s < length exs" using s by simp
  then show ?thesis using ex d sl by (simp add: run_executor_pipe forward_output_def Let_def rmsg_def s)
qed

lemma receive_then_forward:
  assumes wire: "wire_ok ops" and s: "0 < s" "s < length exs" and q: "p_fwd p (s - 1) = fmsg ops (length exs) s' mb (req, x, m) # q"
    and inbox: "p_inbox p s = []"
  shows "run_actions ops inputs [Receive s mb, Forward s mb] (pipe c exs cap p) outs =
    (case run_executor ops (pipe c exs cap (p\<lparr>p_fwd := (p_fwd p)(s - 1 := q)\<rparr>)) s mb req (HiddenInput x) m of
       (Inl e, L1) \<Rightarrow> (Inl e, L1) | (Inr _, L1) \<Rightarrow> (Inr outs, L1))"
proof -
  let ?p = "p\<lparr>p_fwd := (p_fwd p)(s - 1 := q)\<rparr>"
  let ?i = "\<lparr>ib_request = req, ib_hidden = x, ib_mask = m\<rparr>"
  have l: "s - 1 < length exs - 1" using s by simp
  have "receive_forward ops (pipe c exs cap p) s mb = (Inr (), pipe c exs cap (?p\<lparr>p_inbox := (p_inbox p)(s := [(mb, ?i)])\<rparr>))"
  proof -
    show ?thesis using s l q inbox wire_okD(2,5) [OF wire]
      by (simp add: receive_forward_def try_recv_def fmsg_def message_forward_def Let_def)
  qed
  moreover have "worker_forward ops (pipe c exs cap (?p\<lparr>p_inbox := (p_inbox p)(s := [(mb, ?i)])\<rparr>)) s mb None
      = run_executor ops (pipe c exs cap ?p) s mb req (HiddenInput x) m"
  proof -
    have "?p\<lparr>p_inbox := (p_inbox p)(s := [])\<rparr> = ?p" using inbox by (simp add: fun_upd_idem)
    then show ?thesis using s by (simp add: worker_forward_def Let_def)
  qed
  ultimately show ?thesis using s by (auto split: prod.split sum.split)
qed

section \<open>One wave\<close>

definition input_item :: "'a worker_input \<Rightarrow> 'a item" where
  "input_item r = (in_request r, in_ids r, in_mask r)"

text \<open>The executor of a stage runs on one item.\<close>

lemma executor_hidden:
  assumes "executors_ok exs" "Suc s < length exs"
  obtains y c1 where "execute (exs ! s) inp c m = (Inr (HiddenStates y), c1)"
  using assms(1) [unfolded executors_ok_def, rule_format, of s inp c m] assms(2) by auto

lemma executor_logits:
  assumes "executors_ok exs" "Suc s = length exs"
  obtains y c1 where "execute (exs ! s) inp c m = (Inr (Logits y), c1)"
  using assms(1) [unfolded executors_ok_def, rule_format, of s inp c m] assms(2) by auto

lemma first_wave:
  assumes wire: "wire_ok ops" and exs: "executors_ok exs" "1 < length exs"
    and "list_all2 (\<lambda>mb it. \<exists>r. hm_get inputs mb = Some r \<and> input_item r = it) mbs its"
    and "length (p_fwd p 0) + length mbs \<le> link_capacity cap"
  shows "run_actions ops inputs (wave 0 mbs) (pipe c exs cap p) outs = (Inr outs, pipe c exs cap (p\<lparr>
    p_caches := (p_caches p)(0 := snd (stage_pass TokenIds (exs ! 0) (p_caches p 0) its)),
    p_fwd := (p_fwd p)(0 := p_fwd p 0 @ map2 (fmsg ops (length exs) 0) mbs (fst (stage_pass TokenIds (exs ! 0) (p_caches p 0) its)))\<rparr>))"
  using assms(4,5)
proof (induction arbitrary: p rule: list_all2_induct)
  case Nil
  then show ?case by (simp add: wave_def fun_upd_idem)
next
  case (Cons mb mbs it its)
  obtain r where r: "hm_get inputs mb = Some r" "it = (in_request r, in_ids r, in_mask r)" using Cons.hyps(1) by (auto simp: input_item_def)
  let ?c0 = "case hm_get (p_caches p 0) (in_request r) of Some c \<Rightarrow> c | None \<Rightarrow> make_caches (exs ! 0)"
  obtain y c1 where y: "execute (exs ! 0) (TokenIds (in_ids r)) ?c0 (in_mask r) = (Inr (HiddenStates y), c1)"
    by (rule executor_hidden [OF exs(1), of 0]) (use exs(2) in simp)
  let ?p = "p\<lparr>p_caches := (p_caches p)(0 := hm_insert (in_request r) c1 (p_caches p 0)),
    p_fwd := (p_fwd p)(0 := p_fwd p 0 @ [fmsg ops (length exs) 0 mb (in_request r, y, in_mask r)])\<rparr>"
  have ne: "exs \<noteq> []" using exs(2) by auto
  have "run_executor ops (pipe c exs cap p) 0 mb (in_request r) (TokenIds (in_ids r)) (in_mask r) = (Inr (), pipe c exs cap ?p)"
    by (rule run_executor_hidden [OF wire _ _ y]) (use exs(2) Cons.prems in auto)
  then have "run_action ops inputs (Forward 0 mb) (pipe c exs cap p) outs = (Inr outs, pipe c exs cap ?p)"
    using r(1) ne by (simp add: worker_forward_def Let_def)
  moreover have "length (p_fwd ?p 0) + length mbs \<le> link_capacity cap" using Cons.prems by simp
  ultimately show ?case using Cons.IH [of ?p] y r(2) by (simp add: wave_def Let_def fun_upd_def cong: if_cong)
qed

lemma wave_Cons: "0 < s \<Longrightarrow> wave s (mb # mbs) = [Receive s mb, Forward s mb] @ wave s mbs"
  by (simp add: wave_def)

lemma middle_wave:
  assumes wire: "wire_ok ops" and exs: "executors_ok exs" and s: "0 < s" "Suc s < length exs"
    and "length mbs = length its" "p_fwd p (s - 1) = map2 (fmsg ops (length exs) s') mbs its" "p_inbox p s = []"
    and "length (p_fwd p s) + length mbs \<le> link_capacity cap"
  shows "run_actions ops inputs (wave s mbs) (pipe c exs cap p) outs = (Inr outs, pipe c exs cap (p\<lparr>
    p_caches := (p_caches p)(s := snd (stage_pass HiddenInput (exs ! s) (p_caches p s) its)),
    p_fwd := (p_fwd p)(s - 1 := [], s := p_fwd p s @ map2 (fmsg ops (length exs) s) mbs (fst (stage_pass HiddenInput (exs ! s) (p_caches p s) its)))\<rparr>))"
  using assms(5-)
proof (induction mbs its arbitrary: p rule: list_induct2)
  case Nil
  then have "(p_fwd p)(s - 1 := [], s := p_fwd p s) = p_fwd p" by (auto simp: fun_eq_iff)
  then show ?case using s(1) by (simp add: wave_def del: fun_upd_apply One_nat_def)
next
  case (Cons mb mbs it its)
  obtain req x m where it: "it = (req, x, m)" by (cases it)
  let ?c0 = "case hm_get (p_caches p s) req of Some c \<Rightarrow> c | None \<Rightarrow> make_caches (exs ! s)"
  obtain y c1 where y: "execute (exs ! s) (HiddenInput x) ?c0 m = (Inr (HiddenStates y), c1)" using executor_hidden [OF exs s(2)] by blast
  let ?q = "map2 (fmsg ops (length exs) s') mbs its"
  let ?mid = "p\<lparr>p_fwd := (p_fwd p)(s - 1 := ?q)\<rparr>"
  let ?p = "p\<lparr>p_caches := (p_caches p)(s := hm_insert req c1 (p_caches p s)),
    p_fwd := (p_fwd p)(s - 1 := ?q, s := p_fwd p s @ [fmsg ops (length exs) s mb (req, y, m)])\<rparr>"
  have room: "length (p_fwd ?mid s) < link_capacity cap" using Cons.prems(3) s by simp
  have "execute (exs ! s) (HiddenInput x) (case hm_get (p_caches ?mid s) req of Some c \<Rightarrow> c | None \<Rightarrow> make_caches (exs ! s)) m
      = (Inr (HiddenStates y), c1)" using y by simp
  from run_executor_hidden [OF wire s(2) room this, of c mb]
  have "run_executor ops (pipe c exs cap ?mid) s mb req (HiddenInput x) m = (Inr (), pipe c exs cap ?p)" using s by simp
  then have step: "run_actions ops inputs [Receive s mb, Forward s mb] (pipe c exs cap p) outs = (Inr outs, pipe c exs cap ?p)"
    using receive_then_forward [OF wire s(1) _ _ Cons.prems(2), of exs s' mb req x m ?q] Cons.prems(1) it s(2) by simp
  have "run_actions ops inputs (wave s (mb # mbs)) (pipe c exs cap p) outs = run_actions ops inputs (wave s mbs) (pipe c exs cap ?p) outs"
    by (simp only: wave_Cons [OF s(1)] run_actions_append step prod.case sum.case)
  also have "\<dots> = (Inr outs, pipe c exs cap (?p\<lparr>
    p_caches := (p_caches ?p)(s := snd (stage_pass HiddenInput (exs ! s) (p_caches ?p s) its)),
    p_fwd := (p_fwd ?p)(s - 1 := [], s := p_fwd ?p s @ map2 (fmsg ops (length exs) s) mbs (fst (stage_pass HiddenInput (exs ! s) (p_caches ?p s) its)))\<rparr>))"
    by (rule Cons.IH) (use s Cons.prems in auto)
  finally show ?case using y it s by (simp add: Let_def fun_upd_def cong: if_cong)
qed

lemma hm_insert_absent_append: "k \<notin> fst ` set al \<Longrightarrow> hm_insert k v al = al @ [(k, v)]"
  by (induction al) auto

lemma last_wave:
  assumes wire: "wire_ok ops" and exs: "executors_ok exs" and s: "0 < s" "Suc s = length exs"
    and "length mbs = length its" "p_fwd p (s - 1) = map2 (fmsg ops (length exs) s') mbs its" "p_inbox p s = []"
    and "distinct mbs" "set mbs \<inter> fst ` set (p_last p s) = {}"
  shows "run_actions ops inputs (wave s mbs) (pipe c exs cap p) outs = (Inr outs, pipe c exs cap (p\<lparr>
    p_caches := (p_caches p)(s := snd (stage_pass HiddenInput (exs ! s) (p_caches p s) its)), p_fwd := (p_fwd p)(s - 1 := []),
    p_last := (p_last p)(s := p_last p s @ map2 (\<lambda>mb it. (mb, rmsg ops (length exs) s mb it)) mbs
      (fst (stage_pass HiddenInput (exs ! s) (p_caches p s) its)))\<rparr>))"
  using assms(5-)
proof (induction mbs its arbitrary: p rule: list_induct2)
  case Nil
  then have "(p_fwd p)(s - 1 := []) = p_fwd p" by (auto simp: fun_eq_iff)
  then show ?case using s(1) by (simp add: wave_def del: fun_upd_apply One_nat_def)
next
  case (Cons mb mbs it its)
  obtain req x m where it: "it = (req, x, m)" by (cases it)
  let ?c = "case hm_get (p_caches p s) req of Some c \<Rightarrow> c | None \<Rightarrow> make_caches (exs ! s)"
  obtain y c1 where y: "execute (exs ! s) (HiddenInput x) ?c m = (Inr (Logits y), c1)" using executor_logits [OF exs s(2)] by blast
  let ?q = "map2 (fmsg ops (length exs) s') mbs its"
  let ?mid = "p\<lparr>p_fwd := (p_fwd p)(s - 1 := ?q)\<rparr>"
  let ?p = "p\<lparr>p_caches := (p_caches p)(s := hm_insert req c1 (p_caches p s)), p_fwd := (p_fwd p)(s - 1 := ?q),
    p_last := (p_last p)(s := p_last p s @ [(mb, rmsg ops (length exs) s mb (req, y, m))])\<rparr>"
  have new: "hm_insert mb v (p_last p s) = p_last p s @ [(mb, v)]" for v using Cons.prems(4) by (intro hm_insert_absent_append) simp
  have "execute (exs ! s) (HiddenInput x) (case hm_get (p_caches ?mid s) req of Some c \<Rightarrow> c | None \<Rightarrow> make_caches (exs ! s)) m
      = (Inr (Logits y), c1)" using y by simp
  from run_executor_logits [OF wire s(2) this, of c cap mb]
  have "run_executor ops (pipe c exs cap ?mid) s mb req (HiddenInput x) m = (Inr (), pipe c exs cap ?p)" using new by (simp add: contents_commute)
  then have step: "run_actions ops inputs [Receive s mb, Forward s mb] (pipe c exs cap p) outs = (Inr outs, pipe c exs cap ?p)"
    using receive_then_forward [OF wire s(1) _ _ Cons.prems(2), of exs s' mb req x m ?q] Cons.prems(1) it s(2) by simp
  have "run_actions ops inputs (wave s (mb # mbs)) (pipe c exs cap p) outs = run_actions ops inputs (wave s mbs) (pipe c exs cap ?p) outs"
    by (simp only: wave_Cons [OF s(1)] run_actions_append step prod.case sum.case)
  also have "\<dots> = (Inr outs, pipe c exs cap (?p\<lparr>
    p_caches := (p_caches ?p)(s := snd (stage_pass HiddenInput (exs ! s) (p_caches ?p s) its)), p_fwd := (p_fwd ?p)(s - 1 := []),
    p_last := (p_last ?p)(s := p_last ?p s @ map2 (\<lambda>mb it. (mb, rmsg ops (length exs) s mb it)) mbs
      (fst (stage_pass HiddenInput (exs ! s) (p_caches ?p s) its)))\<rparr>))"
    by (rule Cons.IH) (use s Cons.prems in auto)
  finally show ?case using y it s by (simp add: Let_def fun_upd_def cong: if_cong)
qed

section \<open>The flush\<close>

lemma relay_chain:
  assumes wire: "wire_ok ops" and "Suc j < length exs" "p_rev p = (\<lambda>_. [])(j := [rmsg ops n s mb (req, y, m)])" "p_entry p 0 = []"
  shows "relay_all ops mb (rev [0..<Suc j]) (pipe c exs cap p) =
    (Inr (), pipe c exs cap (p\<lparr>p_rev := (\<lambda>_. []), p_entry := (p_entry p)(0 := [(mb, (req, y))])\<rparr>))"
  using assms(2-)
proof (induction j arbitrary: p)
  case 0
  have "(p_rev p)(0 := []) = (\<lambda>_. [])" "exs \<noteq> []" using "0.prems"(1,2) by auto
  then have "relay_reverse ops (pipe c exs cap p) 0 mb = (Inr (), pipe c exs cap (p\<lparr>p_rev := (\<lambda>_. []), p_entry := (p_entry p)(0 := [(mb, (req, y))])\<rparr>))"
    using 0 wire_okD(2) [OF wire, of y] by (auto simp: relay_reverse_def try_recv_def rmsg_def message_reverse_def Let_def)
  then show ?case by (simp add: fun_upd_def)
next
  case (Suc j)
  let ?msg = "rmsg ops n s mb (req, y, m)"
  let ?p = "p\<lparr>p_rev := (\<lambda>_. [])(j := [?msg])\<rparr>"
  have at: "p_rev p (Suc j) = [?msg]" "p_rev p j = []" using Suc.prems(2) by auto
  have pop: "(p_rev p)(Suc j := [], j := [?msg]) = (\<lambda>_. [])(j := [?msg])" using Suc.prems(2) by auto
  have "is_reverse_path ?msg" "msg_micro_batch ?msg = mb" by (simp_all add: rmsg_def message_reverse_def)
  then have "relay_reverse ops (pipe c exs cap p) (Suc j) mb = (Inr (), pipe c exs cap ?p)"
    using Suc.prems(1) at pop by (simp add: relay_reverse_def try_recv_def try_send_def Let_def)
  moreover have "relay_all ops mb (rev [0..<Suc j]) (pipe c exs cap ?p) =
    (Inr (), pipe c exs cap (?p\<lparr>p_rev := (\<lambda>_. []), p_entry := (p_entry ?p)(0 := [(mb, (req, y))])\<rparr>))"
    by (rule Suc.IH) (use Suc.prems in auto)
  ultimately show ?case by (simp add: fun_upd_def cong: if_cong)
qed

lemma flush_one:
  assumes wire: "wire_ok ops" and n: "Suc s = length exs" "0 < s"
    and last: "p_last p s = (mb, rmsg ops (length exs) s mb (req, y, m)) # rest" "mb \<notin> fst ` set rest"
    and rev: "p_rev p = (\<lambda>_. [])" and entry: "p_entry p 0 = []"
  shows "flush_micro_batch ops (pipe c exs cap p) mb = (Inr (req, y), pipe c exs cap (p\<lparr>p_last := (p_last p)(s := rest)\<rparr>))"
proof -
  let ?p = "p\<lparr>p_last := (p_last p)(s := rest), p_rev := (\<lambda>_. [])(s - 1 := [rmsg ops (length exs) s mb (req, y, m)])\<rparr>"
  have ne: "exs \<noteq> []" "length exs - 1 = s" "length exs - Suc 0 = s" "s < length exs" using n by auto
  have gone: "hm_remove mb rest = rest" using last(2) by (auto simp: hm_get_None_iff intro!: hm_remove_absent)
  have "begin_reverse_flush (pipe c exs cap p) s mb = (Inr (), pipe c exs cap ?p)"
    using n ne last gone rev by (simp add: begin_reverse_flush_def try_send_def Let_def)
  moreover have "relay_all ops mb (rev [0..<Suc (s - 1)]) (pipe c exs cap ?p) =
    (Inr (), pipe c exs cap (?p\<lparr>p_rev := (\<lambda>_. []), p_entry := (p_entry ?p)(0 := [(mb, (req, y))])\<rparr>))"
    by (rule relay_chain [OF wire]) (use n entry in auto)
  ultimately have "flush_micro_batch ops (pipe c exs cap p) mb =
      take_completed_entry_output (pipe c exs cap (?p\<lparr>p_rev := (\<lambda>_. []), p_entry := (p_entry ?p)(0 := [(mb, (req, y))])\<rparr>)) mb"
    using n(2) ne by (simp add: flush_micro_batch_def Let_def)
  also have "\<dots> = (Inr (req, y), pipe c exs cap (p\<lparr>p_last := (p_last p)(s := rest)\<rparr>))"
  proof -
    have "p\<lparr>p_last := (p_last p)(s := rest), p_rev := (\<lambda>_. []), p_entry := (p_entry p)(0 := [])\<rparr> = p\<lparr>p_last := (p_last p)(s := rest)\<rparr>"
      using rev entry by (simp add: fun_upd_idem)
    then show ?thesis using ne by (simp add: take_completed_entry_output_def Let_def)
  qed
  finally show ?thesis .
qed

lemma flush_all:
  assumes wire: "wire_ok ops" and n: "Suc s = length exs" "0 < s"
    and "length mbs = length its" "distinct mbs" "p_last p s = map2 (\<lambda>mb it. (mb, rmsg ops (length exs) s mb it)) mbs its"
    and "p_rev p = (\<lambda>_. [])" "p_entry p 0 = []"
  shows "run_actions ops inputs (map Flush mbs) (pipe c exs cap p) outs =
    (Inr (outs @ map (\<lambda>(req, y, m). (req, y)) its), pipe c exs cap (p\<lparr>p_last := (p_last p)(s := [])\<rparr>))"
  using assms(4-)
proof (induction mbs its arbitrary: p outs rule: list_induct2)
  case Nil
  then show ?case by (simp add: fun_upd_idem)
next
  case (Cons mb mbs it its)
  obtain req y m where it: "it = (req, y, m)" by (cases it)
  let ?rest = "map2 (\<lambda>mb it. (mb, rmsg ops (length exs) s mb it)) mbs its"
  have new: "mb \<notin> fst ` set ?rest" using Cons.prems(1) by (auto dest: set_zip_leftD)
  have "flush_micro_batch ops (pipe c exs cap p) mb = (Inr (req, y), pipe c exs cap (p\<lparr>p_last := (p_last p)(s := ?rest)\<rparr>))"
    by (rule flush_one [OF wire n _ new Cons.prems(3,4)]) (use Cons.prems(2) it in simp)
  moreover have "run_actions ops inputs (map Flush mbs) (pipe c exs cap (p\<lparr>p_last := (p_last p)(s := ?rest)\<rparr>)) (outs @ [(req, y)]) =
    (Inr ((outs @ [(req, y)]) @ map (\<lambda>(req, y, m). (req, y)) its),
     pipe c exs cap ((p\<lparr>p_last := (p_last p)(s := ?rest)\<rparr>)\<lparr>p_last := (p_last (p\<lparr>p_last := (p_last p)(s := ?rest)\<rparr>))(s := [])\<rparr>))"
    by (rule Cons.IH) (use Cons.prems in auto)
  ultimately show ?case using it by (simp add: fun_upd_def cong: if_cong)
qed

section \<open>A whole run\<close>

definition loaded :: "(nat \<Rightarrow> (string, 'c) hmap) \<Rightarrow> nat \<Rightarrow> 'b activation_message list \<Rightarrow> ('a, 'b, 'c) contents" where
  "loaded cs s q = (idle_contents cs)\<lparr>p_fwd := (\<lambda>_. [])(s := q)\<rparr>"

lemma middle_waves:
  assumes wire: "wire_ok ops" and exs: "executors_ok exs" and "0 < s" "s < length exs"
    and len: "length mbs = length its" and room: "length mbs \<le> link_capacity cap"
  shows "run_actions ops inputs (concat (map (\<lambda>s. wave s mbs) [s..<length exs - 1]))
      (pipe c exs cap (loaded cs (s - 1) (map2 (fmsg ops (length exs) (s - 1)) mbs its))) outs =
    (Inr outs, pipe c exs cap (loaded (snd (passes exs [s..<length exs - 1] cs its)) (length exs - 2)
       (map2 (fmsg ops (length exs) (length exs - 2)) mbs (fst (passes exs [s..<length exs - 1] cs its)))))"
  using assms(3,4) len
proof (induction "length exs - s" arbitrary: s cs its)
  case 0
  then show ?case by simp
next
  case (Suc d)
  show ?case
  proof (cases "Suc s < length exs")
    case False
    then have "s = length exs - 1" "s - 1 = length exs - 2" using Suc.prems by auto
    then show ?thesis by simp
  next
    case True
    let ?p = "loaded cs (s - 1) (map2 (fmsg ops (length exs) (s - 1)) mbs its) :: ('a, 'b, 'c) contents"
    let ?ps = "stage_pass HiddenInput (exs ! s) (cs s) its"
    have upt: "[s..<length exs - 1] = s # [Suc s..<length exs - 1]" using True by (simp add: upt_conv_Cons)
    have w: "run_actions ops inputs (wave s mbs) (pipe c exs cap ?p) outs = (Inr outs, pipe c exs cap (?p\<lparr>
      p_caches := (p_caches ?p)(s := snd (stage_pass HiddenInput (exs ! s) (p_caches ?p s) its)),
      p_fwd := (p_fwd ?p)(s - 1 := [], s := p_fwd ?p s @ map2 (fmsg ops (length exs) s) mbs (fst (stage_pass HiddenInput (exs ! s) (p_caches ?p s) its)))\<rparr>))"
      by (rule middle_wave [OF wire exs Suc.prems(1) True Suc.prems(3)]) (use Suc.prems room in \<open>auto simp: loaded_def idle_contents_def\<close>)
    have p: "?p\<lparr>p_caches := (p_caches ?p)(s := snd (stage_pass HiddenInput (exs ! s) (p_caches ?p s) its)),
      p_fwd := (p_fwd ?p)(s - 1 := [], s := p_fwd ?p s @ map2 (fmsg ops (length exs) s) mbs (fst (stage_pass HiddenInput (exs ! s) (p_caches ?p s) its)))\<rparr>
      = loaded (cs(s := snd ?ps)) (Suc s - 1) (map2 (fmsg ops (length exs) (Suc s - 1)) mbs (fst ?ps))"
      using Suc.prems(1) by (auto simp: loaded_def idle_contents_def fun_eq_iff)
    have ih: "run_actions ops inputs (concat (map (\<lambda>s. wave s mbs) [Suc s..<length exs - 1]))
        (pipe c exs cap (loaded (cs(s := snd ?ps)) (Suc s - 1) (map2 (fmsg ops (length exs) (Suc s - 1)) mbs (fst ?ps)))) outs =
      (Inr outs, pipe c exs cap (loaded (snd (passes exs [Suc s..<length exs - 1] (cs(s := snd ?ps)) (fst ?ps))) (length exs - 2)
       (map2 (fmsg ops (length exs) (length exs - 2)) mbs (fst (passes exs [Suc s..<length exs - 1] (cs(s := snd ?ps)) (fst ?ps))))))"
      by (rule Suc.hyps(1)) (use Suc.hyps(2) Suc.prems True in auto)
    have pass: "passes exs [s..<length exs - 1] cs its = passes exs [Suc s..<length exs - 1] (cs(s := snd ?ps)) (fst ?ps)"
      unfolding upt using Suc.prems(1) by (simp add: Let_def del: fun_upd_apply)
    show ?thesis unfolding pass unfolding upt list.map concat.simps run_actions_append w p prod.case sum.case by (rule ih)
  qed
qed

lemma input_by_mb_enumerate:
  assumes "length inputs < 2 ^ 32"
  shows "input_by_mb inputs = List.enumerate 0 inputs"
proof -
  have "foldl (\<lambda>h (i, x). hm_insert (as_u32 i) x h) acc (List.enumerate k xs) = acc @ List.enumerate k xs"
    if "k + length xs < 2 ^ 32" "\<forall>i \<in> fst ` set acc. i < k" for acc k and xs :: "'a worker_input list"
    using that
  proof (induction xs arbitrary: acc k)
    case (Cons x xs)
    have "k < 2 ^ 32" using Cons.prems(1) by simp
    moreover have "k \<notin> fst ` set acc" using Cons.prems(2) by blast
    ultimately have "hm_insert (as_u32 k) x acc = acc @ [(k, x)]" by (simp add: hm_insert_absent_append)
    moreover have "\<forall>i \<in> fst ` set (acc @ [(k, x)]). i < Suc k" using Cons.prems(2) by (auto simp: less_SucI)
    ultimately show ?case using Cons.IH [of "Suc k" "acc @ [(k, x)]"] Cons.prems(1) by simp
  qed simp
  then show ?thesis using assms by (simp add: input_by_mb_def)
qed

lemma inputs_match:
  "list_all2 (\<lambda>mb it. \<exists>r. hm_get (List.enumerate 0 inputs) mb = Some r \<and> input_item r = it) [0..<length inputs] (map input_item inputs)"
proof (rule list_all2_all_nthI)
  fix n assume n: "n < length [0..<length inputs]"
  then have "hm_get (List.enumerate 0 inputs) n = Some (inputs ! n)"
    using map_of_zip_nth [of "[0..<length inputs]" inputs n] by (simp add: enumerate_eq_zip del: map_of_eq_Some_iff)
  then show "\<exists>r. hm_get (List.enumerate 0 inputs) ([0..<length inputs] ! n) = Some r \<and> input_item r = map input_item inputs ! n"
    using n by (intro exI [of _ "inputs ! n"]) simp
qed simp

lemma upt_ends: "2 \<le> n \<Longrightarrow> [0..<n] = (0 # [1..<n - 1]) @ [n - 1]"
  using upt_conv_Cons [of 0 n] upt_Suc_append [of 1 "n - 1"] by simp

lemma waves_split:
  assumes "2 \<le> n"
  shows "waves n [0..<n] mbs = wave 0 mbs @ concat (map (\<lambda>s. wave s mbs) [1..<n - 1]) @ wave (n - 1) mbs @ map Flush mbs"
  by (simp add: waves_def upt_ends [OF assms])

lemma passes_append: "passes exs (ss @ ts) cs its = passes exs ts (snd (passes exs ss cs its)) (fst (passes exs ss cs its))"
  by (induction ss arbitrary: cs its) (simp_all add: Let_def del: fun_upd_apply)

lemma run_waves:
  assumes wire: "wire_ok ops" and exs: "executors_ok exs" and n: "2 \<le> length exs"
    and inputs: "list_all2 (\<lambda>mb it. \<exists>r. hm_get inputs mb = Some r \<and> input_item r = it) mbs its"
    and mbs: "distinct mbs" "length mbs \<le> link_capacity cap"
  shows "run_actions ops inputs (waves (length exs) [0..<length exs] mbs) (pipe c exs cap (idle_contents cs)) [] =
    (Inr (map (\<lambda>(req, y, m). (req, y)) (fst (passes exs [0..<length exs] cs its))),
     pipe c exs cap (idle_contents (snd (passes exs [0..<length exs] cs its))))"
proof -
  let ?n = "length exs"
  let ?ps = "stage_pass TokenIds (exs ! 0) (cs 0) its"
  let ?qs = "passes exs [1..<?n - 1] (cs(0 := snd ?ps)) (fst ?ps)"
  let ?rs = "stage_pass HiddenInput (exs ! (?n - 1)) (snd ?qs (?n - 1)) (fst ?qs)"
  let ?start = "idle_contents cs :: ('a, 'b, 'c) contents"
  let ?q = "loaded (snd ?qs) (?n - 2) (map2 (fmsg ops ?n (?n - 2)) mbs (fst ?qs)) :: ('a, 'b, 'c) contents"
  let ?done = "idle_contents ((snd ?qs)(?n - 1 := snd ?rs)) :: ('a, 'b, 'c) contents"
  have len: "length mbs = length its" using inputs by (rule list_all2_lengthD)
  have one: "1 < ?n" using n by simp
  have "length (p_fwd ?start 0) + length mbs \<le> link_capacity cap" using mbs(2) by (simp add: idle_contents_def)
  from first_wave [OF wire exs one inputs this, of c "[]"]
  have w0: "run_actions ops inputs (wave 0 mbs) (pipe c exs cap ?start) [] =
      (Inr [], pipe c exs cap (loaded (cs(0 := snd ?ps)) (1 - 1) (map2 (fmsg ops ?n (1 - 1)) mbs (fst ?ps))))"
    by (simp add: idle_contents_def loaded_def)
  have w1: "run_actions ops inputs (concat (map (\<lambda>s. wave s mbs) [1..<?n - 1]))
      (pipe c exs cap (loaded (cs(0 := snd ?ps)) (1 - 1) (map2 (fmsg ops ?n (1 - 1)) mbs (fst ?ps)))) [] = (Inr [], pipe c exs cap ?q)"
    by (rule middle_waves [OF wire exs _ one _ mbs(2)]) (simp_all add: len)
  have w2: "run_actions ops inputs (wave (?n - 1) mbs) (pipe c exs cap ?q) [] = (Inr [], pipe c exs cap (?q\<lparr>
      p_caches := (p_caches ?q)(?n - 1 := snd (stage_pass HiddenInput (exs ! (?n - 1)) (p_caches ?q (?n - 1)) (fst ?qs))),
      p_fwd := (p_fwd ?q)(?n - 1 - 1 := []),
      p_last := (p_last ?q)(?n - 1 := p_last ?q (?n - 1) @ map2 (\<lambda>mb it. (mb, rmsg ops ?n (?n - 1) mb it)) mbs
        (fst (stage_pass HiddenInput (exs ! (?n - 1)) (p_caches ?q (?n - 1)) (fst ?qs))))\<rparr>))"
    by (rule last_wave [OF wire exs]) (use n len mbs(1) in \<open>auto simp: loaded_def idle_contents_def numeral_2_eq_2\<close>)
  have q: "?q\<lparr>p_caches := (p_caches ?q)(?n - 1 := snd (stage_pass HiddenInput (exs ! (?n - 1)) (p_caches ?q (?n - 1)) (fst ?qs))),
      p_fwd := (p_fwd ?q)(?n - 1 - 1 := []),
      p_last := (p_last ?q)(?n - 1 := p_last ?q (?n - 1) @ map2 (\<lambda>mb it. (mb, rmsg ops ?n (?n - 1) mb it)) mbs
        (fst (stage_pass HiddenInput (exs ! (?n - 1)) (p_caches ?q (?n - 1)) (fst ?qs))))\<rparr>
    = ?done\<lparr>p_last := (\<lambda>_. [])(?n - 1 := map2 (\<lambda>mb it. (mb, rmsg ops ?n (?n - 1) mb it)) mbs (fst ?rs))\<rparr>" (is "_ = ?fin")
    by (auto simp: loaded_def idle_contents_def fun_eq_iff numeral_2_eq_2)
  have w3: "run_actions ops inputs (map Flush mbs) (pipe c exs cap ?fin) [] =
      (Inr ([] @ map (\<lambda>(req, y, m). (req, y)) (fst ?rs)), pipe c exs cap (?fin\<lparr>p_last := (p_last ?fin)(?n - 1 := [])\<rparr>))"
    by (rule flush_all [OF wire]) (use n len mbs(1) in \<open>auto simp: idle_contents_def\<close>)
  have fin: "?fin\<lparr>p_last := (p_last ?fin)(?n - 1 := [])\<rparr> = ?done" by (auto simp: idle_contents_def fun_eq_iff)
  have "passes exs [0..<?n] cs its = (fst ?rs, (snd ?qs)(?n - 1 := snd ?rs))"
    unfolding upt_ends [OF n] passes_append using n by (simp add: Let_def del: fun_upd_apply)
  then show ?thesis unfolding waves_split [OF n] run_actions_append w0 prod.case sum.case w1 w2 q w3 fin by simp
qed

end
