(* ===== verification/Pipeline_Properties.thy ===== *)
theory Pipeline_Properties
  imports Pipeline_Correct
begin

text \<open>
  The in-process pipeline over its lifetime: built once, then asked to run batches and to release requests in any order.
\<close>

datatype 'a pipeline_call = RunBatch "'a worker_input list" | ReleaseRequest string

text \<open>The results of the runs.\<close>

fun run_calls ::
  "('a, 'b) wire_ops \<Rightarrow> ('a, 'b, 'c) worker_loop \<Rightarrow> 'a pipeline_call list \<Rightarrow> (run_error + (string \<times> 'a) list) list option" where
  "run_calls ops L [] = Some []"
| "run_calls ops L (RunBatch b # cl) =
     (case run_to_completion ops L b of None \<Rightarrow> None | Some (r, L1) \<Rightarrow> map_option (Cons r) (run_calls ops L1 cl))"
| "run_calls ops L (ReleaseRequest req # cl) = run_calls ops (release_request L req) cl"

text \<open>The reference: the stages applied one after the other to the whole batch, each with the caches it keeps for the requests.\<close>

fun serve :: "('a, 'c) stage_executor list \<Rightarrow> (nat \<Rightarrow> (string, 'c) hmap) \<Rightarrow> 'a pipeline_call list \<Rightarrow> (run_error + (string \<times> 'a) list) list" where
  "serve exs cs [] = []"
| "serve exs cs (RunBatch b # cl) =
     (let ps = passes exs [0..<length exs] cs (map input_item b)
      in Inr (map (\<lambda>(req, y, m). (req, y)) (fst ps)) # serve exs (snd ps) cl)"
| "serve exs cs (ReleaseRequest req # cl) = serve exs (\<lambda>s. hm_remove req (cs s)) cl"

lemma run_to_completion_waves:
  assumes "b \<noteq> []" "length b < 2 ^ 32" "0 < cfg_stages c"
  shows "run_to_completion ops (pipe c exs cap p) b =
    (case run_actions ops (List.enumerate 0 b) (waves (cfg_stages c) [0..<cfg_stages c] [0..<length b]) (pipe c exs cap p) [] of
       (Inl e, L1) \<Rightarrow> Some (Inl e, L1)
     | (Inr outs, L1) \<Rightarrow> Some (if length outs \<noteq> length b then Inl (OutputCount (length outs) (length b)) else Inr outs, L1))"
proof -
  obtain g where g: "gpipe_new c (length b) = Inr g" using assms(1) by (simp add: gpipe_new_def)
  have u: "as_u32 (length b) = length b" using assms(2) by simp
  show ?thesis using g assms run_loop_new [OF g assms(3), of ops "List.enumerate 0 b" "pipe c exs cap p" "[]"]
    by (simp add: run_to_completion_def u input_by_mb_enumerate split: prod.split sum.split)
qed

lemma run_exact:
  assumes "wire_ok ops" "executors_ok exs" "2 \<le> length exs" "cfg_stages c = length exs"
    and b: "b \<noteq> []" "length b \<le> max cap 1" "length b < 2 ^ 32"
  shows "run_to_completion ops (pipe c exs cap (idle_contents cs)) b =
    (let ps = passes exs [0..<length exs] cs (map input_item b)
     in Some (Inr (map (\<lambda>(req, y, m). (req, y)) (fst ps)), pipe c exs cap (idle_contents (snd ps))))"
proof -
  have cap: "length [0..<length b] \<le> link_capacity cap" using b(2) by (simp add: link_capacity_def)
  have pos: "0 < cfg_stages c" using assms(3,4) by linarith
  show ?thesis unfolding run_to_completion_waves [OF b(1,3) pos] unfolding assms(4)
    run_waves [OF assms(1-3) inputs_match distinct_upt cap] by (simp add: Let_def)
qed

lemma release_idle:
  "release_request (pipe c exs cap (idle_contents cs)) req = pipe c exs cap (idle_contents (\<lambda>s. hm_remove req (cs s)))"
  by (simp add: release_request_def worker_release_request_def pipe_def worker_at_def worker_new_def idle_contents_def)

text \<open>C37: a pipeline of two or more stages is transparent. Whatever batches are run and requests released after it was built, as long as
  no batch has more micro-batches than a channel holds, every run returns the results, in the order of its inputs, that the stages
  compute when they are applied one after the other, each with its own caches of the requests. Here every stage but the last yields
  hidden states and the last yields logits, and a tensor survives the wire.\<close>

theorem pipeline_runs_exact:
  assumes "loop_new c exs cap = Inr L" "2 \<le> cfg_stages c" "wire_ok ops" "executors_ok exs"
    and "\<forall>b. RunBatch b \<in> set calls \<longrightarrow> b \<noteq> [] \<and> length b \<le> max cap 1 \<and> length b < 2 ^ 32"
  shows "run_calls ops L calls = Some (serve exs (\<lambda>_. []) calls)"
proof -
  have n: "cfg_stages c = length exs" "2 \<le> length exs" using assms(1,2) by (auto simp: loop_new_def split: if_splits)
  have "run_calls ops (pipe c exs cap (idle_contents cs)) calls = Some (serve exs cs calls)" for cs
    using assms(5)
  proof (induction calls arbitrary: cs)
    case (Cons call calls)
    show ?case
    proof (cases call)
      case (RunBatch b)
      then have "b \<noteq> []" "length b \<le> max cap 1" "length b < 2 ^ 32" using Cons.prems by auto
      then show ?thesis using Cons RunBatch run_exact [OF assms(3,4) n(2,1), of b cap cs] by (simp add: Let_def)
    next
      case (ReleaseRequest req)
      then show ?thesis using Cons by (simp add: release_idle)
    qed
  qed simp
  then show ?thesis using loop_new_idle [OF assms(1)] by simp
qed

definition demo_wire :: "(nat, nat) wire_ops" where
  "demo_wire = \<lparr>serialize_mlx_array = Inr, deserialize_wire_tensor = Inr, sequence_length = (\<lambda>_. Inr 1)\<rparr>"

fun input_tensor :: "'a stage_input \<Rightarrow> 'a" where
  "input_tensor (TokenIds x) = x"
| "input_tensor (HiddenInput x) = x"

text \<open>A stage that adds the number of times it has seen the request.\<close>

definition demo_stage :: "bool \<Rightarrow> (nat, nat) stage_executor" where
  "demo_stage final = \<lparr>make_caches = 1, execute = (\<lambda>inp c m.
     (Inr (if final then Logits (10 * input_tensor inp + c) else HiddenStates (input_tensor inp + c)), c + 1))\<rparr>"

definition demo_config :: pipeline_config where
  "demo_config = \<lparr>cfg_stages = 2, micro_batch_size = 1, max_in_flight = 0\<rparr>"

definition demo_input :: "string \<Rightarrow> nat \<Rightarrow> nat worker_input" where
  "demo_input req x = \<lparr>in_request = req, in_ids = x, in_mask = None\<rparr>"

lemma demo_wire_ok: "wire_ok demo_wire"
  by (simp add: wire_ok_def demo_wire_def)

lemma demo_stages_ok: "executors_ok [demo_stage False, demo_stage True]"
  by (auto simp: executors_ok_def demo_stage_def less_Suc_eq)

lemma demo_loop: "\<exists>L. loop_new demo_config [demo_stage False, demo_stage True] 4 = Inr L"
  by (simp add: loop_new_def demo_config_def)

theorem pipeline_runs_exact_witness:
  "\<exists>L. loop_new demo_config [demo_stage False, demo_stage True] 4 = Inr L \<and>
     run_calls demo_wire L [RunBatch [demo_input ''a'' 5, demo_input ''b'' 7], RunBatch [demo_input ''a'' 5], ReleaseRequest ''a'', RunBatch [demo_input ''a'' 5]]
       = Some [Inr [(''a'', 61), (''b'', 81)], Inr [(''a'', 72)], Inr [(''a'', 61)]]"
proof -
  obtain L :: "(nat, nat, nat) worker_loop" where L: "loop_new demo_config [demo_stage False, demo_stage True] 4 = Inr L" using demo_loop by blast
  have "run_calls demo_wire L [RunBatch [demo_input ''a'' 5, demo_input ''b'' 7], RunBatch [demo_input ''a'' 5], ReleaseRequest ''a'', RunBatch [demo_input ''a'' 5]]
      = Some (serve [demo_stage False, demo_stage True] (\<lambda>_. [])
          [RunBatch [demo_input ''a'' 5, demo_input ''b'' 7], RunBatch [demo_input ''a'' 5], ReleaseRequest ''a'', RunBatch [demo_input ''a'' 5]])"
    by (rule pipeline_runs_exact [OF L _ demo_wire_ok demo_stages_ok]) (auto simp: demo_config_def)
  then show ?thesis using L by (simp add: demo_stage_def demo_input_def input_item_def Let_def numeral_2_eq_2)
qed

section \<open>Batches larger than a channel\<close>

lemma forward_full:
  assumes wire: "wire_ok ops" and exs: "executors_ok exs" "1 < length exs"
    and full: "length (p_fwd p 0) = link_capacity cap" and input: "hm_get inputs mb = Some r"
  shows "\<exists>p'. run_actions ops inputs (Forward 0 mb # as) (pipe c exs cap p) outs = (Inl ChannelFull, pipe c exs cap p') \<and> p_fwd p' = p_fwd p"
proof -
  obtain y c1 where y: "execute (exs ! 0) (TokenIds (in_ids r)) (case hm_get (p_caches p 0) (in_request r) of Some c \<Rightarrow> c | None \<Rightarrow> make_caches (exs ! 0))
      (in_mask r) = (Inr (HiddenStates y), c1)"
    by (rule executor_hidden [OF exs(1), of 0]) (use exs(2) in simp)
  have ne: "exs \<noteq> []" using exs(2) by auto
  let ?p = "p\<lparr>p_caches := (p_caches p)(0 := hm_insert (in_request r) c1 (p_caches p 0))\<rparr>"
  have "run_executor ops (pipe c exs cap p) 0 mb (in_request r) (TokenIds (in_ids r)) (in_mask r) = (Inl ChannelFull, pipe c exs cap ?p)"
    by (rule run_executor_full [OF wire _ _ y]) (use exs(2) full in auto)
  then have "run_actions ops inputs (Forward 0 mb # as) (pipe c exs cap p) outs = (Inl ChannelFull, pipe c exs cap ?p)"
    using input ne by (simp add: worker_forward_def Let_def)
  then show ?thesis by (intro exI [of _ ?p]) simp
qed

lemma run_wedged:
  assumes "wire_ok ops" "executors_ok exs" "2 \<le> length exs" "cfg_stages c = length exs" "b \<noteq> []" "length b < 2 ^ 32"
    and room: "length (p_fwd p 0) \<le> link_capacity cap" "link_capacity cap < length (p_fwd p 0) + length b"
  shows "\<exists>p'. run_to_completion ops (pipe c exs cap p) b = Some (Inl ChannelFull, pipe c exs cap p') \<and> length (p_fwd p' 0) = link_capacity cap"
proof -
  let ?k = "link_capacity cap - length (p_fwd p 0)" and ?in = "List.enumerate 0 b"
  have one: "1 < length exs" using assms(3) by simp
  have k: "?k < length b" using room by simp
  have m: "list_all2 (\<lambda>mb it. \<exists>r. hm_get ?in mb = Some r \<and> input_item r = it) [0..<length b] (map input_item b)" by (rule inputs_match)
  have "list_all2 (\<lambda>mb it. \<exists>r. hm_get ?in mb = Some r \<and> input_item r = it) [0..<?k] (take ?k (map input_item b))"
    using list_all2_takeI [OF m, of ?k] k by (simp add: take_upt)
  from first_wave [OF assms(1,2) one this, of p cap c "[]"] room(1) obtain p1 where
    p1: "run_actions ops ?in (wave 0 [0..<?k]) (pipe c exs cap p) [] = (Inr [], pipe c exs cap p1)" "length (p_fwd p1 0) = link_capacity cap"
    using k by auto
  obtain r where r: "hm_get ?in ?k = Some r" using list_all2_nthD [OF m, of ?k] k by auto
  have "[0..<length b] = [0..<?k] @ ?k # [Suc ?k..<length b]" using k upt_add_eq_append [of 0 ?k "length b - ?k"] upt_conv_Cons [of ?k "length b"] by simp
  then have waves: "waves (length exs) [0..<length exs] [0..<length b] = wave 0 [0..<?k] @ Forward 0 ?k #
      (map (Forward 0) [Suc ?k..<length b] @ concat (map (\<lambda>s. wave s [0..<length b]) [1..<length exs - 1])
       @ wave (length exs - 1) [0..<length b] @ map Flush [0..<length b])"
    unfolding waves_split [OF assms(3)] by (simp add: wave_def)
  obtain p2 where p2: "run_actions ops ?in (waves (length exs) [0..<length exs] [0..<length b]) (pipe c exs cap p) [] = (Inl ChannelFull, pipe c exs cap p2)"
    "p_fwd p2 = p_fwd p1"
    using forward_full [OF assms(1,2) one p1(2) r, of "map (Forward 0) [Suc ?k..<length b] @ concat (map (\<lambda>s. wave s [0..<length b]) [1..<length exs - 1])
       @ wave (length exs - 1) [0..<length b] @ map Flush [0..<length b]" c "[]"]
    unfolding waves run_actions_append p1(1) prod.case sum.case by blast
  have pos: "0 < cfg_stages c" using assms(3,4) by linarith
  have "run_to_completion ops (pipe c exs cap p) b = Some (Inl ChannelFull, pipe c exs cap p2)"
    using p2(1) unfolding run_to_completion_waves [OF assms(5,6) pos] assms(4) by simp
  then show ?thesis using p1(2) p2(2) by auto
qed



end
