(* ===== verification/Thinking_Budget.thy ===== *)
theory Thinking_Budget
  imports Batch_Quant
begin

text \<open>
  The cap on reasoning tokens: \<open>src/src/server/thinking_budget.rs\<close>, and \<open>apply_thinking_budget\<close> of \<open>server/batch/scheduler.rs\<close>, which
  decides and records every sampled token. Counters saturate at the largest \<open>u32\<close>; the environment variable and the vocabulary of the
  tokenizer are arguments.
\<close>

section \<open>Budgets\<close>

datatype thinking_budget = ImmediateClose | Limited nat

fun budget_cap :: "thinking_budget \<Rightarrow> nat" where
  "budget_cap ImmediateClose = 0"
| "budget_cap (Limited n) = n"

datatype thinking_budget_error = InvalidNegative int | ExceedsMaxTokens nat nat

definition from_raw_i32 :: "int \<Rightarrow> thinking_budget_error + thinking_budget option" where
  "from_raw_i32 raw =
     (if raw = - 1 then Inr None
      else if raw = 0 then Inr (Some ImmediateClose)
      else if 0 < raw then Inr (Some (Limited (nat raw)))
      else Inl (InvalidNegative raw))"

definition resolve_server_default_reasoning_budget :: "int \<Rightarrow> string option \<Rightarrow> int" where
  "resolve_server_default_reasoning_budget cli env =
     (if cli \<noteq> - 1 then cli
      else case env of None \<Rightarrow> - 1 | Some raw \<Rightarrow> (case parse_i32 (trim_str raw) of Some v \<Rightarrow> v | None \<Rightarrow> - 1))"

definition resolve_request_budget ::
  "int option \<Rightarrow> thinking_budget option \<Rightarrow> nat \<Rightarrow> thinking_budget_error + thinking_budget option" where
  "resolve_request_budget per_request server_default max_tokens =
     (case per_request of
        Some raw \<Rightarrow>
          (case from_raw_i32 raw of
             Inl e \<Rightarrow> Inl e
           | Inr parsed \<Rightarrow>
               (case parsed of
                  Some (Limited n) \<Rightarrow> if max_tokens < n then Inl (ExceedsMaxTokens n max_tokens) else Inr parsed
                | _ \<Rightarrow> Inr parsed))
      | None \<Rightarrow> Inr server_default)"

definition pick_budget_alias :: "int option \<Rightarrow> int option \<Rightarrow> int option \<Rightarrow> int option" where
  "pick_budget_alias a b c = (case a of Some v \<Rightarrow> Some v | None \<Rightarrow> (case b of Some v \<Rightarrow> Some v | None \<Rightarrow> c))"

record thinking_token_ids =
  open_id :: int
  close_id :: int

definition as_i32 :: "nat \<Rightarrow> int" where
  "as_i32 n = (int n + 2 ^ 31) mod 2 ^ 32 - 2 ^ 31"

text \<open>The argument is \<open>token_to_id\<close> of a Hugging Face tokenizer, None for another kind.\<close>

definition resolve_thinking_token_ids :: "(string \<Rightarrow> nat option) option \<Rightarrow> thinking_token_ids option" where
  "resolve_thinking_token_ids hf =
     (case hf of
        None \<Rightarrow> None
      | Some tok \<Rightarrow>
          (case (tok ''<think>'', tok ''</think>'') of
             (Some a, Some b) \<Rightarrow> Some \<lparr>open_id = as_i32 a, close_id = as_i32 b\<rparr>
           | _ \<Rightarrow>
               (case (tok ''<|channel>'', tok ''<channel|>'') of
                  (Some a, Some b) \<Rightarrow> Some \<lparr>open_id = as_i32 a, close_id = as_i32 b\<rparr>
                | _ \<Rightarrow> None)))"

section \<open>The state of a sequence\<close>

datatype thinking_phase = Pending | InBlock | Closed

record thinking_state =
  phase :: thinking_phase
  in_block_count :: nat
  token_ids :: "thinking_token_ids option"
  budget :: "thinking_budget option"
  enter_block_on_start :: bool

definition thinking_new :: "thinking_token_ids option \<Rightarrow> thinking_budget option \<Rightarrow> bool \<Rightarrow> thinking_state" where
  "thinking_new ids b on_start = \<lparr>phase = Pending, in_block_count = 0, token_ids = ids, budget = b, enter_block_on_start = on_start\<rparr>"

definition thinking_disabled :: thinking_state where
  "thinking_disabled = \<lparr>phase = Closed, in_block_count = 0, token_ids = None, budget = None, enter_block_on_start = False\<rparr>"

definition is_disabled :: "thinking_state \<Rightarrow> bool" where
  "is_disabled s \<longleftrightarrow> budget s = None \<or> token_ids s = None"

datatype thinking_decision = NoOverride | ForceClose int

definition decide_override :: "thinking_state \<Rightarrow> int \<Rightarrow> thinking_decision" where
  "decide_override s sampled =
     (case token_ids s of
        None \<Rightarrow> NoOverride
      | Some ids \<Rightarrow>
          (case budget s of
             None \<Rightarrow> NoOverride
           | Some b \<Rightarrow>
               (case phase s of
                  Closed \<Rightarrow> NoOverride
                | Pending \<Rightarrow> if enter_block_on_start s \<and> budget_cap b = 0 then ForceClose (close_id ids) else NoOverride
                | InBlock \<Rightarrow>
                    if sampled = close_id ids then NoOverride
                    else if budget_cap b \<le> in_block_count s then ForceClose (close_id ids) else NoOverride)))"

definition observe :: "thinking_state \<Rightarrow> int \<Rightarrow> thinking_state" where
  "observe s final_token =
     (case token_ids s of
        None \<Rightarrow> s
      | Some ids \<Rightarrow>
          if budget s = None then s
          else (case phase s of
             Closed \<Rightarrow> s
           | Pending \<Rightarrow>
               if enter_block_on_start s
               then (if final_token = close_id ids then s\<lparr>phase := Closed\<rparr> else s\<lparr>phase := InBlock, in_block_count := 1\<rparr>)
               else if final_token = open_id ids then s\<lparr>phase := InBlock, in_block_count := 0\<rparr> else s
           | InBlock \<Rightarrow>
               if final_token = close_id ids then s\<lparr>phase := Closed\<rparr>
               else s\<lparr>in_block_count := min (in_block_count s + 1) (2 ^ 32 - 1)\<rparr>))"

definition apply_thinking_budget :: "thinking_state \<Rightarrow> int \<Rightarrow> int \<times> thinking_state" where
  "apply_thinking_budget s sampled =
     (if is_disabled s then (sampled, s)
      else let final_id = (case decide_override s sampled of NoOverride \<Rightarrow> sampled | ForceClose c \<Rightarrow> c)
           in (final_id, observe s final_id))"

section \<open>What a client receives\<close>

fun run_thinking :: "thinking_state \<Rightarrow> int list \<Rightarrow> int list" where
  "run_thinking s [] = []"
| "run_thinking s (t # ts) = fst (apply_thinking_budget s t) # run_thinking (snd (apply_thinking_budget s t)) ts"

text \<open>At most \<open>n\<close> tokens before the closing one: the token that would exceed the cap is replaced.\<close>

definition limit :: "int \<Rightarrow> nat \<Rightarrow> int list \<Rightarrow> int list" where
  "limit close n ts = (if length (takeWhile (\<lambda>t. t \<noteq> close) ts) \<le> n then ts else ts[n := close])"

lemma run_closed: "phase s = Closed \<Longrightarrow> run_thinking s ts = ts"
  by (induction ts) (auto simp: apply_thinking_budget_def decide_override_def observe_def Let_def split: option.split)

lemma run_disabled: "is_disabled s \<Longrightarrow> run_thinking s ts = ts"
  by (induction ts) (auto simp: apply_thinking_budget_def)

lemma run_in_block:
  assumes "phase s = InBlock" "token_ids s = Some ids" "budget s = Some b" "in_block_count s \<le> budget_cap b" "budget_cap b < 2 ^ 32"
  shows "run_thinking s ts = limit (close_id ids) (budget_cap b - in_block_count s) ts"
  using assms(1-4)
proof (induction ts arbitrary: s)
  case Nil
  then show ?case by (simp add: limit_def)
next
  case (Cons t ts)
  have on: "\<not> is_disabled s" using Cons.prems by (simp add: is_disabled_def)
  consider "t = close_id ids" | "t \<noteq> close_id ids" "in_block_count s = budget_cap b" | "t \<noteq> close_id ids" "in_block_count s < budget_cap b"
    using Cons.prems(4) by linarith
  then show ?case
  proof cases
    case 1
    then have "apply_thinking_budget s t = (t, s\<lparr>phase := Closed\<rparr>)"
      using on Cons.prems by (simp add: apply_thinking_budget_def decide_override_def observe_def Let_def)
    then show ?thesis using 1 by (simp add: run_closed limit_def)
  next
    case 2
    then have "apply_thinking_budget s t = (close_id ids, s\<lparr>phase := Closed\<rparr>)"
      using on Cons.prems by (simp add: apply_thinking_budget_def decide_override_def observe_def Let_def)
    then show ?thesis using 2 by (simp add: run_closed limit_def)
  next
    case 3
    then have "apply_thinking_budget s t = (t, s\<lparr>in_block_count := in_block_count s + 1\<rparr>)"
      using on Cons.prems assms(5) by (simp add: apply_thinking_budget_def decide_override_def observe_def Let_def)
    moreover obtain d where "budget_cap b - in_block_count s = Suc d" "budget_cap b - Suc (in_block_count s) = d"
      using 3(2) by (metis Suc_diff_Suc)
    ultimately show ?thesis using 3 Cons.IH [of "s\<lparr>in_block_count := in_block_count s + 1\<rparr>"] Cons.prems by (simp add: limit_def)
  qed
qed

lemma run_pending_primed:
  assumes "budget_cap b < 2 ^ 32"
  shows "run_thinking (thinking_new (Some ids) (Some b) True) ts = limit (close_id ids) (budget_cap b) ts"
proof (cases ts)
  case (Cons t ts')
  let ?s = "thinking_new (Some ids) (Some b) True"
  consider "t = close_id ids" | "t \<noteq> close_id ids" "budget_cap b = 0" | k where "t \<noteq> close_id ids" "budget_cap b = Suc k" by (cases "budget_cap b") auto
  then show ?thesis
  proof cases
    case 1
    then have "apply_thinking_budget ?s t = (t, ?s\<lparr>phase := Closed\<rparr>)"
      by (simp add: apply_thinking_budget_def is_disabled_def decide_override_def observe_def thinking_new_def Let_def)
    then show ?thesis using 1 Cons by (simp add: run_closed limit_def)
  next
    case 2
    then have "apply_thinking_budget ?s t = (close_id ids, ?s\<lparr>phase := Closed\<rparr>)"
      by (simp add: apply_thinking_budget_def is_disabled_def decide_override_def observe_def thinking_new_def Let_def)
    then show ?thesis using 2 Cons by (simp add: run_closed limit_def)
  next
    case 3
    then have "apply_thinking_budget ?s t = (t, ?s\<lparr>phase := InBlock, in_block_count := 1\<rparr>)"
      by (simp add: apply_thinking_budget_def is_disabled_def decide_override_def observe_def thinking_new_def Let_def)
    then show ?thesis using 3 Cons assms run_in_block [of "?s\<lparr>phase := InBlock, in_block_count := 1\<rparr>" ids b ts']
      by (simp add: thinking_new_def limit_def)
  qed
qed (simp add: limit_def)

lemma run_pending:
  assumes "budget_cap b < 2 ^ 32"
  shows "run_thinking (thinking_new (Some ids) (Some b) False) ts =
    (case dropWhile (\<lambda>t. t \<noteq> open_id ids) ts of
       [] \<Rightarrow> ts
     | _ # body \<Rightarrow> takeWhile (\<lambda>t. t \<noteq> open_id ids) ts @ open_id ids # limit (close_id ids) (budget_cap b) body)"
proof (induction ts)
  case (Cons t ts)
  let ?s = "thinking_new (Some ids) (Some b) False"
  show ?case
  proof (cases "t = open_id ids")
    case True
    then have "apply_thinking_budget ?s t = (t, ?s\<lparr>phase := InBlock, in_block_count := 0\<rparr>)"
      by (simp add: apply_thinking_budget_def is_disabled_def decide_override_def observe_def thinking_new_def Let_def)
    then show ?thesis using True assms run_in_block [of "?s\<lparr>phase := InBlock, in_block_count := 0\<rparr>" ids b ts] by (simp add: thinking_new_def)
  next
    case False
    then have "apply_thinking_budget ?s t = (t, ?s)"
      by (simp add: apply_thinking_budget_def is_disabled_def decide_override_def observe_def thinking_new_def Let_def)
    then show ?thesis using False Cons by (cases "dropWhile (\<lambda>t. t \<noteq> open_id ids) ts") (simp_all del: dropWhile_eq_Nil_conv)
  qed
qed simp

text \<open>C39: a request budget of \<open>n\<close> lets exactly the first \<open>n\<close> tokens of the reasoning block through. If the model has not closed
  the block by then, the next token is replaced by the closing one; every other token of the response, before, inside and after the block,
  reaches the client as it was sampled. The block starts with the response when the template has opened it, and else after the opening
  token. With the budget -1 nothing is replaced.\<close>

theorem thinking_budget_exact:
  assumes "from_raw_i32 raw = Inr b" "raw < 2 ^ 31"
  shows "run_thinking (thinking_new (Some ids) b primed) ts =
    (if raw = - 1 then ts
     else if primed then limit (close_id ids) (nat raw) ts
     else case dropWhile (\<lambda>t. t \<noteq> open_id ids) ts of
       [] \<Rightarrow> ts
     | _ # body \<Rightarrow> takeWhile (\<lambda>t. t \<noteq> open_id ids) ts @ open_id ids # limit (close_id ids) (nat raw) body)"
proof (cases b)
  case None
  then have "raw = - 1" using assms(1) by (auto simp: from_raw_i32_def split: if_splits)
  then show ?thesis using None by (simp add: run_disabled is_disabled_def thinking_new_def)
next
  case (Some x)
  then have "raw \<noteq> - 1" "budget_cap x = nat raw" using assms(1) by (auto simp: from_raw_i32_def split: if_splits)
  moreover have "nat raw < 2 ^ 32" using assms(2) by simp
  ultimately show ?thesis using Some run_pending_primed [of x ids ts] run_pending [of x ids ts] by (cases primed) (simp_all cong: list.case_cong)
qed

theorem thinking_budget_exact_witness:
  "run_thinking (thinking_new (Some \<lparr>open_id = 1, close_id = 2\<rparr>) (Some (Limited 2)) False) [9, 1, 5, 6, 7, 8] = [9, 1, 5, 6, 2, 8]"
proof -
  have "from_raw_i32 2 = Inr (Some (Limited 2))" by (simp add: from_raw_i32_def)
  from thinking_budget_exact [OF this, of "\<lparr>open_id = 1, close_id = 2\<rparr>" False "[9, 1, 5, 6, 7, 8]"]
  show ?thesis by (simp add: limit_def numeral_2_eq_2)
qed

text \<open>The default of the command line cannot be told from an explicit -1, so the environment wins over it.\<close>

lemma explicit_unbounded_cli_loses: "resolve_server_default_reasoning_budget (- 1) (Some ''0'') = 0"
  by code_simp

end
