(* ===== verification/Pack_Three.thy ===== *)
theory Pack_Three
  imports Mlxcel_Prelude "HOL-Library.Word"
begin

unbundle bit_operations_syntax

text \<open>
  The 3-bit packing of quantized values: \<open>src/src/lib/mlxcel-core/src/cache/turbo/pack3.rs\<close>. Eight indices become one little-endian
  24-bit word of three bytes. Bytes are 8-bit words and the accumulator is a 32-bit word, as in the code. A routine that fills a buffer takes
  the length of the buffer and returns its contents; None stands for a failed assertion, or for a head dimension whose threefold
  overflows \<open>i32\<close>.
\<close>

section \<open>Groups\<close>

definition pack_group :: "8 word list \<Rightarrow> 8 word list" where
  "pack_group xs =
     (let w = foldl (\<lambda>w k. w OR push_bit (k * 3) (ucast (xs ! k AND 7))) (0 :: 32 word) [0..<8]
      in [ucast (w AND 255), ucast (drop_bit 8 w AND 255), ucast (drop_bit 16 w AND 255)])"

definition unpack_group :: "8 word list \<Rightarrow> 8 word list" where
  "unpack_group bs =
     (let w = (ucast (bs ! 0) OR push_bit 8 (ucast (bs ! 1)) OR push_bit 16 (ucast (bs ! 2))) :: 32 word
      in map (\<lambda>k. ucast (drop_bit (k * 3) w AND 7)) [0..<8])"

section \<open>Rows and tokens\<close>

definition slice :: "nat \<Rightarrow> 'a list \<Rightarrow> nat \<Rightarrow> 'a list" where
  "slice n xs g = take n (drop (g * n) xs)"

definition pack_3bit_indices :: "8 word list \<Rightarrow> nat \<Rightarrow> 8 word list option" where
  "pack_3bit_indices xs out_len =
     (if length xs mod 8 \<noteq> 0 \<or> out_len \<noteq> length xs div 8 * 3 then None
      else Some (concat (map (\<lambda>g. pack_group (slice 8 xs g)) [0..<length xs div 8])))"

definition unpack_3bit_indices :: "8 word list \<Rightarrow> nat \<Rightarrow> 8 word list option" where
  "unpack_3bit_indices bs out_len =
     (if length bs mod 3 \<noteq> 0 \<or> out_len \<noteq> length bs div 3 * 8 then None
      else Some (concat (map (\<lambda>g. unpack_group (slice 3 bs g)) [0..<length bs div 3])))"

definition packed_bytes_per_token_3bit :: "int \<Rightarrow> int option" where
  "packed_bytes_per_token_3bit head_dim =
     (if 0 < head_dim \<and> head_dim mod 8 = 0 \<and> head_dim * 3 < 2 ^ 31 then Some (head_dim * 3 div 8) else None)"

definition pack_3bit_per_token :: "8 word list \<Rightarrow> int \<Rightarrow> nat \<Rightarrow> 8 word list option" where
  "pack_3bit_per_token xs head_dim total_tokens =
     (case packed_bytes_per_token_3bit head_dim of
        None \<Rightarrow> None
      | Some b \<Rightarrow>
          if length xs \<noteq> total_tokens * nat head_dim then None
          else map_option concat (those (map (\<lambda>tok. pack_3bit_indices (slice (nat head_dim) xs tok) (nat b)) [0..<total_tokens])))"

definition unpack_3bit_per_token :: "8 word list \<Rightarrow> int \<Rightarrow> nat \<Rightarrow> 8 word list option" where
  "unpack_3bit_per_token bs head_dim total_tokens =
     (case packed_bytes_per_token_3bit head_dim of
        None \<Rightarrow> None
      | Some b \<Rightarrow>
          if length bs \<noteq> total_tokens * nat b then None
          else map_option concat (those (map (\<lambda>tok. unpack_3bit_indices (slice (nat b) bs tok) (nat head_dim)) [0..<total_tokens])))"

section \<open>Slices\<close>

lemma length_slice: "length xs = k * n \<Longrightarrow> g < k \<Longrightarrow> length (slice n xs g) = n"
proof -
  assume a: "length xs = k * n" "g < k"
  then have "Suc g * n \<le> k * n" by (intro mult_le_mono1) simp
  then show ?thesis using a by (simp add: slice_def)
qed

lemma concat_slices: "length xs = k * n \<Longrightarrow> concat (map (slice n xs) [0..<k]) = xs"
proof (induction k arbitrary: xs)
  case (Suc k)
  have "map (slice n xs) [0..<Suc k] = take n xs # map (slice n (drop n xs)) [0..<k]"
    by (simp add: slice_def upt_conv_Cons map_Suc_upt [symmetric] del: upt_Suc) (simp add: add.commute)
  then show ?case using Suc.IH [of "drop n xs"] Suc.prems by simp
qed simp

lemma slice_concat: "\<lbrakk>\<forall>x \<in> set ls. length x = n; g < length ls\<rbrakk> \<Longrightarrow> slice n (concat ls) g = ls ! g"
proof (induction ls arbitrary: g)
  case (Cons l ls)
  then show ?case by (cases g) (auto simp: slice_def)
qed simp

lemma length_concat_same: "\<forall>x \<in> set ls. length x = n \<Longrightarrow> length (concat ls) = length ls * n"
  by (induction ls) auto

lemma those_rows: "(\<And>x. x \<in> set xs \<Longrightarrow> f x = Some (h x)) \<Longrightarrow> those (map f xs) = Some (map h xs)"
  by (induction xs) auto

section \<open>Round trips\<close>

lemma length_pack_group [simp]: "length (pack_group xs) = 3"
  by (simp add: pack_group_def Let_def)

lemma length_unpack_group [simp]: "length (unpack_group bs) = 8"
  by (simp add: unpack_group_def Let_def)

lemma bit_7: "bit (7 :: 'a :: len word) n \<longleftrightarrow> n < 3 \<and> n < LENGTH('a)"
proof -
  have eq: "(7 :: 'a word) = mask 3" by (simp add: mask_eq_exp_minus_1)
  show ?thesis unfolding eq by (simp only: bit_mask_iff possible_bit_word) blast
qed

lemma bit_255: "bit (255 :: 'a :: len word) n \<longleftrightarrow> n < 8 \<and> n < LENGTH('a)"
proof -
  have eq: "(255 :: 'a word) = mask 8" by (simp add: mask_eq_exp_minus_1)
  show ?thesis unfolding eq by (simp only: bit_mask_iff possible_bit_word) blast
qed

text \<open>Bit \<open>n\<close> of the accumulator is bit \<open>n mod 3\<close> of index \<open>n div 3\<close>.\<close>

lemma bit_pack_word:
  fixes xs :: "8 word list"
  shows "bit (foldl (\<lambda>w k. w OR push_bit (k * 3) (ucast (xs ! k AND 7))) (0 :: 32 word) [0..<m]) n \<longleftrightarrow>
    n < 3 * m \<and> n < 32 \<and> bit (xs ! (n div 3)) (n mod 3)"
proof (induction m)
  case (Suc m)
  have "n < 32 \<and> 3 * m \<le> n \<and> n - 3 * m < 3 \<and> bit (xs ! m) (n - 3 * m) \<longleftrightarrow>
    n < 32 \<and> 3 * m \<le> n \<and> n < 3 * Suc m \<and> bit (xs ! (n div 3)) (n mod 3)"
  proof (cases "3 * m \<le> n \<and> n < 3 * Suc m")
    case True
    then have "n div 3 = m" by (simp add: div_nat_eqI)
    moreover from this have "n mod 3 = n - 3 * m" by (metis minus_mult_div_eq_mod)
    ultimately show ?thesis using True by auto
  qed auto
  moreover have "bit (push_bit (m * 3) (ucast (xs ! m AND 7) :: 32 word)) n \<longleftrightarrow>
    n < 32 \<and> 3 * m \<le> n \<and> n - 3 * m < 3 \<and> bit (xs ! m) (n - 3 * m)"
    by (auto simp only: bit_push_bit_iff bit_unsigned_iff bit_and_iff bit_7 possible_bit_word mult.commute [of m 3]) auto
  ultimately show ?case using Suc by (simp add: bit_or_iff) auto
qed simp

lemma bit_low_byte: "bit (ucast (ucast (v AND 255) :: 8 word) :: 32 word) n \<longleftrightarrow> n < 8 \<and> bit v n" for v :: "32 word"
  by (simp only: bit_unsigned_iff bit_and_iff bit_255 possible_bit_word) auto

lemma bit_join_bytes:
  fixes w :: "32 word"
  shows "bit (ucast (ucast (w AND 255) :: 8 word) OR push_bit 8 (ucast (ucast (drop_bit 8 w AND 255) :: 8 word)) OR
    push_bit 16 (ucast (ucast (drop_bit 16 w AND 255) :: 8 word)) :: 32 word) n \<longleftrightarrow> n < 24 \<and> bit w n"
proof -
  consider "n < 8" | "8 \<le> n" "n < 16" | "16 \<le> n" "n < 24" | "24 \<le> n" by linarith
  then show ?thesis
    by cases (simp_all only: bit_or_iff bit_push_bit_iff bit_low_byte bit_drop_bit_eq comp_def possible_bit_word, auto)
qed

lemma unpack_pack_group:
  assumes "length xs = 8"
  shows "unpack_group (pack_group xs) = map (\<lambda>x. x AND 7) xs"
proof (rule nth_equalityI)
  fix k assume "k < length (unpack_group (pack_group xs))"
  then have k: "k < 8" by simp
  define w :: "32 word" where "w = foldl (\<lambda>w k. w OR push_bit (k * 3) (ucast (xs ! k AND 7))) 0 [0..<8]"
  have nth: "unpack_group (pack_group xs) ! k =
    ucast (drop_bit (k * 3) (ucast (ucast (w AND 255) :: 8 word) OR push_bit 8 (ucast (ucast (drop_bit 8 w AND 255) :: 8 word)) OR
      push_bit 16 (ucast (ucast (drop_bit 16 w AND 255) :: 8 word)) :: 32 word) AND 7)"
    using k unfolding unpack_group_def pack_group_def Let_def w_def [symmetric] by (simp del: upt_Suc)
  have "unpack_group (pack_group xs) ! k = xs ! k AND 7"
  proof (rule bit_word_eqI)
    fix j
    have "j < 3 \<Longrightarrow> (k * 3 + j) div 3 = k \<and> (k * 3 + j) mod 3 = j \<and> k * 3 + j < 24" using k by simp
    then show "bit (unpack_group (pack_group xs) ! k) j = bit (xs ! k AND 7) j"
      unfolding nth bit_unsigned_iff bit_and_iff bit_drop_bit_eq comp_def bit_join_bytes bit_7 w_def bit_pack_word by auto
  qed
  then show "unpack_group (pack_group xs) ! k = map (\<lambda>x. x AND 7) xs ! k" using k assms by simp
qed (simp add: assms)

lemma pack_row:
  assumes "length xs = k * 8"
  shows "\<exists>bs. pack_3bit_indices xs (k * 3) = Some bs \<and> length bs = k * 3 \<and> unpack_3bit_indices bs (k * 8) = Some (map (\<lambda>x. x AND 7) xs)"
proof -
  let ?gs = "map (\<lambda>g. pack_group (slice 8 xs g)) [0..<k]"
  have len: "length (concat ?gs) = k * 3" using length_concat_same [of ?gs 3] by auto
  have "unpack_group (slice 3 (concat ?gs) g) = map (\<lambda>x. x AND 7) (slice 8 xs g)" if "g < k" for g
    using that slice_concat [of ?gs 3 g] unpack_pack_group [OF length_slice [OF assms that]] by simp
  then have "map (\<lambda>g. unpack_group (slice 3 (concat ?gs) g)) [0..<k] = map (map (\<lambda>x. x AND 7)) (map (slice 8 xs) [0..<k])" by simp
  then have "concat (map (\<lambda>g. unpack_group (slice 3 (concat ?gs) g)) [0..<k]) = map (\<lambda>x. x AND 7) xs"
    by (simp only: map_concat [symmetric] concat_slices [OF assms])
  then show ?thesis using assms len by (simp add: pack_3bit_indices_def unpack_3bit_indices_def)
qed

lemma index_unmasked: "x < 8 \<Longrightarrow> x AND 7 = x" for x :: "8 word"
proof -
  assume "x < 8"
  have "(7 :: 8 word) = mask 3" by (simp add: mask_eq_exp_minus_1)
  then show ?thesis using less_mask_eq [of x 3] \<open>x < 8\<close> by simp
qed

text \<open>C40: for every head dimension the code accepts, packing the indices of any number of tokens succeeds, takes three bytes for eight
  indices, and unpacking gives the indices back, each masked to its low three bits; indices below 8 come back unchanged.\<close>

theorem pack_three_round_trip:
  assumes "0 < head_dim" "head_dim mod 8 = 0" "head_dim * 3 < 2 ^ 31" "length xs = n * nat head_dim"
  shows "\<exists>bs. pack_3bit_per_token xs head_dim n = Some bs \<and> length bs = n * nat (head_dim * 3 div 8) \<and>
    unpack_3bit_per_token bs head_dim n = Some (map (\<lambda>x. x AND 7) xs) \<and>
    ((\<forall>x \<in> set xs. x < 8) \<longrightarrow> unpack_3bit_per_token bs head_dim n = Some xs)"
proof -
  obtain k where k: "nat head_dim = k * 8" "nat (head_dim * 3 div 8) = k * 3"
  proof -
    from assms(1,2) obtain j where "head_dim = j * 8" by (metis mod_0_imp_dvd dvd_def mult.commute)
    then show thesis using assms(1) that [of "nat j"] by (simp add: nat_mult_distrib)
  qed
  have per: "packed_bytes_per_token_3bit head_dim = Some (head_dim * 3 div 8)" using assms by (simp add: packed_bytes_per_token_3bit_def)
  let ?row = "slice (k * 8) xs"
  have len: "length xs = n * (k * 8)" using assms(4) k by simp
  have "\<forall>t. \<exists>bs. t < n \<longrightarrow> pack_3bit_indices (?row t) (k * 3) = Some bs \<and> length bs = k * 3 \<and>
      unpack_3bit_indices bs (k * 8) = Some (map (\<lambda>x. x AND 7) (?row t))"
    using pack_row length_slice [OF len] by blast
  then obtain f where f: "\<And>t. t < n \<Longrightarrow> pack_3bit_indices (?row t) (k * 3) = Some (f t)" "\<And>t. t < n \<Longrightarrow> length (f t) = k * 3"
      "\<And>t. t < n \<Longrightarrow> unpack_3bit_indices (f t) (k * 8) = Some (map (\<lambda>x. x AND 7) (?row t))"
    by metis
  let ?bs = "concat (map f [0..<n])"
  have pack: "pack_3bit_per_token xs head_dim n = Some ?bs"
    using per len k f(1) those_rows [of "[0..<n]" "\<lambda>t. pack_3bit_indices (?row t) (k * 3)" f] by (simp add: pack_3bit_per_token_def)
  have lenb: "length ?bs = n * (k * 3)" using length_concat_same [of "map f [0..<n]" "k * 3"] f(2) by auto
  have "slice (k * 3) ?bs t = f t" if "t < n" for t using slice_concat [of "map f [0..<n]" "k * 3" t] f(2) that by auto
  then have "those (map (\<lambda>t. unpack_3bit_indices (slice (k * 3) ?bs t) (k * 8)) [0..<n]) = Some (map (\<lambda>t. map (\<lambda>x. x AND 7) (?row t)) [0..<n])"
    by (intro those_rows) (simp add: f(3))
  moreover have "concat (map (\<lambda>t. map (\<lambda>x. x AND 7) (?row t)) [0..<n]) = map (\<lambda>x. x AND 7) xs"
    using arg_cong [OF concat_slices [OF len], of "map (\<lambda>x. x AND 7)"] by (simp add: map_concat comp_def)
  ultimately have unpack: "unpack_3bit_per_token ?bs head_dim n = Some (map (\<lambda>x. x AND 7) xs)"
    using per lenb k by (simp add: unpack_3bit_per_token_def)
  have "map (\<lambda>x. x AND 7) xs = xs" if "\<forall>x \<in> set xs. x < 8" using that by (simp add: index_unmasked map_idI)
  then show ?thesis using pack lenb unpack k by simp
qed

theorem pack_three_round_trip_witness:
  "\<exists>bs. pack_3bit_per_token [1, 2, 3, 4, 5, 6, 7, 0] 8 1 = Some bs \<and> length bs = 3 \<and> unpack_3bit_per_token bs 8 1 = Some [1, 2, 3, 4, 5, 6, 7, 0]"
  using pack_three_round_trip [of 8 "[1, 2, 3, 4, 5, 6, 7, 0]" 1] by auto

end
