(* ===== verification/Spec2Isabelle.thy ===== *)
theory Spec2Isabelle
  imports Kv_Trim Pool_Properties Paged_Properties Trie_Properties Store_Properties Batch_Rows Queue_Order Scheduler_Properties Filter_Chunking Mtp_Lossless
    Partition_Properties Partition_Parse Pipeline_Properties Thinking_Budget Pack_Three
begin

text \<open>
  A verification development for \<open>mlxcel\<close>, an inference server for language models on Apple silicon, written in Rust. Paths below are
  relative to \<open>src/src/\<close>; \<open>core/\<close> stands for \<open>lib/mlxcel-core/src/\<close>.

  \<^bold>\<open>How the parts interact.\<close> A request waits in the prefill queue, is prefilled into a slot of the cache pool and then decoded in the
  active batch. Its KV cache lives in reference-counted blocks of the paged pool. When it finishes, the cache is detached from the pool
  and parked in the prompt-cache store, from which a later request with a common prefix adopts it; a trie per bucket finds that entry and
  a chain of block hashes checks it. When blocks run short, the scheduler evicts from the store and preempts decoding requests. Sampled
  tokens pass the reasoning budget and a streaming filter on their way to the client; speculative decoding proposes several of them at a
  time. A model too large for one device is partitioned into stages that a pipeline runs.

  \<^bold>\<open>Conventions.\<close> A struct is a record, an enum a datatype, a fallible operation returns a sum with the error on the left, or None for a
  panic. Mutable state is passed and returned; an operation that fails half way returns what it has changed by then. A \<open>HashMap\<close> is an
  association list with distinct keys, a \<open>VecDeque\<close> a list. Clocks, environment variables and fresh ids are arguments. Unbounded numbers
  stand for \<open>usize\<close> and \<open>u64\<close> counters except where the code wraps, saturates or checks, where this is written out; packing works on
  8-bit and 32-bit words.

  \<^bold>\<open>Theories.\<close>

  \<^item> \<open>Mlxcel_Prelude\<close>: hash maps, ceiling division, result combinators and their lemmas. \<open>Mlx_Ffi\<close>: arrays and the functions of the MLX
    bridge as parameters, with the documented law of slicing.

  \<^item> \<open>Refcount_Spec\<close>: the contract of a reference-counted allocator (locale \<open>refcounted_allocator\<close>). \<open>Paged_Pool\<close> models
    \<open>core/cache/paged.rs\<close> and interprets the contract; \<open>Paged_Sequences\<close>, \<open>Paged_Sidecars\<close> and \<open>Paged_Properties\<close> add block
    tables, Turbo4 sidecars and byte accounting. Shown: the exact outcome of acquiring, appending, trimming, releasing and restoring on
    every branch, with the counters equal to the references held.

  \<^item> \<open>Kv_Cache\<close>, \<open>Kv_Detach\<close>, \<open>Kv_Trim\<close>: \<open>KVCache\<close> of \<open>core/cache.rs\<close> and the detached handles of \<open>core/cache/detach.rs\<close>. Shown:
    trimming keeps a handle valid in every quantisation mode; detaching and installing are inverse.

  \<^item> \<open>Cache_Pool\<close>, \<open>Pool_Handoff\<close>: \<open>CachePool\<close> of \<open>core/cache.rs\<close> and the handoff of \<open>core/cache/{detach,paged_detach}.rs\<close>.
    \<open>Pool_Ownership\<close> (locale \<open>table_operation\<close>, interpreted on append, trim, rewind and sync), \<open>Handoff_Ownership\<close>, \<open>Pool_Reachable\<close>
    (the pool and its callers as a step relation) and \<open>Pool_Properties\<close> show that reference counts are exact in every reachable state,
    that a drained pool is free, and what detach, adopt, clone and release do.

  \<^item> \<open>Radix_Trie\<close>, \<open>Trie_Properties\<close>: \<open>server/prompt_cache/trie.rs\<close> as a refinement of a set of pairs (locale \<open>prefix_index\<close>), with the
    longest-prefix walk equal to a linear scan. \<open>Prompt_Key\<close>, \<open>Block_Hash\<close>: keys and block hashes, the hash functions being parameters.

  \<^item> \<open>Prompt_Store\<close>: \<open>server/prompt_cache/{store,lookup,entry,policy,types,apc_lookup}.rs\<close>. \<open>Store_Invariant\<close> (locale \<open>removal\<close>,
    interpreted on entries and snapshots), \<open>Store_Lookup\<close>, \<open>Store_Runs\<close> and \<open>Store_Properties\<close> show that the tries index exactly the
    entries, that no paged set is lost but by \<open>clear\<close>, that the caps hold and that a lookup returns the best reusable entry.

  \<^item> \<open>Batch_Quant\<close>, \<open>Batch_Rows\<close>: per-layer quantisation plans and batched caches of \<open>core/cache/{batch_quant,turbo/boundary}.rs\<close>.
    \<open>Pack_Three\<close>: the 3-bit packing of \<open>core/cache/turbo/pack3.rs\<close> and its round trip.

  \<^item> \<open>Batch_Queue\<close>, \<open>Queue_Order\<close>: \<open>server/batch/{sequence,queue,active}.rs\<close>; the three lanes refine one waiting line (locale
    \<open>waiting_line\<close>). \<open>Batch_Scheduler\<close>: the operations of \<open>server/batch/scheduler.rs\<close> that move requests between queue, batch, pool and
    store. \<open>Scheduler_Invariant\<close>, \<open>Scheduler_Reclaim\<close>, \<open>Scheduler_Properties\<close> show well-formedness under every interleaving, the
    choice of a preemption victim, and that reclaiming blocks returns.

  \<^item> \<open>Stream_Filter\<close>, \<open>Filter_Chunking\<close>: \<open>server/tool_calls/stream_filter.rs\<close>; its output does not depend on how the text is cut (locale
    \<open>marker_table\<close>). \<open>Thinking_Budget\<close>: \<open>server/thinking_budget.rs\<close>; the budget replaces one token at most, at the exact position.

  \<^item> \<open>Mtp_Decode\<close>, \<open>Mtp_Lossless\<close>: \<open>core/speculative/mtp/\<close>; speculative decoding emits what greedy decoding emits, for every drafter.

  \<^item> \<open>Pipeline_Partition\<close>, \<open>Partition_Optimal\<close>, \<open>Partition_Properties\<close>, \<open>Partition_Parse\<close>: the partitioner of \<open>distributed/pipeline/\<close>;
    plans are sound, the balancer is optimal without adjacency groups, a manual specification is read back as written.
    \<open>Pipeline_Schedule\<close>, \<open>Stage_Worker\<close>, \<open>Pipeline_Run\<close>, \<open>Pipeline_Correct\<close>, \<open>Pipeline_Properties\<close>: \<open>micro_batch.rs\<close>, \<open>schedule.rs\<close>,
    \<open>stage_worker.rs\<close> and the channels of \<open>activation_transfer.rs\<close>; the pipeline computes what its stages compute one after the other,
    as long as a batch fits a channel, and fails for good once one does not.

  \<^bold>\<open>Loops.\<close> Nothing runs on fuel. Loops are structural or have a termination proof. Three may run forever for all the code says, the two
  loops of \<open>reclaim_paged_blocks\<close> and the loop of \<open>run_to_completion\<close>: they are partial functions into option, and the theorems about
  them state that a result is returned.

  \<^bold>\<open>Hypotheses on parameters.\<close> Slicing of MLX arrays has the documented shape; the target of speculative decoding meets the contract of
  its trait; hashes of the blocks compared do not collide; a stage of the pipeline yields hidden states and the last one logits. The
  tensor codec \<open>distributed/pipeline/wire_tensor.rs\<close> is in the sources but converts MLX arrays, so it is a parameter too: a tensor is
  assumed to survive the wire. Its error paths are branches of the stage workers. Each hypothesis has a concrete instance in a witness.

  \<^bold>\<open>Not modelled.\<close> The model families, layers, sampling, vision and audio code, and the tensor contents of \<open>update_and_fetch\<close>, the paged
  writes and the quantisers: they are sequences of MLX calls, and MLX is not part of the sources. HTTP routes, translators, chat
  templates, configuration, command line, downloader, tokenizer and model loading: input and output around third-party libraries. Of the
  scheduler, the forward passes, adoption and donation, coalesced prefill and metrics. The cold store (file system), the remote
  transports, discovery, disaggregated serving and KV transfer of \<open>distributed/\<close> (network and timers), and tensor parallelism. The
  batched speculative round loop. Within these, the shard planner, the request routers and the headers of the wire formats are pure code
  that a further theory could cover. Lock poisoning, logging and the Debug and Display renderings.
\<close>

end
